(* ===== verification/Tq_Prelude.thy ===== *)
theory Tq_Prelude
  imports
    Complex_Main
    "HOL-Library.Char_ord"
    "HOL-Library.List_Lexorder"
    "HOL-Library.Product_Lexorder"
    "HOL-Library.Sublist"
    "HOL-Library.Monad_Syntax"
begin

text \<open>
  Shared vocabulary of the development: Go's clock and durations, fixed-width integers, the
  strings and JSON documents the queue stores, results with an error side, and the generic list
  lemmas the component theories use.

  Conventions.
  \<^item> A \<open>time.Time\<close> is an \<^typ>\<open>int\<close>, nanoseconds since the Unix epoch; a \<open>time.Duration\<close> is an
    \<^typ>\<open>int\<close>, nanoseconds. Additions on times do not overflow in Go (seconds and nanoseconds are
    kept apart), \<open>Sub\<close> saturates, and arithmetic on durations wraps at 64 bits: \<open>wrap64\<close> is
    written out where the code can reach the boundary.
  \<^item> A \<open>string\<close> is a list of bytes.
  \<^item> A fallible operation returns \<open>'e + 'a\<close>, \<open>Inl\<close> being the error.
\<close>

named_theorems tq_simps \<open>definitions that component proofs unfold\<close>
named_theorems tq_inv \<open>preservation of the store invariant by one operation\<close>
named_theorems tq_frame \<open>what an operation leaves unchanged\<close>

section \<open>Clock and durations\<close>

type_synonym go_time = int
type_synonym duration = int

abbreviation millisecond :: duration where "millisecond \<equiv> 1000000"
abbreviation second :: duration where "second \<equiv> 1000000000"
abbreviation minute :: duration where "minute \<equiv> 60000000000"
abbreviation hour :: duration where "hour \<equiv> 3600000000000"

text \<open>\<open>time.Time.UnixMilli\<close> rounds towards the past; \<open>time.UnixMilli\<close> is its right inverse.\<close>

definition unix_milli :: "go_time \<Rightarrow> int" where
  "unix_milli t = t div millisecond"

definition from_milli :: "int \<Rightarrow> go_time" where
  "from_milli ms = ms * millisecond"

lemma unix_milli_from_milli [simp]: "unix_milli (from_milli ms) = ms"
  by (simp add: unix_milli_def from_milli_def)

lemma unix_milli_mono: "a \<le> b \<Longrightarrow> unix_milli a \<le> unix_milli b"
  by (simp add: unix_milli_def zdiv_mono1)

lemma from_milli_unix_milli_le: "from_milli (unix_milli t) \<le> t"
  using pos_mod_sign [of millisecond t] div_mult_mod_eq [of t millisecond]
  by (simp add: unix_milli_def from_milli_def)

text \<open>The zero \<open>time.Time\<close> is midnight of 1 January of the year 1.\<close>

definition zero_time :: go_time where
  "zero_time = - 62135596800 * second"

definition is_zero :: "go_time \<Rightarrow> bool" where
  "is_zero t \<longleftrightarrow> t = zero_time"

section \<open>Machine integers\<close>

abbreviation max_int64 :: int where "max_int64 \<equiv> 9223372036854775807"
abbreviation min_int64 :: int where "min_int64 \<equiv> - 9223372036854775808"

text \<open>Two's complement reduction to 64 bits, and the saturating subtraction of two times.\<close>

definition wrap64 :: "int \<Rightarrow> int" where
  "wrap64 x = (x + 9223372036854775808) mod 18446744073709551616 - 9223372036854775808"

definition int64 :: "int \<Rightarrow> bool" where
  "int64 x \<longleftrightarrow> min_int64 \<le> x \<and> x \<le> max_int64"

definition time_sub :: "go_time \<Rightarrow> go_time \<Rightarrow> duration" where
  "time_sub a b = max min_int64 (min max_int64 (a - b))"

lemma wrap64_id [simp]: "int64 x \<Longrightarrow> wrap64 x = x"
  by (simp add: wrap64_def int64_def)

lemma int64_wrap64 [simp]: "int64 (wrap64 x)"
  by (simp add: wrap64_def int64_def)

lemma time_sub_lt_iff:
  "min_int64 < d \<Longrightarrow> d \<le> max_int64 \<Longrightarrow> time_sub a b < d \<longleftrightarrow> a - b < d"
  by (auto simp: time_sub_def)

text \<open>Integer division of the language truncates towards zero.\<close>

definition quot :: "int \<Rightarrow> int \<Rightarrow> int" where
  "quot a b = sgn a * sgn b * (\<bar>a\<bar> div \<bar>b\<bar>)"

lemma quot_nonneg [simp]: "0 \<le> a \<Longrightarrow> 0 < b \<Longrightarrow> quot a b = a div b"
  by (cases "a = 0") (simp_all add: quot_def sgn_if)

text \<open>\<open>time.Duration.Milliseconds\<close>.\<close>

definition dur_milli :: "duration \<Rightarrow> int" where
  "dur_milli d = quot d millisecond"

section \<open>Strings\<close>

definition ascii_space :: "char \<Rightarrow> bool" where
  "ascii_space c \<longleftrightarrow> c \<in> {CHR '' '', CHR 0x09, CHR 0x0A, CHR 0x0B, CHR 0x0C, CHR 0x0D}"

text \<open>\<open>strings.TrimSpace\<close> on ASCII text.\<close>

definition trim_space :: "string \<Rightarrow> string" where
  "trim_space s = rev (dropWhile ascii_space (rev (dropWhile ascii_space s)))"

definition lower_char :: "char \<Rightarrow> char" where
  "lower_char c = (let n = of_char c :: nat in if 65 \<le> n \<and> n \<le> 90 then char_of (n + 32) else c)"

text \<open>\<open>strings.ToLower\<close> and SQL's \<open>LOWER\<close> on ASCII text.\<close>

definition to_lower :: "string \<Rightarrow> string" where
  "to_lower s = map lower_char s"

text \<open>\<open>strings.Contains s sub\<close>.\<close>

definition str_contains :: "string \<Rightarrow> string \<Rightarrow> bool" where
  "str_contains s sub \<longleftrightarrow> (\<exists>i \<in> set [0..<Suc (length s)]. take (length sub) (drop i s) = sub)"

lemma str_contains_iff: "str_contains s sub \<longleftrightarrow> sublist sub s"
proof
  assume "str_contains s sub"
  then obtain i where "take (length sub) (drop i s) = sub"
    by (auto simp: str_contains_def)
  then have "s = take i s @ sub @ drop (length sub) (drop i s)"
    by (metis append_take_drop_id)
  then show "sublist sub s" unfolding sublist_def by blast
next
  assume "sublist sub s"
  then obtain p q where s: "s = p @ sub @ q" by (auto simp: sublist_def)
  then have "take (length sub) (drop (length p) s) = sub" by simp
  moreover have "length p \<in> set [0..<Suc (length s)]" using s by auto
  ultimately show "str_contains s sub" unfolding str_contains_def by blast
qed

text \<open>\<open>strings.Cut s sep\<close> for a one-byte separator: the parts around the first occurrence.\<close>

fun str_cut :: "char \<Rightarrow> string \<Rightarrow> (string \<times> string) option" where
  "str_cut sep [] = None"
| "str_cut sep (c # cs) =
     (if c = sep then Some ([], cs) else map_option (\<lambda>(a, b). (c # a, b)) (str_cut sep cs))"

lemma str_cut_first: "sep \<notin> set a \<Longrightarrow> str_cut sep (a @ sep # b) = Some (a, b)"
  by (induction a) auto

lemma str_cut_None: "str_cut sep s = None \<longleftrightarrow> sep \<notin> set s"
  by (induction s) auto

lemma str_cut_Some: "str_cut sep s = Some (a, b) \<Longrightarrow> s = a @ sep # b \<and> sep \<notin> set a"
  by (induction s arbitrary: a b) (auto split: if_splits)

section \<open>JSON documents\<close>

text \<open>
  A \<open>jsontext.Value\<close> is a byte string together with what \<open>json.Unmarshal\<close> reads from it: \<open>None\<close>
  where the bytes are not a JSON document. Marshalling prints the document. Numbers are decimal
  fractions; names of an object are kept in order, without repetition.
\<close>

datatype json =
    JNull
  | JBool bool
  | JNum rat
  | JStr string
  | JArr "json list"
  | JObj "(string \<times> json) list"

datatype jtext = JText (jt_text: string) (jt_parse: "json option")

definition digit_char :: "nat \<Rightarrow> char" where
  "digit_char d = char_of (48 + d)"

fun show_nat :: "nat \<Rightarrow> string" where
  "show_nat n = (if n < 10 then [digit_char n] else show_nat (n div 10) @ [digit_char (n mod 10)])"

declare show_nat.simps [simp del]

definition show_int :: "int \<Rightarrow> string" where
  "show_int i = (if i < 0 then CHR ''-'' # show_nat (nat (- i)) else show_nat (nat i))"

text \<open>
  \<open>strconv.Quote\<close>, on text whose non-ASCII part is printable: the quote and the backslash are escaped,
  control characters have their letter or a two-digit code.
\<close>

definition hex_char :: "nat \<Rightarrow> char" where
  "hex_char d = (if d < 10 then char_of (48 + d) else char_of (87 + d))"

definition quote_char :: "char \<Rightarrow> string" where
  "quote_char c =
     (let n = of_char c :: nat in
      if n = 34 \<or> n = 92 then [char_of (92::nat), c]
      else if n = 7 then char_of (92::nat) # ''a'' else if n = 8 then char_of (92::nat) # ''b''
      else if n = 9 then char_of (92::nat) # ''t'' else if n = 10 then char_of (92::nat) # ''n''
      else if n = 11 then char_of (92::nat) # ''v'' else if n = 12 then char_of (92::nat) # ''f''
      else if n = 13 then char_of (92::nat) # ''r''
      else if n < 32 \<or> n = 127 then char_of (92::nat) # ''x'' @ [hex_char (n div 16), hex_char (n mod 16)]
      else [c])"

definition go_quote :: "string \<Rightarrow> string" where
  "go_quote s = CHR 0x22 # concat (map quote_char s) @ [CHR 0x22]"

text \<open>\<open>time.Duration.String\<close>: a decimal fraction without trailing zeros of the unit that fits.\<close>

fun frac_digits :: "nat \<Rightarrow> int \<Rightarrow> string" where
  "frac_digits 0 v = []"
| "frac_digits (Suc k) v =
     (let rest = frac_digits k (v mod 10 ^ k) in
      if rest = [] \<and> v div 10 ^ k = 0 then [] else digit_char (nat (v div 10 ^ k)) # rest)"

definition with_frac :: "nat \<Rightarrow> int \<Rightarrow> string" where
  "with_frac prec v =
     show_int (v div 10 ^ prec) @ (if v mod 10 ^ prec = 0 then [] else CHR ''.'' # frac_digits prec (v mod 10 ^ prec))"

definition dur_string :: "duration \<Rightarrow> string" where
  "dur_string d =
     (let u = \<bar>d\<bar>; sign = (if d < 0 then ''-'' else []) in
      if u = 0 then ''0s''
      else if u < 1000 then sign @ show_int u @ ''ns''
      else if u < millisecond then sign @ with_frac 3 u @ [CHR 0xC2, CHR 0xB5] @ ''s''
      else if u < second then sign @ with_frac 6 u @ ''ms''
      else let m = u div minute; secs = with_frac 9 (u mod minute) @ ''s'' in
        sign @ (if m div 60 = 0 then [] else show_int (m div 60) @ ''h'')
             @ (if m = 0 then [] else show_int (m mod 60) @ ''m'') @ secs)"


text \<open>The decimal digits after the point, twenty at most.\<close>

fun show_frac :: "nat \<Rightarrow> int \<Rightarrow> int \<Rightarrow> string" where
  "show_frac 0 r d = []"
| "show_frac (Suc k) r d =
     (if r = 0 then [] else digit_char (nat (r * 10 div d)) # show_frac k (r * 10 mod d) d)"

definition show_num :: "rat \<Rightarrow> string" where
  "show_num q = (let (n, d) = quotient_of q; a = \<bar>n\<bar> in
     (if n < 0 then ''-'' else []) @ show_int (a div d) @
     (if d = 1 then [] else CHR ''.'' # show_frac 20 (a mod d) d))"

definition escape_char :: "char \<Rightarrow> string" where
  "escape_char c =
     (if c = CHR 0x22 then [CHR 0x5C, CHR 0x22]
      else if c = CHR 0x5C then [CHR 0x5C, CHR 0x5C]
      else if c = CHR 0x0A then [CHR 0x5C, CHR ''n'']
      else if c = CHR 0x0D then [CHR 0x5C, CHR ''r'']
      else if c = CHR 0x09 then [CHR 0x5C, CHR ''t'']
      else if c = CHR 0x08 then [CHR 0x5C, CHR ''b'']
      else if c = CHR 0x0C then [CHR 0x5C, CHR ''f'']
      else if of_char c < (32::nat)
        then CHR 0x5C # ''u00'' @ [hex_char (of_char c div 16), hex_char (of_char c mod 16)]
      else [c])"

definition show_str :: "string \<Rightarrow> string" where
  "show_str s = CHR 0x22 # concat (map escape_char s) @ [CHR 0x22]"

fun join_comma :: "string list \<Rightarrow> string" where
  "join_comma [] = []"
| "join_comma [x] = x"
| "join_comma (x # y # zs) = x @ CHR '','' # join_comma (y # zs)"

fun show_json :: "json \<Rightarrow> string" where
  "show_json JNull = ''null''"
| "show_json (JBool b) = (if b then ''true'' else ''false'')"
| "show_json (JNum q) = show_num q"
| "show_json (JStr s) = show_str s"
| "show_json (JArr js) = CHR ''['' # join_comma (map show_json js) @ '']''"
| "show_json (JObj kvs) =
     CHR 0x7B # join_comma (map (\<lambda>kv. show_str (fst kv) @ CHR '':'' # show_json (snd kv)) kvs) @ [CHR 0x7D]"

definition marshal :: "json \<Rightarrow> jtext" where
  "marshal j = JText (show_json j) (Some j)"

lemma marshal_parse [simp]: "jt_parse (marshal j) = Some j"
  by (simp add: marshal_def)

definition empty_text :: jtext where
  "empty_text = JText [] None"

text \<open>
  Decoding into a struct: a missing name and \<open>null\<close> leave the zero value, a value of another kind
  is an error (\<open>None\<close>). \<open>null\<close> decodes into the zero struct; any other non-object is an error.
\<close>

definition jfields :: "json \<Rightarrow> (string \<times> json) list option" where
  "jfields j = (case j of JObj kvs \<Rightarrow> Some kvs | JNull \<Rightarrow> Some [] | _ \<Rightarrow> None)"

definition jstr_field :: "string \<Rightarrow> (string \<times> json) list \<Rightarrow> string option" where
  "jstr_field k kvs = (case map_of kvs k of None \<Rightarrow> Some [] | Some JNull \<Rightarrow> Some []
     | Some (JStr s) \<Rightarrow> Some s | Some _ \<Rightarrow> None)"

definition jint_field :: "string \<Rightarrow> (string \<times> json) list \<Rightarrow> int option" where
  "jint_field k kvs = (case map_of kvs k of None \<Rightarrow> Some 0 | Some JNull \<Rightarrow> Some 0
     | Some (JNum q) \<Rightarrow> (if snd (quotient_of q) = 1 \<and> int64 (fst (quotient_of q))
                          then Some (fst (quotient_of q)) else None)
     | Some _ \<Rightarrow> None)"

definition jrat_field :: "string \<Rightarrow> (string \<times> json) list \<Rightarrow> rat option" where
  "jrat_field k kvs = (case map_of kvs k of None \<Rightarrow> Some 0 | Some JNull \<Rightarrow> Some 0
     | Some (JNum q) \<Rightarrow> Some q | Some _ \<Rightarrow> None)"

text \<open>\<open>omitempty\<close> of encoding/json/v2 on a string field.\<close>

definition omit_empty :: "string \<Rightarrow> string \<Rightarrow> (string \<times> json) list" where
  "omit_empty k v = (if v = [] then [] else [(k, JStr v)])"

abbreviation jint :: "int \<Rightarrow> json" where "jint i \<equiv> JNum (of_int i)"

section \<open>Lists\<close>

text \<open>\<open>ORDER BY \<dots> LIMIT 1\<close>: the first of the least elements for a strict order.\<close>

fun first_by :: "('a \<Rightarrow> 'a \<Rightarrow> bool) \<Rightarrow> 'a list \<Rightarrow> 'a option" where
  "first_by lt [] = None"
| "first_by lt (x # xs) =
     (case first_by lt xs of None \<Rightarrow> Some x | Some y \<Rightarrow> if lt y x then Some y else Some x)"

lemma first_by_None [simp]: "first_by lt xs = None \<longleftrightarrow> xs = []"
  by (cases xs) (auto split: option.splits)

lemma first_by_mem: "first_by lt xs = Some y \<Longrightarrow> y \<in> set xs"
  by (induction xs arbitrary: y) (auto split: option.splits if_splits)

lemma first_by_key_le:
  fixes k :: "'a \<Rightarrow> 'b::linorder"
  assumes "first_by (\<lambda>a b. k a < k b) xs = Some y" and "z \<in> set xs"
  shows "k y \<le> k z"
  using assms
proof (induction xs arbitrary: y)
  case (Cons x xs)
  then show ?case
    by (cases "xs = []") (fastforce split: option.splits if_splits)+
qed simp

text \<open>Update every row with a predicate, and what it leaves in place.\<close>

definition update_where :: "('a \<Rightarrow> bool) \<Rightarrow> ('a \<Rightarrow> 'a) \<Rightarrow> 'a list \<Rightarrow> 'a list" where
  "update_where p f xs = map (\<lambda>x. if p x then f x else x) xs"

lemma length_update_where [simp]: "length (update_where p f xs) = length xs"
  by (simp add: update_where_def)

lemma map_update_where [simp]: "(\<And>x. p x \<Longrightarrow> g (f x) = g x) \<Longrightarrow> map g (update_where p f xs) = map g xs"
  by (auto simp: update_where_def)

lemma set_update_where:
  "set (update_where p f xs) = f ` {x \<in> set xs. p x} \<union> {x \<in> set xs. \<not> p x}"
  by (auto simp: update_where_def image_iff)

lemma find_update_other:
  "(\<And>x. p x \<Longrightarrow> k x \<noteq> i) \<Longrightarrow> (\<And>x. p x \<Longrightarrow> k (f x) = k x) \<Longrightarrow>
   find (\<lambda>x. k x = i) (update_where p f xs) = find (\<lambda>x. k x = i) xs"
  by (induction xs) (auto simp: update_where_def)

lemma find_update_hit:
  "find (\<lambda>x. k x = i) xs = Some x \<Longrightarrow> p x \<Longrightarrow> (\<And>x. p x \<Longrightarrow> k (f x) = k x) \<Longrightarrow>
   find (\<lambda>x. k x = i) (update_where p f xs) = Some (f x)"
  by (induction xs) (auto simp: update_where_def split: if_splits)

lemma distinct_map_inj: "distinct (map k xs) \<Longrightarrow> x \<in> set xs \<Longrightarrow> y \<in> set xs \<Longrightarrow> k x = k y \<Longrightarrow> x = y"
  by (auto simp: distinct_map dest: inj_onD)

lemma find_key_Some:
  "distinct (map k xs) \<Longrightarrow> x \<in> set xs \<Longrightarrow> find (\<lambda>y. k y = k x) xs = Some x"
  by (induction xs) (auto simp: rev_image_eqI)

lemma find_SomeD: "find p xs = Some x \<Longrightarrow> x \<in> set xs \<and> p x"
  by (induction xs) (auto split: if_splits)

lemma find_append: "find p (xs @ ys) = (case find p xs of None \<Rightarrow> find p ys | Some x \<Rightarrow> Some x)"
  by (induction xs) auto

lemma find_None_iff_all: "find p xs = None \<longleftrightarrow> (\<forall>x\<in>set xs. \<not> p x)"
  by (induction xs) auto

end
