(* ===== verification/Tq_Task.thy ===== *)
theory Tq_Task
  imports Tq_Prelude
begin

text \<open>
  Package \<open>internal/task\<close>: the task record, its lifecycle states and legal transitions
  (\<open>status.go\<close>), the sentinel errors (\<open>errors.go\<close>), the enqueue template with its defaults and
  the time-sortable identifiers (\<open>task.go\<close>). Shows that the transition table never leaves the
  two absorbing states, that the counts view loses nothing, and that identifiers minted under a
  clock that does not run backwards are strictly increasing.
\<close>

section \<open>Lifecycle states\<close>

text \<open>\<open>Status\<close> is a string type: values other than the five constants can be stored.\<close>

datatype status = Pending | Running | Completed | Dead | Cancelled | OtherStatus string

fun status_string :: "status \<Rightarrow> string" where
  "status_string Pending = ''pending''"
| "status_string Running = ''running''"
| "status_string Completed = ''completed''"
| "status_string Dead = ''dead''"
| "status_string Cancelled = ''cancelled''"
| "status_string (OtherStatus s) = s"

text \<open>The conversion \<open>Status(s)\<close> of a string.\<close>

definition status_of :: "string \<Rightarrow> status" where
  "status_of s =
     (if s = ''pending'' then Pending
      else if s = ''running'' then Running
      else if s = ''completed'' then Completed
      else if s = ''dead'' then Dead
      else if s = ''cancelled'' then Cancelled
      else OtherStatus s)"

definition AllStatuses :: "status list" where
  "AllStatuses = [Pending, Running, Completed, Dead, Cancelled]"

fun Valid :: "status \<Rightarrow> bool" where
  "Valid Pending = True"
| "Valid Running = True"
| "Valid Completed = True"
| "Valid Dead = True"
| "Valid Cancelled = True"
| "Valid (OtherStatus _) = False"

fun Terminal :: "status \<Rightarrow> bool" where
  "Terminal Completed = True"
| "Terminal Dead = True"
| "Terminal Cancelled = True"
| "Terminal _ = False"

text \<open>The transition table, row by row.\<close>

fun transitions :: "status \<Rightarrow> status list" where
  "transitions Pending = [Running, Cancelled]"
| "transitions Running = [Pending, Completed, Dead, Cancelled]"
| "transitions Completed = []"
| "transitions Dead = [Pending, Cancelled]"
| "transitions Cancelled = []"
| "transitions (OtherStatus _) = []"

definition CanTransitionTo :: "status \<Rightarrow> status \<Rightarrow> bool" where
  "CanTransitionTo from to \<longleftrightarrow> to \<in> set (transitions from)"

lemma status_of_string [simp]: "Valid st \<Longrightarrow> status_of (status_string st) = st"
  by (cases st) (simp_all add: status_of_def)

lemma status_string_of [simp]: "status_string (status_of s) = s"
  by (simp add: status_of_def)

lemma Valid_iff_AllStatuses: "Valid st \<longleftrightarrow> st \<in> set AllStatuses"
  by (cases st) (simp_all add: AllStatuses_def)

lemma CanTransitionTo_Valid: "CanTransitionTo a b \<Longrightarrow> Valid a \<and> Valid b"
  by (cases a) (auto simp: CanTransitionTo_def)

section \<open>Counts\<close>

text \<open>
  \<open>StatusCountsView\<close>: the known statuses, zeros included, and the total over every key of the
  map, known or not. A Go map is an association list with distinct keys; a missing key reads 0.
\<close>

definition count_of :: "(status \<times> int) list \<Rightarrow> status \<Rightarrow> int" where
  "count_of counts st = (case map_of counts st of None \<Rightarrow> 0 | Some n \<Rightarrow> n)"

definition StatusCountsView :: "(status \<times> int) list \<Rightarrow> (string \<times> int) list \<times> int" where
  "StatusCountsView counts =
     (map (\<lambda>st. (status_string st, count_of counts st)) AllStatuses, sum_list (map snd counts))"

definition StatusCountsMap :: "(string \<times> int) list \<Rightarrow> (status \<times> int) list" where
  "StatusCountsMap counts = map (\<lambda>(s, n). (status_of s, n)) counts"

lemma sum_map_of:
  assumes "distinct (map fst xs)"
  shows "sum_list (map snd xs) = (\<Sum>k\<in>fst ` set xs. case map_of xs k of None \<Rightarrow> 0 | Some n \<Rightarrow> n)"
  using assms
proof (induction xs)
  case (Cons x xs)
  have "(\<Sum>k\<in>fst ` set xs. case map_of (x # xs) k of None \<Rightarrow> 0 | Some n \<Rightarrow> n)
      = (\<Sum>k\<in>fst ` set xs. case map_of xs k of None \<Rightarrow> 0 | Some n \<Rightarrow> n)"
    using Cons.prems by (intro sum.cong) (auto split: option.splits dest: map_of_SomeD simp: rev_image_eqI)
  with Cons show ?case by (cases x) (auto simp: sum.insert_if)
qed simp

lemma count_of_missing: "st \<notin> fst ` set counts \<Longrightarrow> count_of counts st = 0"
  by (simp add: count_of_def map_of_eq_None_iff [THEN iffD2])

section \<open>Errors\<close>

datatype task_error = ErrNotFound | ErrLeaseNotHeld | ErrDuplicateID | ErrInvalidTransition

section \<open>Tasks and templates\<close>

type_synonym task_id = string

record task =
  ID :: task_id
  Project :: string
  Type :: string
  Payload :: jtext
  Deps :: "task_id list"
  Priority :: int
  Attempts :: int
  MaxAttempts :: int
  NotBefore :: go_time
  Status :: status
  LeaseOwner :: string
  LeaseExpires :: "go_time option"
  LastError :: string
  DedupKey :: string
  CreatedAt :: go_time
  UpdatedAt :: go_time
  CompletedAt :: "go_time option"

record new_task =
  n_Project :: string
  n_Type :: string
  n_Payload :: jtext
  n_Deps :: "task_id list"
  n_Priority :: int
  n_MaxAttempts :: int
  n_NotBefore :: go_time
  n_DedupKey :: string

definition DefaultMaxAttempts :: int where
  "DefaultMaxAttempts = 3"

definition Normalize :: "new_task \<Rightarrow> new_task" where
  "Normalize n = (if n_MaxAttempts n \<le> 0 then n\<lparr>n_MaxAttempts := DefaultMaxAttempts\<rparr> else n)"

lemma Normalize_positive: "0 < n_MaxAttempts (Normalize n)"
  by (simp add: Normalize_def DefaultMaxAttempts_def)

lemma Normalize_idem: "Normalize (Normalize n) = Normalize n"
  by (simp add: Normalize_def DefaultMaxAttempts_def)

section \<open>Identifiers\<close>

text \<open>
  \<open>%0wx\<close>: at least \<open>w\<close> lower-case hexadecimal digits. The process-wide sequence keeps the
  millisecond of the last identifier, the five random bytes drawn for that millisecond (as one
  number) and the suffix counter.
\<close>

fun hexw :: "nat \<Rightarrow> nat \<Rightarrow> string" where
  "hexw 0 n = []"
| "hexw (Suc w) n = hexw w (n div 16) @ [hex_char (n mod 16)]"

fun hex_nat :: "nat \<Rightarrow> string" where
  "hex_nat n = (if n < 16 then [hex_char n] else hex_nat (n div 16) @ [hex_char (n mod 16)])"

declare hex_nat.simps [simp del]

definition fmt_hex :: "nat \<Rightarrow> nat \<Rightarrow> string" where
  "fmt_hex w n = (if n < 16 ^ w then hexw w n else hex_nat n)"

record id_seq =
  seq_ms :: nat
  seq_seed :: nat
  seq_suffix :: nat

definition id_text :: "id_seq \<Rightarrow> task_id" where
  "id_text s = fmt_hex 16 (seq_ms s) @ fmt_hex 10 (seq_seed s) @ fmt_hex 10 (seq_suffix s)"

text \<open>\<open>NewID\<close> with the clock reading and the random bytes it draws as arguments.\<close>

definition NewID :: "nat \<Rightarrow> nat \<Rightarrow> id_seq \<Rightarrow> task_id \<times> id_seq" where
  "NewID now rnd s =
     (let s1 = (if now \<noteq> seq_ms s then \<lparr>seq_ms = now, seq_seed = rnd, seq_suffix = 0\<rparr> else s);
          s2 = s1\<lparr>seq_suffix := seq_suffix s1 + 1\<rparr>
      in (id_text s2, s2))"

fun mint :: "id_seq \<Rightarrow> (nat \<times> nat) list \<Rightarrow> task_id list" where
  "mint s [] = []"
| "mint s ((now, rnd) # rs) = (case NewID now rnd s of (i, s') \<Rightarrow> i # mint s' rs)"

lemma append_less_append:
  fixes a :: "'a::linorder list"
  assumes "length a = length c"
  shows "a @ b < c @ d \<longleftrightarrow> a < c \<or> (a = c \<and> b < d)"
  using assms by (induction a c rule: list_induct2) auto

lemma hex_char_less: "i < j \<Longrightarrow> j < 16 \<Longrightarrow> hex_char i < hex_char j"
  by (simp add: hex_char_def less_char_def)

lemma length_hexw [simp]: "length (hexw w n) = w"
  by (induction w arbitrary: n) auto

lemma hexw_less: "a < b \<Longrightarrow> b < 16 ^ w \<Longrightarrow> hexw w a < hexw w b"
proof (induction w arbitrary: a b)
  case (Suc w)
  show ?case
  proof (cases "a div 16 < b div 16")
    case True
    moreover have "b div 16 < 16 ^ w" using Suc.prems(2) by (simp add: less_mult_imp_div_less mult.commute)
    ultimately have "hexw w (a div 16) < hexw w (b div 16)" by (rule Suc.IH)
    then show ?thesis by (simp add: append_less_append)
  next
    case False
    with Suc.prems have "a div 16 = b div 16" by (simp add: div_le_mono order.antisym less_imp_le)
    moreover have "a mod 16 < b mod 16"
      using calculation Suc.prems(1) by (metis div_mult_mod_eq nat_add_left_cancel_less)
    ultimately show ?thesis by (simp add: append_less_append hex_char_less)
  qed
qed simp

lemma id_text_less:
  assumes "seq_ms t < 16 ^ 16" "seq_seed s < 16 ^ 10" "seq_suffix t < 16 ^ 10" "seq_suffix s < 16 ^ 10" "seq_seed t < 16 ^ 10"
    and "seq_ms s < seq_ms t \<or> (seq_ms s = seq_ms t \<and> seq_seed s = seq_seed t \<and> seq_suffix s < seq_suffix t)"
  shows "id_text s < id_text t"
  using assms by (auto simp: id_text_def fmt_hex_def append_less_append hexw_less)

lemma NewID_less:
  assumes "seq_ms s \<le> now" "now < 16 ^ 16" "rnd < 16 ^ 10" "seq_seed s < 16 ^ 10" "seq_suffix s + 1 < 16 ^ 10"
    and "NewID now rnd s = (i, s')"
  shows "id_text s < i \<and> i = id_text s' \<and> seq_ms s' = now \<and> seq_seed s' < 16 ^ 10 \<and> seq_suffix s' \<le> seq_suffix s + 1"
  using assms by (auto simp: NewID_def Let_def split: if_splits intro!: id_text_less)

lemma mint_above:
  assumes "sorted (map fst rs)" "\<forall>r\<in>set rs. seq_ms s \<le> fst r \<and> fst r < 16 ^ 16 \<and> snd r < 16 ^ 10"
    and "seq_seed s < 16 ^ 10" "seq_suffix s + length rs < 16 ^ 10"
  shows "sorted_wrt (<) (id_text s # mint s rs)"
  using assms
proof (induction rs arbitrary: s)
  case (Cons r rs)
  obtain now rnd where r: "r = (now, rnd)" by (cases r)
  obtain i s' where n: "NewID now rnd s = (i, s')" by (cases "NewID now rnd s")
  have s': "id_text s < i" "i = id_text s'" "seq_ms s' = now" "seq_seed s' < 16 ^ 10" "seq_suffix s' \<le> seq_suffix s + 1"
    using NewID_less [OF _ _ _ _ _ n] Cons.prems r by auto
  have "sorted_wrt (<) (id_text s' # mint s' rs)"
    using Cons.prems r s' by (intro Cons.IH) auto
  with s'(1,2) show ?case by (auto simp: r n intro: order.strict_trans)
qed simp

section \<open>Properties\<close>

text \<open>
  The two withdrawn-or-done states are absorbing and every other state can still reach
  completion: no sequence of legal transitions leaves \<open>Completed\<close> or \<open>Cancelled\<close>, and from
  \<open>Pending\<close>, \<open>Running\<close> and \<open>Dead\<close> there is a sequence of legal transitions to \<open>Completed\<close>.
\<close>

theorem lifecycle_absorbing_and_live:
  "(CanTransitionTo\<^sup>*\<^sup>* st Completed \<longleftrightarrow> st \<in> {Pending, Running, Dead, Completed})
   \<and> (st \<in> {Completed, Cancelled} = (Terminal st \<and> (\<nexists>st'. CanTransitionTo st st')))"
proof
  have step: "CanTransitionTo Dead Pending" "CanTransitionTo Pending Running" "CanTransitionTo Running Completed"
    by (simp_all add: CanTransitionTo_def)
  have reach: "CanTransitionTo\<^sup>*\<^sup>* Running Completed" "CanTransitionTo\<^sup>*\<^sup>* Pending Completed"
      "CanTransitionTo\<^sup>*\<^sup>* Dead Completed"
    using step by (auto intro: converse_rtranclp_into_rtranclp)
  have stuck: "CanTransitionTo\<^sup>*\<^sup>* s Completed \<Longrightarrow> transitions s = [] \<Longrightarrow> s = Completed" for s
    by (erule converse_rtranclpE) (auto simp: CanTransitionTo_def)
  show "CanTransitionTo\<^sup>*\<^sup>* st Completed \<longleftrightarrow> st \<in> {Pending, Running, Dead, Completed}"
    using reach stuck [of st] by (cases st) auto
  show "st \<in> {Completed, Cancelled} = (Terminal st \<and> (\<nexists>st'. CanTransitionTo st st'))"
    by (cases st) (auto simp: CanTransitionTo_def)
qed

text \<open>
  Identifiers minted one after the other, under a clock that does not run backwards, are
  strictly increasing in lexicographic order, so they are pairwise distinct and sorting by
  identifier is sorting by creation; this covers identifiers minted in the same millisecond.
  The hypotheses bound the clock to sixteen hexadecimal digits, the random draw to five bytes
  and the number of identifiers to the ten hexadecimal digits of the suffix.
\<close>

theorem NewID_strictly_increasing:
  assumes "sorted (map fst rs)" "\<forall>r\<in>set rs. seq_ms s \<le> fst r \<and> fst r < 16 ^ 16 \<and> snd r < 16 ^ 10"
    and "seq_seed s < 16 ^ 10" "seq_suffix s + length rs < 16 ^ 10"
  shows "sorted_wrt (<) (mint s rs)"
  using mint_above [OF assms] by simp

lemma NewID_strictly_increasing_witness:
  "sorted_wrt (<) (mint \<lparr>seq_ms = 0, seq_seed = 0, seq_suffix = 0\<rparr> [(5, 7), (5, 9), (6, 1)])"
  by (rule NewID_strictly_increasing) auto

text \<open>
  The counts view and its total agree exactly when no foreign status carries a count: the sum
  of the view's five entries is the total minus what unknown statuses hold, so for counts over
  known statuses nothing is lost.
\<close>

theorem StatusCountsView_total:
  assumes "distinct (map fst counts)" and "\<forall>st\<in>fst ` set counts. Valid st"
  shows "sum_list (map snd (fst (StatusCountsView counts))) = snd (StatusCountsView counts)
     \<and> map fst (fst (StatusCountsView counts)) = map status_string AllStatuses"
proof
  have sub: "fst ` set counts \<subseteq> set AllStatuses"
    using assms(2) Valid_iff_AllStatuses by auto
  have "sum_list (map snd counts) = (\<Sum>k\<in>fst ` set counts. count_of counts k)"
    using sum_map_of [OF assms(1)] by (simp add: count_of_def)
  also have "\<dots> = (\<Sum>k\<in>set AllStatuses. count_of counts k)"
    using sub by (intro sum.mono_neutral_left) (auto simp: count_of_missing)
  also have "\<dots> = sum_list (map (count_of counts) AllStatuses)"
    by (subst sum_list_distinct_conv_sum_set) (simp_all add: AllStatuses_def)
  finally show "sum_list (map snd (fst (StatusCountsView counts))) = snd (StatusCountsView counts)"
    by (simp add: StatusCountsView_def comp_def)
qed (simp add: StatusCountsView_def comp_def)

lemma StatusCountsView_total_witness:
  "sum_list (map snd (fst (StatusCountsView [(Pending, 2), (Dead, 1)]))) = 3"
  using StatusCountsView_total [of "[(Pending, 2), (Dead, 1)]"]
  by (simp add: StatusCountsView_def)

end
