(* ===== verification/Tq_Journal.thy ===== *)
theory Tq_Journal
  imports Tq_Task
begin

text \<open>
  Package \<open>internal/journal\<close>: the fact vocabulary, the in-memory journal and the cursor read
  \<open>AfterSeq\<close>. The locale \<open>fact_log\<close> states what every append-only fact store promises its readers;
  \<open>MemoryJournal\<close> interprets it here and the SQL facts table interprets it in \<open>Tq_Companion\<close>.
  Facts about paging through a strictly ordered journal are proved once here and carry the
  sweepers, the read model and the dead-letter backoff fold.
\<close>

section \<open>Fact vocabulary\<close>

text \<open>
  The lifecycle constants are those of the engine's vocabulary, re-exported by the package; the
  rest are the package's own. Other strings can occur: the type is open.
\<close>

datatype fact_type =
    F_Enqueued | F_Claimed | F_Completed | F_Failed | F_DeadLettered | F_Cancelled
  | F_CancelRequested | F_Released | F_Requeued | F_Orphaned | F_Reprioritized
  | F_Heartbeat | F_SessionOpened | F_SessionClosed | F_QuestionAsked | F_QuestionAnswered
  | F_Parked | F_ErrorObserved | F_IncidentTaskMinted | F_Other string

record fact =
  Seq :: int
  Time :: go_time
  TaskID :: string
  FType :: fact_type
  Owner :: string
  Attempt :: int
  Error :: string
  Detail :: jtext

definition blank_fact :: fact where
  "blank_fact = \<lparr>Seq = 0, Time = zero_time, TaskID = [], FType = F_Other [], Owner = [],
     Attempt = 0, Error = [], Detail = empty_text\<rparr>"

datatype effect_status = EffectCommitted | EffectNone | EffectUnknown | EffectPartial | EffectRolledBack

fun effect_string :: "effect_status \<Rightarrow> string" where
  "effect_string EffectCommitted = ''committed''"
| "effect_string EffectNone = ''none''"
| "effect_string EffectUnknown = ''unknown''"
| "effect_string EffectPartial = ''partial''"
| "effect_string EffectRolledBack = ''rolled_back''"

text \<open>\<open>ReleasedDetail\<close>: the reason is omitted when empty.\<close>

definition ReleasedDetail :: "effect_status \<Rightarrow> string \<Rightarrow> json" where
  "ReleasedDetail e reason = JObj ((''effect'', JStr (effect_string e)) # omit_empty ''reason'' reason)"

section \<open>Reading after a cursor\<close>

text \<open>\<open>AfterSeq\<close>: the facts past the cursor, cut to the first \<open>limit\<close> when \<open>limit > 0\<close>.\<close>

definition AfterSeq :: "fact list \<Rightarrow> int \<Rightarrow> int \<Rightarrow> fact list" where
  "AfterSeq fs after limit =
     (let out = filter (\<lambda>f. Seq f > after) fs
      in if limit > 0 \<and> int (length out) > limit then take (nat limit) out else out)"

text \<open>A journal in sequence order: strictly increasing sequence numbers.\<close>

definition seq_sorted :: "fact list \<Rightarrow> bool" where
  "seq_sorted fs \<longleftrightarrow> sorted_wrt (\<lambda>f g. Seq f < Seq g) fs"

lemma AfterSeq_unlimited [simp]: "limit \<le> 0 \<Longrightarrow> AfterSeq fs after limit = filter (\<lambda>f. Seq f > after) fs"
  by (simp add: AfterSeq_def)

lemma AfterSeq_take: "0 < limit \<Longrightarrow> AfterSeq fs after limit = take (nat limit) (AfterSeq fs after 0)"
  by (simp add: AfterSeq_def Let_def)

lemma AfterSeq_subset: "set (AfterSeq fs after limit) \<subseteq> {f \<in> set fs. Seq f > after}"
  by (auto simp: AfterSeq_def Let_def dest: in_set_takeD)

lemma length_AfterSeq: "0 < limit \<Longrightarrow> int (length (AfterSeq fs after limit)) \<le> limit"
  by (auto simp: AfterSeq_def Let_def)

lemma seq_sorted_filter: "seq_sorted fs \<Longrightarrow> seq_sorted (filter p fs)"
  by (simp add: seq_sorted_def sorted_wrt_filter)

lemma seq_sorted_append:
  "seq_sorted (xs @ ys) \<longleftrightarrow> seq_sorted xs \<and> seq_sorted ys \<and> (\<forall>x\<in>set xs. \<forall>y\<in>set ys. Seq x < Seq y)"
  by (simp add: seq_sorted_def sorted_wrt_append)

lemma seq_sorted_AfterSeq: "seq_sorted fs \<Longrightarrow> seq_sorted (AfterSeq fs after limit)"
  by (simp add: AfterSeq_def Let_def seq_sorted_def sorted_wrt_filter sorted_wrt_take)

lemma seq_sorted_distinct: "seq_sorted fs \<Longrightarrow> distinct (map Seq fs)"
  by (induction fs) (auto simp: seq_sorted_def)

text \<open>The facts past the last fact of a page are the ones the page left out.\<close>

lemma filter_past_last:
  assumes "seq_sorted (xs @ ys)" and "xs \<noteq> []"
  shows "filter (\<lambda>f. Seq f > Seq (last xs)) (xs @ ys) = ys"
proof -
  have "\<forall>x\<in>set xs. Seq x \<le> Seq (last xs)"
  proof
    fix x assume x: "x \<in> set xs"
    have "seq_sorted (butlast xs @ [last xs])"
      using assms by (simp add: seq_sorted_append)
    moreover have "x \<in> set (butlast xs) \<or> x = last xs"
      using x assms(2) by (metis append_butlast_last_id in_set_conv_decomp last_in_set rotate1.simps(2)
          set_ConsD set_rotate1)
    ultimately show "Seq x \<le> Seq (last xs)" by (auto simp: seq_sorted_append)
  qed
  moreover have "\<forall>y\<in>set ys. Seq (last xs) < Seq y"
    using assms by (simp add: seq_sorted_append)
  ultimately show ?thesis by (auto simp: filter_empty_conv filter_id_conv not_less)
qed

lemma AfterSeq_next_page:
  assumes srt: "seq_sorted fs" and page: "AfterSeq fs after limit \<noteq> []"
  shows "AfterSeq fs after 0
       = AfterSeq fs after limit @ AfterSeq fs (Seq (last (AfterSeq fs after limit))) 0"
proof -
  let ?out = "filter (\<lambda>f. Seq f > after) fs"
  let ?p = "AfterSeq fs after limit"
  have "prefix ?p ?out" by (simp add: AfterSeq_def Let_def take_is_prefix)
  then obtain rest where rest: "?out = ?p @ rest" by (auto simp: prefix_def)
  have so: "seq_sorted (?p @ rest)" using seq_sorted_filter [OF srt, of "\<lambda>f. Seq f > after"] rest by simp
  have last_after: "Seq (last ?p) > after"
    using AfterSeq_subset last_in_set [OF page] by fastforce
  have "filter (\<lambda>f. Seq f > Seq (last ?p)) fs = filter (\<lambda>f. Seq f > Seq (last ?p)) ?out"
    using last_after by (auto intro: filter_cong)
  also have "\<dots> = rest" unfolding rest by (rule filter_past_last [OF so page])
  finally show ?thesis using rest by simp
qed

text \<open>A short page is the last one.\<close>

lemma AfterSeq_short_page:
  assumes "0 < limit" and "int (length (AfterSeq fs after limit)) < limit"
  shows "AfterSeq fs after limit = AfterSeq fs after 0"
  using assms by (auto simp: AfterSeq_def Let_def split: if_splits)

section \<open>What a fact log promises\<close>

text \<open>
  \<open>log_append\<close> records one fact and returns it as stored; \<open>log_facts\<close> is everything recorded. The
  promise is that a record is only ever added at the end, under a fresh and larger sequence number.
\<close>

locale fact_log =
  fixes log_append :: "fact \<Rightarrow> 's \<Rightarrow> fact \<times> 's"
    and log_facts :: "'s \<Rightarrow> fact list"
    and log_ok :: "'s \<Rightarrow> bool"
    and admissible :: "fact \<Rightarrow> bool"
  assumes append_end: "log_ok s \<Longrightarrow> admissible f \<Longrightarrow>
      log_facts (snd (log_append f s)) = log_facts s @ [fst (log_append f s)]"
    and append_fresh: "log_ok s \<Longrightarrow> admissible f \<Longrightarrow> g \<in> set (log_facts s) \<Longrightarrow> Seq g < Seq (fst (log_append f s))"
    and append_ok: "log_ok s \<Longrightarrow> admissible f \<Longrightarrow> log_ok (snd (log_append f s))"
    and ok_sorted: "log_ok s \<Longrightarrow> seq_sorted (log_facts s)"
begin

lemma append_all_ok:
  "log_ok s \<Longrightarrow> \<forall>f\<in>set fs. admissible f \<Longrightarrow> log_ok (fold (\<lambda>f s. snd (log_append f s)) fs s)"
  by (induction fs arbitrary: s) (auto intro: append_ok)

lemma append_all_prefix:
  "log_ok s \<Longrightarrow> \<forall>f\<in>set fs. admissible f \<Longrightarrow>
     prefix (log_facts s) (log_facts (fold (\<lambda>f s. snd (log_append f s)) fs s))"
proof (induction fs arbitrary: s)
  case (Cons f fs)
  let ?s' = "snd (log_append f s)"
  have "prefix (log_facts s) (log_facts ?s')"
    using Cons.prems append_end [of s f] by simp
  moreover have "prefix (log_facts ?s') (log_facts (fold (\<lambda>f s. snd (log_append f s)) fs ?s'))"
    using Cons append_ok [of s f] by simp
  ultimately show ?case by (simp add: prefix_order.trans [of "log_facts s"])
qed simp

text \<open>
  A reader that has consumed everything up to the last fact and then reads past that cursor sees
  exactly the facts recorded since, in order, each once.
\<close>

lemma reader_sees_new:
  assumes ok: "log_ok s" and adm: "\<forall>f\<in>set fs. admissible f" and ne: "log_facts s \<noteq> []"
  shows "log_facts (fold (\<lambda>f s. snd (log_append f s)) fs s) = log_facts s
       @ AfterSeq (log_facts (fold (\<lambda>f s. snd (log_append f s)) fs s)) (Seq (last (log_facts s))) 0"
proof -
  let ?s' = "fold (\<lambda>f s. snd (log_append f s)) fs s"
  obtain new where new: "log_facts ?s' = log_facts s @ new"
    using append_all_prefix [OF ok adm] by (auto simp: prefix_def)
  have "seq_sorted (log_facts s @ new)"
    using ok_sorted [OF append_all_ok [OF ok adm]] new by simp
  then show ?thesis using filter_past_last [OF _ ne] new by simp
qed

end

section \<open>The in-memory journal\<close>

text \<open>\<open>Append\<close> with the clock reading as an argument: \<open>Seq\<close> and \<open>Time\<close> are assigned when zero.\<close>

definition MemAppend :: "go_time \<Rightarrow> fact \<Rightarrow> fact list \<Rightarrow> fact \<times> fact list" where
  "MemAppend now f m =
     (let f1 = (if Seq f = 0 then f\<lparr>Seq := int (length m) + 1\<rparr> else f);
          f2 = (if is_zero (Time f1) then f1\<lparr>Time := now\<rparr> else f1)
      in (f2, m @ [f2]))"

text \<open>Appending one fact after another.\<close>

definition MemAppendAll :: "go_time \<Rightarrow> fact list \<Rightarrow> fact list \<Rightarrow> fact list" where
  "MemAppendAll now fs m = fold (\<lambda>f m. snd (MemAppend now f m)) fs m"

definition MemAll :: "fact list \<Rightarrow> fact list" where
  "MemAll m = m"

definition MemSince :: "fact list \<Rightarrow> int \<Rightarrow> fact list" where
  "MemSince m after = AfterSeq m after 0"

text \<open>The journal holds the numbers 1 to its length, when every append leaves \<open>Seq\<close> to it.\<close>

definition mem_ok :: "fact list \<Rightarrow> bool" where
  "mem_ok m \<longleftrightarrow> (\<forall>i < length m. Seq (m ! i) = int i + 1)"

lemma mem_ok_nth: "mem_ok m \<Longrightarrow> i < length m \<Longrightarrow> Seq (m ! i) = int i + 1"
  by (simp add: mem_ok_def)

lemma mem_ok_seqs: "mem_ok m \<Longrightarrow> map Seq m = map int [1..<Suc (length m)]"
  by (rule nth_equalityI) (simp_all add: mem_ok_def nth_append del: upt_Suc)

lemma mem_ok_sorted: "mem_ok m \<Longrightarrow> seq_sorted m"
  unfolding seq_sorted_def sorted_wrt_iff_nth_less
proof (intro allI impI)
  fix i j assume "mem_ok m" "i < j" "j < length m"
  then show "Seq (m ! i) < Seq (m ! j)" using mem_ok_nth [of m i] mem_ok_nth [of m j] by simp
qed

lemma MemAppend_ok:
  fixes f :: fact
  shows "mem_ok m \<Longrightarrow> Seq f = 0 \<Longrightarrow> mem_ok (snd (MemAppend now f m))"
  by (auto simp: mem_ok_def MemAppend_def Let_def nth_append less_Suc_eq)

interpretation mem: fact_log "MemAppend now" MemAll mem_ok "\<lambda>f. Seq f = 0" for now :: go_time
proof
  fix m and f g :: fact assume m: "mem_ok m" "Seq f = 0" "g \<in> set (MemAll m)"
  then obtain i where "i < length m" "g = m ! i" by (auto simp: MemAll_def in_set_conv_nth)
  with m mem_ok_nth [of m i] show "Seq g < Seq (fst (MemAppend now f m))"
    by (auto simp: MemAppend_def Let_def)
next
  fix m and f :: fact assume "mem_ok m" "Seq f = 0"
  then show "mem_ok (snd (MemAppend now f m))" by (rule MemAppend_ok)
qed (simp_all add: MemAll_def MemAppend_def Let_def mem_ok_sorted)

section \<open>Properties\<close>

text \<open>
  The in-memory journal is append-only and gap-free for its readers: after any batch of
  appends, what was recorded before is still the beginning of the journal, and a tailer standing at
  the last fact reads exactly the new facts, in order, each once, with positive sequence numbers
  that continue the count.
\<close>

theorem MemoryJournal_tail_exact:
  assumes "mem_ok m" "m \<noteq> []" "\<forall>f\<in>set fs. Seq f = 0"
  shows "MemAll (MemAppendAll now fs m) = m @ MemSince (MemAppendAll now fs m) (Seq (last m))
     \<and> map Seq (MemSince (MemAppendAll now fs m) (Seq (last m)))
       = map int [Suc (length m)..<Suc (length m + length fs)]"
proof
  let ?m' = "MemAppendAll now fs m"
  have tail: "?m' = m @ MemSince ?m' (Seq (last m))"
    using mem.reader_sees_new [of m fs now] assms by (simp add: MemAll_def MemSince_def MemAppendAll_def)
  then show "MemAll ?m' = m @ MemSince ?m' (Seq (last m))" by (simp add: MemAll_def)
  have ok': "mem_ok ?m'" using mem.append_all_ok [of m fs now] assms by (simp add: MemAppendAll_def)
  have len: "length ?m' = length m + length fs"
    unfolding MemAppendAll_def by (induction fs arbitrary: m) (simp_all add: MemAppend_def Let_def)
  have "map Seq (MemSince ?m' (Seq (last m))) = drop (length m) (map Seq ?m')"
    by (subst (2) tail) simp
  also have "\<dots> = map int [Suc (length m)..<Suc (length m + length fs)]"
    using mem_ok_seqs [OF ok'] len by (simp add: drop_map del: upt_Suc)
  finally show "map Seq (MemSince ?m' (Seq (last m))) = map int [Suc (length m)..<Suc (length m + length fs)]" .
qed

lemma MemoryJournal_tail_exact_witness:
  "map Seq (MemSince (MemAppendAll 5 [blank_fact, blank_fact] [blank_fact\<lparr>Seq := 1\<rparr>]) 1) = [2, 3]"
  using MemoryJournal_tail_exact [of "[blank_fact\<lparr>Seq := 1\<rparr>]" "[blank_fact, blank_fact]" 5]
  by (simp add: mem_ok_def blank_fact_def)

text \<open>
  A positive limit of \<open>AfterSeq\<close> keeps the oldest facts past the cursor, not the most recent
  ones: the page is the beginning of the unlimited read, and resuming from its last fact yields
  exactly the remainder, so paging never skips a fact.
\<close>

theorem AfterSeq_pages_from_oldest:
  assumes "seq_sorted fs" "0 < limit" "AfterSeq fs after 0 \<noteq> []"
  shows "AfterSeq fs after limit = take (nat limit) (AfterSeq fs after 0)
     \<and> AfterSeq fs (Seq (last (AfterSeq fs after limit))) 0 = drop (nat limit) (AfterSeq fs after 0)"
proof
  show t: "AfterSeq fs after limit = take (nat limit) (AfterSeq fs after 0)"
    using assms(2) by (rule AfterSeq_take)
  then have ne: "AfterSeq fs after limit \<noteq> []" using assms by simp
  have "AfterSeq fs after 0 = take (nat limit) (AfterSeq fs after 0)
      @ AfterSeq fs (Seq (last (AfterSeq fs after limit))) 0"
    using AfterSeq_next_page [OF assms(1) ne] unfolding t .
  then show "AfterSeq fs (Seq (last (AfterSeq fs after limit))) 0 = drop (nat limit) (AfterSeq fs after 0)"
    by (metis append_take_drop_id same_append_eq)
qed

lemma AfterSeq_pages_from_oldest_witness:
  "map Seq (AfterSeq [blank_fact\<lparr>Seq := 1\<rparr>, blank_fact\<lparr>Seq := 2\<rparr>, blank_fact\<lparr>Seq := 3\<rparr>] 0 2) = [1, 2]"
  using AfterSeq_pages_from_oldest
    [of "[blank_fact\<lparr>Seq := 1\<rparr>, blank_fact\<lparr>Seq := 2\<rparr>, blank_fact\<lparr>Seq := 3\<rparr>]" 2 0]
  by (simp add: seq_sorted_def blank_fact_def)

end
