(* ===== verification/Tq_Queue.thy ===== *)
theory Tq_Queue
  imports Tq_Journal
begin

text \<open>
  Package \<open>internal/queue\<close>: the store contract (\<open>queue.go\<close>), the priority bands (\<open>bands.go\<close>) and the
  expired-lease probe (\<open>stuck.go\<close>). The \<open>Store\<close> interface is the record \<open>store_ops\<close> of the
  operations the package itself calls; the facade's methods take it as an argument, and
  \<open>Tq_Adapter\<close> supplies it for the SQL-backed store. Shows that the unblock bump only ever raises the
  priority of backlog tasks whose dependencies are all completed, stays below the hot band, does
  nothing in a dry run, and happens at most once per task.
\<close>

section \<open>Errors\<close>

datatype qerr =
    TaskErr task_error
  | ErrNoTaskDue | ErrEmptyType | ErrEmptyAnswerRef | ErrEmptyAnswer | ErrTaskDone
  | StoreErr string

section \<open>Priority bands\<close>

datatype band = BandBacklog | BandHot | BandMachine

definition BacklogMax :: int where "BacklogMax = 99"
definition HotMin :: int where "HotMin = 100"
definition HotMax :: int where "HotMax = 149"
definition MachineMin :: int where "MachineMin = 150"

lemmas band_consts [tq_simps] = BacklogMax_def HotMin_def HotMax_def MachineMin_def

definition BandOf :: "int \<Rightarrow> band" where
  "BandOf priority =
     (if priority \<ge> MachineMin then BandMachine
      else if priority \<ge> HotMin then BandHot
      else BandBacklog)"

definition ClampBacklog :: "int \<Rightarrow> int" where
  "ClampBacklog priority =
     (if priority < 0 then 0 else if priority > BacklogMax then BacklogMax else priority)"

text \<open>The bands are ordered by rising priority, so that \<open>BandOf\<close> is monotone.\<close>

primrec band_rank :: "band \<Rightarrow> nat" where
  "band_rank BandBacklog = 0"
| "band_rank BandHot = 1"
| "band_rank BandMachine = 2"

lemma band_rank_inj: "band_rank a = band_rank b \<longleftrightarrow> a = b"
  by (cases a; cases b) auto

instantiation band :: linorder
begin

definition less_eq_band :: "band \<Rightarrow> band \<Rightarrow> bool" where
  "less_eq_band a b \<longleftrightarrow> band_rank a \<le> band_rank b"

definition less_band :: "band \<Rightarrow> band \<Rightarrow> bool" where
  "less_band a b \<longleftrightarrow> band_rank a < band_rank b"

instance
  by standard (auto simp: less_eq_band_def less_band_def band_rank_inj)

end

lemma BandOf_mono: "mono BandOf"
  by (rule monoI) (simp add: BandOf_def less_eq_band_def band_consts)

lemma BandOf_ClampBacklog [simp]: "BandOf (ClampBacklog p) = BandBacklog"
  by (simp add: BandOf_def ClampBacklog_def band_consts)

lemma ClampBacklog_bounds: "0 \<le> ClampBacklog p \<and> ClampBacklog p \<le> BacklogMax"
  by (simp add: ClampBacklog_def band_consts)

section \<open>Scheduling constants\<close>

definition PriorityAgingDaysPerPoint :: int where "PriorityAgingDaysPerPoint = 3"
definition PriorityAgingMaxBonus :: int where "PriorityAgingMaxBonus = 10"
definition ClaimAnomalyThreshold :: int where "ClaimAnomalyThreshold = 20"
definition UnblockBumpPriority :: int where "UnblockBumpPriority = 15"
definition PrioritySourceUnblock :: string where "PrioritySourceUnblock = ''unblock''"

section \<open>Filters, evidence and records\<close>

record task_filter =
  fl_Project :: "string option"
  fl_Status :: "status option"
  fl_Type :: "string option"
  fl_Query :: string
  fl_PayloadContains :: string
  fl_DedupKey :: string
  fl_Limit :: int
  fl_Offset :: int
  fl_SeverityOrder :: bool
  fl_Sort :: string
  fl_Since :: "go_time option"
  fl_Parked :: "bool option"
  fl_PriorityMin :: "int option"
  fl_PriorityMax :: "int option"

definition no_filter :: task_filter where
  "no_filter = \<lparr>fl_Project = None, fl_Status = None, fl_Type = None, fl_Query = [],
     fl_PayloadContains = [], fl_DedupKey = [], fl_Limit = 0, fl_Offset = 0,
     fl_SeverityOrder = False, fl_Sort = [], fl_Since = None, fl_Parked = None,
     fl_PriorityMin = None, fl_PriorityMax = None\<rparr>"

text \<open>The requeue classes.\<close>

definition RequeueClassPreflight :: string where "RequeueClassPreflight = ''preflight''"
definition RequeueClassGate :: string where "RequeueClassGate = ''gate''"
definition RequeueClassRateLimit :: string where "RequeueClassRateLimit = ''rate-limit''"
definition RequeueClassRateLimitGate :: string where "RequeueClassRateLimitGate = ''rate-limit-gate''"
definition RequeueClassQuestion :: string where "RequeueClassQuestion = ''question''"
definition RequeueClassBudget :: string where "RequeueClassBudget = ''budget''"
definition RequeueClassCrushServer :: string where "RequeueClassCrushServer = ''crush-server''"
definition RequeueClassUnknown :: string where "RequeueClassUnknown = ''unknown''"

text \<open>
  \<open>RequeueEvidence\<close> as it is written to the fact detail: empty strings are omitted, the boolean is
  always present (\<open>omitempty\<close> of encoding/json/v2 omits empty JSON values, and \<open>false\<close> is not one).
\<close>

definition RequeueEvidence :: "string \<Rightarrow> int \<Rightarrow> bool \<Rightarrow> string \<Rightarrow> string \<Rightarrow> json" where
  "RequeueEvidence reason retry_in resume cls provider =
     JObj ([(''reason'', JStr reason), (''retry_in_ms'', jint retry_in), (''resume_closeout'', JBool resume)]
       @ omit_empty ''class'' cls @ omit_empty ''provider'' provider)"

record repri_evidence =
  re_OldPriority :: int
  re_NewPriority :: int
  re_Source :: string
  re_Reason :: string

definition ReprioritizeEvidence :: "repri_evidence \<Rightarrow> json" where
  "ReprioritizeEvidence e =
     JObj ([(''old_priority'', jint (re_OldPriority e)), (''new_priority'', jint (re_NewPriority e)),
            (''source'', JStr (re_Source e))] @ omit_empty ''reason'' (re_Reason e))"

definition ParseReprioritizeEvidence :: "jtext \<Rightarrow> repri_evidence option" where
  "ParseReprioritizeEvidence detail =
     do { j \<leftarrow> jt_parse detail; kvs \<leftarrow> jfields j;
          old \<leftarrow> jint_field ''old_priority'' kvs; new \<leftarrow> jint_field ''new_priority'' kvs;
          src \<leftarrow> jstr_field ''source'' kvs; why \<leftarrow> jstr_field ''reason'' kvs;
          Some \<lparr>re_OldPriority = old, re_NewPriority = new, re_Source = src, re_Reason = why\<rparr> }"

lemma quotient_of_int_eq [simp]: "quotient_of (of_int i) = (i, 1)"
  by (metis Rat.of_int_def quotient_of_int)

lemma ParseReprioritizeEvidence_roundtrip:
  "int64 (re_OldPriority e) \<Longrightarrow> int64 (re_NewPriority e) \<Longrightarrow>
   ParseReprioritizeEvidence (marshal (ReprioritizeEvidence e)) = Some e"
  by (cases e) (simp add: ParseReprioritizeEvidence_def ReprioritizeEvidence_def jfields_def
      jint_field_def jstr_field_def omit_empty_def)

definition ParkedDetail :: "string \<Rightarrow> int \<Rightarrow> string \<Rightarrow> json" where
  "ParkedDetail reason until_ms by_whom =
     JObj (omit_empty ''reason'' reason @ [(''until_ms'', jint until_ms)] @ omit_empty ''by'' by_whom)"

definition ValidQuestionType :: "string \<Rightarrow> bool" where
  "ValidQuestionType t \<longleftrightarrow> t \<in> {''info'', ''approval'', ''confirmation'', ''input''}"

definition QuestionAnsweredDetail :: "string \<Rightarrow> string \<Rightarrow> string \<Rightarrow> string \<Rightarrow> int \<Rightarrow> json" where
  "QuestionAnsweredDetail ref question answer pap_id answered_at =
     JObj ([(''ref'', JStr ref)] @ omit_empty ''question'' question @ [(''answer'', JStr answer)]
       @ omit_empty ''pap_id'' pap_id @ [(''answered_at'', jint answered_at)])"

record answer_record =
  an_Ref :: string
  an_Answer :: string
  an_PapID :: string
  an_AnsweredAt :: go_time
  an_Question :: string

record watermark_entry =
  wm_Consumer :: string
  wm_Seq :: int
  wm_UpdatedAt :: int

record priority_score =
  ps_ItemKey :: string
  ps_Score :: int
  ps_EffortMinutes :: int
  ps_Source :: string
  ps_Reasoning :: string
  ps_Tokens :: int
  ps_ScoredAt :: int

section \<open>The store as the facade sees it\<close>

text \<open>
  \<open>Queue\<close> embeds a \<open>Store\<close>. These are the methods the package calls on it; a method that changes
  the store returns the new one, also when it fails.
\<close>

record 's store_ops =
  st_Enqueue :: "new_task \<Rightarrow> 's \<Rightarrow> (qerr + task) \<times> 's"
  st_List :: "task_filter \<Rightarrow> 's \<Rightarrow> qerr + task list"
  st_Get :: "task_id \<Rightarrow> 's \<Rightarrow> qerr + task"
  st_FactsForTask :: "string \<Rightarrow> int \<Rightarrow> 's \<Rightarrow> qerr + fact list"
  st_UpdatePendingPriority :: "task_id \<Rightarrow> int \<Rightarrow> string \<Rightarrow> string \<Rightarrow> 's \<Rightarrow> (qerr + unit) \<times> 's"

text \<open>\<open>Queue.Enqueue\<close> returns a task and an error: both are present when the done-guard refuses.\<close>

definition Queue_Enqueue :: "'s store_ops \<Rightarrow> new_task \<Rightarrow> 's \<Rightarrow> (task option \<times> qerr option) \<times> 's" where
  "Queue_Enqueue ops n s =
     (case st_Enqueue ops (Normalize n) s of
        (Inl e, s') \<Rightarrow> ((None, Some e), s')
      | (Inr t, s') \<Rightarrow> if Status t = Completed then ((Some t, Some ErrTaskDone), s') else ((Some t, None), s'))"

definition CountStuckRunning :: "'s store_ops \<Rightarrow> 's \<Rightarrow> go_time \<Rightarrow> int" where
  "CountStuckRunning ops s now =
     (case st_List ops (no_filter\<lparr>fl_Status := Some Running\<rparr>) s of
        Inl _ \<Rightarrow> 0
      | Inr ts \<Rightarrow> int (length (filter
          (\<lambda>t. case LeaseExpires t of None \<Rightarrow> False | Some e \<Rightarrow> e < now) ts)))"

definition ClaimCount :: "'s store_ops \<Rightarrow> 's \<Rightarrow> string \<Rightarrow> qerr + int" where
  "ClaimCount ops s i =
     (case st_FactsForTask ops i 0 s of
        Inl e \<Rightarrow> Inl e
      | Inr fs \<Rightarrow> Inr (int (length (filter (\<lambda>f. FType f = F_Claimed) fs))))"

section \<open>The unblock bump\<close>

record unblock_change =
  uc_TaskID :: task_id
  uc_OldPriority :: int
  uc_NewPriority :: int
  uc_CompletedDeps :: int

text \<open>\<open>completedDeps\<close>: a dependency that is not found never completes; another error aborts.\<close>

fun completedDeps :: "'s store_ops \<Rightarrow> 's \<Rightarrow> task_id list \<Rightarrow> qerr + int" where
  "completedDeps ops s [] = Inr 0"
| "completedDeps ops s (d # ds) =
     (case st_Get ops d s of
        Inl e \<Rightarrow> if e = TaskErr ErrNotFound then completedDeps ops s ds else Inl e
      | Inr t \<Rightarrow>
          (case completedDeps ops s ds of
             Inl e \<Rightarrow> Inl e
           | Inr n \<Rightarrow> Inr (if Status t = Completed then n + 1 else n)))"

text \<open>The fact trail already carries an unblock bump.\<close>

definition bumped_before :: "fact list \<Rightarrow> bool" where
  "bumped_before trail \<longleftrightarrow> (\<exists>f\<in>set trail. FType f = F_Reprioritized \<and>
     (case ParseReprioritizeEvidence (Detail f) of None \<Rightarrow> False
      | Some e \<Rightarrow> re_Source e = PrioritySourceUnblock))"

definition bump_reason :: "task \<Rightarrow> string" where
  "bump_reason t = ''all '' @ show_nat (length (Deps t)) @ '' dep(s) completed''"

text \<open>\<open>bumpIfFresh\<close>: the change that was (or would be) applied, if any.\<close>

definition bumpIfFresh :: "'s store_ops \<Rightarrow> task \<Rightarrow> bool \<Rightarrow> 's \<Rightarrow> (qerr + unblock_change option) \<times> 's" where
  "bumpIfFresh ops t dryRun s =
     (case st_FactsForTask ops (ID t) 0 s of
        Inl e \<Rightarrow> (Inl e, s)
      | Inr trail \<Rightarrow>
          if bumped_before trail then (Inr None, s)
          else let newPriority = ClampBacklog (Priority t + UnblockBumpPriority) in
            if newPriority = Priority t then (Inr None, s)
            else let change = \<lparr>uc_TaskID = ID t, uc_OldPriority = Priority t,
                               uc_NewPriority = newPriority, uc_CompletedDeps = int (length (Deps t))\<rparr> in
              if dryRun then (Inr (Some change), s)
              else (case st_UpdatePendingPriority ops (ID t) newPriority PrioritySourceUnblock (bump_reason t) s of
                      (Inl e, s') \<Rightarrow> (Inl e, s')
                    | (Inr _, s') \<Rightarrow> (Inr (Some change), s')))"

text \<open>The loop of \<open>BumpUnblocked\<close> over the listed tasks; the changes so far survive an error.\<close>

fun bump_loop :: "'s store_ops \<Rightarrow> bool \<Rightarrow> task list \<Rightarrow> 's \<Rightarrow> (unblock_change list \<times> qerr option) \<times> 's" where
  "bump_loop ops dryRun [] s = (([], None), s)"
| "bump_loop ops dryRun (t # ts) s =
     (if Deps t = [] \<or> BandOf (Priority t) \<noteq> BandBacklog then bump_loop ops dryRun ts s
      else case completedDeps ops s (Deps t) of
        Inl e \<Rightarrow> (([], Some e), s)
      | Inr n \<Rightarrow>
          if n \<noteq> int (length (Deps t)) then bump_loop ops dryRun ts s
          else case bumpIfFresh ops t dryRun s of
            (Inl e, s') \<Rightarrow> (([], Some e), s')
          | (Inr None, s') \<Rightarrow> bump_loop ops dryRun ts s'
          | (Inr (Some c), s') \<Rightarrow>
              (case bump_loop ops dryRun ts s' of ((cs, e), s'') \<Rightarrow> ((c # cs, e), s'')))"

definition BumpUnblocked :: "'s store_ops \<Rightarrow> bool \<Rightarrow> 's \<Rightarrow> (unblock_change list \<times> qerr option) \<times> 's" where
  "BumpUnblocked ops dryRun s =
     (case st_List ops (no_filter\<lparr>fl_Status := Some Pending\<rparr>) s of
        Inl e \<Rightarrow> (([], Some e), s)
      | Inr ts \<Rightarrow> bump_loop ops dryRun ts s)"

section \<open>The unblock bump, characterised\<close>

text \<open>The count of completed dependencies is full exactly when each one is there and completed.\<close>

lemma completedDeps_le: "completedDeps ops s ds = Inr n \<Longrightarrow> n \<le> int (length ds)"
  by (induction ds arbitrary: n) (fastforce split: sum.splits if_splits)+

lemma completedDeps_full:
  "completedDeps ops s ds = Inr (int (length ds)) \<longleftrightarrow>
     (\<forall>d\<in>set ds. \<exists>t. st_Get ops d s = Inr t \<and> Status t = Completed)"
proof (induction ds)
  case (Cons d ds)
  show ?case
  proof (cases "st_Get ops d s")
    case (Inl e)
    then show ?thesis using completedDeps_le [of ops s ds "int (length ds) + 1"] by auto
  next
    case (Inr t)
    have "completedDeps ops s ds \<noteq> Inr (int (length ds) + 1)"
      using completedDeps_le [of ops s ds "int (length ds) + 1"] by auto
    then show ?thesis using Inr Cons.IH by (auto split: sum.splits)
  qed
qed simp

lemma bump_raises:
  "BandOf p = BandBacklog \<Longrightarrow> ClampBacklog (p + UnblockBumpPriority) \<noteq> p \<Longrightarrow> p < ClampBacklog (p + UnblockBumpPriority)"
  by (auto simp: BandOf_def ClampBacklog_def band_consts UnblockBumpPriority_def split: if_splits)

text \<open>The task's fact trail shows an unblock bump.\<close>

definition marked :: "'s store_ops \<Rightarrow> 's \<Rightarrow> task_id \<Rightarrow> bool" where
  "marked ops s i \<longleftrightarrow> (\<exists>trail. st_FactsForTask ops i 0 s = Inr trail \<and> bumped_before trail)"

definition bump_change :: "task \<Rightarrow> unblock_change" where
  "bump_change t = \<lparr>uc_TaskID = ID t, uc_OldPriority = Priority t,
     uc_NewPriority = ClampBacklog (Priority t + UnblockBumpPriority), uc_CompletedDeps = int (length (Deps t))\<rparr>"

lemma bumpIfFresh_cases:
  assumes "bumpIfFresh ops t dryRun s = (r, s')"
  obtains
    (Failed) e where "r = Inl e" "s' = s \<or> st_UpdatePendingPriority ops (ID t)
        (ClampBacklog (Priority t + UnblockBumpPriority)) PrioritySourceUnblock (bump_reason t) s = (Inl e, s')"
  | (Skipped) "r = Inr None" "s' = s"
  | (Bumped) "r = Inr (Some (bump_change t))" "\<not> marked ops s (ID t)"
      "ClampBacklog (Priority t + UnblockBumpPriority) \<noteq> Priority t"
      "if dryRun then s' = s else \<exists>u. st_UpdatePendingPriority ops (ID t)
        (ClampBacklog (Priority t + UnblockBumpPriority)) PrioritySourceUnblock (bump_reason t) s = (Inr u, s')"
proof (cases "st_FactsForTask ops (ID t) 0 s")
  case (Inl e)
  then show ?thesis using assms by (intro that(1)) (auto simp: bumpIfFresh_def)
next
  case (Inr trail)
  show ?thesis
  proof (cases "bumped_before trail \<or> ClampBacklog (Priority t + UnblockBumpPriority) = Priority t")
    case True
    then have "bumpIfFresh ops t dryRun s = (Inr None, s)"
      using Inr by (elim disjE) (simp_all add: bumpIfFresh_def Let_def)
    then show ?thesis using assms by (intro that(2)) simp_all
  next
    case False
    obtain r1 s1 where upd: "st_UpdatePendingPriority ops (ID t) (ClampBacklog (Priority t + UnblockBumpPriority))
        PrioritySourceUnblock (bump_reason t) s = (r1, s1)" by fastforce
    have m: "\<not> marked ops s (ID t)" using False Inr by (simp add: marked_def)
    have run: "bumpIfFresh ops t dryRun s = (if dryRun then (Inr (Some (bump_change t)), s)
        else case r1 of Inl e \<Rightarrow> (Inl e, s1) | Inr u \<Rightarrow> (Inr (Some (bump_change t)), s1))"
      using Inr False upd by (simp add: bumpIfFresh_def Let_def bump_change_def split: sum.split)
    show ?thesis
    proof (cases dryRun)
      case True
      then show ?thesis using run assms False m by (intro that(3)) simp_all
    next
      case live: False
      show ?thesis
      proof (cases r1)
        case (Inl e)
        then show ?thesis using run assms live upd by (intro that(1) [of e]) simp_all
      next
        case (Inr u)
        then show ?thesis using run assms live upd False m by (intro that(3)) auto
      qed
    qed
  qed
qed

text \<open>
  What a listed task went through when the loop reports a change for it: the state in which it was
  looked at, and how the state moved.
\<close>

definition bumped_from :: "'s store_ops \<Rightarrow> 's \<Rightarrow> task \<Rightarrow> bool" where
  "bumped_from ops s t \<longleftrightarrow> Deps t \<noteq> [] \<and> BandOf (Priority t) = BandBacklog
     \<and> (\<forall>d\<in>set (Deps t). \<exists>u. st_Get ops d s = Inr u \<and> Status u = Completed)
     \<and> \<not> marked ops s (ID t) \<and> Priority t < uc_NewPriority (bump_change t)"

definition update_keeps :: "'s store_ops \<Rightarrow> ('s \<Rightarrow> bool) \<Rightarrow> bool" where
  "update_keeps ops P \<longleftrightarrow> (\<forall>i p src why s. P s \<longrightarrow> P (snd (st_UpdatePendingPriority ops i p src why s)))"

definition eligible :: "'s store_ops \<Rightarrow> 's \<Rightarrow> task \<Rightarrow> bool" where
  "eligible ops s t \<longleftrightarrow> Deps t \<noteq> [] \<and> BandOf (Priority t) = BandBacklog
     \<and> completedDeps ops s (Deps t) = Inr (int (length (Deps t)))"

lemma bump_loop_skip:
  "\<not> eligible ops s t \<Longrightarrow> bump_loop ops dryRun (t # ts) s = bump_loop ops dryRun ts s
     \<or> (\<exists>er. bump_loop ops dryRun (t # ts) s = (([], Some er), s))"
  by (cases "Deps t = [] \<or> BandOf (Priority t) \<noteq> BandBacklog"; cases "completedDeps ops s (Deps t)")
    (auto simp: eligible_def)

lemma bump_loop_take:
  "eligible ops s t \<Longrightarrow> bumpIfFresh ops t dryRun s = (r, s1) \<Longrightarrow> bump_loop ops dryRun (t # ts) s = (case (r, s1) of
        (Inl er, s1) \<Rightarrow> (([], Some er), s1) | (Inr None, s1) \<Rightarrow> bump_loop ops dryRun ts s1
      | (Inr (Some c), s1) \<Rightarrow> (case bump_loop ops dryRun ts s1 of ((cs, e), s2) \<Rightarrow> ((c # cs, e), s2)))"
  by (simp add: eligible_def)

lemma bump_loop_sound:
  assumes "bump_loop ops dryRun ts s = ((cs, e), s')" "update_keeps ops P" "P s"
  shows "P s' \<and> (dryRun \<longrightarrow> s' = s)
     \<and> (\<forall>c\<in>set cs. \<exists>t\<in>set ts. \<exists>s0. c = bump_change t \<and> P s0 \<and> (dryRun \<longrightarrow> s0 = s) \<and> bumped_from ops s0 t)"
  using assms(1,3)
proof (induction ts arbitrary: s cs e s')
  case (Cons t ts)
  show ?case
  proof (cases "eligible ops s t")
    case False
    from bump_loop_skip [OF this, of dryRun ts] show ?thesis
      by (rule disjE) (use Cons.IH [of s cs e s'] Cons.prems in \<open>auto simp del: bump_loop.simps\<close>)
  next
    case el: True
    then have full: "Deps t \<noteq> []" "BandOf (Priority t) = BandBacklog"
        "\<forall>d\<in>set (Deps t). \<exists>u. st_Get ops d s = Inr u \<and> Status u = Completed"
      by (simp_all add: eligible_def completedDeps_full)
    obtain r s1 where bump: "bumpIfFresh ops t dryRun s = (r, s1)" by fastforce
    note loop = bump_loop_take [OF el bump, of ts]
    have upd: "st_UpdatePendingPriority ops i p src why s = (x, s1) \<Longrightarrow> P s1" for i p src why x
      using assms(2) Cons.prems(2) unfolding update_keeps_def by (metis snd_conv)
    from bump show ?thesis
    proof (cases rule: bumpIfFresh_cases)
      case (Failed er)
      then have "P s1 \<and> (dryRun \<longrightarrow> s1 = s)"
        using upd Cons.prems(2) bump by (auto simp: bumpIfFresh_def Let_def split: sum.splits if_splits)
      then show ?thesis using loop Cons.prems(1) Failed(1) by (simp del: bump_loop.simps)
    next
      case Skipped
      then show ?thesis using loop Cons.IH [of s cs e s'] Cons.prems by (auto simp del: bump_loop.simps)
    next
      case Bumped
      obtain cs' e' s2 where rest: "bump_loop ops dryRun ts s1 = ((cs', e'), s2)" by (metis prod.collapse)
      have P1: "P s1" "dryRun \<longrightarrow> s1 = s" using Bumped(4) upd Cons.prems(2) by (auto split: if_splits)
      have eqs: "cs = bump_change t # cs'" "s' = s2" using loop rest Bumped(1) Cons.prems(1) by (simp_all del: bump_loop.simps)
      have "bumped_from ops s t"
        using full Bumped(2,3) bump_raises [of "Priority t"] by (simp add: bumped_from_def bump_change_def)
      then show ?thesis using Cons.IH [OF rest P1(1)] P1(2) Cons.prems(2) unfolding eqs by auto
    qed
  qed
qed simp

lemma bump_loop_marks:
  assumes "bump_loop ops False ts s = ((cs, e), s')"
    and keep: "\<And>j. update_keeps ops (\<lambda>s. marked ops s j)"
    and new: "\<And>i p why s u s'. st_UpdatePendingPriority ops i p PrioritySourceUnblock why s = (Inr u, s') \<Longrightarrow> marked ops s' i"
  shows "\<forall>c\<in>set cs. marked ops s' (uc_TaskID c)"
  using assms(1)
proof (induction ts arbitrary: s cs e s')
  case (Cons t ts)
  show ?case
  proof (cases "eligible ops s t")
    case False
    from bump_loop_skip [OF this, of False ts] show ?thesis
      by (rule disjE) (use Cons.IH [of s cs e s'] Cons.prems in \<open>auto simp del: bump_loop.simps\<close>)
  next
    case el: True
    obtain r s1 where bump: "bumpIfFresh ops t False s = (r, s1)" by fastforce
    note loop = bump_loop_take [OF el bump, of ts]
    from bump show ?thesis
    proof (cases rule: bumpIfFresh_cases)
      case (Failed er)
      then show ?thesis using loop Cons.prems by (simp del: bump_loop.simps)
    next
      case Skipped
      then show ?thesis using loop Cons.IH [of s cs e s'] Cons.prems by (simp del: bump_loop.simps)
    next
      case Bumped
      obtain cs' e' s2 where rest: "bump_loop ops False ts s1 = ((cs', e'), s2)" by (metis prod.collapse)
      have eqs: "cs = bump_change t # cs'" "s' = s2" using loop rest Bumped(1) Cons.prems by (simp_all del: bump_loop.simps)
      have "marked ops s1 (ID t)" using Bumped(4) new by auto
      then have "marked ops s2 (ID t)" using bump_loop_sound [OF rest keep] by blast
      then show ?thesis using Cons.IH [OF rest] unfolding eqs by (simp add: bump_change_def)
    qed
  qed
qed simp

section \<open>Properties\<close>

text \<open>
  C19: the unblock bump is safe. Every change it reports is for a listed task with dependencies, all of
  which were found completed; it raises the priority, by at most \<open>UnblockBumpPriority\<close> above zero, and
  leaves the task in the backlog band; and a dry run changes nothing. For every store.
\<close>

theorem BumpUnblocked_is_safe:
  assumes "BumpUnblocked ops dryRun s = ((cs, e), s')"
  shows "(dryRun \<longrightarrow> s' = s)
     \<and> (\<forall>c\<in>set cs. uc_OldPriority c < uc_NewPriority c
          \<and> uc_NewPriority c \<le> max 0 (uc_OldPriority c + UnblockBumpPriority)
          \<and> BandOf (uc_OldPriority c) = BandBacklog \<and> BandOf (uc_NewPriority c) = BandBacklog
          \<and> (\<exists>ts t s0. st_List ops (no_filter\<lparr>fl_Status := Some Pending\<rparr>) s = Inr ts \<and> t \<in> set ts
               \<and> uc_TaskID c = ID t \<and> uc_OldPriority c = Priority t \<and> Deps t \<noteq> [] \<and> (dryRun \<longrightarrow> s0 = s)
               \<and> (\<forall>d\<in>set (Deps t). \<exists>u. st_Get ops d s0 = Inr u \<and> Status u = Completed)))"
proof (cases "st_List ops (no_filter\<lparr>fl_Status := Some Pending\<rparr>) s")
  case (Inl er)
  then show ?thesis using assms by (auto simp: BumpUnblocked_def)
next
  case (Inr ts)
  then have "bump_loop ops dryRun ts s = ((cs, e), s')" using assms by (simp add: BumpUnblocked_def)
  then have "(dryRun \<longrightarrow> s' = s) \<and> (\<forall>c\<in>set cs. \<exists>t\<in>set ts. \<exists>s0. c = bump_change t
      \<and> (dryRun \<longrightarrow> s0 = s) \<and> bumped_from ops s0 t)"
    using bump_loop_sound [of ops dryRun ts s cs e s' "\<lambda>_. True"] by (simp add: update_keeps_def)
  moreover have clamp: "ClampBacklog (p + UnblockBumpPriority) \<le> max 0 (p + UnblockBumpPriority)" for p
    by (simp add: ClampBacklog_def band_consts UnblockBumpPriority_def)
  ultimately have dry: "dryRun \<longrightarrow> s' = s" and each: "\<And>c. c \<in> set cs \<Longrightarrow> \<exists>t\<in>set ts. \<exists>s0. c = bump_change t
      \<and> (dryRun \<longrightarrow> s0 = s) \<and> bumped_from ops s0 t" by blast+
  show ?thesis
  proof (intro conjI ballI dry)
    fix c assume "c \<in> set cs"
    then obtain t s0 where t: "t \<in> set ts" "c = bump_change t" "dryRun \<longrightarrow> s0 = s" "bumped_from ops s0 t"
      using each by blast
    show "uc_OldPriority c < uc_NewPriority c" "uc_NewPriority c \<le> max 0 (uc_OldPriority c + UnblockBumpPriority)"
      "BandOf (uc_OldPriority c) = BandBacklog" "BandOf (uc_NewPriority c) = BandBacklog"
      using t(4) clamp [of "Priority t"] unfolding t(2) by (simp_all add: bumped_from_def bump_change_def)
    show "\<exists>ts t s0. st_List ops (no_filter\<lparr>fl_Status := Some Pending\<rparr>) s = Inr ts \<and> t \<in> set ts
               \<and> uc_TaskID c = ID t \<and> uc_OldPriority c = Priority t \<and> Deps t \<noteq> [] \<and> (dryRun \<longrightarrow> s0 = s)
               \<and> (\<forall>d\<in>set (Deps t). \<exists>u. st_Get ops d s0 = Inr u \<and> Status u = Completed)"
      by (rule exI [of _ ts], rule exI [of _ t], rule exI [of _ s0])
        (use t Inr in \<open>simp add: bumped_from_def bump_change_def\<close>)
  qed
qed

text \<open>
  A task is bumped at most once. On a store where a successful reprioritization from the unblock
  source shows in the task's fact trail, and where no reprioritization hides another task's bump, the
  tasks bumped by a second run, on any later state that still shows the first run's bumps, are
  different from those bumped by the first.
\<close>

theorem BumpUnblocked_at_most_once:
  assumes "BumpUnblocked ops False s = ((cs, e), s1)" "BumpUnblocked ops False s2 = ((cs', e'), s3)"
    and "\<forall>i p why s u s'. st_UpdatePendingPriority ops i p PrioritySourceUnblock why s = (Inr u, s') \<longrightarrow> marked ops s' i"
    and "\<forall>j i p src why s. marked ops s j \<longrightarrow> marked ops (snd (st_UpdatePendingPriority ops i p src why s)) j"
    and "\<forall>j. marked ops s1 j \<longrightarrow> marked ops s2 j"
  shows "uc_TaskID ` set cs \<inter> uc_TaskID ` set cs' = {}"
proof -
  have keep: "update_keeps ops (\<lambda>s. marked ops s j)" for j using assms(4) by (simp add: update_keeps_def)
  have first: "marked ops s1 (uc_TaskID c)" if "c \<in> set cs" for c
  proof (cases "st_List ops (no_filter\<lparr>fl_Status := Some Pending\<rparr>) s")
    case (Inl er) then show ?thesis using assms(1) that by (simp add: BumpUnblocked_def)
  next
    case (Inr ts)
    then have "bump_loop ops False ts s = ((cs, e), s1)" using assms(1) by (simp add: BumpUnblocked_def)
    then have "\<forall>c\<in>set cs. marked ops s1 (uc_TaskID c)" by (rule bump_loop_marks [OF _ keep]) (use assms(3) in blast)
    then show ?thesis using that by simp
  qed
  have second: "\<not> marked ops s2 (uc_TaskID c)" if c: "c \<in> set cs'" for c
  proof (cases "st_List ops (no_filter\<lparr>fl_Status := Some Pending\<rparr>) s2")
    case (Inl er) then show ?thesis using assms(2) c by (simp add: BumpUnblocked_def)
  next
    case (Inr ts)
    then have loop: "bump_loop ops False ts s2 = ((cs', e'), s3)" using assms(2) by (simp add: BumpUnblocked_def)
    show ?thesis
    proof
      assume m: "marked ops s2 (uc_TaskID c)"
      obtain t s0 where "c = bump_change t" "marked ops s0 (uc_TaskID c)" "bumped_from ops s0 t"
        using bump_loop_sound [OF loop keep m, THEN conjunct2, THEN conjunct2, THEN bspec, OF c]
        by (elim bexE exE conjE) rule
      then show False by (simp add: bumped_from_def bump_change_def)
    qed
  qed
  show ?thesis
  proof (rule equals0I, elim IntE imageE)
    fix j c c' assume "j = uc_TaskID c" "c \<in> set cs" "j = uc_TaskID c'" "c' \<in> set cs'"
    then show False using first [of c] second [of c'] assms(5) by simp
  qed
qed

text \<open>
  A store for closed examples: the state is its journal, two pending tasks depend on a completed one,
  and a reprioritization is recorded with its evidence.
\<close>

definition demo_task :: "task_id \<Rightarrow> task_id list \<Rightarrow> status \<Rightarrow> task" where
  "demo_task i ds st = \<lparr>ID = i, Project = [], Type = ''sh'', Payload = empty_text, Deps = ds, Priority = 10,
     Attempts = 0, MaxAttempts = 3, NotBefore = 0, Status = st, LeaseOwner = [], LeaseExpires = None,
     LastError = [], DedupKey = [], CreatedAt = 0, UpdatedAt = 0, CompletedAt = None\<rparr>"

definition demo_ops :: "fact list store_ops" where
  "demo_ops =
     \<lparr>st_Enqueue = (\<lambda>n s. (Inl ErrEmptyType, s)),
      st_List = (\<lambda>f s. Inr [demo_task ''a'' [''d''] Pending, demo_task ''b'' [] Pending]),
      st_Get = (\<lambda>i s. Inr (demo_task i [] Completed)),
      st_FactsForTask = (\<lambda>i limit s. Inr (filter (\<lambda>f. TaskID f = i) s)),
      st_UpdatePendingPriority = (\<lambda>i p src why s. (Inr (), s @ [blank_fact\<lparr>TaskID := i, FType := F_Reprioritized,
         Detail := marshal (ReprioritizeEvidence \<lparr>re_OldPriority = 0, re_NewPriority = 0, re_Source = src, re_Reason = why\<rparr>)\<rparr>]))\<rparr>"

lemma demo_ops_marked: "marked demo_ops s i \<longleftrightarrow> bumped_before (filter (\<lambda>f. TaskID f = i) s)"
  by (simp add: marked_def demo_ops_def)

lemma demo_ops_update:
  "st_UpdatePendingPriority demo_ops i p src why s = (Inr (), snd (st_UpdatePendingPriority demo_ops i p src why s))"
  "marked demo_ops s j \<Longrightarrow> marked demo_ops (snd (st_UpdatePendingPriority demo_ops i p src why s)) j"
  "marked demo_ops (snd (st_UpdatePendingPriority demo_ops i p PrioritySourceUnblock why s)) i"
  unfolding demo_ops_marked
  by (auto simp: demo_ops_def bumped_before_def ParseReprioritizeEvidence_roundtrip int64_def)

lemma demo_ops_bump:
  "fst (BumpUnblocked demo_ops False []) = ([bump_change (demo_task ''a'' [''d''] Pending)], None)"
  by (simp add: BumpUnblocked_def demo_ops_def demo_task_def bumpIfFresh_def bumped_before_def bump_change_def
      BandOf_def band_consts ClampBacklog_def UnblockBumpPriority_def)

lemma BumpUnblocked_is_safe_witness:
  "\<exists>cs s'. BumpUnblocked demo_ops False [] = ((cs, None), s') \<and> cs \<noteq> []
     \<and> (\<forall>c\<in>set cs. uc_OldPriority c < uc_NewPriority c)"
proof -
  obtain cs e s' where run: "BumpUnblocked demo_ops False [] = ((cs, e), s')" by (metis prod.collapse)
  then have "cs \<noteq> []" "e = None" using demo_ops_bump by simp_all
  then show ?thesis using run BumpUnblocked_is_safe [OF run] by simp
qed

lemma BumpUnblocked_at_most_once_witness:
  "\<exists>cs e s1 cs' e' s3. BumpUnblocked demo_ops False [] = ((cs, e), s1) \<and> cs \<noteq> []
     \<and> BumpUnblocked demo_ops False s1 = ((cs', e'), s3) \<and> uc_TaskID ` set cs \<inter> uc_TaskID ` set cs' = {}"
proof -
  obtain cs e s1 where run: "BumpUnblocked demo_ops False [] = ((cs, e), s1)" by (metis prod.collapse)
  obtain cs' e' s3 where run': "BumpUnblocked demo_ops False s1 = ((cs', e'), s3)" by (metis prod.collapse)
  have "marked demo_ops s' i" if "st_UpdatePendingPriority demo_ops i p PrioritySourceUnblock why s = (Inr u, s')" for i p why s u s'
    using that demo_ops_update(3) [of i p why s] by simp
  then have "uc_TaskID ` set cs \<inter> uc_TaskID ` set cs' = {}"
    using demo_ops_update(2) by (intro BumpUnblocked_at_most_once [OF run run']) blast+
  moreover have "cs \<noteq> []" using demo_ops_bump run by simp
  ultimately show ?thesis using run run' by blast
qed

end
