(* ===== verification/Tq_Tables.thy ===== *)
theory Tq_Tables
  imports Tq_Queue
begin

text \<open>
  The shared database as the companion package reads and writes it: the rows of the tables
  \<open>tasks\<close>, \<open>deps\<close>, \<open>facts\<close>, \<open>watermarks\<close> and \<open>priority_scores\<close>, transactions (\<open>WithTx\<close>), the
  row scanners of \<open>reads.go\<close> and the fact insert of \<open>claims.go\<close>. Text columns that the queries read
  through \<open>COALESCE(_, '')\<close> are strings, times are Unix milliseconds, and \<open>NULL\<close> times are \<open>None\<close>.
  The facts table interprets the locale \<open>fact_log\<close>: every insert goes to the end under a fresh
  sequence number.
\<close>

section \<open>Rows\<close>

record task_row =
  r_id :: task_id
  r_project :: string
  r_type :: string
  r_payload :: jtext
  r_deps :: jtext
  r_priority :: int
  r_attempts :: int
  r_max_attempts :: int
  r_not_before :: int
  r_status :: status
  r_lease_owner :: string
  r_lease_expires :: "int option"
  r_lease_token :: string
  r_last_error :: string
  r_created_at :: int
  r_updated_at :: int
  r_completed_at :: "int option"
  r_dedup_key :: string

record db =
  db_tasks :: "task_row list"
  db_deps :: "(task_id \<times> task_id) list"
  db_facts :: "fact list"
  db_next_seq :: int
  db_watermarks :: "watermark_entry list"
  db_scores :: "priority_score list"

text \<open>
  What the schema and the engine's auto-increment give: primary keys are unique, sequence numbers
  grow, and the next one is above all that were handed out.
\<close>

definition facts_ok :: "db \<Rightarrow> bool" where
  "facts_ok d \<longleftrightarrow> seq_sorted (db_facts d) \<and> (\<forall>f\<in>set (db_facts d). Seq f < db_next_seq d)"

definition db_ok :: "db \<Rightarrow> bool" where
  "db_ok d \<longleftrightarrow> distinct (map r_id (db_tasks d)) \<and> facts_ok d
     \<and> distinct (map wm_Consumer (db_watermarks d)) \<and> distinct (map ps_ItemKey (db_scores d))"

lemma db_ok_facts [simp]: "db_ok d \<Longrightarrow> facts_ok d"
  by (simp add: db_ok_def)

lemma db_ok_ids: "db_ok d \<Longrightarrow> distinct (map r_id (db_tasks d))"
  by (simp add: db_ok_def)

definition row_of :: "db \<Rightarrow> task_id \<Rightarrow> task_row option" where
  "row_of d i = find (\<lambda>r. r_id r = i) (db_tasks d)"

lemma row_of_mem: "row_of d i = Some r \<Longrightarrow> r \<in> set (db_tasks d) \<and> r_id r = i"
  by (auto simp: row_of_def dest: find_SomeD)

lemma row_of_unique: "db_ok d \<Longrightarrow> r \<in> set (db_tasks d) \<Longrightarrow> row_of d (r_id r) = Some r"
  by (simp add: row_of_def find_key_Some db_ok_ids)

lemma row_of_None: "row_of d i = None \<longleftrightarrow> i \<notin> r_id ` set (db_tasks d)"
  by (auto simp: row_of_def find_None_iff_all)

section \<open>Transactions\<close>

text \<open>\<open>WithTx\<close>: the body sees the database and either commits its new state or rolls back.\<close>

definition WithTx :: "(db \<Rightarrow> qerr + ('a \<times> db)) \<Rightarrow> db \<Rightarrow> (qerr + 'a) \<times> db" where
  "WithTx fn d = (case fn d of Inl e \<Rightarrow> (Inl e, d) | Inr (a, d') \<Rightarrow> (Inr a, d'))"

lemma WithTx_Inl [simp]: "fn d = Inl e \<Longrightarrow> WithTx fn d = (Inl e, d)"
  by (simp add: WithTx_def)

lemma WithTx_Inr [simp]: "fn d = Inr (a, d') \<Longrightarrow> WithTx fn d = (Inr a, d')"
  by (simp add: WithTx_def)

lemma WithTx_Inr_iff: "WithTx fn d = (Inr a, d') \<longleftrightarrow> fn d = Inr (a, d')"
  by (auto simp: WithTx_def split: sum.splits prod.splits)

lemma WithTx_Inl_iff: "WithTx fn d = (Inl e, d') \<longleftrightarrow> fn d = Inl e \<and> d' = d"
  by (auto simp: WithTx_def split: sum.splits prod.splits)

section \<open>Scanning\<close>

text \<open>The \<open>deps\<close> column: empty and \<open>[]\<close> are no dependencies, anything else is a JSON array of strings.\<close>

fun scan_dep :: "json \<Rightarrow> task_id option" where
  "scan_dep (JStr s) = Some s"
| "scan_dep JNull = Some []"
| "scan_dep _ = None"

definition scan_deps :: "jtext \<Rightarrow> task_id list option" where
  "scan_deps t =
     (if jt_text t = [] \<or> jt_text t = ''[]'' then Some []
      else case jt_parse t of
        Some (JArr js) \<Rightarrow> those (map scan_dep js)
      | Some JNull \<Rightarrow> Some []
      | _ \<Rightarrow> None)"

definition scanTaskRow :: "task_row \<Rightarrow> qerr + task" where
  "scanTaskRow r =
     (case scan_deps (r_deps r) of
        None \<Rightarrow> Inl (StoreErr (''companion: unmarshal deps for '' @ r_id r))
      | Some ds \<Rightarrow> Inr
          \<lparr>ID = r_id r, Project = r_project r, Type = r_type r, Payload = r_payload r, Deps = ds,
           Priority = r_priority r, Attempts = r_attempts r, MaxAttempts = r_max_attempts r,
           NotBefore = from_milli (r_not_before r), Status = r_status r,
           LeaseOwner = r_lease_owner r, LeaseExpires = map_option from_milli (r_lease_expires r),
           LastError = r_last_error r, DedupKey = r_dedup_key r,
           CreatedAt = from_milli (r_created_at r), UpdatedAt = from_milli (r_updated_at r),
           CompletedAt = map_option from_milli (r_completed_at r)\<rparr>)"

definition loadTask :: "db \<Rightarrow> task_id \<Rightarrow> qerr + task" where
  "loadTask d i = (case row_of d i of None \<Rightarrow> Inl (TaskErr ErrNotFound) | Some r \<Rightarrow> scanTaskRow r)"

lemma scanTaskRow_fields:
  "scanTaskRow r = Inr t \<Longrightarrow> ID t = r_id r \<and> Status t = r_status r \<and> Type t = r_type r
     \<and> Project t = r_project r \<and> Priority t = r_priority r \<and> Attempts t = r_attempts r
     \<and> LeaseOwner t = r_lease_owner r"
  by (auto simp: scanTaskRow_def split: option.splits)

section \<open>Statements\<close>

text \<open>\<open>UPDATE tasks SET \<dots> WHERE \<dots>\<close> with the number of affected rows.\<close>

definition exec_update :: "(task_row \<Rightarrow> bool) \<Rightarrow> (task_row \<Rightarrow> task_row) \<Rightarrow> db \<Rightarrow> int \<times> db" where
  "exec_update p f d =
     (int (length (filter p (db_tasks d))), d\<lparr>db_tasks := update_where p f (db_tasks d)\<rparr>)"

text \<open>
  \<open>appendFact\<close>: the time defaults to the clock and is stored in milliseconds, the database assigns
  the sequence number.
\<close>

definition append_row :: "go_time \<Rightarrow> fact \<Rightarrow> db \<Rightarrow> fact \<times> db" where
  "append_row now f d =
     (let t = (if is_zero (Time f) then now else Time f);
          f' = f\<lparr>Seq := db_next_seq d, Time := from_milli (unix_milli t)\<rparr>
      in (f', d\<lparr>db_facts := db_facts d @ [f'], db_next_seq := db_next_seq d + 1\<rparr>))"

definition appendFact :: "go_time \<Rightarrow> fact \<Rightarrow> db \<Rightarrow> db" where
  "appendFact now f d = snd (append_row now f d)"

definition mk_fact :: "task_id \<Rightarrow> fact_type \<Rightarrow> string \<Rightarrow> jtext \<Rightarrow> fact" where
  "mk_fact i ty owner det =
     blank_fact\<lparr>TaskID := i, FType := ty, Owner := owner, Detail := det\<rparr>"

lemma exec_update_count: "fst (exec_update p f d) = 0 \<longleftrightarrow> (\<forall>r\<in>set (db_tasks d). \<not> p r)"
  by (auto simp: exec_update_def filter_empty_conv)

lemma append_row_frame [tq_frame, simp]:
  "db_tasks (snd (append_row now f d)) = db_tasks d"
  "db_deps (snd (append_row now f d)) = db_deps d"
  "db_watermarks (snd (append_row now f d)) = db_watermarks d"
  "db_scores (snd (append_row now f d)) = db_scores d"
  by (simp_all add: append_row_def Let_def)

lemma appendFact_frame [tq_frame, simp]:
  "db_tasks (appendFact now f d) = db_tasks d"
  "db_deps (appendFact now f d) = db_deps d"
  "db_watermarks (appendFact now f d) = db_watermarks d"
  "db_scores (appendFact now f d) = db_scores d"
  by (simp_all add: appendFact_def)

lemma row_of_appendFact [simp]: "row_of (appendFact now f d) i = row_of d i"
  by (simp add: row_of_def)

lemma exec_update_frame [tq_frame, simp]:
  "db_deps (snd (exec_update p f d)) = db_deps d"
  "db_facts (snd (exec_update p f d)) = db_facts d"
  "db_next_seq (snd (exec_update p f d)) = db_next_seq d"
  "db_watermarks (snd (exec_update p f d)) = db_watermarks d"
  "db_scores (snd (exec_update p f d)) = db_scores d"
  "db_tasks (snd (exec_update p f d)) = update_where p f (db_tasks d)"
  by (simp_all add: exec_update_def)

text \<open>The stored form of a fact.\<close>

lemma appendFact_facts:
  "db_facts (appendFact now f d) = db_facts d @ [fst (append_row now f d)]"
  by (simp add: appendFact_def append_row_def Let_def)

lemma append_row_stored [simp]:
  "TaskID (fst (append_row now f d)) = TaskID f"
  "FType (fst (append_row now f d)) = FType f"
  "Owner (fst (append_row now f d)) = Owner f"
  "Detail (fst (append_row now f d)) = Detail f"
  "Error (fst (append_row now f d)) = Error f"
  "Seq (fst (append_row now f d)) = db_next_seq d"
  by (simp_all add: append_row_def Let_def)

lemma mk_fact_fields [simp]:
  "TaskID (mk_fact i ty owner det) = i" "FType (mk_fact i ty owner det) = ty"
  "Owner (mk_fact i ty owner det) = owner" "Detail (mk_fact i ty owner det) = det"
  by (simp_all add: mk_fact_def)

interpretation sqlj: fact_log "append_row now" db_facts facts_ok "\<lambda>_. True" for now :: go_time
proof
  fix d :: db and f g :: fact
  assume ok: "facts_ok d"
  show "db_facts (snd (append_row now f d)) = db_facts d @ [fst (append_row now f d)]"
    by (simp add: append_row_def Let_def)
  show "g \<in> set (db_facts d) \<Longrightarrow> Seq g < Seq (fst (append_row now f d))"
    using ok by (simp add: facts_ok_def)
  show "seq_sorted (db_facts d)" using ok by (simp add: facts_ok_def)
  show "facts_ok (snd (append_row now f d))"
    using ok by (auto simp: facts_ok_def append_row_def Let_def seq_sorted_def sorted_wrt_append)
qed

lemma appendFact_ok [tq_inv, simp]: "facts_ok d \<Longrightarrow> facts_ok (appendFact now f d)"
  by (simp add: appendFact_def sqlj.append_ok)

lemma appendFact_prefix: "prefix (db_facts d) (db_facts (appendFact now f d))"
  by (simp add: appendFact_facts)

lemma db_ok_appendFact [tq_inv, simp]: "db_ok d \<Longrightarrow> db_ok (appendFact now f d)"
  by (simp add: db_ok_def)

lemma db_ok_exec_update [tq_inv]:
  "db_ok d \<Longrightarrow> (\<And>r. p r \<Longrightarrow> r_id (f r) = r_id r) \<Longrightarrow> db_ok (snd (exec_update p f d))"
  by (simp add: db_ok_def facts_ok_def)

lemma row_of_update_other:
  "(\<And>r. p r \<Longrightarrow> r_id r \<noteq> i) \<Longrightarrow> (\<And>r. p r \<Longrightarrow> r_id (f r) = r_id r) \<Longrightarrow>
   row_of (snd (exec_update p f d)) i = row_of d i"
  unfolding row_of_def exec_update_frame by (rule find_update_other)

lemma row_of_update_hit:
  assumes "row_of d i = Some r" "p r" "\<And>r. p r \<Longrightarrow> r_id (f r) = r_id r"
  shows "row_of (snd (exec_update p f d)) i = Some (f r)"
  using assms unfolding row_of_def exec_update_frame by (rule find_update_hit)

text \<open>
  An update that hits one row, in the form the proofs use: unique identifiers turn the condition on
  the identifier into equality with the row.
\<close>

lemma update_one_row:
  assumes "distinct (map r_id xs)" "t \<in> set xs" "q t"
  shows "update_where (\<lambda>r. r_id r = r_id t \<and> q r) f xs = update_where (\<lambda>r. r = t) f xs"
  using assms by (auto simp: update_where_def dest: distinct_map_inj)

lemma row_of_replace:
  assumes "db_ok d" "t \<in> set (db_tasks d)" "r_id (f t) = r_id t"
    and "db_tasks d' = update_where (\<lambda>r. r = t) f (db_tasks d)"
  shows "row_of d' i = (if i = r_id t then Some (f t) else row_of d i)"
proof (cases "i = r_id t")
  case True
  then show ?thesis
    using find_update_hit [of r_id i "db_tasks d" t "\<lambda>r. r = t" f] assms row_of_unique [OF assms(1,2)]
    by (simp add: row_of_def)
next
  case False
  then show ?thesis
    using find_update_other [of "\<lambda>r. r = t" r_id i f "db_tasks d"] assms by (simp add: row_of_def)
qed

lemma set_replace: "t \<in> set xs \<Longrightarrow> set (update_where (\<lambda>r. r = t) f xs) = insert (f t) (set xs - {t})"
  by (auto simp: set_update_where)

section \<open>How the store may evolve\<close>

text \<open>
  The columns no operation rewrites, a legal status change, and the promise of the package comment:
  whatever happens to a row, a fact about that task is appended in the same transaction and nothing
  that was recorded is touched.
\<close>

definition same_identity :: "task_row \<Rightarrow> task_row \<Rightarrow> bool" where
  "same_identity r r' \<longleftrightarrow> r_id r' = r_id r \<and> r_project r' = r_project r \<and> r_type r' = r_type r
     \<and> r_deps r' = r_deps r \<and> r_created_at r' = r_created_at r \<and> r_dedup_key r' = r_dedup_key r
     \<and> r_max_attempts r' = r_max_attempts r"

definition legal_change :: "task_row \<Rightarrow> task_row \<Rightarrow> bool" where
  "legal_change r r' \<longleftrightarrow> same_identity r r' \<and>
     (r_status r' = r_status r \<or> CanTransitionTo (r_status r) (r_status r'))"

definition journaled :: "db \<Rightarrow> db \<Rightarrow> bool" where
  "journaled d d' \<longleftrightarrow>
     (\<exists>new. db_facts d' = db_facts d @ new \<and> db_deps d' = db_deps d \<and>
       (\<forall>i. row_of d' i = row_of d i \<or>
            (\<exists>r r'. row_of d i = Some r \<and> row_of d' i = Some r' \<and> legal_change r r'
               \<and> (\<exists>f\<in>set new. TaskID f = i))))"

lemma journaled_refl [simp]: "journaled d d"
  by (simp add: journaled_def)

lemma journaled_append: "journaled d (appendFact now f d)"
  by (simp add: journaled_def appendFact_facts)

lemma journaled_replace:
  assumes "db_ok d" "t \<in> set (db_tasks d)" "legal_change t (f t)"
    and "db_tasks d' = update_where (\<lambda>r. r = t) f (db_tasks d)" "db_deps d' = db_deps d"
    and "db_facts d' = db_facts d @ new" "g \<in> set new" "TaskID g = r_id t"
  shows "journaled d d'"
proof -
  have idf: "r_id (f t) = r_id t" using assms(3) by (simp add: legal_change_def same_identity_def)
  have rows: "row_of d' i = (if i = r_id t then Some (f t) else row_of d i)" for i
    using assms(1,2) idf assms(4) by (rule row_of_replace)
  have "row_of d (r_id t) = Some t" using assms(1,2) by (rule row_of_unique)
  then have "\<forall>i. row_of d' i = row_of d i \<or> (\<exists>r r'. row_of d i = Some r \<and> row_of d' i = Some r'
       \<and> legal_change r r' \<and> (\<exists>f\<in>set new. TaskID f = i))"
    using rows assms(3,7,8) by auto
  with assms(5,6) show ?thesis unfolding journaled_def by blast
qed

lemma db_ok_replace:
  assumes "db_ok d" "r_id (f t) = r_id t" "facts_ok d'"
    and "db_tasks d' = update_where (\<lambda>r. r = t) f (db_tasks d)"
    and "db_watermarks d' = db_watermarks d" "db_scores d' = db_scores d"
  shows "db_ok d'"
proof -
  have "map r_id (db_tasks d') = map r_id (db_tasks d)"
    unfolding assms(4) using assms(2) by (intro map_update_where) auto
  with assms(1,3,5,6) show ?thesis by (simp add: db_ok_def)
qed

end
