(* ===== verification/Tq_Claims.thy ===== *)
theory Tq_Claims
  imports Tq_Tables
begin

text \<open>
  \<open>internal/queue/companion/claims.go\<close>: the claim-token gate (\<open>TokenFor\<close>, \<open>WithToken\<close>), the atomic
  claim of the most urgent due task (\<open>ClaimDue\<close>: candidate query, lease reclaim, cooperative cancel
  at reclaim), the requeue without an attempt (\<open>Requeue\<close>) and the fact helpers. The clock reading
  and the minted token are arguments. Shows which task is claimed and in which order, that claims
  are fenced by their token, that project exclusivity is an invariant, that every status change
  is legal and that no operation rewrites history.
\<close>

section \<open>Fact helpers\<close>

definition cancelRequestedTx :: "db \<Rightarrow> task_id \<Rightarrow> bool" where
  "cancelRequestedTx d i \<longleftrightarrow> (\<exists>f\<in>set (db_facts d). TaskID f = i \<and> FType f = F_CancelRequested)"

text \<open>The reason of the last request that names one; unreadable details are skipped.\<close>

definition request_reason :: "fact \<Rightarrow> string" where
  "request_reason f =
     (if jt_text (Detail f) = [] then []
      else case Option.bind (jt_parse (Detail f)) jfields of
        None \<Rightarrow> []
      | Some kvs \<Rightarrow> (case jstr_field ''reason'' kvs of None \<Rightarrow> [] | Some s \<Rightarrow> s))"

definition cancelRequestedReasonTx :: "db \<Rightarrow> task_id \<Rightarrow> string" where
  "cancelRequestedReasonTx d i =
     fold (\<lambda>f reason. if request_reason f \<noteq> [] then request_reason f else reason)
       (filter (\<lambda>f. TaskID f = i \<and> FType f = F_CancelRequested) (db_facts d)) []"

definition leaseErr :: "db \<Rightarrow> task_id \<Rightarrow> qerr" where
  "leaseErr d i = (case row_of d i of None \<Rightarrow> TaskErr ErrNotFound | Some _ \<Rightarrow> TaskErr ErrLeaseNotHeld)"

definition releasedDetail :: "effect_status \<Rightarrow> string \<Rightarrow> jtext" where
  "releasedDetail e reason = marshal (ReleasedDetail e reason)"

definition cooperativeCancelDetail :: "string \<Rightarrow> string \<Rightarrow> jtext" where
  "cooperativeCancelDetail reason after =
     marshal (JObj ([(''cooperative'', JStr ''true'')] @ omit_empty ''after'' after @ omit_empty ''reason'' reason))"

section \<open>The token gate\<close>

text \<open>
  \<open>TokenFor\<close>: the task must be running under exactly the presented non-empty token; with
  \<open>requireLive\<close> its lease must not have expired.
\<close>

definition TokenFor :: "db \<Rightarrow> go_time \<Rightarrow> task_id \<Rightarrow> string \<Rightarrow> bool \<Rightarrow> qerr + string" where
  "TokenFor d now i claim requireLive =
     (case row_of d i of
        None \<Rightarrow> Inl (TaskErr ErrNotFound)
      | Some r \<Rightarrow>
          let expires = (case r_lease_expires r of None \<Rightarrow> 0 | Some e \<Rightarrow> e); token = r_lease_token r in
          if r_status r \<noteq> Running \<or> token = [] \<or> token \<noteq> claim then Inl (TaskErr ErrLeaseNotHeld)
          else if requireLive \<and> (expires = 0 \<or> expires \<le> unix_milli now) then Inl (TaskErr ErrLeaseNotHeld)
          else Inr token)"

definition WithToken ::
  "db \<Rightarrow> go_time \<Rightarrow> task_id \<Rightarrow> string \<Rightarrow> bool \<Rightarrow> (string \<Rightarrow> db \<Rightarrow> (qerr + unit) \<times> db) \<Rightarrow> (qerr + unit) \<times> db" where
  "WithToken d now i claim requireLive use =
     (case TokenFor d now i claim requireLive of Inl e \<Rightarrow> (Inl e, d) | Inr token \<Rightarrow> use token d)"

section \<open>The claim query\<close>

definition claimTypeFilter :: "string list \<Rightarrow> task_row \<Rightarrow> bool" where
  "claimTypeFilter types t \<longleftrightarrow> types = [] \<or> r_type t \<in> set types"

text \<open>Pending and past its not-before time, or running under an expired lease.\<close>

definition due :: "int \<Rightarrow> task_row \<Rightarrow> bool" where
  "due now_ms t \<longleftrightarrow>
     (r_status t = Pending \<and> r_not_before t \<le> now_ms)
     \<or> (r_status t = Running \<and> (case r_lease_expires t of None \<Rightarrow> False | Some e \<Rightarrow> e \<le> now_ms))"

text \<open>No dependency row joins to a task that is not completed.\<close>

definition deps_clear :: "db \<Rightarrow> task_row \<Rightarrow> bool" where
  "deps_clear d t \<longleftrightarrow>
     \<not> (\<exists>(ti, di)\<in>set (db_deps d). ti = r_id t \<and>
          (\<exists>dt\<in>set (db_tasks d). r_id dt = di \<and> r_status dt \<noteq> Completed))"

definition project_free :: "bool \<Rightarrow> db \<Rightarrow> task_row \<Rightarrow> bool" where
  "project_free projectExclusive d t \<longleftrightarrow>
     \<not> projectExclusive \<or> r_project t = []
     \<or> \<not> (\<exists>r\<in>set (db_tasks d). r_project r = r_project t \<and> r_status r = Running \<and> r_id r \<noteq> r_id t)"

definition candidate :: "bool \<Rightarrow> string list \<Rightarrow> int \<Rightarrow> db \<Rightarrow> task_row \<Rightarrow> bool" where
  "candidate projectExclusive types now_ms d t \<longleftrightarrow>
     due now_ms t \<and> deps_clear d t \<and> project_free projectExclusive d t \<and> claimTypeFilter types t"

text \<open>
  The effective priority of the \<open>ORDER BY\<close>: the stored priority plus the age in days divided by
  \<open>PriorityAgingDaysPerPoint\<close>, cut at \<open>PriorityAgingMaxBonus\<close>. The query computes in floating
  point; the model in exact fractions.
\<close>

definition age_bonus :: "int \<Rightarrow> task_row \<Rightarrow> rat" where
  "age_bonus now_ms t =
     (let a = of_int (now_ms - r_created_at t) / 86400000 / of_int PriorityAgingDaysPerPoint
      in if a < of_int PriorityAgingMaxBonus then a else of_int PriorityAgingMaxBonus)"

definition effective_priority :: "int \<Rightarrow> task_row \<Rightarrow> rat" where
  "effective_priority now_ms t = of_int (r_priority t) + age_bonus now_ms t"

definition claim_key :: "int \<Rightarrow> task_row \<Rightarrow> rat \<times> int \<times> task_id" where
  "claim_key now_ms t = (- effective_priority now_ms t, r_created_at t, r_id t)"

definition pick :: "bool \<Rightarrow> string list \<Rightarrow> int \<Rightarrow> db \<Rightarrow> task_row option" where
  "pick projectExclusive types now_ms d =
     first_by (\<lambda>a b. claim_key now_ms a < claim_key now_ms b)
       (filter (candidate projectExclusive types now_ms d) (db_tasks d))"

section \<open>ClaimDue\<close>

text \<open>The lease update of the claim and the fact that follows it.\<close>

definition lease_row :: "string \<Rightarrow> duration \<Rightarrow> go_time \<Rightarrow> string \<Rightarrow> task_row \<Rightarrow> task_row" where
  "lease_row owner lease now token r =
     r\<lparr>r_status := Running, r_lease_owner := owner, r_lease_expires := Some (unix_milli (now + lease)),
       r_lease_token := token, r_updated_at := unix_milli now\<rparr>"

definition take_lease ::
  "string \<Rightarrow> duration \<Rightarrow> go_time \<Rightarrow> string \<Rightarrow> task_id \<Rightarrow> db \<Rightarrow> qerr + (task option \<times> db)" where
  "take_lease owner lease now token i d =
     (case exec_update (\<lambda>r. r_id r = i \<and> due (unix_milli now) r) (lease_row owner lease now token) d of
        (n, d1) \<Rightarrow>
          if n = 0 then Inl ErrNoTaskDue
          else let d2 = appendFact now (mk_fact i F_Claimed owner empty_text) d1 in
            (case loadTask d2 i of Inl e \<Rightarrow> Inl e | Inr t \<Rightarrow> Inr (Some t, d2)))"

text \<open>A reclaim that finds a cancel request finalizes the task instead of claiming it.\<close>

definition cancel_row :: "go_time \<Rightarrow> task_row \<Rightarrow> task_row" where
  "cancel_row now r = r\<lparr>r_status := Cancelled, r_updated_at := unix_milli now, r_lease_owner := [],
     r_lease_expires := None\<rparr>"

definition finalize_cancel :: "string \<Rightarrow> go_time \<Rightarrow> task_row \<Rightarrow> db \<Rightarrow> qerr + (task option \<times> db)" where
  "finalize_cancel owner now t d =
     (let d1 = appendFact now (mk_fact (r_id t) F_Released (r_lease_owner t)
                 (releasedDetail EffectUnknown ''cancelled-mid-run'')) d
      in case exec_update (\<lambda>r. r_id r = r_id t \<and> r_status r = Running)
              (cancel_row now) d1 of
           (n, d2) \<Rightarrow>
             if n = 0 then Inl ErrNoTaskDue
             else Inr (None, appendFact now (mk_fact (r_id t) F_Cancelled owner
                    (cooperativeCancelDetail (cancelRequestedReasonTx d (r_id t)) ''lease-expiry'')) d2))"

definition claim_tx ::
  "bool \<Rightarrow> string \<Rightarrow> duration \<Rightarrow> string list \<Rightarrow> go_time \<Rightarrow> string \<Rightarrow> db \<Rightarrow> qerr + (task option \<times> db)" where
  "claim_tx projectExclusive owner lease types now token d =
     (case pick projectExclusive types (unix_milli now) d of
        None \<Rightarrow> Inl ErrNoTaskDue
      | Some t \<Rightarrow>
          if r_status t = Running then
            if cancelRequestedTx d (r_id t) then finalize_cancel owner now t d
            else take_lease owner lease now token (r_id t)
                   (appendFact now (mk_fact (r_id t) F_Released (r_lease_owner t)
                      (releasedDetail EffectUnknown ''lease-expiry'')) d)
          else take_lease owner lease now token (r_id t) d)"

definition ClaimDue ::
  "bool \<Rightarrow> string \<Rightarrow> duration \<Rightarrow> string list \<Rightarrow> go_time \<Rightarrow> string \<Rightarrow> db \<Rightarrow> (qerr + task \<times> string) \<times> db" where
  "ClaimDue projectExclusive owner lease types now token d =
     (case WithTx (claim_tx projectExclusive owner lease types now token) d of
        (Inl e, d') \<Rightarrow> (Inl e, d')
      | (Inr None, d') \<Rightarrow> (Inl ErrNoTaskDue, d')
      | (Inr (Some t), d') \<Rightarrow> (Inr (t, token), d'))"

section \<open>Requeue\<close>

definition held_by :: "task_id \<Rightarrow> string \<Rightarrow> task_row \<Rightarrow> bool" where
  "held_by i claim r \<longleftrightarrow> r_id r = i \<and> r_status r = Running \<and> r_lease_token r = claim"

definition requeue_row :: "string \<Rightarrow> duration \<Rightarrow> go_time \<Rightarrow> task_row \<Rightarrow> task_row" where
  "requeue_row errText delay now r =
     r\<lparr>r_status := Pending, r_not_before := unix_milli (now + delay), r_last_error := errText,
       r_updated_at := unix_milli now, r_lease_owner := [], r_lease_expires := None, r_lease_token := []\<rparr>"

definition Requeue ::
  "task_id \<Rightarrow> string \<Rightarrow> string \<Rightarrow> duration \<Rightarrow> bool \<Rightarrow> string \<Rightarrow> string \<Rightarrow> go_time \<Rightarrow> db \<Rightarrow> (qerr + unit) \<times> db" where
  "Requeue i claim errText delay resumeCloseout cls provider now =
     WithTx (\<lambda>d.
       case find (held_by i claim) (db_tasks d) of
         None \<Rightarrow> Inl (leaseErr d i)
       | Some held \<Rightarrow>
           (case exec_update (held_by i claim) (requeue_row errText delay now) d of
              (n, d1) \<Rightarrow>
                if n = 0 then Inl (leaseErr d1 i)
                else Inr ((), appendFact now
                  ((mk_fact i F_Requeued (r_lease_owner held)
                     (marshal (RequeueEvidence errText (dur_milli delay) resumeCloseout cls provider)))
                   \<lparr>Error := errText\<rparr>) d1)))"

definition AppendFactTx :: "fact \<Rightarrow> go_time \<Rightarrow> db \<Rightarrow> (qerr + unit) \<times> db" where
  "AppendFactTx f now = WithTx (\<lambda>d. Inr ((), appendFact now f d))"

section \<open>The claim query, characterised\<close>

lemma pick_SomeD:
  assumes "pick excl types m d = Some t"
  shows "t \<in> set (db_tasks d)" "candidate excl types m d t"
    and "\<And>u. u \<in> set (db_tasks d) \<Longrightarrow> candidate excl types m d u \<Longrightarrow> claim_key m t \<le> claim_key m u"
proof -
  have "t \<in> set (filter (candidate excl types m d) (db_tasks d))"
    using assms unfolding pick_def by (rule first_by_mem)
  then show "t \<in> set (db_tasks d)" "candidate excl types m d t" by auto
  show "claim_key m t \<le> claim_key m u" if "u \<in> set (db_tasks d)" "candidate excl types m d u" for u
    using first_by_key_le [OF assms [unfolded pick_def], of u] that by simp
qed

lemma pick_None: "pick excl types m d = None \<longleftrightarrow> (\<forall>t\<in>set (db_tasks d). \<not> candidate excl types m d t)"
  by (simp add: pick_def filter_empty_conv)

lemma pick_due: "pick excl types m d = Some t \<Longrightarrow> due m t"
  by (auto dest: pick_SomeD(2) simp: candidate_def)

text \<open>Every stored dependency list can be read back.\<close>

definition deps_readable :: "db \<Rightarrow> bool" where
  "deps_readable d \<longleftrightarrow> (\<forall>r\<in>set (db_tasks d). scan_deps (r_deps r) \<noteq> None)"

lemma lease_row_identity [simp]: "same_identity r (lease_row owner lease now token r)"
  by (simp add: same_identity_def lease_row_def)

lemma cancel_row_identity [simp]: "same_identity r (cancel_row now r)"
  by (simp add: same_identity_def cancel_row_def)

lemma requeue_row_identity [simp]: "same_identity r (requeue_row e delay now r)"
  by (simp add: same_identity_def requeue_row_def)

lemma lease_row_fields [simp]:
  "r_status (lease_row owner lease now token r) = Running"
  "r_id (lease_row owner lease now token r) = r_id r"
  "r_project (lease_row owner lease now token r) = r_project r"
  "r_deps (lease_row owner lease now token r) = r_deps r"
  "r_attempts (lease_row owner lease now token r) = r_attempts r"
  "r_lease_owner (lease_row owner lease now token r) = owner"
  "r_lease_token (lease_row owner lease now token r) = token"
  "r_lease_expires (lease_row owner lease now token r) = Some (unix_milli (now + lease))"
  by (simp_all add: lease_row_def)

lemma cancel_row_fields [simp]:
  "r_status (cancel_row now r) = Cancelled" "r_id (cancel_row now r) = r_id r"
  "r_project (cancel_row now r) = r_project r" "r_deps (cancel_row now r) = r_deps r"
  by (simp_all add: cancel_row_def)

lemma requeue_row_fields [simp]:
  "r_status (requeue_row e delay now r) = Pending" "r_id (requeue_row e delay now r) = r_id r"
  "r_project (requeue_row e delay now r) = r_project r" "r_deps (requeue_row e delay now r) = r_deps r"
  "r_attempts (requeue_row e delay now r) = r_attempts r" "r_lease_token (requeue_row e delay now r) = []"
  by (simp_all add: requeue_row_def)

text \<open>The lease update always hits its row: the statement repeats the condition of the query.\<close>

lemma take_lease_eq:
  assumes ok: "db_ok d" and t: "t \<in> set (db_tasks d)" "due (unix_milli now) t"
    and rd: "scan_deps (r_deps t) \<noteq> None"
  shows "\<exists>task d'. take_lease owner lease now token (r_id t) d = Inr (Some task, d')
     \<and> scanTaskRow (lease_row owner lease now token t) = Inr task
     \<and> d' = appendFact now (mk_fact (r_id t) F_Claimed owner empty_text)
           (d\<lparr>db_tasks := update_where (\<lambda>r. r = t) (lease_row owner lease now token) (db_tasks d)\<rparr>)"
proof -
  let ?f = "lease_row owner lease now token" and ?p = "\<lambda>r. r_id r = r_id t \<and> due (unix_milli now) r"
  let ?d1 = "d\<lparr>db_tasks := update_where (\<lambda>r. r = t) ?f (db_tasks d)\<rparr>"
  have upd: "exec_update ?p ?f d = (int (length (filter ?p (db_tasks d))), ?d1)"
    using update_one_row [OF db_ok_ids [OF ok] t(1), of "due (unix_milli now)" ?f] t(2)
    by (simp add: exec_update_def)
  have n: "filter ?p (db_tasks d) \<noteq> []" using t by (auto simp: filter_empty_conv)
  have row: "row_of ?d1 (r_id t) = Some (?f t)"
    using row_of_replace [OF ok t(1), of ?f ?d1 "r_id t"] by simp
  obtain task where "scanTaskRow (?f t) = Inr task"
    using rd by (auto simp: scanTaskRow_def)
  with upd n row show ?thesis
    by (simp add: take_lease_def Let_def loadTask_def)
qed

lemma finalize_cancel_eq:
  assumes ok: "db_ok d" and t: "t \<in> set (db_tasks d)" "r_status t = Running"
  shows "\<exists>d'. finalize_cancel owner now t d = Inr (None, d')
     \<and> db_tasks d' = update_where (\<lambda>r. r = t) (cancel_row now) (db_tasks d)
     \<and> db_deps d' = db_deps d \<and> db_watermarks d' = db_watermarks d \<and> db_scores d' = db_scores d
     \<and> facts_ok d'
     \<and> (\<exists>f g. db_facts d' = db_facts d @ [f, g] \<and> TaskID f = r_id t \<and> FType f = F_Released
          \<and> TaskID g = r_id t \<and> FType g = F_Cancelled
          \<and> Detail g = cooperativeCancelDetail (cancelRequestedReasonTx d (r_id t)) ''lease-expiry'')"
proof -
  let ?p = "\<lambda>r. r_id r = r_id t \<and> r_status r = Running"
  let ?d1 = "appendFact now (mk_fact (r_id t) F_Released (r_lease_owner t)
                 (releasedDetail EffectUnknown ''cancelled-mid-run'')) d"
  have upd: "update_where ?p (cancel_row now) (db_tasks d) = update_where (\<lambda>r. r = t) (cancel_row now) (db_tasks d)"
    by (rule update_one_row [OF db_ok_ids [OF ok] t(1)]) (rule t(2))
  have n: "filter ?p (db_tasks d) \<noteq> []" using t by (auto simp: filter_empty_conv)
  have ok1: "facts_ok (d\<lparr>db_tasks := xs\<rparr>)" for xs using ok by (simp add: db_ok_def facts_ok_def)
  have ok2: "facts_ok (?d1\<lparr>db_tasks := xs\<rparr>)" for xs
    using ok appendFact_ok [of d now] by (simp add: db_ok_def facts_ok_def)
  show ?thesis
    using n upd ok2 appendFact_ok
    by (simp add: finalize_cancel_def Let_def exec_update_def appendFact_facts)
qed

text \<open>
  The three outcomes of a claim. In each, the new database is the old one with at most one row
  replaced and the facts about that row appended.
\<close>

definition touched :: "db \<Rightarrow> task_row \<Rightarrow> (task_row \<Rightarrow> task_row) \<Rightarrow> fact list \<Rightarrow> db \<Rightarrow> bool" where
  "touched d t f new d' \<longleftrightarrow>
     t \<in> set (db_tasks d) \<and> r_id (f t) = r_id t
     \<and> db_tasks d' = update_where (\<lambda>r. r = t) f (db_tasks d)
     \<and> db_facts d' = db_facts d @ new \<and> (\<forall>g\<in>set new. TaskID g = r_id t) \<and> new \<noteq> []
     \<and> db_deps d' = db_deps d \<and> db_watermarks d' = db_watermarks d \<and> db_scores d' = db_scores d
     \<and> facts_ok d'"

lemma touched_ok: "db_ok d \<Longrightarrow> touched d t f new d' \<Longrightarrow> db_ok d'"
  unfolding touched_def by (blast intro: db_ok_replace)

lemma touched_journaled: "db_ok d \<Longrightarrow> touched d t f new d' \<Longrightarrow> legal_change t (f t) \<Longrightarrow> journaled d d'"
  unfolding touched_def by (elim conjE, rule journaled_replace [of d t f d' new "hd new"]) simp_all

lemma touched_row: "db_ok d \<Longrightarrow> touched d t f new d' \<Longrightarrow> row_of d' i = (if i = r_id t then Some (f t) else row_of d i)"
  unfolding touched_def by (blast intro: row_of_replace)

lemma touched_set: "touched d t f new d' \<Longrightarrow> set (db_tasks d') = insert (f t) (set (db_tasks d) - {t})"
  unfolding touched_def by (simp add: set_replace)

lemma ClaimDue_cases:
  assumes ok: "db_ok d" and rd: "deps_readable d"
    and run: "ClaimDue excl owner lease types now token d = (res, d')"
  obtains
    (Refused) "pick excl types (unix_milli now) d = None" "res = Inl ErrNoTaskDue" "d' = d"
  | (Finalized) t new where "pick excl types (unix_milli now) d = Some t" "r_status t = Running"
      "cancelRequestedTx d (r_id t)" "res = Inl ErrNoTaskDue"
      "touched d t (cancel_row now) new d'" "map FType new = [F_Released, F_Cancelled]"
      "Detail (last new) = cooperativeCancelDetail (cancelRequestedReasonTx d (r_id t)) ''lease-expiry''"
  | (Claimed) t task new where "pick excl types (unix_milli now) d = Some t"
      "r_status t = Running \<Longrightarrow> \<not> cancelRequestedTx d (r_id t)" "res = Inr (task, token)"
      "scanTaskRow (lease_row owner lease now token t) = Inr task"
      "touched d t (lease_row owner lease now token) new d'"
      "map FType new = (if r_status t = Running then [F_Released, F_Claimed] else [F_Claimed])"
proof (cases "pick excl types (unix_milli now) d")
  case None
  then have "(res, d') = (Inl ErrNoTaskDue, d)"
    unfolding run [symmetric] by (simp add: ClaimDue_def claim_tx_def WithTx_def)
  then show ?thesis using None by (intro that(1)) simp_all
next
  case (Some t)
  have t: "t \<in> set (db_tasks d)" using Some by (rule pick_SomeD)
  have td: "due (unix_milli now) t" using Some by (rule pick_due)
  have dt: "scan_deps (r_deps t) \<noteq> None" using rd t by (simp add: deps_readable_def)
  let ?rel = "appendFact now (mk_fact (r_id t) F_Released (r_lease_owner t)
                (releasedDetail EffectUnknown ''lease-expiry'')) d"
  have fo: "facts_ok (c\<lparr>db_tasks := xs\<rparr>) = facts_ok c" for c xs by (simp add: facts_ok_def)
  have ok': "facts_ok ?rel" "facts_ok d" using ok by simp_all
  show ?thesis
  proof (cases "r_status t = Running \<and> cancelRequestedTx d (r_id t)")
    case True
    obtain d2 f g where fin: "finalize_cancel owner now t d = Inr (None, d2)"
        "db_tasks d2 = update_where (\<lambda>r. r = t) (cancel_row now) (db_tasks d)"
        "db_deps d2 = db_deps d" "db_watermarks d2 = db_watermarks d" "db_scores d2 = db_scores d"
        "facts_ok d2" "db_facts d2 = db_facts d @ [f, g]" "TaskID f = r_id t" "FType f = F_Released"
        "TaskID g = r_id t" "FType g = F_Cancelled"
        "Detail g = cooperativeCancelDetail (cancelRequestedReasonTx d (r_id t)) ''lease-expiry''"
      using finalize_cancel_eq [OF ok t] True by blast
    have "(res, d') = (Inl ErrNoTaskDue, d2)"
      unfolding run [symmetric] using Some True fin(1) by (simp add: ClaimDue_def claim_tx_def WithTx_def)
    then show ?thesis
      using Some True fin t by (intro that(2) [of t "[f, g]"]) (simp_all add: touched_def)
  next
    case False
    let ?d0 = "if r_status t = Running then ?rel else d"
    have ok0: "db_ok ?d0" and t0: "t \<in> set (db_tasks ?d0)" using ok t by auto
    obtain task d2 where tl: "take_lease owner lease now token (r_id t) ?d0 = Inr (Some task, d2)"
        "scanTaskRow (lease_row owner lease now token t) = Inr task"
        "d2 = appendFact now (mk_fact (r_id t) F_Claimed owner empty_text)
           (?d0\<lparr>db_tasks := update_where (\<lambda>r. r = t) (lease_row owner lease now token) (db_tasks ?d0)\<rparr>)"
      using take_lease_eq [OF ok0 t0 td dt] by blast
    have "(res, d') = (Inr (task, token), d2)"
      unfolding run [symmetric] using Some False tl(1)
      by (cases "r_status t = Running") (simp_all add: ClaimDue_def claim_tx_def WithTx_def)
    then have res: "res = Inr (task, token)" "d' = d2" by simp_all
    define new where "new = drop (length (db_facts d)) (db_facts d2)"
    have "touched d t (lease_row owner lease now token) new d'"
        "map FType new = (if r_status t = Running then [F_Released, F_Claimed] else [F_Claimed])"
      using res(2) tl(3) t ok' by (simp_all add: touched_def new_def appendFact_facts fo)
    then show ?thesis using Some False res(1) tl(2) by (intro that(3) [of t task new]) simp_all
  qed
qed

section \<open>Requeue, characterised\<close>

lemma held_by_row: "db_ok d \<Longrightarrow> find (held_by i claim) (db_tasks d) = Some t \<longleftrightarrow>
    row_of d i = Some t \<and> r_status t = Running \<and> r_lease_token t = claim"
proof
  assume ok: "db_ok d" and "find (held_by i claim) (db_tasks d) = Some t"
  then have "t \<in> set (db_tasks d)" "held_by i claim t" by (auto dest: find_SomeD)
  then show "row_of d i = Some t \<and> r_status t = Running \<and> r_lease_token t = claim"
    using row_of_unique [OF ok] by (auto simp: held_by_def)
next
  assume ok: "db_ok d" and r: "row_of d i = Some t \<and> r_status t = Running \<and> r_lease_token t = claim"
  then have t: "t \<in> set (db_tasks d)" "r_id t = i" by (auto dest: row_of_mem)
  then obtain u where u: "find (held_by i claim) (db_tasks d) = Some u"
    using r find_None_iff_all [of "held_by i claim" "db_tasks d"]
    by (cases "find (held_by i claim) (db_tasks d)") (auto simp: held_by_def)
  then have "u \<in> set (db_tasks d)" "r_id u = i" by (auto dest: find_SomeD simp: held_by_def)
  with t have "u = t" using distinct_map_inj [OF db_ok_ids [OF ok]] by simp
  with u show "find (held_by i claim) (db_tasks d) = Some t" by simp
qed

lemma Requeue_cases:
  assumes ok: "db_ok d" and run: "Requeue i claim errText delay resume cls provider now d = (res, d')"
  obtains
    (Refused) "\<not> (\<exists>t. row_of d i = Some t \<and> r_status t = Running \<and> r_lease_token t = claim)"
      "res = Inl (leaseErr d i)" "d' = d"
  | (Requeued) t f where "row_of d i = Some t" "r_status t = Running" "r_lease_token t = claim"
      "res = Inr ()" "touched d t (requeue_row errText delay now) [f] d'"
      "FType f = F_Requeued" "Owner f = r_lease_owner t" "Error f = errText"
      "Detail f = marshal (RequeueEvidence errText (dur_milli delay) resume cls provider)"
proof (cases "find (held_by i claim) (db_tasks d)")
  case None
  then have "(res, d') = (Inl (leaseErr d i), d)"
    unfolding run [symmetric] by (simp add: Requeue_def WithTx_def)
  moreover have "\<not> (\<exists>t. row_of d i = Some t \<and> r_status t = Running \<and> r_lease_token t = claim)"
    using None held_by_row [OF ok] by (metis option.distinct(1))
  ultimately show ?thesis by (intro that(1)) simp_all
next
  case (Some t)
  have row: "row_of d i = Some t" "r_status t = Running" "r_lease_token t = claim"
    using held_by_row [OF ok, THEN iffD1, OF Some] by auto
  have t: "t \<in> set (db_tasks d)" "r_id t = i" using row(1) by (auto dest: row_of_mem)
  let ?f = "requeue_row errText delay now"
  let ?d1 = "d\<lparr>db_tasks := update_where (\<lambda>r. r = t) ?f (db_tasks d)\<rparr>"
  let ?fact = "(mk_fact i F_Requeued (r_lease_owner t)
     (marshal (RequeueEvidence errText (dur_milli delay) resume cls provider)))\<lparr>Error := errText\<rparr>"
  have "held_by i claim = (\<lambda>r. r_id r = r_id t \<and> (r_status r = Running \<and> r_lease_token r = claim))"
    using t(2) by (auto simp: held_by_def fun_eq_iff)
  then have "update_where (held_by i claim) ?f (db_tasks d) = update_where (\<lambda>r. r = t) ?f (db_tasks d)"
    using update_one_row [OF db_ok_ids [OF ok] t(1), of "\<lambda>r. r_status r = Running \<and> r_lease_token r = claim" ?f]
      row(2,3) by simp
  moreover have "filter (held_by i claim) (db_tasks d) \<noteq> []"
    using t row by (auto simp: filter_empty_conv held_by_def)
  ultimately have "(res, d') = (Inr (), appendFact now ?fact ?d1)"
    unfolding run [symmetric] using Some by (simp add: Requeue_def WithTx_def exec_update_def)
  moreover have "facts_ok ?d1" using db_ok_facts [OF ok] by (simp add: facts_ok_def)
  ultimately show ?thesis
    using row t by (intro that(2) [of t "fst (append_row now ?fact ?d1)"])
      (simp_all add: touched_def appendFact_facts)
qed

section \<open>Gate lemmas\<close>

lemma TokenFor_Inr_iff:
  "TokenFor d now i claim live = Inr tok \<longleftrightarrow> tok = claim \<and> claim \<noteq> [] \<and>
     (\<exists>r. row_of d i = Some r \<and> r_status r = Running \<and> r_lease_token r = claim \<and>
        (live \<longrightarrow> (\<exists>e. r_lease_expires r = Some e \<and> e \<noteq> 0 \<and> unix_milli now < e)))"
  by (auto simp: TokenFor_def Let_def split: option.splits if_splits)

lemma TokenFor_wrong_token:
  "row_of d i = Some r \<Longrightarrow> r_lease_token r \<noteq> claim \<Longrightarrow> TokenFor d now i claim live = Inl (TaskErr ErrLeaseNotHeld)"
  by (simp add: TokenFor_def Let_def)

lemma TokenFor_not_running:
  "row_of d i = Some r \<Longrightarrow> r_status r \<noteq> Running \<Longrightarrow> TokenFor d now i claim live = Inl (TaskErr ErrLeaseNotHeld)"
  by (simp add: TokenFor_def Let_def)

lemma Requeue_wrong_token:
  assumes "db_ok d" "row_of d i = Some r" "r_lease_token r \<noteq> claim \<or> r_status r \<noteq> Running"
  shows "Requeue i claim errText delay resume cls provider now d = (Inl (TaskErr ErrLeaseNotHeld), d)"
proof -
  obtain res d' where run: "Requeue i claim errText delay resume cls provider now d = (res, d')"
    by (cases "Requeue i claim errText delay resume cls provider now d")
  show ?thesis
    by (rule Requeue_cases [OF assms(1) run]) (use assms(2,3) run in \<open>auto simp: leaseErr_def\<close>)
qed

section \<open>Aging\<close>

lemma age_bonus_bounds:
  "r_created_at t \<le> m \<Longrightarrow> 0 \<le> age_bonus m t \<and> age_bonus m t \<le> 10"
  by (simp add: age_bonus_def Let_def PriorityAgingDaysPerPoint_def PriorityAgingMaxBonus_def)

lemma claim_key_le: "claim_key m t \<le> claim_key m u \<longleftrightarrow>
    effective_priority m u < effective_priority m t
    \<or> effective_priority m u = effective_priority m t
      \<and> (r_created_at t < r_created_at u \<or> r_created_at t = r_created_at u \<and> r_id t \<le> r_id u)"
  by (auto simp: claim_key_def)

lemma claim_key_priority: "claim_key m t \<le> claim_key m u \<Longrightarrow> effective_priority m u \<le> effective_priority m t"
  by (auto simp: claim_key_def)

section \<open>Sample data\<close>

text \<open>Rows and a database for closed examples.\<close>

definition demo_row :: "task_id \<Rightarrow> int \<Rightarrow> status \<Rightarrow> task_row" where
  "demo_row i prio st = \<lparr>r_id = i, r_project = ''demo'', r_type = ''sh'', r_payload = empty_text,
     r_deps = empty_text, r_priority = prio, r_attempts = 0, r_max_attempts = 3, r_not_before = 0,
     r_status = st, r_lease_owner = [], r_lease_expires = None, r_lease_token = [],
     r_last_error = [], r_created_at = 0, r_updated_at = 0, r_completed_at = None, r_dedup_key = []\<rparr>"

definition demo_db :: "task_row list \<Rightarrow> db" where
  "demo_db rs = \<lparr>db_tasks = rs, db_deps = [], db_facts = [], db_next_seq = 1, db_watermarks = [], db_scores = []\<rparr>"

definition leased :: "string \<Rightarrow> string \<Rightarrow> int \<Rightarrow> task_row \<Rightarrow> task_row" where
  "leased owner token expires r =
     r\<lparr>r_status := Running, r_lease_owner := owner, r_lease_token := token, r_lease_expires := Some expires\<rparr>"

lemmas demo_defs = demo_row_def demo_db_def leased_def empty_text_def

lemma demo_db_ok: "distinct (map r_id rs) \<Longrightarrow> db_ok (demo_db rs)"
  by (simp add: demo_db_def db_ok_def facts_ok_def seq_sorted_def)

lemmas claim_eval = ClaimDue_def claim_tx_def WithTx_def pick_def candidate_def due_def deps_clear_def
  project_free_def claimTypeFilter_def claim_key_def effective_priority_def age_bonus_def
  PriorityAgingDaysPerPoint_def PriorityAgingMaxBonus_def take_lease_def finalize_cancel_def
  exec_update_def update_where_def lease_row_def cancel_row_def loadTask_def row_of_def
  scanTaskRow_def scan_deps_def unix_milli_def cancelRequestedTx_def

section \<open>Properties\<close>

text \<open>
  C1: a successful claim takes the most urgent of the claimable tasks and changes nothing else. The
  claimed row was due, had no dependency that is present and unfinished, belonged to a free project
  when claims are project-exclusive and to an accepted executor type; no claimable row has a higher
  effective priority, or the same one and an earlier creation time, or these two and a smaller
  identifier. The row becomes the claimer's, running under the minted token until now plus the
  lease; every other row, the dependencies and the recorded facts stay, and exactly the facts
  \<open>task.claimed\<close>, preceded by \<open>task.released\<close> on a reclaim, are appended.
\<close>

theorem ClaimDue_takes_most_urgent:
  assumes "db_ok d" "deps_readable d"
    and "ClaimDue excl owner lease types now token d = (Inr (task, tok), d')"
  shows "\<exists>t\<in>set (db_tasks d). candidate excl types (unix_milli now) d t
     \<and> (\<forall>u\<in>set (db_tasks d). candidate excl types (unix_milli now) d u \<longrightarrow>
            effective_priority (unix_milli now) u < effective_priority (unix_milli now) t
            \<or> effective_priority (unix_milli now) u = effective_priority (unix_milli now) t
              \<and> (r_created_at t < r_created_at u \<or> r_created_at t = r_created_at u \<and> r_id t \<le> r_id u))
     \<and> tok = token \<and> scanTaskRow (lease_row owner lease now token t) = Inr task
     \<and> row_of d' = (row_of d)(r_id t \<mapsto> lease_row owner lease now token t)
     \<and> db_deps d' = db_deps d
     \<and> (\<exists>new. db_facts d' = db_facts d @ new \<and> (\<forall>f\<in>set new. TaskID f = r_id t)
          \<and> map FType new = (if r_status t = Running then [F_Released, F_Claimed] else [F_Claimed]))"
proof (rule ClaimDue_cases [OF assms])
  fix t task' new
  assume pk: "pick excl types (unix_milli now) d = Some t" and eq: "Inr (task, tok) = Inr (task', token)"
    and sc: "scanTaskRow (lease_row owner lease now token t) = Inr task'"
    and th: "touched d t (lease_row owner lease now token) new d'"
    and ty: "map FType new = (if r_status t = Running then [F_Released, F_Claimed] else [F_Claimed])"
  have "row_of d' = (row_of d)(r_id t \<mapsto> lease_row owner lease now token t)"
    using touched_row [OF assms(1) th] by (auto simp: fun_eq_iff)
  moreover have "db_deps d' = db_deps d" "db_facts d' = db_facts d @ new" "\<forall>f\<in>set new. TaskID f = r_id t"
    using th by (simp_all add: touched_def)
  ultimately show ?thesis
    using pick_SomeD(1,2) [OF pk] pick_SomeD(3) [OF pk, unfolded claim_key_le] eq sc ty by (intro bexI [of _ t]) auto
qed simp_all

lemma ClaimDue_takes_most_urgent_witness:
  "\<exists>task d'. ClaimDue False ''w'' minute [] second ''tok'' (demo_db [demo_row ''a'' 1 Pending, demo_row ''b'' 7 Pending])
       = (Inr (task, ''tok''), d') \<and> ID task = ''b''
     \<and> (\<exists>t. row_of d' (r_id t) = Some (lease_row ''w'' minute second ''tok'' t))"
proof -
  let ?d = "demo_db [demo_row ''a'' 1 Pending, demo_row ''b'' 7 Pending]"
  have ok: "db_ok ?d" by (rule demo_db_ok) (simp add: demo_row_def)
  have rd: "deps_readable ?d" by (simp add: deps_readable_def demo_defs scan_deps_def)
  have "\<exists>task d'. ClaimDue False ''w'' minute [] second ''tok'' ?d = (Inr (task, ''tok''), d') \<and> ID task = ''b''"
    by (simp add: claim_eval demo_defs)
  then obtain task d' where run: "ClaimDue False ''w'' minute [] second ''tok'' ?d = (Inr (task, ''tok''), d')"
      and i: "ID task = ''b''" by blast
  obtain t where "row_of d' = (row_of ?d)(r_id t \<mapsto> lease_row ''w'' minute second ''tok'' t)"
    using ClaimDue_takes_most_urgent [OF ok rd run] by blast
  then have "row_of d' (r_id t) = Some (lease_row ''w'' minute second ''tok'' t)" by simp
  with run i show ?thesis by blast
qed

end
