(* ===== verification/Tq_Parks.thy ===== *)
theory Tq_Parks
  imports Tq_Claims
begin

text \<open>
  \<open>internal/queue/companion/parks.go\<close> and \<open>questions.go\<close>: the operator's park of a pending task and
  the recording of an owner's answer, which injects the answer into the payload of the parked task,
  clears its waiting time and appends the fact in one transaction. Shows that a parked task is not
  claimable before its instant, that an answer unblocks exactly its task and lands at the end of
  the payload's answered list, and that recording an answer twice changes nothing.
\<close>

section \<open>Park\<close>

definition park_row :: "go_time \<Rightarrow> go_time \<Rightarrow> task_row \<Rightarrow> task_row" where
  "park_row notBefore now r = r\<lparr>r_not_before := unix_milli notBefore, r_updated_at := unix_milli now\<rparr>"

definition Park :: "task_id \<Rightarrow> string \<Rightarrow> go_time \<Rightarrow> string \<Rightarrow> go_time \<Rightarrow> db \<Rightarrow> (qerr + unit) \<times> db" where
  "Park i reason until by_whom now =
     WithTx (\<lambda>d.
       case row_of d i of
         None \<Rightarrow> Inl (TaskErr ErrNotFound)
       | Some t \<Rightarrow>
           if r_status t \<noteq> Pending then Inl (TaskErr ErrInvalidTransition)
           else let notBefore = (if until < now then now else until) in
             (case exec_update (\<lambda>r. r_id r = i \<and> r_status r = Pending) (park_row notBefore now) d of
                (n, d1) \<Rightarrow>
                  if n = 0 then Inl (TaskErr ErrInvalidTransition)
                  else Inr ((), appendFact now (mk_fact i F_Parked by_whom
                         (marshal (ParkedDetail reason (unix_milli notBefore) by_whom))) d1)))"

lemma park_row_identity [simp]: "same_identity r (park_row nb now r)"
  by (simp add: same_identity_def park_row_def)

lemma park_row_fields [simp]:
  "r_status (park_row nb now r) = r_status r" "r_id (park_row nb now r) = r_id r"
  "r_project (park_row nb now r) = r_project r" "r_attempts (park_row nb now r) = r_attempts r"
  "r_not_before (park_row nb now r) = unix_milli nb" "r_deps (park_row nb now r) = r_deps r"
  "r_lease_token (park_row nb now r) = r_lease_token r"
  by (simp_all add: park_row_def)

lemma Park_cases:
  assumes ok: "db_ok d" and run: "Park i reason until by_whom now d = (res, d')"
  obtains
    (Missing) "row_of d i = None" "res = Inl (TaskErr ErrNotFound)" "d' = d"
  | (Refused) t where "row_of d i = Some t" "r_status t \<noteq> Pending"
      "res = Inl (TaskErr ErrInvalidTransition)" "d' = d"
  | (Parked) t f where "row_of d i = Some t" "r_status t = Pending" "res = Inr ()"
      "touched d t (park_row (max until now) now) [f] d'" "FType f = F_Parked" "Owner f = by_whom"
      "Detail f = marshal (ParkedDetail reason (unix_milli (max until now)) by_whom)"
proof (cases "row_of d i")
  case None
  then have "(res, d') = (Inl (TaskErr ErrNotFound), d)"
    unfolding run [symmetric] by (simp add: Park_def)
  then show ?thesis using None by (intro that(1)) simp_all
next
  case (Some t)
  have t: "t \<in> set (db_tasks d)" "r_id t = i" using Some by (auto dest: row_of_mem)
  show ?thesis
  proof (cases "r_status t = Pending")
    case False
    then have "(res, d') = (Inl (TaskErr ErrInvalidTransition), d)"
      unfolding run [symmetric] using Some by (simp add: Park_def)
    then show ?thesis using Some False by (intro that(2)) simp_all
  next
    case True
    let ?nb = "max until now"
    let ?f = "park_row ?nb now"
    let ?d1 = "d\<lparr>db_tasks := update_where (\<lambda>r. r = t) ?f (db_tasks d)\<rparr>"
    let ?fact = "mk_fact i F_Parked by_whom (marshal (ParkedDetail reason (unix_milli ?nb) by_whom))"
    have nb: "(if until < now then now else until) = ?nb" by auto
    have "update_where (\<lambda>r. r_id r = i \<and> r_status r = Pending) ?f (db_tasks d)
        = update_where (\<lambda>r. r = t) ?f (db_tasks d)"
      using update_one_row [OF db_ok_ids [OF ok] t(1), of "\<lambda>r. r_status r = Pending" ?f] True t(2) by simp
    moreover have "filter (\<lambda>r. r_id r = i \<and> r_status r = Pending) (db_tasks d) \<noteq> []"
      using t True by (auto simp: filter_empty_conv)
    ultimately have "(res, d') = (Inr (), appendFact now ?fact ?d1)"
      unfolding run [symmetric] using Some True
      by (simp add: Park_def WithTx_def exec_update_def nb Let_def)
    moreover have "facts_ok ?d1" using db_ok_facts [OF ok] by (simp add: facts_ok_def)
    ultimately show ?thesis
      using Some True t by (intro that(3) [of t "fst (append_row now ?fact ?d1)"])
        (simp_all add: touched_def appendFact_facts)
  qed
qed

section \<open>Answers\<close>

text \<open>
  \<open>factDetailRefs\<close>: question reference to text over a task's facts of one question type; later facts
  overwrite earlier ones, unreadable details are skipped. The \<open>default\<close> arm of the switch collects
  nothing.
\<close>

definition int_or_absent :: "string \<Rightarrow> (string \<times> json) list \<Rightarrow> bool" where
  "int_or_absent k kvs \<longleftrightarrow> jint_field k kvs \<noteq> None"

definition str_or_absent :: "string \<Rightarrow> (string \<times> json) list \<Rightarrow> bool" where
  "str_or_absent k kvs \<longleftrightarrow> jstr_field k kvs \<noteq> None"

definition str_list_or_absent :: "string \<Rightarrow> (string \<times> json) list \<Rightarrow> bool" where
  "str_list_or_absent k kvs =
     (case map_of kvs k of None \<Rightarrow> True | Some JNull \<Rightarrow> True
      | Some (JArr js) \<Rightarrow> those (map scan_dep js) \<noteq> None | Some _ \<Rightarrow> False)"

definition parse_asked :: "jtext \<Rightarrow> (string \<times> string) option" where
  "parse_asked detail =
     do { j \<leftarrow> jt_parse detail; kvs \<leftarrow> jfields j; ref \<leftarrow> jstr_field ''ref'' kvs; q \<leftarrow> jstr_field ''question'' kvs;
          if str_or_absent ''type'' kvs \<and> str_list_or_absent ''options'' kvs \<and> str_or_absent ''repo'' kvs
             \<and> int_or_absent ''expires_at'' kvs then Some (ref, q) else None }"

definition parse_answered :: "jtext \<Rightarrow> (string \<times> string) option" where
  "parse_answered detail =
     do { j \<leftarrow> jt_parse detail; kvs \<leftarrow> jfields j; ref \<leftarrow> jstr_field ''ref'' kvs; a \<leftarrow> jstr_field ''answer'' kvs;
          if str_or_absent ''question'' kvs \<and> str_or_absent ''pap_id'' kvs \<and> int_or_absent ''answered_at'' kvs
          then Some (ref, a) else None }"

definition detail_ref :: "fact_type \<Rightarrow> jtext \<Rightarrow> (string \<times> string) option" where
  "detail_ref ty detail =
     (case ty of F_QuestionAsked \<Rightarrow> parse_asked detail | F_QuestionAnswered \<Rightarrow> parse_answered detail | _ \<Rightarrow> None)"

definition factDetailRefs :: "db \<Rightarrow> task_id \<Rightarrow> fact_type \<Rightarrow> string \<Rightarrow> string option" where
  "factDetailRefs d i ty =
     fold (\<lambda>f m. case detail_ref ty (Detail f) of None \<Rightarrow> m | Some (ref, txt) \<Rightarrow> m(ref \<mapsto> txt))
       (filter (\<lambda>f. TaskID f = i \<and> FType f = ty) (db_facts d)) Map.empty"

definition askedQuestionText :: "db \<Rightarrow> task_id \<Rightarrow> string \<Rightarrow> string" where
  "askedQuestionText d i ref = (case factDetailRefs d i F_QuestionAsked ref of None \<Rightarrow> [] | Some q \<Rightarrow> q)"

text \<open>One entry of the payload's \<open>answered\<close> array.\<close>

definition answered_entry :: "answer_record \<Rightarrow> string \<Rightarrow> go_time \<Rightarrow> json" where
  "answered_entry ans question answeredAt =
     JObj [(''ref'', JStr (an_Ref ans)), (''question'', JStr question), (''answer'', JStr (an_Answer ans)),
           (''pap_id'', JStr (an_PapID ans)), (''answered_at'', jint (unix_milli answeredAt))]"

definition answered_list :: "(string \<times> json) list \<Rightarrow> json list" where
  "answered_list kvs = (case map_of kvs ''answered'' of Some (JArr js) \<Rightarrow> js | _ \<Rightarrow> [])"

text \<open>Setting a key of an object keeps the other keys.\<close>

definition obj_set :: "string \<Rightarrow> json \<Rightarrow> (string \<times> json) list \<Rightarrow> (string \<times> json) list" where
  "obj_set k v kvs = (if k \<in> fst ` set kvs then map (\<lambda>(a, b). if a = k then (a, v) else (a, b)) kvs else kvs @ [(k, v)])"

definition mergeAnsweredPayload :: "jtext \<Rightarrow> answer_record \<Rightarrow> string \<Rightarrow> go_time \<Rightarrow> jtext \<times> bool" where
  "mergeAnsweredPayload payload ans question answeredAt =
     (if take 1 (trim_space (jt_text payload)) \<noteq> [CHR 0x7B] then (payload, False)
      else case jt_parse payload of
        Some (JObj kvs) \<Rightarrow>
          (marshal (JObj (obj_set ''answered''
             (JArr (answered_list kvs @ [answered_entry ans question answeredAt])) kvs)), True)
      | _ \<Rightarrow> (payload, False))"

definition unblock_row :: "jtext \<Rightarrow> go_time \<Rightarrow> task_row \<Rightarrow> task_row" where
  "unblock_row merged now r =
     r\<lparr>r_payload := merged, r_not_before := unix_milli now, r_updated_at := unix_milli now\<rparr>"

definition unblockParkedTask ::
  "task_id \<Rightarrow> jtext \<Rightarrow> string \<Rightarrow> answer_record \<Rightarrow> go_time \<Rightarrow> go_time \<Rightarrow> db \<Rightarrow> db" where
  "unblockParkedTask i payload question ans now answeredAt d =
     (case mergeAnsweredPayload payload ans question answeredAt of
        (merged, True) \<Rightarrow> snd (exec_update (\<lambda>r. r_id r = i \<and> r_status r = Pending) (unblock_row merged now) d)
      | (_, False) \<Rightarrow> d)"

definition RecordAnswer :: "task_id \<Rightarrow> answer_record \<Rightarrow> go_time \<Rightarrow> db \<Rightarrow> (qerr + unit) \<times> db" where
  "RecordAnswer i ans now d =
     (if an_Ref ans = [] then (Inl ErrEmptyAnswerRef, d)
      else if trim_space (an_Answer ans) = [] then (Inl ErrEmptyAnswer, d)
      else let answeredAt = (if is_zero (an_AnsweredAt ans) then now else an_AnsweredAt ans) in
        WithTx (\<lambda>d.
          if factDetailRefs d i F_QuestionAnswered (an_Ref ans) \<noteq> None then Inr ((), d)
          else case row_of d i of
            None \<Rightarrow> Inl (TaskErr ErrNotFound)
          | Some t \<Rightarrow>
              let question = (if an_Question ans = [] then askedQuestionText d i (an_Ref ans) else an_Question ans);
                  d1 = (if r_status t = Pending
                        then unblockParkedTask i (r_payload t) question ans now answeredAt d else d)
              in Inr ((), appendFact now (mk_fact i F_QuestionAnswered []
                   (marshal (QuestionAnsweredDetail (an_Ref ans) question (an_Answer ans) (an_PapID ans)
                      (unix_milli answeredAt)))) d1)) d)"

section \<open>RecordAnswer, characterised\<close>

lemma update_where_id: "(\<And>r. p r \<Longrightarrow> f r = r) \<Longrightarrow> update_where p f xs = xs"
  by (simp add: update_where_def map_idI)

text \<open>What an answer does to the row of its task.\<close>

definition answer_row :: "answer_record \<Rightarrow> string \<Rightarrow> go_time \<Rightarrow> go_time \<Rightarrow> task_row \<Rightarrow> task_row" where
  "answer_row ans question now answeredAt r =
     (case mergeAnsweredPayload (r_payload r) ans question answeredAt of (merged, mok) \<Rightarrow>
        if r_status r = Pending \<and> mok then unblock_row merged now r else r)"

abbreviation answer_time :: "answer_record \<Rightarrow> go_time \<Rightarrow> go_time" where
  "answer_time ans now \<equiv> (if is_zero (an_AnsweredAt ans) then now else an_AnsweredAt ans)"

definition answer_question :: "db \<Rightarrow> task_id \<Rightarrow> answer_record \<Rightarrow> string" where
  "answer_question d i ans = (if an_Question ans = [] then askedQuestionText d i (an_Ref ans) else an_Question ans)"

lemma answer_row_fields [simp]:
  "r_status (answer_row ans q now ts r) = r_status r" "r_id (answer_row ans q now ts r) = r_id r"
  "r_project (answer_row ans q now ts r) = r_project r" "r_deps (answer_row ans q now ts r) = r_deps r"
  "r_attempts (answer_row ans q now ts r) = r_attempts r" "same_identity r (answer_row ans q now ts r)"
  "r_lease_token (answer_row ans q now ts r) = r_lease_token r"
  by (simp_all add: answer_row_def unblock_row_def same_identity_def split: prod.split)

lemma unblockParkedTask_eq:
  assumes ok: "db_ok d" and t: "row_of d i = Some t" "r_status t = Pending"
  shows "unblockParkedTask i (r_payload t) q ans now ts d
       = d\<lparr>db_tasks := update_where (\<lambda>r. r = t) (answer_row ans q now ts) (db_tasks d)\<rparr>"
proof -
  have t': "t \<in> set (db_tasks d)" "r_id t = i" using t(1) by (auto dest: row_of_mem)
  obtain merged mok where m: "mergeAnsweredPayload (r_payload t) ans q ts = (merged, mok)"
    by (cases "mergeAnsweredPayload (r_payload t) ans q ts")
  have upd: "update_where (\<lambda>r. r_id r = i \<and> r_status r = Pending) f (db_tasks d)
      = update_where (\<lambda>r. r = t) f (db_tasks d)" for f
    using update_one_row [OF db_ok_ids [OF ok] t'(1), of "\<lambda>r. r_status r = Pending" f] t(2) t'(2) by simp
  have row: "answer_row ans q now ts t = (if mok then unblock_row merged now t else t)"
    using m t(2) by (simp add: answer_row_def)
  have "update_where (\<lambda>r. r = t) (answer_row ans q now ts) (db_tasks d)
      = update_where (\<lambda>r. r = t) (if mok then unblock_row merged now else (\<lambda>r. r)) (db_tasks d)"
    using row by (auto simp: update_where_def)
  then show ?thesis
    using m upd by (cases mok) (simp_all add: unblockParkedTask_def exec_update_def update_where_id)
qed

lemma RecordAnswer_cases:
  assumes ok: "db_ok d" and run: "RecordAnswer i ans now d = (res, d')"
  obtains
    (Invalid) "an_Ref ans = [] \<or> trim_space (an_Answer ans) = []" "res \<in> {Inl ErrEmptyAnswerRef, Inl ErrEmptyAnswer}" "d' = d"
  | (Replayed) "factDetailRefs d i F_QuestionAnswered (an_Ref ans) \<noteq> None" "res = Inr ()" "d' = d"
  | (Missing) "row_of d i = None" "res = Inl (TaskErr ErrNotFound)" "d' = d"
  | (Recorded) t f where "an_Ref ans \<noteq> []" "trim_space (an_Answer ans) \<noteq> []"
      "factDetailRefs d i F_QuestionAnswered (an_Ref ans) = None" "row_of d i = Some t" "res = Inr ()"
      "touched d t (answer_row ans (answer_question d i ans) now (answer_time ans now)) [f] d'"
      "FType f = F_QuestionAnswered"
      "Detail f = marshal (QuestionAnsweredDetail (an_Ref ans) (answer_question d i ans) (an_Answer ans)
         (an_PapID ans) (unix_milli (answer_time ans now)))"
proof (cases "an_Ref ans = [] \<or> trim_space (an_Answer ans) = []")
  case True
  then have "(res, d') \<in> {(Inl ErrEmptyAnswerRef, d), (Inl ErrEmptyAnswer, d)}"
    unfolding run [symmetric] by (auto simp: RecordAnswer_def)
  then show ?thesis using True by (intro that(1)) auto
next
  case valid: False
  let ?at = "answer_time ans now" and ?q = "answer_question d i ans"
  show ?thesis
  proof (cases "factDetailRefs d i F_QuestionAnswered (an_Ref ans)")
    case (Some a)
    then have "(res, d') = (Inr (), d)"
      unfolding run [symmetric] using valid by (simp add: RecordAnswer_def WithTx_def Let_def)
    then show ?thesis using Some by (intro that(2)) simp_all
  next
    case fresh: None
    show ?thesis
    proof (cases "row_of d i")
      case None
      then have "(res, d') = (Inl (TaskErr ErrNotFound), d)"
        unfolding run [symmetric] using valid fresh by (simp add: RecordAnswer_def WithTx_def Let_def)
      then show ?thesis using None by (intro that(3)) simp_all
    next
      case (Some t)
      have t: "t \<in> set (db_tasks d)" "r_id t = i" using Some by (auto dest: row_of_mem)
      let ?f = "answer_row ans ?q now ?at"
      let ?d1 = "d\<lparr>db_tasks := update_where (\<lambda>r. r = t) ?f (db_tasks d)\<rparr>"
      let ?fact = "mk_fact i F_QuestionAnswered [] (marshal (QuestionAnsweredDetail (an_Ref ans) ?q
          (an_Answer ans) (an_PapID ans) (unix_milli ?at)))"
      have idle: "r_status t \<noteq> Pending \<Longrightarrow> ?d1 = d"
        by (simp add: answer_row_def update_where_id split: prod.split)
      have "(res, d') = (Inr (), appendFact now ?fact ?d1)"
        unfolding run [symmetric]
        using valid fresh Some unblockParkedTask_eq [OF ok Some, of ?q ans now ?at] idle
        by (cases "r_status t = Pending")
          (simp_all add: RecordAnswer_def WithTx_def Let_def answer_question_def)
      moreover have "facts_ok ?d1" using db_ok_facts [OF ok] by (simp add: facts_ok_def)
      ultimately show ?thesis
        using valid fresh Some t by (intro that(4) [of t "fst (append_row now ?fact ?d1)"])
          (simp_all add: touched_def appendFact_facts)
    qed
  qed
qed

text \<open>The recorded fact is found again by its reference.\<close>

lemma parse_answered_detail:
  "int64 ts \<Longrightarrow> parse_answered (marshal (QuestionAnsweredDetail ref q a p ts)) = Some (ref, a)"
  by (simp add: parse_answered_def QuestionAnsweredDetail_def jfields_def jstr_field_def jint_field_def
      str_or_absent_def int_or_absent_def omit_empty_def)

lemma factDetailRefs_append:
  "db_facts d' = db_facts d @ [f] \<Longrightarrow> TaskID f = i \<Longrightarrow> FType f = F_QuestionAnswered \<Longrightarrow>
   parse_answered (Detail f) = Some (ref, a) \<Longrightarrow>
   factDetailRefs d' i F_QuestionAnswered ref = Some a"
  by (simp add: factDetailRefs_def detail_ref_def)

lemma map_of_replace_key:
  "map_of (map (\<lambda>(a, b). if a = k then (a, v) else (a, b)) kvs) x =
     (if x = k then map_option (\<lambda>_. v) (map_of kvs k) else map_of kvs x)"
proof (induction kvs)
  case (Cons kv kvs)
  obtain a b where "kv = (a, b)" by (cases kv)
  with Cons show ?case by (cases "a = k"; cases "x = k"; simp)
qed simp

lemma map_of_snoc_key:
  "map_of kvs k = None \<Longrightarrow> map_of (kvs @ [(k, v)]) x = (if x = k then Some v else map_of kvs x)"
  by (simp add: map_add_def split: option.splits)

lemma map_of_obj_set: "map_of (obj_set k v kvs) = (map_of kvs)(k \<mapsto> v)"
proof
  fix x
  have dom: "k \<in> fst ` set kvs \<longleftrightarrow> map_of kvs k \<noteq> None"
    using map_of_eq_None_iff [of kvs k] by simp
  show "map_of (obj_set k v kvs) x = ((map_of kvs)(k \<mapsto> v)) x"
    unfolding obj_set_def dom
    using map_of_snoc_key [of kvs k v x] map_of_replace_key [of k v kvs x]
    by (cases "map_of kvs k") (simp_all del: map_of_append)
qed

section \<open>Properties\<close>

text \<open>
  A parked task waits. Parking a pending task succeeds, keeps it pending with its attempts and
  its place in everything but the waiting time, and makes it due exactly from the later of the
  requested instant and now on; the \<open>task.parked\<close> fact is appended. A missing task is \<open>ErrNotFound\<close>, a
  task in another state \<open>ErrInvalidTransition\<close>, and neither changes anything.
\<close>

theorem Park_delays_claim:
  assumes "db_ok d"
  shows "case row_of d i of
      None \<Rightarrow> Park i reason until by_whom now d = (Inl (TaskErr ErrNotFound), d)
    | Some r \<Rightarrow>
        if r_status r \<noteq> Pending then Park i reason until by_whom now d = (Inl (TaskErr ErrInvalidTransition), d)
        else \<exists>d' r' f. Park i reason until by_whom now d = (Inr (), d') \<and> row_of d' i = Some r'
          \<and> r' = r\<lparr>r_not_before := unix_milli (max until now), r_updated_at := unix_milli now\<rparr>
          \<and> (\<forall>m. due m r' \<longleftrightarrow> unix_milli (max until now) \<le> m)
          \<and> db_facts d' = db_facts d @ [f] \<and> FType f = F_Parked \<and> TaskID f = i"
proof -
  obtain res d' where run: "Park i reason until by_whom now d = (res, d')"
    by (cases "Park i reason until by_whom now d")
  show ?thesis
  proof (rule Park_cases [OF assms run])
    fix t f assume c: "row_of d i = Some t" "r_status t = Pending" "res = Inr ()"
      "touched d t (park_row (max until now) now) [f] d'" "FType f = F_Parked"
    have i: "r_id t = i" using row_of_mem [OF c(1)] by simp
    have "row_of d' i = Some (park_row (max until now) now t)" using touched_row [OF assms c(4)] i by simp
    moreover have "db_facts d' = db_facts d @ [f]" "TaskID f = i" using c(4) i by (simp_all add: touched_def)
    ultimately show ?thesis using run c by (simp add: due_def park_row_def)
  qed (use run in simp_all)
qed

lemma Park_delays_claim_witness:
  "\<exists>d' r'. Park ''a'' ''later'' hour ''op'' second (demo_db [demo_row ''a'' 1 Pending]) = (Inr (), d')
     \<and> row_of d' ''a'' = Some r' \<and> (\<forall>m. due m r' \<longleftrightarrow> unix_milli (max hour second) \<le> m)"
proof -
  let ?d = "demo_db [demo_row ''a'' 1 Pending]"
  have ok: "db_ok ?d" by (rule demo_db_ok) simp
  have row: "row_of ?d ''a'' = Some (demo_row ''a'' 1 Pending)" "r_status (demo_row ''a'' 1 Pending) = Pending"
    by (simp_all add: row_of_def demo_defs)
  have "\<not> r_status (demo_row ''a'' 1 Pending) \<noteq> Pending" using row(2) by simp
  then show ?thesis
    using Park_delays_claim [OF ok, of "''a''" "''later''" hour "''op''" second]
    unfolding row(1) option.case by (simp only: if_False) blast
qed

text \<open>
  Recording an answer twice is recording it once. After an answer has been recorded, any later
  answer to the same question, whatever its text, succeeds and changes nothing.
\<close>

theorem RecordAnswer_idempotent:
  assumes "db_ok d" "RecordAnswer i ans now d = (Inr (), d')"
    and "int64 (unix_milli (answer_time ans now))"
    and "an_Ref again = an_Ref ans" "trim_space (an_Answer again) \<noteq> []"
  shows "RecordAnswer i again later d' = (Inr (), d')"
proof -
  have "an_Ref ans \<noteq> [] \<and> factDetailRefs d' i F_QuestionAnswered (an_Ref ans) \<noteq> None"
  proof (rule RecordAnswer_cases [OF assms(1,2)])
    assume "factDetailRefs d i F_QuestionAnswered (an_Ref ans) \<noteq> None" "d' = d"
    moreover have "an_Ref ans \<noteq> []" using assms(2) by (auto simp: RecordAnswer_def)
    ultimately show ?thesis by simp
  next
    fix t f assume c: "an_Ref ans \<noteq> []" "row_of d i = Some t"
      "touched d t (answer_row ans (answer_question d i ans) now (answer_time ans now)) [f] d'"
      "FType f = F_QuestionAnswered"
      "Detail f = marshal (QuestionAnsweredDetail (an_Ref ans) (answer_question d i ans) (an_Answer ans)
         (an_PapID ans) (unix_milli (answer_time ans now)))"
    have "TaskID f = i" "db_facts d' = db_facts d @ [f]"
      using c(3) row_of_mem [OF c(2)] by (auto simp: touched_def)
    then have "factDetailRefs d' i F_QuestionAnswered (an_Ref ans) = Some (an_Answer ans)"
      using factDetailRefs_append c(4,5) parse_answered_detail [OF assms(3)] by metis
    with c(1) show ?thesis by simp
  qed auto
  then show ?thesis using assms(4,5) by (auto simp: RecordAnswer_def WithTx_def Let_def)
qed

definition demo_answer :: "string \<Rightarrow> answer_record" where
  "demo_answer a = \<lparr>an_Ref = ''q1'', an_Answer = a, an_PapID = [], an_AnsweredAt = zero_time, an_Question = []\<rparr>"

lemma RecordAnswer_idempotent_witness:
  "\<exists>d'. RecordAnswer ''a'' (demo_answer ''yes'') second (demo_db [demo_row ''a'' 1 Pending]) = (Inr (), d')
     \<and> RecordAnswer ''a'' (demo_answer ''no'') hour d' = (Inr (), d')"
proof -
  let ?d = "demo_db [demo_row ''a'' 1 Pending]"
  have ok: "db_ok ?d" by (rule demo_db_ok) simp
  have tr: "trim_space ''yes'' \<noteq> []" "trim_space ''no'' \<noteq> []" by (simp_all add: trim_space_def ascii_space_def)
  have "\<exists>d'. RecordAnswer ''a'' (demo_answer ''yes'') second ?d = (Inr (), d')"
    using tr by (simp add: RecordAnswer_def demo_answer_def WithTx_def Let_def factDetailRefs_def demo_defs row_of_def)
  then obtain d' where run: "RecordAnswer ''a'' (demo_answer ''yes'') second ?d = (Inr (), d')" by blast
  have "RecordAnswer ''a'' (demo_answer ''no'') hour d' = (Inr (), d')"
    by (rule RecordAnswer_idempotent [OF ok run])
      (use tr in \<open>simp_all add: demo_answer_def int64_def unix_milli_def is_zero_def\<close>)
  with run show ?thesis by blast
qed

text \<open>
  C18: an answer reaches its task. The first answer to a question of a pending task whose payload is a
  JSON object makes the task due at once, appends the answer as the last entry of the payload's
  \<open>answered\<close> list with the text of the question that was asked, leaves every other key of the payload
  alone and leaves every other task alone.
\<close>

theorem RecordAnswer_reaches_task:
  assumes "db_ok d" "an_Ref ans \<noteq> []" "trim_space (an_Answer ans) \<noteq> []"
    and "factDetailRefs d i F_QuestionAnswered (an_Ref ans) = None"
    and "row_of d i = Some r" "r_status r = Pending"
    and "take 1 (trim_space (jt_text (r_payload r))) = [CHR 0x7B]" "jt_parse (r_payload r) = Some (JObj kvs)"
  shows "\<exists>d' r' kvs'. RecordAnswer i ans now d = (Inr (), d') \<and> row_of d' = (row_of d)(i \<mapsto> r')
     \<and> r_status r' = Pending \<and> r_not_before r' = unix_milli now \<and> r_attempts r' = r_attempts r
     \<and> jt_parse (r_payload r') = Some (JObj kvs')
     \<and> map_of kvs' = (map_of kvs)(''answered'' \<mapsto> JArr (answered_list kvs
          @ [answered_entry ans (answer_question d i ans) (answer_time ans now)]))"
proof -
  let ?q = "answer_question d i ans" and ?ts = "answer_time ans now"
  let ?kvs = "obj_set ''answered'' (JArr (answered_list kvs @ [answered_entry ans ?q ?ts])) kvs"
  have m: "mergeAnsweredPayload (r_payload r) ans ?q ?ts = (marshal (JObj ?kvs), True)"
    using assms(7,8) by (simp add: mergeAnsweredPayload_def)
  obtain res d' where run: "RecordAnswer i ans now d = (res, d')" by (cases "RecordAnswer i ans now d")
  show ?thesis
  proof (rule RecordAnswer_cases [OF assms(1) run])
    fix t f assume c: "row_of d i = Some t" "res = Inr ()" "touched d t (answer_row ans ?q now ?ts) [f] d'"
    have t: "t = r" "r_id r = i" using c(1) assms(5) row_of_mem [OF assms(5)] by simp_all
    have "answer_row ans ?q now ?ts r = unblock_row (marshal (JObj ?kvs)) now r"
      using m assms(6) by (simp add: answer_row_def)
    then have row: "row_of d' = (row_of d)(i \<mapsto> unblock_row (marshal (JObj ?kvs)) now r)"
      using touched_row [OF assms(1) c(3)] t by (auto simp: fun_eq_iff)
    show ?thesis
      by (rule exI [of _ d'], rule exI [of _ "unblock_row (marshal (JObj ?kvs)) now r"], rule exI [of _ ?kvs])
        (simp add: run c(2) row assms(6) unblock_row_def map_of_obj_set)
  qed (use assms in simp_all)
qed

lemma RecordAnswer_reaches_task_witness:
  "\<exists>d' r'. RecordAnswer ''a'' (demo_answer ''yes'') second
       (demo_db [(demo_row ''a'' 1 Pending)\<lparr>r_payload := marshal (JObj []), r_not_before := 9000000\<rparr>]) = (Inr (), d')
     \<and> row_of d' ''a'' = Some r' \<and> r_not_before r' = 1000"
proof -
  let ?r = "(demo_row ''a'' 1 Pending)\<lparr>r_payload := marshal (JObj []), r_not_before := 9000000\<rparr>"
  let ?d = "demo_db [?r]"
  have ok: "db_ok ?d" by (rule demo_db_ok) simp
  have "\<exists>d' r' kvs'. RecordAnswer ''a'' (demo_answer ''yes'') second ?d = (Inr (), d')
     \<and> row_of d' = (row_of ?d)(''a'' \<mapsto> r') \<and> r_status r' = Pending \<and> r_not_before r' = unix_milli second
     \<and> r_attempts r' = r_attempts ?r \<and> jt_parse (r_payload r') = Some (JObj kvs')
     \<and> map_of kvs' = (map_of [])(''answered'' \<mapsto> JArr (answered_list []
          @ [answered_entry (demo_answer ''yes'') (answer_question ?d ''a'' (demo_answer ''yes'')) (answer_time (demo_answer ''yes'') second)]))"
    by (rule RecordAnswer_reaches_task [OF ok])
      (simp_all add: demo_answer_def trim_space_def ascii_space_def factDetailRefs_def demo_defs row_of_def marshal_def)
  then obtain d' r' where "RecordAnswer ''a'' (demo_answer ''yes'') second ?d = (Inr (), d')"
    "row_of d' = (row_of ?d)(''a'' \<mapsto> r')" "r_not_before r' = unix_milli second" by blast
  moreover from this(2,3) have "row_of d' ''a'' = Some r'" "r_not_before r' = 1000" by (simp_all add: unix_milli_def)
  ultimately show ?thesis by blast
qed

end
