(* ===== verification/Tq_Store.thy ===== *)
theory Tq_Store
  imports Tq_Parks
begin

text \<open>
  The companion's mutating operations as one state machine: a step is any of the operations run to
  completion in its transaction, in any order, by any worker, at any clock reading. The theorems of
  this theory hold along every sequence of steps: the journal is append-only and explains every row
  change, every status change is a legal transition, finished tasks stay finished, one task runs
  per project under project exclusivity, every running task stays reclaimable, and a claim whose
  lease was taken over is fenced off.
\<close>

section \<open>Steps\<close>

inductive companion_step :: "bool \<Rightarrow> db \<Rightarrow> db \<Rightarrow> bool" for excl where
  claim: "ClaimDue excl owner lease types now token d = (res, d') \<Longrightarrow> token \<noteq> [] \<Longrightarrow> companion_step excl d d'"
| requeue: "Requeue i claim errText delay resume cls provider now d = (res', d') \<Longrightarrow> companion_step excl d d'"
| park: "Park i reason until by_whom now d = (res', d') \<Longrightarrow> companion_step excl d d'"
| answer: "RecordAnswer i ans now d = (res', d') \<Longrightarrow> companion_step excl d d'"
| observe: "AppendFactTx f now d = (res', d') \<Longrightarrow> companion_step excl d d'"

text \<open>
  Every step either leaves the tables alone, appends one observation, or touches one row with a
  legal change and facts about it. The invariants below only need this shape.
\<close>

definition leased_ok :: "task_row \<Rightarrow> bool" where
  "leased_ok r \<longleftrightarrow> (r_status r = Running \<longrightarrow> r_lease_token r \<noteq> [] \<and> r_lease_expires r \<noteq> None)"

definition row_change :: "task_row \<Rightarrow> task_row \<Rightarrow> bool" where
  "row_change r r' \<longleftrightarrow> legal_change r r' \<and> (leased_ok r \<longrightarrow> leased_ok r')"

lemma legal_change_refl [simp]: "legal_change r r"
  by (simp add: legal_change_def same_identity_def)

lemma leased_ok_answer_row [simp]: "leased_ok r \<Longrightarrow> leased_ok (answer_row ans q now ts r)"
  by (auto simp: leased_ok_def answer_row_def unblock_row_def split: prod.split)

lemma step_shape:
  assumes step: "companion_step excl d d'" and ok: "db_ok d" and rd: "deps_readable d"
  obtains
    (Same) "d' = d"
  | (Noted) now f where "d' = appendFact now f d"
  | (Touched) t f new where "touched d t f new d'" "row_change t (f t)"
      "r_status (f t) = Running \<Longrightarrow> r_status t = Running \<or> project_free excl d t"
  using step
proof cases
  case (claim owner lease types now token res)
  have due: "pick excl types (unix_milli now) d = Some t \<Longrightarrow> r_status t \<in> {Pending, Running} \<and> project_free excl d t" for t
    by (auto dest!: pick_SomeD(2) simp: candidate_def due_def)
  from ok rd claim(1) show ?thesis
  proof (cases rule: ClaimDue_cases)
    case Refused then show ?thesis by (intro that(1))
  next
    case (Finalized t new)
    then have "row_change t (cancel_row now t)"
      by (simp add: row_change_def legal_change_def CanTransitionTo_def leased_ok_def)
    then show ?thesis by (rule that(3) [OF Finalized(5)]) simp
  next
    case (Claimed t task new)
    have "row_change t (lease_row owner lease now token t)"
      using due [OF Claimed(1)] claim(2) by (auto simp: row_change_def legal_change_def CanTransitionTo_def leased_ok_def)
    then show ?thesis by (rule that(3) [OF Claimed(5)]) (use due [OF Claimed(1)] in simp)
  qed
next
  case (requeue i claim errText delay resume cls provider now res')
  from ok requeue show ?thesis
  proof (cases rule: Requeue_cases)
    case Refused then show ?thesis by (intro that(1))
  next
    case (Requeued t f)
    then have "row_change t (requeue_row errText delay now t)"
      by (simp add: row_change_def legal_change_def CanTransitionTo_def leased_ok_def)
    then show ?thesis by (rule that(3) [OF Requeued(5)]) (use Requeued(2) in simp)
  qed
next
  case (park i reason until by_whom now res')
  from ok park show ?thesis
  proof (cases rule: Park_cases)
    case (Parked t f)
    then have "row_change t (park_row (max until now) now t)"
      by (simp add: row_change_def legal_change_def leased_ok_def)
    then show ?thesis by (rule that(3) [OF Parked(4)]) (use Parked(2) in simp)
  qed (auto intro: that(1))
next
  case (answer i ans now res')
  from ok answer show ?thesis
  proof (cases rule: RecordAnswer_cases)
    case (Recorded t f)
    then have "row_change t (answer_row ans (answer_question d i ans) now (answer_time ans now) t)"
      by (simp add: row_change_def legal_change_def)
    then show ?thesis by (rule that(3) [OF Recorded(6)]) simp
  qed (auto intro: that(1))
next
  case (observe f now res')
  then show ?thesis by (intro that(2) [of now f]) (simp add: AppendFactTx_def WithTx_def)
qed

section \<open>What every step keeps\<close>

lemma step_db_ok: "companion_step excl d d' \<Longrightarrow> db_ok d \<Longrightarrow> deps_readable d \<Longrightarrow> db_ok d'"
  by (erule step_shape) (auto intro: touched_ok)

lemma step_deps_readable: "companion_step excl d d' \<Longrightarrow> db_ok d \<Longrightarrow> deps_readable d \<Longrightarrow> deps_readable d'"
proof (erule step_shape)
  fix t f new assume "deps_readable d" "touched d t f new d'" "row_change t (f t)"
  then show "deps_readable d'"
    by (simp add: deps_readable_def touched_set row_change_def legal_change_def same_identity_def)
      (simp add: touched_def)
qed (simp_all add: deps_readable_def)

lemma step_journaled: "companion_step excl d d' \<Longrightarrow> db_ok d \<Longrightarrow> deps_readable d \<Longrightarrow> journaled d d'"
  by (erule step_shape) (auto intro: journaled_append touched_journaled simp: row_change_def)

definition sound :: "db \<Rightarrow> bool" where
  "sound d \<longleftrightarrow> db_ok d \<and> deps_readable d"

lemma step_sound [tq_inv]: "companion_step excl d d' \<Longrightarrow> sound d \<Longrightarrow> sound d'"
  by (simp add: sound_def step_db_ok step_deps_readable)

lemma steps_sound: "(companion_step excl)\<^sup>*\<^sup>* d d' \<Longrightarrow> sound d \<Longrightarrow> sound d'"
  by (induction rule: rtranclp_induct) (auto intro: step_sound)

lemma steps_prefix: "(companion_step excl)\<^sup>*\<^sup>* d d' \<Longrightarrow> sound d \<Longrightarrow> prefix (db_facts d) (db_facts d')"
proof (induction rule: rtranclp_induct)
  case (step y z)
  have "journaled y z" using step_journaled [OF step(2)] steps_sound [OF step(1,4)] by (simp add: sound_def)
  then have "prefix (db_facts y) (db_facts z)" by (auto simp: journaled_def)
  with step.IH [OF step(4)] show ?case by (rule prefix_order.trans)
qed simp

text \<open>A property of single rows that every legal row change keeps holds along every run.\<close>

lemma step_rows:
  assumes "companion_step excl d d'" "sound d" and keep: "\<And>r r'. row_change r r' \<Longrightarrow> P r \<Longrightarrow> P r'"
    and "\<forall>r\<in>set (db_tasks d). P r"
  shows "\<forall>r\<in>set (db_tasks d'). P r"
proof (rule step_shape [OF assms(1)])
  show "db_ok d" "deps_readable d" using assms(2) by (simp_all add: sound_def)
  fix t f new assume "touched d t f new d'" "row_change t (f t)"
  then show ?thesis using keep [of t "f t"] assms(4) by (auto simp: touched_set) (simp add: touched_def)
qed (use assms(4) in simp_all)

lemma step_row:
  assumes "companion_step excl d d'" "sound d" "row_of d i = Some r"
  shows "\<exists>r'. row_of d' i = Some r' \<and> (r' = r \<or> legal_change r r')"
proof -
  have "journaled d d'" using step_journaled [OF assms(1)] assms(2) by (simp add: sound_def)
  then have "row_of d' i = row_of d i \<or> (\<exists>r r'. row_of d i = Some r \<and> row_of d' i = Some r' \<and> legal_change r r')"
    unfolding journaled_def by blast
  then show ?thesis using assms(3) by auto
qed

section \<open>Project exclusivity\<close>

definition exclusive :: "db \<Rightarrow> bool" where
  "exclusive d \<longleftrightarrow> (\<forall>r\<in>set (db_tasks d). \<forall>s\<in>set (db_tasks d).
     r_status r = Running \<and> r_status s = Running \<and> r_project r = r_project s \<and> r_project r \<noteq> [] \<longrightarrow> r_id r = r_id s)"

lemma exclusiveD:
  "exclusive d \<Longrightarrow> r \<in> set (db_tasks d) \<Longrightarrow> s \<in> set (db_tasks d) \<Longrightarrow> r_status r = Running \<Longrightarrow>
   r_status s = Running \<Longrightarrow> r_project r = r_project s \<Longrightarrow> r_project r \<noteq> [] \<Longrightarrow> r_id r = r_id s"
  unfolding exclusive_def by (drule bspec, assumption, drule bspec, assumption, erule mp) (intro conjI)

lemma touched_exclusive:
  assumes "db_ok d" "touched d t f new d'" "same_identity t (f t)" "exclusive d"
    and "r_status (f t) = Running \<Longrightarrow> r_status t = Running \<or> project_free True d t"
  shows "exclusive d'"
proof -
  have id: "r_id (f t) = r_id t" "r_project (f t) = r_project t" using assms(3) by (simp_all add: same_identity_def)
  have t: "t \<in> set (db_tasks d)" using assms(2) by (simp add: touched_def)
  have new: "r_id s = r_id t" if "r_status (f t) = Running" "s \<in> set (db_tasks d)" "r_status s = Running"
      "r_project s = r_project t" "r_project t \<noteq> []" for s
  proof (cases "r_status t = Running")
    case True
    then show ?thesis using exclusiveD [OF assms(4) that(2) t] that(3-5) by simp
  next
    case False
    then have "project_free True d t" using assms(5) [OF that(1)] by simp
    then show ?thesis using that(2-5) by (auto simp: project_free_def)
  qed
  show ?thesis
    unfolding exclusive_def touched_set [OF assms(2)]
  proof (intro ballI impI, elim conjE)
    fix r s
    assume mem: "r \<in> insert (f t) (set (db_tasks d) - {t})" "s \<in> insert (f t) (set (db_tasks d) - {t})"
      and run: "r_status r = Running" "r_status s = Running" "r_project r = r_project s" "r_project r \<noteq> []"
    show "r_id r = r_id s"
    proof (cases "r = f t"; cases "s = f t")
      assume "r = f t" "s \<noteq> f t"
      then show ?thesis using mem(2) run new [of s] id by simp
    next
      assume "r \<noteq> f t" "s = f t"
      then show ?thesis using mem(1) run new [of r] id by simp
    next
      assume "r \<noteq> f t" "s \<noteq> f t"
      then show ?thesis using exclusiveD [OF assms(4), of r s] mem run by simp
    qed simp
  qed
qed

lemma step_exclusive: "companion_step True d d' \<Longrightarrow> sound d \<Longrightarrow> exclusive d \<Longrightarrow> exclusive d'"
proof (erule step_shape)
  fix t f new assume "sound d" "exclusive d" "touched d t f new d'" "row_change t (f t)"
    "r_status (f t) = Running \<Longrightarrow> r_status t = Running \<or> project_free True d t"
  then show "exclusive d'"
    by (intro touched_exclusive [of d t f new d']) (simp_all add: sound_def row_change_def legal_change_def)
qed (simp_all add: sound_def exclusive_def)

section \<open>Leases\<close>

lemma steps_leased: 
  assumes "(companion_step excl)\<^sup>*\<^sup>* d d'" "sound d" "\<forall>r\<in>set (db_tasks d). leased_ok r"
  shows "\<forall>r\<in>set (db_tasks d'). leased_ok r"
  using assms
proof (induction rule: rtranclp_induct)
  case (step y z)
  have "sound y" using steps_sound step(1,4) by blast
  then show ?case
    by (rule step_rows [OF step(2)]) (use step.IH [OF step(4,5)] in \<open>simp_all add: row_change_def\<close>)
qed

lemma steps_same_tasks:
  assumes "(companion_step excl)\<^sup>*\<^sup>* d d'" "sound d"
  shows "row_of d' i = None \<longleftrightarrow> row_of d i = None"
  using assms
proof (induction rule: rtranclp_induct)
  case (step y z)
  have "journaled y z" using step_journaled [OF step(2)] steps_sound [OF step(1,4)] by (simp add: sound_def)
  then have "row_of z i = row_of y i \<or> row_of y i \<noteq> None \<and> row_of z i \<noteq> None" unfolding journaled_def by blast
  then have "row_of z i = None \<longleftrightarrow> row_of y i = None" by auto
  then show ?case using step.IH [OF step(4)] by simp
qed simp


text \<open>A candidate makes a claim call act: it claims a task or finalizes a cancelled one.\<close>

lemma ClaimDue_acts:
  assumes "sound d" "u \<in> set (db_tasks d)" "candidate excl types (unix_milli now) d u"
    and run: "ClaimDue excl owner lease types now token d = (res, d')"
  shows "\<exists>t\<in>set (db_tasks d). candidate excl types (unix_milli now) d t
     \<and> row_of d' (r_id t) = Some (if r_status t = Running \<and> cancelRequestedTx d (r_id t)
         then cancel_row now t else lease_row owner lease now token t)
     \<and> (isl res \<longleftrightarrow> r_status t = Running \<and> cancelRequestedTx d (r_id t))"
proof -
  have ok: "db_ok d" "deps_readable d" using assms(1) by (simp_all add: sound_def)
  show ?thesis
  proof (rule ClaimDue_cases [OF ok run])
    assume "pick excl types (unix_milli now) d = None"
    then show ?thesis using assms(2,3) by (simp add: pick_None)
  next
    fix t new assume t: "pick excl types (unix_milli now) d = Some t" "r_status t = Running"
      "cancelRequestedTx d (r_id t)" "res = Inl ErrNoTaskDue" "touched d t (cancel_row now) new d'"
    then show ?thesis using pick_SomeD(1,2) [OF t(1)] touched_row [OF ok(1) t(5), of "r_id t"]
      by (intro bexI [of _ t]) simp_all
  next
    fix t task new assume t: "pick excl types (unix_milli now) d = Some t"
      "r_status t = Running \<Longrightarrow> \<not> cancelRequestedTx d (r_id t)" "res = Inr (task, token)"
      "touched d t (lease_row owner lease now token) new d'"
    then show ?thesis using pick_SomeD(1,2) [OF t(1)] touched_row [OF ok(1) t(4), of "r_id t"]
      by (intro bexI [of _ t]) auto
  qed
qed

section \<open>Properties\<close>

text \<open>
  C2: one running task per project. From a sound database in which no project has two running
  tasks, no sequence of store operations under project exclusivity, whatever the workers, clocks
  and interleaving, makes two tasks of the same named project run at once, reclaims of expired
  leases included.
\<close>

theorem project_exclusivity:
  assumes "(companion_step True)\<^sup>*\<^sup>* d d'" "sound d" "exclusive d"
  shows "exclusive d'"
  using assms
proof (induction rule: rtranclp_induct)
  case (step y z)
  then show ?case using step_exclusive [of y z] steps_sound [OF step(1)] by simp
qed

lemma demo_sound: "distinct (map r_id rs) \<Longrightarrow> \<forall>r\<in>set rs. r_deps r = empty_text \<Longrightarrow> sound (demo_db rs)"
  by (simp add: sound_def demo_db_ok deps_readable_def) (simp add: demo_db_def scan_deps_def empty_text_def)

lemma project_exclusivity_witness:
  "exclusive (snd (ClaimDue True ''w'' minute [] second ''tok''
     (demo_db [demo_row ''a'' 1 Pending, demo_row ''b'' 7 Pending])))"
proof (rule project_exclusivity)
  let ?d = "demo_db [demo_row ''a'' 1 Pending, demo_row ''b'' 7 Pending]"
  show "sound ?d" by (rule demo_sound) (simp_all add: demo_row_def)
  show "exclusive ?d" by (simp add: exclusive_def demo_defs)
  show "(companion_step True)\<^sup>*\<^sup>* ?d (snd (ClaimDue True ''w'' minute [] second ''tok'' ?d))"
    by (rule r_into_rtranclp, rule companion_step.claim [OF prod.collapse [symmetric]]) simp
qed





text \<open>
  C5: a claim is fenced by its token. Right after a claim the token gate accepts the minted token for
  as long as the lease lasts; a worker that still holds any other token for the task is turned away
  with \<open>ErrLeaseNotHeld\<close>, whether it wants to finalize (the gate) or to requeue, and its attempt
  changes nothing.
\<close>

theorem claim_fences_old_tokens:
  assumes "sound d" "token \<noteq> []" "0 < unix_milli (now + lease)"
    and "ClaimDue excl owner lease types now token d = (Inr (task, tok), d')"
  shows "(unix_milli later < unix_milli (now + lease) \<longrightarrow> TokenFor d' later (ID task) tok live = Inr tok)
     \<and> (old \<noteq> tok \<longrightarrow> TokenFor d' later (ID task) old live = Inl (TaskErr ErrLeaseNotHeld)
          \<and> Requeue (ID task) old errText delay resume cls provider later d' = (Inl (TaskErr ErrLeaseNotHeld), d'))"
proof -
  have ok: "db_ok d" "deps_readable d" using assms(1) by (simp_all add: sound_def)
  show ?thesis
  proof (rule ClaimDue_cases [OF ok assms(4)])
    fix t task' new assume c: "Inr (task, tok) = Inr (task', token)"
      "scanTaskRow (lease_row owner lease now token t) = Inr task'"
      "touched d t (lease_row owner lease now token) new d'"
    have i: "ID task = r_id t" and tok: "tok = token" using c scanTaskRow_fields [OF c(2)] by simp_all
    have row: "row_of d' (r_id t) = Some (lease_row owner lease now token t)"
      using touched_row [OF ok(1) c(3)] by simp
    have "db_ok d'" using touched_ok [OF ok(1) c(3)] .
    then show ?thesis
      using Requeue_wrong_token [OF _ row] TokenFor_wrong_token [OF row] row assms(2,3) i tok
      by (auto simp: TokenFor_Inr_iff)
  qed simp_all
qed

lemma claim_fences_old_tokens_witness:
  "TokenFor (snd (ClaimDue False ''w2'' minute [] hour ''new''
       (demo_db [leased ''w1'' ''old'' 1 (demo_row ''a'' 1 Pending)]))) hour ''a'' ''old'' False
     = Inl (TaskErr ErrLeaseNotHeld)"
proof -
  let ?d = "demo_db [leased ''w1'' ''old'' 1 (demo_row ''a'' 1 Pending)]"
  have "\<exists>task d'. ClaimDue False ''w2'' minute [] hour ''new'' ?d = (Inr (task, ''new''), d') \<and> ID task = ''a''"
    by (simp add: claim_eval demo_defs appendFact_def append_row_def Let_def)
  then obtain task d' where run: "ClaimDue False ''w2'' minute [] hour ''new'' ?d = (Inr (task, ''new''), d')"
    and i: "ID task = ''a''" by blast
  have "sound ?d" by (rule demo_sound) (simp_all add: demo_row_def leased_def)
  then show ?thesis
    using claim_fences_old_tokens [OF _ _ _ run, where old = "''old''" and live = False] run i
    by (simp add: unix_milli_def)
qed




text \<open>
  Ageing reorders the queue by at most ten points. When a task is claimed whose creation lies in
  the past, every other claimable task has a stored priority that is at most ten above it.
\<close>

theorem aging_is_bounded:
  assumes "pick excl types now_ms d = Some t" "r_created_at t \<le> now_ms"
    and "u \<in> set (db_tasks d)" "candidate excl types now_ms d u" "r_created_at u \<le> now_ms"
  shows "r_priority u \<le> r_priority t + PriorityAgingMaxBonus"
proof -
  have "effective_priority now_ms u \<le> effective_priority now_ms t"
    using pick_SomeD(3) [OF assms(1,3,4)] by (rule claim_key_priority)
  then have "of_int (r_priority u) \<le> (of_int (r_priority t) + 10 :: rat)"
    using age_bonus_bounds [OF assms(2)] age_bonus_bounds [OF assms(5)] by (simp add: effective_priority_def)
  then have "(of_int (r_priority u) :: rat) \<le> of_int (r_priority t + 10)" by simp
  then have "r_priority u \<le> r_priority t + 10" by (simp only: of_int_le_iff)
  then show ?thesis by (simp add: PriorityAgingMaxBonus_def)
qed

lemma aging_is_bounded_witness:
  "r_priority (demo_row ''b'' 5 Pending) \<le> r_priority (demo_row ''a'' 7 Pending) + PriorityAgingMaxBonus"
proof (rule aging_is_bounded)
  let ?d = "demo_db [demo_row ''a'' 7 Pending, demo_row ''b'' 5 Pending]"
  show "pick False [] 1000 ?d = Some (demo_row ''a'' 7 Pending)" by (simp add: claim_eval demo_defs)
  show "candidate False [] 1000 ?d (demo_row ''b'' 5 Pending)" by (simp add: claim_eval demo_defs)
qed (simp_all add: demo_defs)

text \<open>
  Ageing crosses the band boundary. A backlog task of priority 95 that has waited thirty days is
  claimed before a fresh hot task of priority 100, although its band is the lower one.
\<close>

theorem aging_crosses_bands:
  "\<exists>old fresh. BandOf (r_priority old) = BandBacklog \<and> BandOf (r_priority fresh) = BandHot
     \<and> pick False [] (30 * 86400000) (demo_db [old, fresh]) = Some old"
proof (intro exI conjI)
  let ?old = "demo_row ''a'' 95 Pending" and ?fresh = "(demo_row ''b'' 100 Pending)\<lparr>r_created_at := 30 * 86400000\<rparr>"
  show "BandOf (r_priority ?old) = BandBacklog" "BandOf (r_priority ?fresh) = BandHot"
    by (simp_all add: demo_row_def BandOf_def band_consts)
  show "pick False [] (30 * 86400000) (demo_db [?old, ?fresh]) = Some ?old"
    by (simp add: claim_eval demo_defs)
qed

text \<open>
  A dependency on a task that does not exist never blocks a claim: the claim query joins the
  dependency to its task, and a missing task joins to nothing. The unblock bump counts the same
  dependency as not completed.
\<close>

theorem missing_dependency_does_not_block:
  assumes "\<forall>(ti, di)\<in>set (db_deps d). ti = r_id t \<longrightarrow> row_of d di = None" "due now_ms t"
    and "project_free excl d t" "claimTypeFilter types t"
  shows "candidate excl types now_ms d t
     \<and> (st_Get ops gone s = Inl (TaskErr ErrNotFound) \<longrightarrow> completedDeps ops s [gone] = Inr 0)"
  using assms by (auto simp: candidate_def deps_clear_def row_of_None)

lemma missing_dependency_does_not_block_witness:
  "candidate False [] 5 ((demo_db [demo_row ''a'' 1 Pending])\<lparr>db_deps := [(''a'', ''gone'')]\<rparr>) (demo_row ''a'' 1 Pending)"
  using missing_dependency_does_not_block [THEN conjunct1,
      of "(demo_db [demo_row ''a'' 1 Pending])\<lparr>db_deps := [(''a'', ''gone'')]\<rparr>" "demo_row ''a'' 1 Pending" 5 False "[]"]
  by (simp add: row_of_def demo_defs due_def project_free_def claimTypeFilter_def)

text \<open>
  A requeue returns the task without burning an attempt. The holder's requeue makes the row
  pending with the lease cleared and the attempt count unchanged; the task is due again exactly from
  now plus the delay on, and one \<open>task.requeued\<close> fact with the evidence is appended. Anyone else gets
  \<open>ErrNotFound\<close> or \<open>ErrLeaseNotHeld\<close> and changes nothing.
\<close>

theorem Requeue_burns_no_attempt:
  assumes "db_ok d" "row_of d i = Some r"
  shows "case Requeue i claim errText delay resume cls provider now d of
     (Inr _, d') \<Rightarrow> r_status r = Running \<and> r_lease_token r = claim
       \<and> (\<exists>r'. row_of d' i = Some r' \<and> r_status r' = Pending \<and> r_attempts r' = r_attempts r
            \<and> r_lease_token r' = [] \<and> r_lease_expires r' = None
            \<and> (\<forall>m. due m r' \<longleftrightarrow> unix_milli (now + delay) \<le> m))
       \<and> (\<exists>f. db_facts d' = db_facts d @ [f] \<and> FType f = F_Requeued \<and> TaskID f = i \<and> Error f = errText)
   | (Inl e, d') \<Rightarrow> e = TaskErr ErrLeaseNotHeld \<and> d' = d \<and> (r_status r \<noteq> Running \<or> r_lease_token r \<noteq> claim)"
proof -
  obtain res d' where run: "Requeue i claim errText delay resume cls provider now d = (res, d')"
    by (cases "Requeue i claim errText delay resume cls provider now d")
  show ?thesis
  proof (rule Requeue_cases [OF assms(1) run])
    assume "\<not> (\<exists>t. row_of d i = Some t \<and> r_status t = Running \<and> r_lease_token t = claim)"
      "res = Inl (leaseErr d i)" "d' = d"
    then show ?thesis using run assms(2) by (simp add: leaseErr_def)
  next
    fix t f assume c: "row_of d i = Some t" "r_status t = Running" "r_lease_token t = claim" "res = Inr ()"
      "touched d t (requeue_row errText delay now) [f] d'" "FType f = F_Requeued" "Error f = errText"
    have i: "r_id t = i" using row_of_mem [OF c(1)] by simp
    have row: "row_of d' i = Some (requeue_row errText delay now t)" using touched_row [OF assms(1) c(5)] i by simp
    have "db_facts d' = db_facts d @ [f]" "TaskID f = i" using c(5) i by (simp_all add: touched_def)
    with run c row assms(2) show ?thesis by (simp add: due_def requeue_row_def)
  qed
qed

lemma Requeue_burns_no_attempt_witness:
  "case Requeue ''a'' ''tok'' ''boom'' minute False ''gate'' [] second
      (demo_db [leased ''w'' ''tok'' 9000 (demo_row ''a'' 1 Pending)]) of
     (Inr _, d') \<Rightarrow> (\<exists>r'. row_of d' ''a'' = Some r' \<and> r_attempts r' = 0 \<and> \<not> due 60999 r' \<and> due 61000 r') | _ \<Rightarrow> False"
proof -
  let ?r = "leased ''w'' ''tok'' 9000 (demo_row ''a'' 1 Pending)"
  let ?d = "demo_db [?r]"
  have ok: "db_ok ?d" by (rule demo_db_ok) simp
  have row: "row_of ?d ''a'' = Some ?r" by (simp add: row_of_def demo_defs)
  obtain res d' where run: "Requeue ''a'' ''tok'' ''boom'' minute False ''gate'' [] second ?d = (res, d')"
    by (cases "Requeue ''a'' ''tok'' ''boom'' minute False ''gate'' [] second ?d")
  have tok: "r_status ?r = Running" "r_lease_token ?r = ''tok''" "r_attempts ?r = 0" by (simp_all add: demo_defs)
  note fact = Requeue_burns_no_attempt [OF ok row, where claim = "''tok''" and errText = "''boom''" and delay = minute
        and resume = False and cls = "''gate''" and provider = "[]" and now = second, unfolded run]
  show ?thesis
  proof (cases res)
    case (Inl e) with fact tok show ?thesis by simp
  next
    case (Inr u)
    from fact obtain r' where r': "row_of d' ''a'' = Some r'" "r_attempts r' = 0"
        "\<forall>m. due m r' \<longleftrightarrow> unix_milli (second + minute) \<le> m"
      unfolding Inr tok(3) prod.case sum.case by (elim conjE exE) rule
    then have "\<not> due 60999 r'" "due 61000 r'" by (simp_all add: unix_milli_def)
    with run Inr r'(1,2) show ?thesis by simp
  qed
qed

end
