(* ===== verification/Tq_Reads.thy ===== *)
theory Tq_Reads
  imports Tq_Parks
begin

text \<open>
  \<open>internal/queue/companion/reads.go\<close>: the list query with its filter, orders and pages, the substring
  search through \<open>LIKE\<close>, the journal reads, the consumer cursors and the priority-score cache. Shows
  that the escaped pattern matches exactly the rows that contain the text, that pages partition the
  ordered list that \<open>CountTasks\<close> counts, that \<open>LastFacts\<close> is the end of the journal and that a saved
  cursor never moves back.
\<close>

section \<open>LIKE\<close>

definition replace_all :: "char \<Rightarrow> string \<Rightarrow> string \<Rightarrow> string" where
  "replace_all c r s = concat (map (\<lambda>x. if x = c then r else [x]) s)"

definition escapeLike :: "string \<Rightarrow> string" where
  "escapeLike s =
     replace_all (CHR ''_'') [CHR 0x5C, CHR ''_'']
       (replace_all (CHR ''%'') [CHR 0x5C, CHR ''%'']
         (replace_all (CHR 0x5C) [CHR 0x5C, CHR 0x5C] s))"

text \<open>SQL's \<open>text LIKE pattern ESCAPE '\'\<close>.\<close>

fun like :: "string \<Rightarrow> string \<Rightarrow> bool" where
  "like [] s \<longleftrightarrow> s = []"
| "like (p # ps) s \<longleftrightarrow>
     (if p = CHR ''%'' then like ps s \<or> (case s of [] \<Rightarrow> False | c # cs \<Rightarrow> like (p # ps) cs)
      else if p = CHR ''_'' then (case s of [] \<Rightarrow> False | c # cs \<Rightarrow> like ps cs)
      else if p = CHR 0x5C then
        (case (ps, s) of (e # es, c # cs) \<Rightarrow> c = e \<and> like es cs | _ \<Rightarrow> False)
      else (case s of [] \<Rightarrow> False | c # cs \<Rightarrow> c = p \<and> like ps cs))"

declare like.simps(2) [simp del]

definition like_pattern :: "string \<Rightarrow> string" where
  "like_pattern q = ''%'' @ escapeLike (to_lower q) @ ''%''"

lemma escapeLike_Nil [simp]: "escapeLike [] = []"
  by (simp add: escapeLike_def replace_all_def)

lemma escapeLike_Cons:
  "escapeLike (c # s) = (if c \<in> {CHR 0x5C, CHR ''%'', CHR ''_''} then [CHR 0x5C, c] else [c]) @ escapeLike s"
  by (simp add: escapeLike_def replace_all_def)

lemma like_percent: "like (CHR ''%'' # ps) s \<longleftrightarrow> (\<exists>a b. s = a @ b \<and> like ps b)"
proof (induction s)
  case Nil
  show ?case by (simp add: like.simps(2))
next
  case (Cons c s)
  have "(\<exists>a b. c # s = a @ b \<and> like ps b) \<longleftrightarrow> like ps (c # s) \<or> (\<exists>a b. s = a @ b \<and> like ps b)"
    by (auto simp: Cons_eq_append_conv)
  with Cons show ?case by (subst like.simps(2)) simp
qed

lemma like_escaped: "like (escapeLike q @ ps) s \<longleftrightarrow> (\<exists>s'. s = q @ s' \<and> like ps s')"
proof (induction q arbitrary: s)
  case (Cons c q)
  show ?case
  proof (cases s)
    case Nil then show ?thesis by (simp add: escapeLike_Cons like.simps(2))
  next
    case (Cons x xs)
    have "like (escapeLike (c # q) @ ps) (x # xs) \<longleftrightarrow> x = c \<and> like (escapeLike q @ ps) xs"
      by (simp add: escapeLike_Cons like.simps(2))
    then show ?thesis using Cons Cons.IH by auto
  qed
qed simp

lemma like_pattern_iff: "like (like_pattern q) s \<longleftrightarrow> sublist (to_lower q) s"
proof -
  have "like (like_pattern q) s \<longleftrightarrow> (\<exists>a b. s = a @ b \<and> (\<exists>s'. b = to_lower q @ s' \<and> like ''%'' s'))"
    by (simp add: like_pattern_def like_percent like_escaped)
  also have "\<dots> \<longleftrightarrow> (\<exists>a s'. s = a @ to_lower q @ s')" by (auto simp: like_percent)
  finally show ?thesis by (simp add: sublist_def)
qed

section \<open>The filter\<close>

text \<open>The condition \<open>NAME IS NULL OR \<dots>\<close> of an optional argument.\<close>

definition given :: "'a option \<Rightarrow> ('a \<Rightarrow> bool) \<Rightarrow> bool" where
  "given x p \<longleftrightarrow> (case x of None \<Rightarrow> True | Some v \<Rightarrow> p v)"

definition listWhere :: "go_time \<Rightarrow> task_filter \<Rightarrow> task_row \<Rightarrow> bool" where
  "listWhere now f r \<longleftrightarrow>
     given (fl_Project f) (\<lambda>p. r_project r = p)
     \<and> given (fl_Status f) (\<lambda>s. r_status r = s)
     \<and> given (fl_Type f) (\<lambda>t. r_type r = t)
     \<and> (fl_DedupKey f \<noteq> [] \<longrightarrow> r_dedup_key r = fl_DedupKey f)
     \<and> given (fl_Since f) (\<lambda>t. unix_milli t \<le> r_created_at r)
     \<and> (fl_Parked f = Some True \<longrightarrow> r_status r = Pending \<and> unix_milli now < r_not_before r)
     \<and> given (fl_PriorityMin f) (\<lambda>p. p \<le> r_priority r)
     \<and> given (fl_PriorityMax f) (\<lambda>p. r_priority r \<le> p)
     \<and> (fl_Query f \<noteq> [] \<longrightarrow> (\<exists>col\<in>set [r_id r, r_type r, r_project r, jt_text (r_payload r), r_lease_owner r,
            r_last_error r]. like (like_pattern (fl_Query f)) (to_lower col)))
     \<and> (fl_PayloadContains f \<noteq> [] \<longrightarrow> like (like_pattern (fl_PayloadContains f)) (to_lower (jt_text (r_payload r))))"

section \<open>List\<close>

definition severity :: "status \<Rightarrow> int" where
  "severity s = (case s of Dead \<Rightarrow> 0 | Running \<Rightarrow> 1 | Pending \<Rightarrow> 2 | Cancelled \<Rightarrow> 3 | _ \<Rightarrow> 4)"

text \<open>
  The strict order of the \<open>ORDER BY\<close> clause: \<open>Sort\<close> overrides the severity order, which overrides the
  default. Rows that the clause does not separate come in table order.
\<close>

definition order_lt :: "task_filter \<Rightarrow> task_row \<Rightarrow> task_row \<Rightarrow> bool" where
  "order_lt f a b =
     (if fl_Sort f = ''age-asc'' then (r_created_at a, r_id a) < (r_created_at b, r_id b)
      else if fl_Sort f = ''age-desc'' then (r_created_at b, r_id b) < (r_created_at a, r_id a)
      else if fl_Sort f = ''priority-asc'' then
        (r_priority a, r_created_at a, r_id a) < (r_priority b, r_created_at b, r_id b)
      else if fl_Sort f = ''priority-desc'' then
        (- r_priority a, r_created_at a, r_id a) < (- r_priority b, r_created_at b, r_id b)
      else if fl_Sort f = ''attempts-asc'' then
        (r_attempts a, r_created_at a, r_id a) < (r_attempts b, r_created_at b, r_id b)
      else if fl_Sort f = ''attempts-desc'' then
        (r_attempts b, r_created_at b, r_id b) < (r_attempts a, r_created_at a, r_id a)
      else if fl_SeverityOrder f then
        (severity (r_status a), - r_created_at a) < (severity (r_status b), - r_created_at b)
      else (- r_priority a, r_created_at a) < (- r_priority b, r_created_at b))"

fun insert_by :: "('a \<Rightarrow> 'a \<Rightarrow> bool) \<Rightarrow> 'a \<Rightarrow> 'a list \<Rightarrow> 'a list" where
  "insert_by lt x [] = [x]"
| "insert_by lt x (y # ys) = (if lt y x then y # insert_by lt x ys else x # y # ys)"

definition order_by :: "('a \<Rightarrow> 'a \<Rightarrow> bool) \<Rightarrow> 'a list \<Rightarrow> 'a list" where
  "order_by lt xs = foldr (insert_by lt) xs []"

text \<open>\<open>LIMIT\<close> and \<open>OFFSET\<close>: an offset without a limit is limited to the largest integer.\<close>

definition page :: "int \<Rightarrow> int \<Rightarrow> 'a list \<Rightarrow> 'a list" where
  "page limit offset xs =
     (let ys = (if offset > 0 then drop (nat offset) xs else xs) in
      if limit > 0 then take (nat limit) ys
      else if offset > 0 then take (nat 9223372036854775807) ys else ys)"

fun scan_all :: "task_row list \<Rightarrow> qerr + task list" where
  "scan_all [] = Inr []"
| "scan_all (r # rs) =
     (case scanTaskRow r of Inl e \<Rightarrow> Inl e
      | Inr t \<Rightarrow> (case scan_all rs of Inl e \<Rightarrow> Inl e | Inr ts \<Rightarrow> Inr (t # ts)))"

definition selected :: "db \<Rightarrow> go_time \<Rightarrow> task_filter \<Rightarrow> task_row list" where
  "selected d now f = order_by (order_lt f) (filter (listWhere now f) (db_tasks d))"

definition ListTasks :: "db \<Rightarrow> go_time \<Rightarrow> task_filter \<Rightarrow> qerr + task list" where
  "ListTasks d now f = scan_all (page (fl_Limit f) (fl_Offset f) (selected d now f))"

definition CountTasks :: "db \<Rightarrow> go_time \<Rightarrow> task_filter \<Rightarrow> int" where
  "CountTasks d now f = int (length (filter (listWhere now f) (db_tasks d)))"

lemma set_insert_by [simp]: "set (insert_by lt x xs) = insert x (set xs)"
  by (induction xs) auto

lemma set_order_by [simp]: "set (order_by lt xs) = set xs"
  by (induction xs) (simp_all add: order_by_def)

lemma length_insert_by [simp]: "length (insert_by lt x xs) = Suc (length xs)"
  by (induction xs) auto

lemma length_order_by [simp]: "length (order_by lt xs) = length xs"
  by (induction xs) (simp_all add: order_by_def)

lemma distinct_insert_by: "distinct (map k (insert_by lt x xs)) \<longleftrightarrow> k x \<notin> k ` set xs \<and> distinct (map k xs)"
  by (induction xs) auto

lemma distinct_order_by: "distinct (map k xs) \<Longrightarrow> distinct (map k (order_by lt xs))"
proof (induction xs)
  case (Cons x xs)
  have "order_by lt (x # xs) = insert_by lt x (order_by lt xs)" by (simp add: order_by_def)
  with Cons show ?case by (simp add: distinct_insert_by)
qed (simp add: order_by_def)

text \<open>Insertion sort sorts for every order that comes from a linearly ordered key.\<close>

lemma sorted_insert_by:
  assumes "\<And>a b c. lt a b \<Longrightarrow> \<not> lt c b \<Longrightarrow> lt a c" "\<And>a b. lt a b \<Longrightarrow> \<not> lt b a"
  shows "sorted_wrt (\<lambda>a b. \<not> lt b a) xs \<Longrightarrow> sorted_wrt (\<lambda>a b. \<not> lt b a) (insert_by lt x xs)"
proof (induction xs)
  case (Cons y ys)
  show ?case
  proof (cases "lt y x")
    case True
    then show ?thesis using Cons assms(2) [of y x] by simp
  next
    case False
    then have "\<forall>z\<in>set ys. \<not> lt z x" using Cons.prems assms(1) [of _ x y] by auto
    then show ?thesis using Cons.prems False by simp
  qed
qed simp

lemma sorted_order_by:
  assumes "\<And>a b c. lt a b \<Longrightarrow> \<not> lt c b \<Longrightarrow> lt a c" "\<And>a b. lt a b \<Longrightarrow> \<not> lt b a"
  shows "sorted_wrt (\<lambda>a b. \<not> lt b a) (order_by lt xs)"
  by (induction xs) (use sorted_insert_by [OF assms] in \<open>simp_all add: order_by_def\<close>)

lemma order_lt_trans: "order_lt f a b \<Longrightarrow> \<not> order_lt f c b \<Longrightarrow> order_lt f a c"
  unfolding order_lt_def by (auto split: if_splits)

lemma order_lt_asym: "order_lt f a b \<Longrightarrow> \<not> order_lt f b a"
  unfolding order_lt_def by (auto split: if_splits)

lemma selected_sorted: "sorted_wrt (\<lambda>a b. \<not> order_lt f b a) (selected d now f)"
  unfolding selected_def by (rule sorted_order_by) (auto dest: order_lt_trans order_lt_asym)

lemma scan_all_Inr: "scan_all rs = Inr ts \<longleftrightarrow> map scanTaskRow rs = map Inr ts"
proof (induction rs arbitrary: ts)
  case (Cons r rs)
  show ?case
  proof (cases ts)
    case Nil then show ?thesis by (simp split: sum.split)
  next
    case (Cons t ts')
    then show ?thesis using Cons.IH [of ts'] by (cases "scanTaskRow r"; cases "scan_all rs") auto
  qed
qed auto

lemma scan_all_readable: "\<forall>r\<in>set rs. scan_deps (r_deps r) \<noteq> None \<Longrightarrow> \<exists>ts. scan_all rs = Inr ts"
  by (induction rs) (auto simp: scanTaskRow_def)

section \<open>Journal reads\<close>

definition scan_fact :: "fact \<Rightarrow> fact" where
  "scan_fact f = f\<lparr>Time := from_milli (unix_milli (Time f)),
     Detail := (if jt_text (Detail f) \<noteq> [] then Detail f else empty_text)\<rparr>"

definition scanFacts :: "fact list \<Rightarrow> fact list" where
  "scanFacts fs = map scan_fact fs"

definition LastFacts :: "db \<Rightarrow> int \<Rightarrow> fact list" where
  "LastFacts d limit =
     (let asc = sort_key Seq (db_facts d) in
      if limit > 0 then rev (scanFacts (take (nat limit) (rev asc))) else scanFacts asc)"

definition HeadSeq :: "db \<Rightarrow> int" where
  "HeadSeq d = (case map Seq (db_facts d) of [] \<Rightarrow> 0 | s # ss \<Rightarrow> fold max ss s)"

definition CountFacts :: "db \<Rightarrow> fact_type \<Rightarrow> go_time \<Rightarrow> int" where
  "CountFacts d ftype since =
     int (length (filter (\<lambda>f. FType f = ftype \<and> unix_milli since \<le> unix_milli (Time f)) (db_facts d)))"

definition FactsSince :: "db \<Rightarrow> fact_type \<Rightarrow> go_time \<Rightarrow> int \<Rightarrow> fact list" where
  "FactsSince d ftype since limit =
     (let fs = sort_key Seq (filter (\<lambda>f. FType f = ftype \<and> unix_milli since \<le> unix_milli (Time f)) (db_facts d)) in
      scanFacts (if limit > 0 then take (nat limit) fs else fs))"

lemma seq_sorted_sort: "seq_sorted fs \<Longrightarrow> sort_key Seq fs = fs"
  by (rule sort_key_id_if_sorted) (auto simp: seq_sorted_def sorted_map intro: sorted_wrt_mono_rel [rotated])

lemma HeadSeq_last:
  assumes "facts_ok d"
  shows "HeadSeq d = (if db_facts d = [] then 0 else Seq (last (db_facts d)))"
proof (cases "db_facts d")
  case (Cons f fs)
  have "seq_sorted (f # fs) \<Longrightarrow> fold max (map Seq fs) (Seq f) = Seq (last (f # fs))"
  proof (induction fs arbitrary: f)
    case (Cons g fs)
    then have "max (Seq g) (Seq f) = Seq g" "seq_sorted (g # fs)" by (auto simp: seq_sorted_def)
    with Cons.IH [of g] show ?case by simp
  qed simp
  with Cons assms show ?thesis by (simp add: HeadSeq_def facts_ok_def)
qed (simp add: HeadSeq_def)

section \<open>Cursors\<close>

text \<open>\<open>INSERT \<dots> ON CONFLICT(key) DO UPDATE\<close>.\<close>

definition upsert :: "('a \<Rightarrow> 'k) \<Rightarrow> 'a \<Rightarrow> ('a \<Rightarrow> 'a) \<Rightarrow> 'a list \<Rightarrow> 'a list" where
  "upsert k new upd xs =
     (if \<exists>x\<in>set xs. k x = k new then update_where (\<lambda>x. k x = k new) upd xs else xs @ [new])"

definition Watermark :: "db \<Rightarrow> string \<Rightarrow> int option" where
  "Watermark d consumer = map_option wm_Seq (find (\<lambda>w. wm_Consumer w = consumer) (db_watermarks d))"

definition SaveWatermark :: "string \<Rightarrow> int \<Rightarrow> go_time \<Rightarrow> db \<Rightarrow> db" where
  "SaveWatermark consumer seq now d =
     d\<lparr>db_watermarks := upsert wm_Consumer
         \<lparr>wm_Consumer = consumer, wm_Seq = seq, wm_UpdatedAt = unix_milli now\<rparr>
         (\<lambda>w. if wm_Seq w < seq then w\<lparr>wm_Seq := seq, wm_UpdatedAt := unix_milli now\<rparr> else w)
         (db_watermarks d)\<rparr>"

definition ListWatermarks :: "db \<Rightarrow> watermark_entry list" where
  "ListWatermarks d = sort_key wm_Consumer (db_watermarks d)"

definition SetWatermark :: "string \<Rightarrow> int \<Rightarrow> go_time \<Rightarrow> db \<Rightarrow> db" where
  "SetWatermark consumer seq now d =
     d\<lparr>db_watermarks := upsert wm_Consumer
         \<lparr>wm_Consumer = consumer, wm_Seq = seq, wm_UpdatedAt = unix_milli now\<rparr>
         (\<lambda>w. w\<lparr>wm_Seq := seq, wm_UpdatedAt := unix_milli now\<rparr>) (db_watermarks d)\<rparr>"

lemma find_upsert:
  assumes "\<And>x. k (upd x) = k x"
  shows "find (\<lambda>x. k x = i) (upsert k new upd xs) =
     (if i = k new then Some (case find (\<lambda>x. k x = i) xs of None \<Rightarrow> new | Some x \<Rightarrow> upd x)
      else find (\<lambda>x. k x = i) xs)"
proof (cases "\<exists>x\<in>set xs. k x = k new")
  case True
  show ?thesis
  proof (cases "i = k new")
    case hit: True
    obtain x where x: "find (\<lambda>x. k x = i) xs = Some x"
      using True hit by (cases "find (\<lambda>x. k x = i) xs") (auto simp: find_None_iff_all)
    then have "k x = k new" using hit by (auto dest: find_SomeD)
    with x True hit show ?thesis
      using find_update_hit [OF x, of "\<lambda>x. k x = k new" upd] assms by (simp add: upsert_def)
  next
    case False
    then show ?thesis using find_update_other [of "\<lambda>x. k x = k new" k i upd xs] True assms
      by (simp add: upsert_def)
  qed
next
  case False
  then have "find (\<lambda>x. k x = k new) xs = None" by (simp add: find_None_iff_all)
  with False show ?thesis
    by (auto simp: upsert_def find_append split: option.splits)
qed

lemma distinct_upsert:
  "(\<And>x. k (upd x) = k x) \<Longrightarrow> distinct (map k xs) \<Longrightarrow> distinct (map k (upsert k new upd xs))"
  by (auto simp: upsert_def)

lemma Watermark_Save:
  "Watermark (SaveWatermark consumer seq now d) c =
     (if c = consumer then Some (case Watermark d consumer of None \<Rightarrow> seq | Some s \<Rightarrow> max s seq)
      else Watermark d c)"
  by (simp add: Watermark_def SaveWatermark_def find_upsert max_def split: option.splits)

lemma Watermark_Set:
  "Watermark (SetWatermark consumer seq now d) c = (if c = consumer then Some seq else Watermark d c)"
  by (simp add: Watermark_def SetWatermark_def find_upsert split: option.splits)

lemma SaveWatermark_frame [tq_frame, simp]:
  "db_tasks (SaveWatermark consumer seq now d) = db_tasks d"
  "db_facts (SaveWatermark consumer seq now d) = db_facts d"
  "db_next_seq (SaveWatermark consumer seq now d) = db_next_seq d"
  "db_scores (SaveWatermark consumer seq now d) = db_scores d"
  by (simp_all add: SaveWatermark_def)

lemma db_ok_SaveWatermark [tq_inv, simp]: "db_ok d \<Longrightarrow> db_ok (SaveWatermark consumer seq now d)"
  by (simp add: db_ok_def facts_ok_def) (simp add: SaveWatermark_def distinct_upsert)

section \<open>Priority scores\<close>

definition SavePriorityScore :: "priority_score \<Rightarrow> db \<Rightarrow> db" where
  "SavePriorityScore score d =
     d\<lparr>db_scores := upsert ps_ItemKey score
         (\<lambda>p. p\<lparr>ps_Score := ps_Score score, ps_EffortMinutes := ps_EffortMinutes score,
             ps_Source := ps_Source score, ps_Reasoning := ps_Reasoning score,
             ps_Tokens := ps_Tokens score, ps_ScoredAt := ps_ScoredAt score\<rparr>) (db_scores d)\<rparr>"

definition PriorityScore :: "db \<Rightarrow> string \<Rightarrow> priority_score option" where
  "PriorityScore d itemKey = find (\<lambda>p. ps_ItemKey p = itemKey) (db_scores d)"

definition PriorityScores :: "db \<Rightarrow> priority_score list" where
  "PriorityScores d = sort_key ps_ItemKey (db_scores d)"

definition DeletePriorityScores :: "string list \<Rightarrow> db \<Rightarrow> int \<times> db" where
  "DeletePriorityScores itemKeys d =
     (if itemKeys = [] then (0, d)
      else (int (length (filter (\<lambda>p. ps_ItemKey p \<in> set itemKeys) (db_scores d))),
            d\<lparr>db_scores := filter (\<lambda>p. ps_ItemKey p \<notin> set itemKeys) (db_scores d)\<rparr>))"

lemma PriorityScore_Save:
  "PriorityScore (SavePriorityScore score d) key =
     (if key = ps_ItemKey score then Some score else PriorityScore d key)"
proof -
  let ?upd = "\<lambda>p. p\<lparr>ps_Score := ps_Score score, ps_EffortMinutes := ps_EffortMinutes score,
             ps_Source := ps_Source score, ps_Reasoning := ps_Reasoning score,
             ps_Tokens := ps_Tokens score, ps_ScoredAt := ps_ScoredAt score\<rparr>"
  have upd: "?upd x = score" if "find (\<lambda>p. ps_ItemKey p = ps_ItemKey score) (db_scores d) = Some x" for x
    using find_SomeD [OF that] by (cases x; cases score) simp
  show ?thesis
    unfolding PriorityScore_def SavePriorityScore_def
    using find_upsert [of ps_ItemKey ?upd key score "db_scores d"] upd
    by (simp split: option.split)
qed

lemma find_filter_key: "find (\<lambda>x. k x = i) (filter (\<lambda>x. k x \<notin> S) xs) = (if i \<in> S then None else find (\<lambda>x. k x = i) xs)"
  by (induction xs) auto

lemma PriorityScore_Delete:
  "PriorityScore (snd (DeletePriorityScores keys d)) key = (if key \<in> set keys then None else PriorityScore d key)"
  by (auto simp: DeletePriorityScores_def PriorityScore_def find_filter_key)

section \<open>Counts\<close>

text \<open>\<open>GROUP BY\<close>: a key is present when a row has it.\<close>

definition count_group :: "nat \<Rightarrow> int option" where
  "count_group n = (if n = 0 then None else Some (int n))"

definition StatusCounts :: "db \<Rightarrow> status \<Rightarrow> int option" where
  "StatusCounts d st = count_group (length (filter (\<lambda>r. r_status r = st) (db_tasks d)))"

definition ClaimCounts :: "db \<Rightarrow> task_id \<Rightarrow> int option" where
  "ClaimCounts d i = count_group (length (filter (\<lambda>f. FType f = F_Claimed \<and> TaskID f = i) (db_facts d)))"

definition ProjectCounts :: "db \<Rightarrow> string \<Rightarrow> (status \<Rightarrow> int option) option" where
  "ProjectCounts d project =
     (if \<exists>r\<in>set (db_tasks d). r_project r = project
      then Some (\<lambda>st. count_group (length (filter (\<lambda>r. r_project r = project \<and> r_status r = st) (db_tasks d))))
      else None)"

text \<open>A sequence of checkpoints, and the values one consumer saved in it.\<close>

fun save_all :: "(string \<times> int \<times> go_time) list \<Rightarrow> db \<Rightarrow> db" where
  "save_all [] d = d"
| "save_all ((c, s, now) # saves) d = save_all saves (SaveWatermark c s now d)"

fun saved_by :: "string \<Rightarrow> (string \<times> int \<times> go_time) list \<Rightarrow> int list" where
  "saved_by consumer [] = []"
| "saved_by consumer ((c, s, now) # saves) = (if c = consumer then s # saved_by consumer saves else saved_by consumer saves)"

lemma Max_insert_max:
  fixes w s :: "'a::linorder"
  shows "finite M \<Longrightarrow> Max (insert (max w s) M) = Max (insert w (insert s M))"
  by (cases "M = {}") (simp_all add: max.assoc)

section \<open>Properties\<close>

text \<open>
  The search box finds exactly the rows that contain the text. For every query, wildcards and
  backslashes included, a row passes the free-text condition if and only if the lower-cased query is
  a substring of one of the six lower-cased searched columns; the payload condition looks at the
  payload alone.
\<close>

theorem search_is_substring:
  "(listWhere now (no_filter\<lparr>fl_Query := q\<rparr>) r \<longleftrightarrow>
     q = [] \<or> (\<exists>col\<in>set [r_id r, r_type r, r_project r, jt_text (r_payload r), r_lease_owner r, r_last_error r].
        str_contains (to_lower col) (to_lower q)))
   \<and> (listWhere now (no_filter\<lparr>fl_PayloadContains := q\<rparr>) r \<longleftrightarrow>
     q = [] \<or> str_contains (to_lower (jt_text (r_payload r))) (to_lower q))"
  unfolding listWhere_def str_contains_iff like_pattern_iff no_filter_def given_def by auto

text \<open>
  Pages partition the list that is counted. The unpaged list has as many tasks as \<open>CountTasks\<close>
  counts, one for each matching row and each once, in the requested order; a page of \<open>n\<close> tasks from
  offset \<open>k\<close> is exactly that stretch of the list, so consecutive pages miss and repeat nothing.
\<close>

theorem List_pages_partition:
  assumes "db_ok d" "deps_readable d" "fl_Limit f = 0" "fl_Offset f = 0" "0 < n" "0 \<le> k"
  shows "\<exists>ts. ListTasks d now f = Inr ts \<and> int (length ts) = CountTasks d now f
     \<and> ID ` set ts = r_id ` {r \<in> set (db_tasks d). listWhere now f r} \<and> distinct (map ID ts)
     \<and> sorted_wrt (\<lambda>a b. \<not> order_lt f b a) (selected d now f) \<and> map ID ts = map r_id (selected d now f)
     \<and> ListTasks d now (f\<lparr>fl_Limit := n, fl_Offset := k\<rparr>) = Inr (take (nat n) (drop (nat k) ts))"
proof -
  let ?sel = "selected d now f"
  have "\<forall>r\<in>set ?sel. scan_deps (r_deps r) \<noteq> None" using assms(2) by (simp add: selected_def deps_readable_def)
  then obtain ts where ts: "scan_all ?sel = Inr ts" using scan_all_readable by blast
  then have m: "map scanTaskRow ?sel = map Inr ts" by (simp add: scan_all_Inr)
  have len: "length ts = length ?sel" using m by (metis length_map)
  have "ID (ts ! j) = r_id (?sel ! j)" if "j < length ts" for j
  proof -
    have "scanTaskRow (?sel ! j) = Inr (ts ! j)" using m that len by (metis nth_map)
    then show ?thesis by (simp add: scanTaskRow_fields)
  qed
  then have ids: "map ID ts = map r_id ?sel" using len by (intro nth_equalityI) simp_all
  have "set (map ID ts) = r_id ` {r \<in> set (db_tasks d). listWhere now f r}"
    unfolding ids by (auto simp: selected_def)
  then have idset: "ID ` set ts = r_id ` {r \<in> set (db_tasks d). listWhere now f r}" by simp
  have "distinct (map r_id (filter (listWhere now f) (db_tasks d)))"
    using db_ok_ids [OF assms(1)] by (simp add: distinct_map_filter)
  then have dist: "distinct (map ID ts)" unfolding ids selected_def by (rule distinct_order_by)
  have "selected d now (f\<lparr>fl_Limit := n, fl_Offset := k\<rparr>) = ?sel"
    by (simp add: selected_def listWhere_def [abs_def] order_lt_def [abs_def])
  then have "ListTasks d now (f\<lparr>fl_Limit := n, fl_Offset := k\<rparr>) = scan_all (take (nat n) (drop (nat k) ?sel))"
    using assms(5,6) by (simp add: ListTasks_def page_def)
  also have "\<dots> = Inr (take (nat n) (drop (nat k) ts))"
    using m by (simp add: scan_all_Inr take_map [symmetric] drop_map [symmetric])
  finally show ?thesis
    using ts len idset dist ids selected_sorted assms(3,4)
    by (intro exI [of _ ts]) (simp add: ListTasks_def page_def CountTasks_def selected_def)
qed

lemma List_pages_partition_witness:
  "\<exists>ts. ListTasks (demo_db [demo_row ''a'' 1 Pending, demo_row ''b'' 7 Pending]) 0 no_filter = Inr ts \<and> length ts = 2"
proof -
  let ?d = "demo_db [demo_row ''a'' 1 Pending, demo_row ''b'' 7 Pending]"
  have ok: "db_ok ?d" by (rule demo_db_ok) (simp add: demo_row_def)
  have rd: "deps_readable ?d" by (simp add: deps_readable_def demo_defs scan_deps_def)
  have c: "CountTasks ?d 0 no_filter = 2" by (simp add: CountTasks_def listWhere_def no_filter_def demo_db_def given_def)
  obtain ts where "ListTasks ?d 0 no_filter = Inr ts" "int (length ts) = CountTasks ?d 0 no_filter"
    using List_pages_partition [OF ok rd, where f = no_filter and n = 1 and k = 0 and now = 0]
    unfolding no_filter_def by (elim impE exE conjE meta_mp [elim_format]) simp_all
  then show ?thesis using c by simp
qed

text \<open>
  \<open>LastFacts\<close> with a positive limit returns the last \<open>limit\<close> facts of the journal, oldest first, and
  the head of the journal is the sequence number of the last of them.
\<close>

theorem LastFacts_is_tail:
  assumes "facts_ok d" "0 < limit"
  shows "LastFacts d limit = scanFacts (drop (length (db_facts d) - nat limit) (db_facts d))
     \<and> (db_facts d \<noteq> [] \<longrightarrow> HeadSeq d = Seq (last (LastFacts d limit)))"
proof
  have "sort_key Seq (db_facts d) = db_facts d" using assms(1) by (simp add: facts_ok_def seq_sorted_sort)
  then show tail: "LastFacts d limit = scanFacts (drop (length (db_facts d) - nat limit) (db_facts d))"
    using assms(2) by (simp add: LastFacts_def Let_def scanFacts_def rev_map [symmetric] take_rev)
  show "db_facts d \<noteq> [] \<longrightarrow> HeadSeq d = Seq (last (LastFacts d limit))"
  proof
    assume ne: "db_facts d \<noteq> []"
    then have "drop (length (db_facts d) - nat limit) (db_facts d) \<noteq> []" using assms(2) by (simp add: not_le)
    then show "HeadSeq d = Seq (last (LastFacts d limit))"
      unfolding tail using ne HeadSeq_last [OF assms(1)] by (simp add: scanFacts_def last_map scan_fact_def)
  qed
qed

lemma LastFacts_is_tail_witness:
  "map Seq (LastFacts ((demo_db [])\<lparr>db_facts := [blank_fact\<lparr>Seq := 1\<rparr>, blank_fact\<lparr>Seq := 2\<rparr>, blank_fact\<lparr>Seq := 3\<rparr>],
      db_next_seq := 4\<rparr>) 2) = [2, 3]"
  using LastFacts_is_tail [of "(demo_db [])\<lparr>db_facts := [blank_fact\<lparr>Seq := 1\<rparr>, blank_fact\<lparr>Seq := 2\<rparr>, blank_fact\<lparr>Seq := 3\<rparr>],
      db_next_seq := 4\<rparr>" 2]
  by (simp add: facts_ok_def seq_sorted_def blank_fact_def scanFacts_def scan_fact_def)

text \<open>
  A consumer's cursor never moves back. After any sequence of checkpoints, of any consumers in any
  order, the cursor of a consumer is the largest of its stored value and the values it saved, and the
  journal and the tasks are untouched.
\<close>

theorem SaveWatermark_is_monotone:
  "Watermark (save_all saves d) consumer =
     (case Watermark d consumer of
        None \<Rightarrow> (if saved_by consumer saves = [] then None else Some (Max (set (saved_by consumer saves))))
      | Some w \<Rightarrow> Some (Max (insert w (set (saved_by consumer saves)))))
   \<and> db_facts (save_all saves d) = db_facts d \<and> db_tasks (save_all saves d) = db_tasks d"
proof (induction saves arbitrary: d)
  case Nil
  show ?case by (simp split: option.split)
next
  case (Cons sv saves)
  obtain c s now where sv: "sv = (c, s, now)" by (cases sv)
  show ?case
    unfolding sv using Cons.IH [of "SaveWatermark c s now d"] Max_insert_max [of "set (saved_by consumer saves)" _ s]
    by (auto simp: Watermark_Save split: option.split)
qed

end
