(* ===== verification/Tq_Watermark.thy ===== *)
theory Tq_Watermark
  imports Tq_Reads
begin

text \<open>
  Package \<open>internal/watermark\<close>: the durable journal cursor the sweepers share. The record \<open>source_ops\<close>
  is the \<open>Source\<close> interface, the locale \<open>cursor_source\<close> what it promises; the delivery theorems are
  proved once inside it and the locale is interpreted on the companion's tables. The loop of \<open>Sweep\<close>
  takes fuel, one unit per page, because a handler may append facts while it is swept; for a handler
  that leaves the journal alone one unit more than there are facts to deliver is enough.
\<close>

section \<open>The cursor\<close>

definition DefaultPageSize :: int where "DefaultPageSize = 500"

record 's source_ops =
  src_Facts :: "int \<Rightarrow> int \<Rightarrow> 's \<Rightarrow> qerr + fact list"
  src_HeadSeq :: "'s \<Rightarrow> qerr + int"
  src_Watermark :: "string \<Rightarrow> 's \<Rightarrow> qerr + int option"
  src_SaveWatermark :: "string \<Rightarrow> int \<Rightarrow> 's \<Rightarrow> (qerr + unit) \<times> 's"

record cursor =
  cu_key :: string
  cu_domain :: string
  cu_pageSize :: int
  cu_watermark :: int
  cu_persisted :: int

datatype cursor_err =
    ReadWatermark string qerr
  | ReadHead string qerr
  | PersistBootstrap string qerr
  | Checkpoint string int qerr
  | ReadFacts string int qerr
  | HandlerErr qerr

definition newCursor :: "string \<Rightarrow> string \<Rightarrow> int \<Rightarrow> int \<Rightarrow> int \<Rightarrow> cursor" where
  "newCursor key domain pageSize wm persisted =
     \<lparr>cu_key = key, cu_domain = domain, cu_pageSize = pageSize, cu_watermark = wm, cu_persisted = persisted\<rparr>"

definition New :: "'s source_ops \<Rightarrow> string \<Rightarrow> string \<Rightarrow> int \<Rightarrow> 's \<Rightarrow> (cursor_err + cursor) \<times> 's" where
  "New ops key domain pageSize0 s =
     (let pageSize = (if pageSize0 \<le> 0 then DefaultPageSize else pageSize0) in
      case src_Watermark ops key s of
        Inl e \<Rightarrow> (Inl (ReadWatermark domain e), s)
      | Inr (Some persisted) \<Rightarrow> (Inr (newCursor key domain pageSize persisted persisted), s)
      | Inr None \<Rightarrow>
          (case src_HeadSeq ops s of
             Inl e \<Rightarrow> (Inl (ReadHead domain e), s)
           | Inr head \<Rightarrow>
               (case src_SaveWatermark ops key head s of
                  (Inl e, s') \<Rightarrow> (Inl (PersistBootstrap domain e), s')
                | (Inr _, s') \<Rightarrow> (Inr (newCursor key domain pageSize head head), s'))))"

definition PermanentOutcome :: "qerr \<Rightarrow> bool" where
  "PermanentOutcome e \<longleftrightarrow> e = TaskErr ErrNotFound \<or> e = TaskErr ErrInvalidTransition"

text \<open>
  The inner loop over one page. The last component lists the facts the handler accepted, in the order
  of the calls.
\<close>

fun handle_page :: "(fact \<Rightarrow> 's \<Rightarrow> (qerr + unit) \<times> 's) \<Rightarrow> fact list \<Rightarrow> cursor \<Rightarrow> 's
    \<Rightarrow> qerr option \<times> cursor \<times> 's \<times> fact list" where
  "handle_page h [] c s = (None, c, s, [])"
| "handle_page h (f # fs) c s =
     (let lastAccepted = cu_watermark c; c1 = c\<lparr>cu_watermark := Seq f\<rparr> in
      case h f s of
        (Inl e, s') \<Rightarrow> (Some e, c1\<lparr>cu_watermark := lastAccepted\<rparr>, s', [])
      | (Inr _, s') \<Rightarrow>
          (case handle_page h fs c1 s' of (e, c', s'', acc) \<Rightarrow> (e, c', s'', f # acc)))"

fun sweep_loop :: "nat \<Rightarrow> 's source_ops \<Rightarrow> (fact \<Rightarrow> 's \<Rightarrow> (qerr + unit) \<times> 's) \<Rightarrow> cursor \<Rightarrow> 's
    \<Rightarrow> (cursor_err option \<times> cursor \<times> 's \<times> fact list) option" where
  "sweep_loop 0 ops h c s = None"
| "sweep_loop (Suc n) ops h c s =
     (case src_Facts ops (cu_watermark c) (cu_pageSize c) s of
        Inl e \<Rightarrow> Some (Some (ReadFacts (cu_domain c) (cu_watermark c) e), c, s, [])
      | Inr facts \<Rightarrow>
          (case handle_page h facts c s of
             (Some e, c', s', acc) \<Rightarrow> Some (Some (HandlerErr e), c', s', acc)
           | (None, c', s', acc) \<Rightarrow>
               (let again = (\<lambda>c2 s2. if int (length facts) < cu_pageSize c2 then Some (None, c2, s2, acc)
                     else map_option (\<lambda>(e, c3, s3, acc'). (e, c3, s3, acc @ acc')) (sweep_loop n ops h c2 s2)) in
                if facts = [] then again c' s'
                else case src_SaveWatermark ops (cu_key c') (cu_watermark c') s' of
                  (Inl e, s2) \<Rightarrow> Some (Some (Checkpoint (cu_domain c') (cu_watermark c') e), c', s2, acc)
                | (Inr _, s2) \<Rightarrow> again (c'\<lparr>cu_persisted := cu_watermark c'\<rparr>) s2)))"

definition Sweep :: "nat \<Rightarrow> 's source_ops \<Rightarrow> (fact \<Rightarrow> 's \<Rightarrow> (qerr + unit) \<times> 's) \<Rightarrow> cursor \<Rightarrow> 's
    \<Rightarrow> (cursor_err option \<times> cursor \<times> 's \<times> fact list) option" where
  "Sweep fuel ops h c s =
     (if cu_watermark c > cu_persisted c then
        (case src_SaveWatermark ops (cu_key c) (cu_watermark c) s of
           (Inl e, s') \<Rightarrow> Some (Some (Checkpoint (cu_domain c) (cu_watermark c) e), c, s', [])
         | (Inr _, s') \<Rightarrow> sweep_loop fuel ops h (c\<lparr>cu_persisted := cu_watermark c\<rparr>) s')
      else sweep_loop fuel ops h c s)"

text \<open>A sweeper's own memory rides along with the store it sweeps.\<close>

definition with_memory :: "'s source_ops \<Rightarrow> ('m \<times> 's) source_ops" where
  "with_memory src =
     \<lparr>src_Facts = (\<lambda>after limit ps. src_Facts src after limit (snd ps)),
      src_HeadSeq = (\<lambda>ps. src_HeadSeq src (snd ps)),
      src_Watermark = (\<lambda>key ps. src_Watermark src key (snd ps)),
      src_SaveWatermark = (\<lambda>key sq ps. case src_SaveWatermark src key sq (snd ps) of (r, s') \<Rightarrow> (r, (fst ps, s')))\<rparr>"

lemma with_memory_sel:
  "src_Facts (with_memory src) after limit (p, s) = src_Facts src after limit s"
  "src_SaveWatermark (with_memory src) key q (p, s) = (case src_SaveWatermark src key q s of (r, s') \<Rightarrow> (r, (p, s')))"
  by (simp_all add: with_memory_def)

text \<open>
  What the handler keeps, fact by fact, and the checkpoint leaves alone holds after a sweep: \<open>P\<close> relates the
  accepted facts to the state, \<open>Q\<close> what is left of it when a call is refused.
\<close>

lemma handle_page_state:
  assumes "handle_page h facts c s = (e, c', s', acc)" "P done s"
    and step: "\<And>f s u s' done. h f s = (Inr u, s') \<Longrightarrow> P done s \<Longrightarrow> P (done @ [f]) s'"
    and stop: "\<And>f s er s' done. h f s = (Inl er, s') \<Longrightarrow> P done s \<Longrightarrow> Q done s'"
  shows "if e = None then P (done @ acc) s' else Q (done @ acc) s'"
  using assms(1,2)
proof (induction facts arbitrary: c s acc "done")
  case (Cons f fs)
  obtain r s1 where h: "h f s = (r, s1)" by (metis surj_pair)
  show ?case
  proof (cases r)
    case (Inl er)
    then show ?thesis using Cons.prems h stop [of f s er s1 "done"] by auto
  next
    case (Inr u)
    obtain e2 c2 s2 acc2 where rec: "handle_page h fs (c\<lparr>cu_watermark := Seq f\<rparr>) s1 = (e2, c2, s2, acc2)"
      by (metis surj_pair)
    have eqs: "e = e2" "c' = c2" "s' = s2" "acc = f # acc2" using Cons.prems(1) h Inr rec by simp_all
    have "if e = None then P ((done @ [f]) @ acc2) s' else Q ((done @ [f]) @ acc2) s'"
      by (rule Cons.IH [OF _ step [OF h [unfolded Inr] Cons.prems(2)]]) (use rec eqs in simp)
    then show ?thesis using eqs(4) by (cases e) simp_all
  qed
qed simp

lemma sweep_loop_state:
  assumes "sweep_loop n src h c s = Some (e, c', s', acc)" "P done s"
    and save: "\<And>key q s r s' done. src_SaveWatermark src key q s = (r, s') \<Longrightarrow> P done s \<Longrightarrow> P done s'"
    and step: "\<And>f s u s' done. h f s = (Inr u, s') \<Longrightarrow> P done s \<Longrightarrow> P (done @ [f]) s'"
    and stop: "\<And>f s er s' done. h f s = (Inl er, s') \<Longrightarrow> P done s \<Longrightarrow> Q done s'"
  shows "if (\<exists>er. e = Some (HandlerErr er)) then Q (done @ acc) s' else P (done @ acc) s'"
  using assms(1,2)
proof (induction n arbitrary: c s acc "done")
  case (Suc n)
  show ?case
  proof (cases "src_Facts src (cu_watermark c) (cu_pageSize c) s")
    case (Inl er)
    then show ?thesis using Suc.prems by auto
  next
    case (Inr facts)
    obtain e1 c1 s1 a where page: "handle_page h facts c s = (e1, c1, s1, a)" by (metis surj_pair)
    have one: "if e1 = None then P (done @ a) s1 else Q (done @ a) s1"
      by (rule handle_page_state [where P = P and Q = Q, OF page]) (use Suc.prems(2) in \<open>blast intro: step stop\<close>)+
    have again: ?thesis
      if "(if int (length facts) < cu_pageSize c2 then Some (None, c2, s2, a)
            else map_option (\<lambda>(e, c3, s3, acc'). (e, c3, s3, a @ acc')) (sweep_loop n src h c2 s2))
          = Some (e, c', s', acc)" "P (done @ a) s2" for c2 s2
    proof (cases "int (length facts) < cu_pageSize c2")
      case False
      note go = that
      then obtain b where b: "sweep_loop n src h c2 s2 = Some (e, c', s', b)" "acc = a @ b"
        using go(1) False by (auto split: option.splits)
      show ?thesis using Suc.IH [OF b(1) go(2)] b(2) by (simp split: if_splits)
    qed (use that in auto)
    show ?thesis
    proof (cases e1)
      case (Some er)
      then show ?thesis using Suc.prems(1) Inr page one by auto
    next
      case None
      show ?thesis
      proof (cases "facts = []")
        case True
        then show ?thesis using again [of c1 s1] one None Suc.prems(1) Inr page by (auto simp: Let_def)
      next
        case False
        obtain r s2 where save2: "src_SaveWatermark src (cu_key c1) (cu_watermark c1) s1 = (r, s2)" by (metis surj_pair)
        then have kept: "P (done @ a) s2" using save [OF save2] one None by simp
        show ?thesis
        proof (cases r)
          case (Inl er)
          then show ?thesis using Suc.prems(1) kept page None False save2 \<open>src_Facts _ _ _ s = _\<close> by (auto simp: Let_def)
        next
          case (Inr u)
          then show ?thesis using Suc.prems(1) page kept None False save2 \<open>src_Facts _ _ _ s = _\<close>
            by (intro again [of "c1\<lparr>cu_persisted := cu_watermark c1\<rparr>" s2]) (auto simp: Let_def)
        qed
      qed
    qed
  qed
qed simp

lemma Sweep_state:
  assumes "Sweep fuel src h c s = Some (e, c', s', acc)" "P [] s"
    and save: "\<And>key q s r s' done. src_SaveWatermark src key q s = (r, s') \<Longrightarrow> P done s \<Longrightarrow> P done s'"
    and "\<And>f s u s' done. h f s = (Inr u, s') \<Longrightarrow> P done s \<Longrightarrow> P (done @ [f]) s'"
    and "\<And>f s er s' done. h f s = (Inl er, s') \<Longrightarrow> P done s \<Longrightarrow> Q done s'"
  shows "if (\<exists>er. e = Some (HandlerErr er)) then Q acc s' else P acc s'"
proof (cases "cu_watermark c > cu_persisted c")
  case False
  then show ?thesis using sweep_loop_state [of fuel src h c s e c' s' acc P "[]" Q] assms by (simp add: Sweep_def split: if_splits)
next
  case True
  obtain r s1 where first: "src_SaveWatermark src (cu_key c) (cu_watermark c) s = (r, s1)" by (metis surj_pair)
  then show ?thesis
    using sweep_loop_state [of fuel src h "c\<lparr>cu_persisted := cu_watermark c\<rparr>" s1 e c' s' acc P "[]" Q] assms True save [OF first assms(2)]
    by (cases r) (auto simp: Sweep_def split: if_splits)
qed

text \<open>The same for what the handler keeps of its memory alone.\<close>

lemma Sweep_memory:
  assumes "Sweep fuel (with_memory src) h c (m, s) = Some (e, c', (m', s'), acc)" "P [] m"
    and step: "\<And>f m s u m' s' done. h f (m, s) = (Inr u, (m', s')) \<Longrightarrow> P done m \<Longrightarrow> P (done @ [f]) m'"
    and stop: "\<And>f m s er m' s' done. h f (m, s) = (Inl er, (m', s')) \<Longrightarrow> P done m \<Longrightarrow> Q done m'"
  shows "if (\<exists>er. e = Some (HandlerErr er)) then Q acc m' else P acc m'"
proof -
  have "if (\<exists>er. e = Some (HandlerErr er)) then Q acc (fst (m', s')) else P acc (fst (m', s'))"
  proof (rule Sweep_state [where P = "\<lambda>done ms. P done (fst ms)" and Q = "\<lambda>done ms. Q done (fst ms)", OF assms(1)])
    fix key q ms r ms' and "done" assume "src_SaveWatermark (with_memory src) key q ms = (r, ms')" "P done (fst ms)"
    then show "P done (fst ms')" by (cases ms) (auto simp: with_memory_sel split: prod.splits)
  next
    fix f ms u ms' and "done" assume "h f ms = (Inr u, ms')" "P done (fst ms)"
    then show "P (done @ [f]) (fst ms')" using step [of f "fst ms" "snd ms" u "fst ms'" "snd ms'" "done"] by simp
  next
    fix f ms er ms' and "done" assume "h f ms = (Inl er, ms')" "P done (fst ms)"
    then show "Q done (fst ms')" using stop [of f "fst ms" "snd ms" er "fst ms'" "snd ms'" "done"] by simp
  qed (use assms(2) in simp)
  then show ?thesis by (simp only: fst_conv)
qed

section \<open>Positions\<close>

text \<open>The cursor position after a stretch of accepted facts.\<close>

definition upto_seq :: "int \<Rightarrow> fact list \<Rightarrow> int" where
  "upto_seq w acc = (if acc = [] then w else Seq (last acc))"

lemma upto_seq_Nil [simp]: "upto_seq w [] = w"
  by (simp add: upto_seq_def)

lemma upto_seq_Cons [simp]: "upto_seq w (f # acc) = upto_seq (Seq f) acc"
  by (simp add: upto_seq_def)

lemma upto_seq_append: "upto_seq w (a @ b) = upto_seq (upto_seq w a) b"
  by (simp add: upto_seq_def)

lemma consumed_rest:
  assumes "seq_sorted J" "prefix acc (AfterSeq J w 0)"
  shows "AfterSeq J w 0 = acc @ AfterSeq J (upto_seq w acc) 0"
proof (cases "acc = []")
  case False
  have "AfterSeq J w (int (length acc)) = acc"
    using False assms(2) AfterSeq_take [of "int (length acc)" J w] by (auto simp: prefix_def)
  then show ?thesis using AfterSeq_next_page [OF assms(1), of w "int (length acc)"] False
    by (simp add: upto_seq_def)
qed simp

lemma upto_seq_ge:
  assumes "prefix acc (AfterSeq J w 0)"
  shows "w \<le> upto_seq w acc"
proof (cases "acc = []")
  case False
  then have "last acc \<in> set (AfterSeq J w 0)" using set_mono_prefix [OF assms] last_in_set by blast
  then show ?thesis using False by (simp add: upto_seq_def)
qed simp

lemma AfterSeq_grows: "prefix J J' \<Longrightarrow> prefix (AfterSeq J w 0) (AfterSeq J' w 0)"
  by (auto simp: prefix_def)

lemma AfterSeq_prefix: "prefix (AfterSeq J w limit) (AfterSeq J w 0)"
  by (cases "0 < limit") (simp_all add: AfterSeq_take take_is_prefix)

text \<open>Reading on from where an accepted stretch ended continues the stretch.\<close>

lemma consumed_trans:
  assumes "seq_sorted J" "prefix a (AfterSeq J w 0)" "prefix b (AfterSeq J (upto_seq w a) 0)"
  shows "prefix (a @ b) (AfterSeq J w 0)"
  using consumed_rest [OF assms(1,2)] assms(3) by simp

section \<open>What a cursor may rely on\<close>

locale cursor_source =
  fixes ops :: "'s source_ops"
    and jrnl :: "'s \<Rightarrow> fact list"
    and mark :: "'s \<Rightarrow> string \<Rightarrow> int option"
    and good :: "'s \<Rightarrow> bool"
  assumes facts_read: "src_Facts ops after limit s = Inr fs \<Longrightarrow> fs = AfterSeq (jrnl s) after limit"
    and jrnl_sorted: "good s \<Longrightarrow> seq_sorted (jrnl s)"
    and head_read: "src_HeadSeq ops s = Inr hd_seq \<Longrightarrow> good s \<Longrightarrow> hd_seq = upto_seq 0 (jrnl s)"
    and mark_read: "src_Watermark ops key s = Inr m \<Longrightarrow> m = mark s key"
    and save_frame: "src_SaveWatermark ops key seq s = (r, s') \<Longrightarrow> good s \<Longrightarrow> good s' \<and> jrnl s' = jrnl s"
    and save_mark: "src_SaveWatermark ops key seq s = (Inr u, s') \<Longrightarrow>
      mark s' key = Some (case mark s key of None \<Rightarrow> seq | Some w \<Rightarrow> max w seq)"
    and save_fails: "src_SaveWatermark ops key seq s = (Inl e, s') \<Longrightarrow> mark s' key = mark s key"
begin

text \<open>A handler that only adds to the journal and keeps away from the cursor's own row.\<close>

definition polite :: "string \<Rightarrow> (fact \<Rightarrow> 's \<Rightarrow> (qerr + unit) \<times> 's) \<Rightarrow> bool" where
  "polite key h \<longleftrightarrow> (\<forall>f s r s'. good s \<longrightarrow> h f s = (r, s') \<longrightarrow>
     good s' \<and> prefix (jrnl s) (jrnl s') \<and> mark s' key = mark s key)"

text \<open>What is true between two pages: the row holds the last checkpoint, and it is not ahead.\<close>

definition synced :: "cursor \<Rightarrow> 's \<Rightarrow> bool" where
  "synced c s \<longleftrightarrow> good s \<and> mark s (cu_key c) = Some (cu_persisted c) \<and> cu_persisted c \<le> cu_watermark c"

lemma handle_page_facts:
  assumes "handle_page h facts c s = (e, c', s', acc)" "polite key h" "good s"
  shows "good s' \<and> prefix (jrnl s) (jrnl s') \<and> mark s' key = mark s key \<and> prefix acc facts
     \<and> c' = c\<lparr>cu_watermark := upto_seq (cu_watermark c) acc\<rparr> \<and> (e = None \<longrightarrow> acc = facts)"
  using assms
proof (induction facts arbitrary: c s e c' s' acc)
  case (Cons f fs)
  obtain r s1 where h: "h f s = (r, s1)" by (cases "h f s")
  have s1: "good s1" "prefix (jrnl s) (jrnl s1)" "mark s1 key = mark s key"
    using Cons.prems(2,3) h by (auto simp: polite_def)
  show ?case
  proof (cases r)
    case (Inl e1)
    then show ?thesis using Cons.prems(1) h s1 by auto
  next
    case (Inr u)
    obtain e2 c2 s2 acc2 where rec: "handle_page h fs (c\<lparr>cu_watermark := Seq f\<rparr>) s1 = (e2, c2, s2, acc2)"
      by (cases "handle_page h fs (c\<lparr>cu_watermark := Seq f\<rparr>) s1") auto
    have eqs: "e = e2" "c' = c2" "s' = s2" "acc = f # acc2" using Cons.prems(1) h Inr rec by simp_all
    show ?thesis
      using Cons.IH [OF rec Cons.prems(2) s1(1)] s1 unfolding eqs
      by (auto intro: prefix_order.trans)
  qed
qed auto

text \<open>
  Whatever way a sweep ends, the accepted facts are the next facts past the old position, in order and
  without a gap, the cursor stands at the last of them, and the stored checkpoint is not ahead.
\<close>

definition delivered :: "cursor \<Rightarrow> cursor \<Rightarrow> 's \<Rightarrow> fact list \<Rightarrow> bool" where
  "delivered c c' s' acc \<longleftrightarrow>
     prefix acc (AfterSeq (jrnl s') (cu_watermark c) 0)
     \<and> cu_watermark c' = upto_seq (cu_watermark c) acc \<and> cu_key c' = cu_key c \<and> synced c' s'"

lemma page_delivered:
  assumes page: "handle_page h facts c s = (e, c', s', acc)" and fs: "facts = AfterSeq (jrnl s) (cu_watermark c) limit"
    and "polite (cu_key c) h" "synced c s"
  shows "delivered c c' s' acc" "prefix (jrnl s) (jrnl s')" "e = None \<Longrightarrow> acc = facts"
    "cu_persisted c' = cu_persisted c" "cu_domain c' = cu_domain c" "cu_pageSize c' = cu_pageSize c"
proof -
  have good: "good s" using assms(4) by (simp add: synced_def)
  note p = handle_page_facts [OF page assms(3) good]
  have "prefix acc (AfterSeq (jrnl s) (cu_watermark c) 0)"
    using p fs AfterSeq_prefix prefix_order.trans by blast
  then have pre: "prefix acc (AfterSeq (jrnl s') (cu_watermark c) 0)"
    using p AfterSeq_grows prefix_order.trans by blast
  show "delivered c c' s' acc"
    using p pre upto_seq_ge [OF pre] assms(4) by (simp add: delivered_def synced_def)
  show "prefix (jrnl s) (jrnl s')" "e = None \<Longrightarrow> acc = facts" "cu_persisted c' = cu_persisted c"
    "cu_domain c' = cu_domain c" "cu_pageSize c' = cu_pageSize c" using p by auto
qed

lemma save_synced:
  assumes "src_SaveWatermark ops (cu_key c) (cu_watermark c) s = (r, s')" "synced c s"
  shows "jrnl s' = jrnl s" "synced (if isl r then c else c\<lparr>cu_persisted := cu_watermark c\<rparr>) s'"
  using save_frame [OF assms(1)] save_mark [of "cu_key c" "cu_watermark c" s _ s'] save_fails [of "cu_key c" "cu_watermark c" s _ s'] assms
  by (cases r; simp add: synced_def)+

lemma delivered_then:
  assumes "delivered c c1 s1 a" "cu_watermark c2 = cu_watermark c1" "cu_key c2 = cu_key c1"
    and "delivered c2 c3 s3 b" "prefix (jrnl s1) (jrnl s3)"
  shows "delivered c c3 s3 (a @ b)"
proof -
  have "prefix a (AfterSeq (jrnl s3) (cu_watermark c) 0)"
    using assms(1,5) AfterSeq_grows prefix_order.trans unfolding delivered_def by blast
  moreover have "seq_sorted (jrnl s3)" using assms(4) jrnl_sorted by (simp add: delivered_def synced_def)
  ultimately show ?thesis using assms consumed_trans [of "jrnl s3" a "cu_watermark c" b]
    by (simp add: delivered_def upto_seq_append)
qed

lemma sweep_loop_delivered:
  assumes "sweep_loop n ops h c s = Some (e, c', s', acc)" "polite (cu_key c) h" "synced c s"
  shows "delivered c c' s' acc \<and> prefix (jrnl s) (jrnl s')"
  using assms
proof (induction n arbitrary: c s e c' s' acc)
  case (Suc n)
  show ?case
  proof (cases "src_Facts ops (cu_watermark c) (cu_pageSize c) s")
    case (Inl er)
    then show ?thesis using Suc.prems by (auto simp: delivered_def)
  next
    case (Inr facts)
    obtain e1 c1 s1 a where page: "handle_page h facts c s = (e1, c1, s1, a)"
      by (cases "handle_page h facts c s") auto
    note pd = page_delivered [OF page facts_read [OF Inr] Suc.prems(2,3)]
    have continue: "delivered c c' s' acc \<and> prefix (jrnl s) (jrnl s')"
      if go: "(if int (length facts) < cu_pageSize c2 then Some (None, c2, s2, a)
            else map_option (\<lambda>(e, c3, s3, acc'). (e, c3, s3, a @ acc')) (sweep_loop n ops h c2 s2))
          = Some (e, c', s', acc)"
        and c2: "cu_watermark c2 = cu_watermark c1" "cu_key c2 = cu_key c1" "synced c2 s2" "jrnl s2 = jrnl s1" for c2 s2
    proof (cases "int (length facts) < cu_pageSize c2")
      case True
      then show ?thesis using go pd(1,2) c2 by (auto simp: delivered_def)
    next
      case False
      then obtain b where b: "sweep_loop n ops h c2 s2 = Some (e, c', s', b)" "acc = a @ b"
        using go by (auto split: option.splits)
      have key: "cu_key c2 = cu_key c" using pd(1) c2 by (simp add: delivered_def)
      have ih: "delivered c2 c' s' b \<and> prefix (jrnl s2) (jrnl s')"
        using Suc.IH [OF b(1)] Suc.prems(2) c2(3) key by simp
      then show ?thesis using delivered_then [OF pd(1) c2(1,2), of c' s' b] b(2) c2(4) pd(2)
        by (auto intro: prefix_order.trans)
    qed
    show ?thesis
    proof (cases e1)
      case (Some er)
      then show ?thesis using Suc.prems(1) Inr page pd(1,2) by auto
    next
      case None
      have sy: "synced c1 s1" using pd(1) by (simp add: delivered_def)
      show ?thesis
      proof (cases "facts = []")
        case True
        then have eqs: "c1 = c" "s1 = s" "a = []" using page by simp_all
        show ?thesis
          by (rule continue [of c s]) (use Suc.prems(1,3) Inr True in \<open>simp_all add: eqs cong: if_cong\<close>)
      next
        case False
        obtain r s2 where save: "src_SaveWatermark ops (cu_key c1) (cu_watermark c1) s1 = (r, s2)"
          by (cases "src_SaveWatermark ops (cu_key c1) (cu_watermark c1) s1")
        note sv = save_synced [OF save sy]
        show ?thesis
        proof (cases r)
          case (Inl er)
          then show ?thesis using Suc.prems(1) Inr page None False save sv pd(1,2) by (auto simp: delivered_def)
        next
          case (Inr u)
          then show ?thesis
            using continue [of "c1\<lparr>cu_persisted := cu_watermark c1\<rparr>" s2] Suc.prems(1) page None False save sv
              \<open>src_Facts ops (cu_watermark c) (cu_pageSize c) s = Inr facts\<close> by simp
        qed
      qed
    qed
  qed
qed simp

lemma Sweep_delivered:
  assumes "Sweep fuel ops h c s = Some (e, c', s', acc)" "polite (cu_key c) h" "synced c s"
  shows "delivered c c' s' acc"
proof (cases "cu_watermark c > cu_persisted c")
  case False
  then show ?thesis using sweep_loop_delivered [of fuel h c s e c' s' acc] assms by (simp add: Sweep_def)
next
  case True
  obtain r s1 where save: "src_SaveWatermark ops (cu_key c) (cu_watermark c) s = (r, s1)"
    by (cases "src_SaveWatermark ops (cu_key c) (cu_watermark c) s")
  note sv = save_synced [OF save assms(3)]
  show ?thesis
  proof (cases r)
    case (Inl er)
    then show ?thesis using assms(1) True save sv by (auto simp: Sweep_def delivered_def)
  next
    case (Inr u)
    then show ?thesis
      using sweep_loop_delivered [of fuel h "c\<lparr>cu_persisted := cu_watermark c\<rparr>" s1 e c' s' acc] assms True save sv
      by (simp add: Sweep_def delivered_def)
  qed
qed

text \<open>A handler that takes everything and a source that does not fail.\<close>

definition accepts_all :: "string \<Rightarrow> (fact \<Rightarrow> 's \<Rightarrow> (qerr + unit) \<times> 's) \<Rightarrow> bool" where
  "accepts_all key h \<longleftrightarrow> (\<forall>f s. good s \<longrightarrow> (\<exists>s'. h f s = (Inr (), s') \<and> good s' \<and> jrnl s' = jrnl s \<and> mark s' key = mark s key))"

definition reliable :: bool where
  "reliable \<longleftrightarrow> (\<forall>after limit s. \<exists>fs. src_Facts ops after limit s = Inr fs)
     \<and> (\<forall>key seq s. \<exists>s'. src_SaveWatermark ops key seq s = (Inr (), s'))"

lemma handle_page_all:
  assumes "accepts_all key h" "good s"
  shows "\<exists>s'. handle_page h facts c s = (None, c\<lparr>cu_watermark := upto_seq (cu_watermark c) facts\<rparr>, s', facts)
     \<and> good s' \<and> jrnl s' = jrnl s \<and> mark s' key = mark s key"
  using assms(2)
proof (induction facts arbitrary: c s)
  case (Cons f fs)
  obtain s1 where s1: "h f s = (Inr (), s1)" "good s1" "jrnl s1 = jrnl s" "mark s1 key = mark s key"
    using assms(1) Cons.prems unfolding accepts_all_def by blast
  show ?case using Cons.IH [OF s1(2), of "c\<lparr>cu_watermark := Seq f\<rparr>"] s1 by auto
qed simp

lemma sweep_loop_all:
  assumes "reliable" "accepts_all (cu_key c) h" "good s" "0 < cu_pageSize c"
    and "length (AfterSeq (jrnl s) (cu_watermark c) 0) < n"
  shows "\<exists>c' s'. sweep_loop n ops h c s = Some (None, c', s', AfterSeq (jrnl s) (cu_watermark c) 0)"
  using assms(2-5)
proof (induction n arbitrary: c s)
  case (Suc n)
  let ?facts = "AfterSeq (jrnl s) (cu_watermark c) (cu_pageSize c)"
  have read: "src_Facts ops (cu_watermark c) (cu_pageSize c) s = Inr ?facts"
  proof -
    obtain fs where "src_Facts ops (cu_watermark c) (cu_pageSize c) s = Inr fs"
      using assms(1) unfolding reliable_def by blast
    then show ?thesis using facts_read by simp
  qed
  let ?c1 = "c\<lparr>cu_watermark := upto_seq (cu_watermark c) ?facts\<rparr>"
  obtain s1 where page: "handle_page h ?facts c s = (None, ?c1, s1, ?facts)" "good s1" "jrnl s1 = jrnl s"
    using handle_page_all [OF Suc.prems(1,2)] by blast
  have rest: "AfterSeq (jrnl s) (cu_watermark c) 0 = ?facts @ AfterSeq (jrnl s) (upto_seq (cu_watermark c) ?facts) 0"
    using consumed_rest [OF jrnl_sorted [OF Suc.prems(2)] AfterSeq_prefix] .
  show ?case
  proof (cases "?facts = []")
    case True
    then have "AfterSeq (jrnl s) (cu_watermark c) 0 = []"
      using AfterSeq_short_page [OF Suc.prems(3), of "jrnl s" "cu_watermark c"] Suc.prems(3) by simp
    then show ?thesis using read page True Suc.prems(3) by simp
  next
    case False
    obtain s2 where save: "src_SaveWatermark ops (cu_key c) (upto_seq (cu_watermark c) ?facts) s1 = (Inr (), s2)"
      using assms(1) unfolding reliable_def by blast
    have s2: "good s2" "jrnl s2 = jrnl s" using save_frame [OF save page(2)] page(3) by simp_all
    let ?c2 = "c\<lparr>cu_watermark := upto_seq (cu_watermark c) ?facts, cu_persisted := upto_seq (cu_watermark c) ?facts\<rparr>"
    show ?thesis
    proof (cases "int (length ?facts) < cu_pageSize c")
      case True
      then show ?thesis
        using read page False save AfterSeq_short_page [OF Suc.prems(3) True] by simp
    next
      case full: False
      have "length (AfterSeq (jrnl s2) (cu_watermark ?c2) 0) < n"
        using Suc.prems(4) arg_cong [OF rest, of length] False s2(2)
        by (simp only: length_append cursor.simps) (simp add: length_greater_0_conv [symmetric] del: length_greater_0_conv)
      then obtain c3 s3 where "sweep_loop n ops h ?c2 s2 = Some (None, c3, s3, AfterSeq (jrnl s2) (cu_watermark ?c2) 0)"
        using Suc.IH [of ?c2 s2] Suc.prems(1,3) s2(1) by auto
      then show ?thesis using read page False save full rest [symmetric] s2(2) by simp
    qed
  qed
qed simp

lemma Sweep_all:
  assumes "reliable" "accepts_all (cu_key c) h" "synced c s" "0 < cu_pageSize c"
    and "length (AfterSeq (jrnl s) (cu_watermark c) 0) < fuel"
  shows "\<exists>c' s'. Sweep fuel ops h c s = Some (None, c', s', AfterSeq (jrnl s) (cu_watermark c) 0)"
proof (cases "cu_watermark c > cu_persisted c")
  case False
  then show ?thesis using sweep_loop_all [OF assms(1,2) _ assms(4,5)] assms(3) by (simp add: Sweep_def synced_def)
next
  case True
  obtain s1 where save: "src_SaveWatermark ops (cu_key c) (cu_watermark c) s = (Inr (), s1)"
    using assms(1) unfolding reliable_def by blast
  have "good s1" "jrnl s1 = jrnl s" using save_frame [OF save] assms(3) by (simp_all add: synced_def)
  then show ?thesis
    using sweep_loop_all [OF assms(1), of "c\<lparr>cu_persisted := cu_watermark c\<rparr>" h s1 fuel] assms True save
    by (simp add: Sweep_def)
qed

lemma New_synced:
  assumes "New ops key domain pageSize s = (Inr c, s')" "good s"
  shows "synced c s' \<and> cu_key c = key \<and> 0 < cu_pageSize c \<and> jrnl s' = jrnl s
     \<and> cu_watermark c = (case mark s key of Some w \<Rightarrow> w | None \<Rightarrow> upto_seq 0 (jrnl s))"
proof (cases "src_Watermark ops key s")
  case (Inr m)
  then have m: "m = mark s key" by (rule mark_read)
  show ?thesis
  proof (cases m)
    case (Some w)
    then show ?thesis using assms Inr m by (auto simp: New_def Let_def newCursor_def synced_def DefaultPageSize_def)
  next
    case None
    obtain hd_seq where h: "src_HeadSeq ops s = Inr hd_seq"
      using assms(1) Inr None by (cases "src_HeadSeq ops s") (auto simp: New_def Let_def)
    obtain u where save: "src_SaveWatermark ops key hd_seq s = (Inr u, s')"
        and c: "c = newCursor key domain (if pageSize \<le> 0 then DefaultPageSize else pageSize) hd_seq hd_seq"
      using assms(1) Inr None h by (cases "src_SaveWatermark ops key hd_seq s") (auto simp: New_def Let_def split: sum.splits)
    show ?thesis
      using save_frame [OF save assms(2)] save_mark [OF save] head_read [OF h assms(2)] m None
      unfolding c by (simp add: newCursor_def synced_def DefaultPageSize_def)
  qed
qed (use assms in \<open>simp add: New_def Let_def\<close>)

end

section \<open>The companion tables as a source\<close>

text \<open>The journal read is the engine's; the cursor is entitled to \<open>AfterSeq\<close> over the facts table.\<close>

definition tables_source :: "go_time \<Rightarrow> db source_ops" where
  "tables_source now =
     \<lparr>src_Facts = (\<lambda>after limit d. Inr (AfterSeq (db_facts d) after limit)),
      src_HeadSeq = (\<lambda>d. Inr (HeadSeq d)),
      src_Watermark = (\<lambda>key d. Inr (Watermark d key)),
      src_SaveWatermark = (\<lambda>key seq d. (Inr (), SaveWatermark key seq now d))\<rparr>"

interpretation tbl: cursor_source "tables_source now" db_facts Watermark facts_ok for now :: go_time
proof
  fix d hd_seq assume "src_HeadSeq (tables_source now) d = Inr hd_seq" "facts_ok d"
  then show "hd_seq = upto_seq 0 (db_facts d)" by (simp add: tables_source_def upto_seq_def HeadSeq_last)
qed (auto simp: tables_source_def facts_ok_def Watermark_Save)

lemma tables_reliable: "tbl.reliable now"
  unfolding tbl.reliable_def by (simp add: tables_source_def)

section \<open>Properties\<close>


text \<open>A journal of three facts, and a handler that rejects the third.\<close>

definition demo_journal :: db where
  "demo_journal = (demo_db [])\<lparr>db_facts := [blank_fact\<lparr>Seq := 1\<rparr>, blank_fact\<lparr>Seq := 2\<rparr>, blank_fact\<lparr>Seq := 3\<rparr>],
     db_next_seq := 4, db_watermarks := [\<lparr>wm_Consumer = ''k'', wm_Seq = 0, wm_UpdatedAt = 0\<rparr>]\<rparr>"

definition demo_handler :: "fact \<Rightarrow> db \<Rightarrow> (qerr + unit) \<times> db" where
  "demo_handler f d = (if Seq f = 3 then (Inl (StoreErr ''no''), d) else (Inr (), d))"

lemma demo_journal_ok: "facts_ok demo_journal"
  by (simp add: demo_journal_def facts_ok_def seq_sorted_def blank_fact_def)


text \<open>
  C17: a sweeper sees everything that happens after it was born, and nothing else. A cursor created on
  a database without a row for it starts at the head of the journal, one with a row resumes there;
  facts appended since are then all delivered by one sweep of a handler that accepts them, and the
  sweep returns: the pages it needs are bounded by the number of facts.
\<close>

theorem New_then_Sweep_delivers_all:
  assumes "New (tables_source t0) key domain ps d0 = (Inr c, d1)" "facts_ok d0"
    and "db_facts d2 = db_facts d1 @ new" "facts_ok d2" "Watermark d2 key = Watermark d1 key"
    and "\<forall>f d. facts_ok d \<longrightarrow> (\<exists>d'. h f d = (Inr (), d') \<and> facts_ok d' \<and> db_facts d' = db_facts d
           \<and> Watermark d' key = Watermark d key)"
    and "length (db_facts d2) < fuel"
  shows "\<exists>c' d'. Sweep fuel (tables_source now) h c d2 = Some (None, c', d',
     case Watermark d0 key of None \<Rightarrow> AfterSeq (db_facts d2) (upto_seq 0 (db_facts d0)) 0
     | Some w \<Rightarrow> AfterSeq (db_facts d2) w 0)"
proof -
  have n: "tbl.synced c d1" "cu_key c = key" "0 < cu_pageSize c" "db_facts d1 = db_facts d0"
     "cu_watermark c = (case Watermark d0 key of Some w \<Rightarrow> w | None \<Rightarrow> upto_seq 0 (db_facts d0))"
    using tbl.New_synced [OF assms(1,2)] by blast+
  have s2: "tbl.synced c d2" using n(1,2) assms(4,5) by (simp add: tbl.synced_def)
  have acc: "tbl.accepts_all (cu_key c) h" using assms(6) n(2) by (simp add: tbl.accepts_all_def)
  have "length (AfterSeq (db_facts d2) (cu_watermark c) 0) \<le> length (db_facts d2)"
    by (simp add: length_filter_le)
  then have "length (AfterSeq (db_facts d2) (cu_watermark c) 0) < fuel" using assms(7) by (rule le_less_trans)
  then have "\<exists>c' d'. Sweep fuel (tables_source now) h c d2 = Some (None, c', d', AfterSeq (db_facts d2) (cu_watermark c) 0)"
    by (rule tbl.Sweep_all [OF tables_reliable acc s2 n(3)])
  then show ?thesis unfolding n(5) by (cases "Watermark d0 key") simp_all
qed

lemma New_then_Sweep_delivers_all_witness:
  "\<exists>c' d'. Sweep 9 (tables_source 0) (\<lambda>f d. (Inr (), d)) (newCursor ''k'' ''demo'' 2 0 0) demo_journal
     = Some (None, c', d', AfterSeq (db_facts demo_journal) 0 0)"
proof -
  have new: "New (tables_source 0) ''k'' ''demo'' 2 demo_journal = (Inr (newCursor ''k'' ''demo'' 2 0 0), demo_journal)"
    by (simp add: New_def tables_source_def Watermark_def demo_journal_def)
  show ?thesis
    using New_then_Sweep_delivers_all [OF new demo_journal_ok, of demo_journal "[]" "\<lambda>f d. (Inr (), d)" 9 0] demo_journal_ok
    by (simp add: Watermark_def demo_journal_def)
qed

end
