(* ===== verification/Tq_Adapter.thy ===== *)
theory Tq_Adapter
  imports Tq_Reads
begin

text \<open>
  \<open>internal/queue/companion/core.go\<close> and \<open>enqueue.go\<close> (placeholder dialect, error vocabulary, fact
  mapping, options, the shared enqueue path) and \<open>internal/queue/sqlitev4/adapter.go\<close>, the store that
  puts the token gate, the claim-wake channel and the companion's operations in front of the external
  engine. The engine (package go-cqrs-lite) is the record \<open>engine_ops\<close>, an argument of every
  definition that calls it; the theorems either hold for every engine or name what they expect of it.
  Opening and closing the database files is not modelled.
\<close>

section \<open>The placeholder dialect\<close>

text \<open>The loop of \<open>pgq\<close>: the ordinal so far, whether a string literal is open, the rest of the query.\<close>

fun pgq_from :: "nat \<Rightarrow> bool \<Rightarrow> string \<Rightarrow> string" where
  "pgq_from ordinal inString [] = []"
| "pgq_from ordinal inString (r # rs) =
     (if r = CHR 0x27 then r # pgq_from ordinal (\<not> inString) rs
      else if r = CHR ''?'' \<and> \<not> inString
        then CHR ''$'' # show_nat (ordinal + 1) @ pgq_from (ordinal + 1) inString rs
      else r # pgq_from ordinal inString rs)"

definition pgq :: "string \<Rightarrow> string" where
  "pgq query = pgq_from 0 False query"

definition SQLite :: "string \<Rightarrow> string" where
  "SQLite query = query"

text \<open>Placeholders and open literal after a stretch of the query.\<close>

fun scan_query :: "bool \<Rightarrow> string \<Rightarrow> nat \<times> bool" where
  "scan_query inString [] = (0, inString)"
| "scan_query inString (r # rs) =
     (if r = CHR 0x27 then scan_query (\<not> inString) rs
      else if r = CHR ''?'' \<and> \<not> inString
        then (case scan_query inString rs of (n, q) \<Rightarrow> (n + 1, q))
      else scan_query inString rs)"

lemma pgq_from_append:
  "pgq_from k q (a @ b) = pgq_from k q a @ (case scan_query q a of (n, q') \<Rightarrow> pgq_from (k + n) q' b)"
  by (induction k q a rule: pgq_from.induct) (auto split: prod.splits)

section \<open>Errors and facts\<close>

text \<open>The engine's error values that \<open>MapErr\<close> recognises, and any other error.\<close>

datatype uerr = UNoTaskDue | UEmptyType | UNotFound | ULeaseNotHeld | UInvalidTransition | UOther string

definition MapErr :: "uerr \<Rightarrow> qerr" where
  "MapErr e =
     (case e of
        UNoTaskDue \<Rightarrow> ErrNoTaskDue
      | UEmptyType \<Rightarrow> ErrEmptyType
      | UNotFound \<Rightarrow> TaskErr ErrNotFound
      | ULeaseNotHeld \<Rightarrow> TaskErr ErrLeaseNotHeld
      | UInvalidTransition \<Rightarrow> TaskErr ErrInvalidTransition
      | UOther s \<Rightarrow> StoreErr s)"

definition map_err :: "(uerr + 'a) \<Rightarrow> qerr + 'a" where
  "map_err r = (case r of Inl e \<Rightarrow> Inl (MapErr e) | Inr a \<Rightarrow> Inr a)"

lemma map_err_simps [simp]: "map_err (Inl e) = Inl (MapErr e)" "map_err (Inr a) = Inr a"
  by (simp_all add: map_err_def)

definition UpstreamFact :: "fact \<Rightarrow> fact" where
  "UpstreamFact f = f\<lparr>Seq := 0\<rparr>"

definition JournalFacts :: "fact list \<Rightarrow> fact list" where
  "JournalFacts fs = map (\<lambda>f. if jt_text (Detail f) = [] then f\<lparr>Detail := empty_text\<rparr> else f) fs"

text \<open>\<open>IdentityCodec\<close>: a nil payload binds as the empty blob.\<close>

definition codec_encode :: "string option \<Rightarrow> string" where
  "codec_encode v = (case v of None \<Rightarrow> [] | Some b \<Rightarrow> b)"

definition codec_decode :: "string \<Rightarrow> string option" where
  "codec_decode b = Some b"

section \<open>Options\<close>

record store_options =
  projectExclusive :: bool

definition WithProjectExclusivity :: "store_options \<Rightarrow> store_options" where
  "WithProjectExclusivity opts = opts\<lparr>projectExclusive := True\<rparr>"

definition ApplyProjectExclusivity :: "(store_options \<Rightarrow> store_options) list \<Rightarrow> bool" where
  "ApplyProjectExclusivity opts = projectExclusive (fold (\<lambda>opt s. opt s) opts \<lparr>projectExclusive = False\<rparr>)"

section \<open>The engine\<close>

text \<open>What is handed to the engine's \<open>Enqueue\<close>, and the engine's operations on the shared database.\<close>

record upstream_new =
  u_Project :: string
  u_Type :: string
  u_Payload :: jtext
  u_Deps :: "task_id list"
  u_Priority :: int
  u_MaxAttempts :: int
  u_NotBefore :: go_time
  u_DedupKey :: string

record engine_ops =
  eng_Enqueue :: "upstream_new \<Rightarrow> db \<Rightarrow> (uerr + task_id) \<times> db"
  eng_Complete :: "task_id \<Rightarrow> string \<Rightarrow> jtext \<Rightarrow> db \<Rightarrow> (uerr + unit) \<times> db"
  eng_Fail :: "task_id \<Rightarrow> string \<Rightarrow> string \<Rightarrow> duration \<Rightarrow> jtext \<Rightarrow> db \<Rightarrow> (uerr + unit) \<times> db"
  eng_FailPermanent :: "task_id \<Rightarrow> string \<Rightarrow> string \<Rightarrow> jtext \<Rightarrow> db \<Rightarrow> (uerr + unit) \<times> db"
  eng_Heartbeat :: "task_id \<Rightarrow> string \<Rightarrow> duration \<Rightarrow> db \<Rightarrow> (uerr + unit) \<times> db"
  eng_Cancel :: "task_id \<Rightarrow> string \<Rightarrow> db \<Rightarrow> (uerr + unit) \<times> db"
  eng_CancelRunning :: "task_id \<Rightarrow> string \<Rightarrow> db \<Rightarrow> (uerr + unit) \<times> db"
  eng_CancelRequested :: "task_id \<Rightarrow> db \<Rightarrow> uerr + bool"
  eng_CancelOwned :: "task_id \<Rightarrow> string \<Rightarrow> db \<Rightarrow> (uerr + unit) \<times> db"
  eng_MarkOrphaned :: "go_time \<Rightarrow> db \<Rightarrow> (uerr + int) \<times> db"
  eng_RescueDead :: "task_id \<Rightarrow> int \<Rightarrow> db \<Rightarrow> (uerr + unit) \<times> db"
  eng_DismissDead :: "task_id \<Rightarrow> string \<Rightarrow> string \<Rightarrow> db \<Rightarrow> (uerr + unit) \<times> db"
  eng_UpdatePendingPriority :: "task_id \<Rightarrow> int \<Rightarrow> string \<Rightarrow> string \<Rightarrow> db \<Rightarrow> (uerr + unit) \<times> db"
  eng_Append :: "fact \<Rightarrow> db \<Rightarrow> (uerr + unit) \<times> db"
  eng_Facts :: "int \<Rightarrow> int \<Rightarrow> db \<Rightarrow> uerr + fact list"
  eng_FactsForTask :: "string \<Rightarrow> int \<Rightarrow> db \<Rightarrow> uerr + fact list"

section \<open>The store\<close>

text \<open>The shared database, the option, and whether a signal waits in the buffered wake channel.\<close>

record sql_store =
  s_db :: db
  s_exclusive :: bool
  s_wake :: bool

definition fireWake :: "sql_store \<Rightarrow> sql_store" where
  "fireWake s = s\<lparr>s_wake := True\<rparr>"

text \<open>One call of an engine operation, its errors mapped.\<close>

definition engine_call :: "(db \<Rightarrow> (uerr + 'a) \<times> db) \<Rightarrow> sql_store \<Rightarrow> (qerr + 'a) \<times> sql_store" where
  "engine_call op s = (case op (s_db s) of (r, d) \<Rightarrow> (map_err r, s\<lparr>s_db := d\<rparr>))"

text \<open>A companion operation on the shared database.\<close>

definition companion_call :: "(db \<Rightarrow> (qerr + 'a) \<times> db) \<Rightarrow> sql_store \<Rightarrow> (qerr + 'a) \<times> sql_store" where
  "companion_call op s = (case op (s_db s) of (r, d) \<Rightarrow> (r, s\<lparr>s_db := d\<rparr>))"

definition then_wake :: "(qerr + 'a) \<times> sql_store \<Rightarrow> (qerr + 'a) \<times> sql_store" where
  "then_wake rs = (case rs of (Inl e, s) \<Rightarrow> (Inl e, s) | (Inr a, s) \<Rightarrow> (Inr a, fireWake s))"

text \<open>\<open>companion.WithToken\<close> in front of an engine operation.\<close>

definition with_token :: "go_time \<Rightarrow> task_id \<Rightarrow> string \<Rightarrow> bool
    \<Rightarrow> (string \<Rightarrow> sql_store \<Rightarrow> (qerr + unit) \<times> sql_store) \<Rightarrow> sql_store \<Rightarrow> (qerr + unit) \<times> sql_store" where
  "with_token now i claim requireLive use s =
     (case TokenFor (s_db s) now i claim requireLive of Inl e \<Rightarrow> (Inl e, s) | Inr token \<Rightarrow> use token s)"

definition Enqueue :: "engine_ops \<Rightarrow> new_task \<Rightarrow> sql_store \<Rightarrow> (qerr + task) \<times> sql_store" where
  "Enqueue e n s =
     (if n_Type n = [] then (Inl ErrEmptyType, s)
      else let notBefore = (if is_zero (n_NotBefore n) then from_milli 0 else n_NotBefore n) in
        case eng_Enqueue e \<lparr>u_Project = n_Project n, u_Type = n_Type n, u_Payload = n_Payload n,
               u_Deps = n_Deps n, u_Priority = n_Priority n, u_MaxAttempts = n_MaxAttempts n,
               u_NotBefore = notBefore, u_DedupKey = n_DedupKey n\<rparr> (s_db s) of
          (Inl er, d) \<Rightarrow> (Inl (MapErr er), s\<lparr>s_db := d\<rparr>)
        | (Inr i, d) \<Rightarrow> (loadTask d i, fireWake (s\<lparr>s_db := d\<rparr>)))"

text \<open>\<open>Complete\<close> clears the last error in a second statement.\<close>

definition Complete :: "engine_ops \<Rightarrow> task_id \<Rightarrow> string \<Rightarrow> jtext \<Rightarrow> go_time \<Rightarrow> sql_store \<Rightarrow> (qerr + unit) \<times> sql_store" where
  "Complete e i claim result now =
     with_token now i claim True (\<lambda>token s.
       case engine_call (eng_Complete e i token result) s of
         (Inl er, s') \<Rightarrow> (Inl er, s')
       | (Inr _, s') \<Rightarrow>
           (Inr (), s'\<lparr>s_db := snd (exec_update (\<lambda>r. r_id r = i \<and> r_status r = Completed)
              (\<lambda>r. r\<lparr>r_last_error := []\<rparr>) (s_db s'))\<rparr>))"

definition Fail :: "engine_ops \<Rightarrow> task_id \<Rightarrow> string \<Rightarrow> string \<Rightarrow> duration \<Rightarrow> jtext \<Rightarrow> go_time
    \<Rightarrow> sql_store \<Rightarrow> (qerr + unit) \<times> sql_store" where
  "Fail e i claim errText backoff evidence now =
     with_token now i claim True (\<lambda>token s. then_wake (engine_call (eng_Fail e i token errText backoff evidence) s))"

definition FailPermanent :: "engine_ops \<Rightarrow> task_id \<Rightarrow> string \<Rightarrow> string \<Rightarrow> jtext \<Rightarrow> go_time
    \<Rightarrow> sql_store \<Rightarrow> (qerr + unit) \<times> sql_store" where
  "FailPermanent e i claim errText evidence now =
     with_token now i claim True (\<lambda>token. engine_call (eng_FailPermanent e i token errText evidence))"

definition HeartbeatLease :: "engine_ops \<Rightarrow> task_id \<Rightarrow> string \<Rightarrow> duration \<Rightarrow> go_time
    \<Rightarrow> sql_store \<Rightarrow> (qerr + unit) \<times> sql_store" where
  "HeartbeatLease e i claim ext now =
     with_token now i claim True (\<lambda>token. engine_call (eng_Heartbeat e i token ext))"

definition Cancel :: "engine_ops \<Rightarrow> task_id \<Rightarrow> string \<Rightarrow> sql_store \<Rightarrow> (qerr + unit) \<times> sql_store" where
  "Cancel e i reason = engine_call (eng_Cancel e i reason)"

definition CancelRunning :: "engine_ops \<Rightarrow> task_id \<Rightarrow> string \<Rightarrow> sql_store \<Rightarrow> (qerr + unit) \<times> sql_store" where
  "CancelRunning e i reason = engine_call (eng_CancelRunning e i reason)"

definition CancelRequested :: "engine_ops \<Rightarrow> task_id \<Rightarrow> sql_store \<Rightarrow> qerr + bool" where
  "CancelRequested e i s = map_err (eng_CancelRequested e i (s_db s))"

definition CancelOwned :: "engine_ops \<Rightarrow> task_id \<Rightarrow> string \<Rightarrow> go_time \<Rightarrow> sql_store \<Rightarrow> (qerr + unit) \<times> sql_store" where
  "CancelOwned e i claim now =
     with_token now i claim False (\<lambda>token. engine_call (eng_CancelOwned e i token))"

definition MarkOrphaned :: "engine_ops \<Rightarrow> go_time \<Rightarrow> sql_store \<Rightarrow> (qerr + int) \<times> sql_store" where
  "MarkOrphaned e cutoff = engine_call (eng_MarkOrphaned e cutoff)"

definition RescueDead :: "engine_ops \<Rightarrow> task_id \<Rightarrow> int \<Rightarrow> sql_store \<Rightarrow> (qerr + unit) \<times> sql_store" where
  "RescueDead e i maxAttempts s = then_wake (engine_call (eng_RescueDead e i maxAttempts) s)"

definition DismissDead :: "engine_ops \<Rightarrow> task_id \<Rightarrow> string \<Rightarrow> string \<Rightarrow> sql_store \<Rightarrow> (qerr + unit) \<times> sql_store" where
  "DismissDead e i reason by_whom = engine_call (eng_DismissDead e i reason by_whom)"

definition UpdatePendingPriority :: "engine_ops \<Rightarrow> task_id \<Rightarrow> int \<Rightarrow> string \<Rightarrow> string
    \<Rightarrow> sql_store \<Rightarrow> (qerr + unit) \<times> sql_store" where
  "UpdatePendingPriority e i newPriority source reason =
     engine_call (eng_UpdatePendingPriority e i newPriority source reason)"

text \<open>\<open>ClaimDueTypes\<close>, and \<open>ClaimDue\<close> as its case without a type filter.\<close>

definition ClaimDueTypes :: "string \<Rightarrow> duration \<Rightarrow> string list \<Rightarrow> go_time \<Rightarrow> string \<Rightarrow> sql_store
    \<Rightarrow> (qerr + task \<times> string) \<times> sql_store" where
  "ClaimDueTypes owner lease types now token s =
     companion_call (ClaimDue (s_exclusive s) owner lease types now token) s"

definition StoreClaimDue :: "string \<Rightarrow> duration \<Rightarrow> go_time \<Rightarrow> string \<Rightarrow> sql_store
    \<Rightarrow> (qerr + task \<times> string) \<times> sql_store" where
  "StoreClaimDue owner lease now token s = companion_call (ClaimDue (s_exclusive s) owner lease [] now token) s"

definition StorePark :: "task_id \<Rightarrow> string \<Rightarrow> go_time \<Rightarrow> string \<Rightarrow> go_time \<Rightarrow> sql_store \<Rightarrow> (qerr + unit) \<times> sql_store" where
  "StorePark i reason until by_whom now = companion_call (Park i reason until by_whom now)"

definition StoreRequeue :: "task_id \<Rightarrow> string \<Rightarrow> string \<Rightarrow> duration \<Rightarrow> bool \<Rightarrow> string \<Rightarrow> string \<Rightarrow> go_time
    \<Rightarrow> sql_store \<Rightarrow> (qerr + unit) \<times> sql_store" where
  "StoreRequeue i claim errText delay resume cls provider now s =
     then_wake (companion_call (Requeue i claim errText delay resume cls provider now) s)"

definition AppendFact :: "engine_ops \<Rightarrow> fact \<Rightarrow> sql_store \<Rightarrow> (uerr + unit) \<times> sql_store" where
  "AppendFact e f s = (case eng_Append e (UpstreamFact f) (s_db s) of (r, d) \<Rightarrow> (r, s\<lparr>s_db := d\<rparr>))"

definition StoreRecordAnswer :: "task_id \<Rightarrow> answer_record \<Rightarrow> go_time \<Rightarrow> sql_store \<Rightarrow> (qerr + unit) \<times> sql_store" where
  "StoreRecordAnswer i ans now s = then_wake (companion_call (RecordAnswer i ans now) s)"

definition StoreGet :: "task_id \<Rightarrow> sql_store \<Rightarrow> qerr + task" where
  "StoreGet i s = loadTask (s_db s) i"

definition StoreList :: "go_time \<Rightarrow> task_filter \<Rightarrow> sql_store \<Rightarrow> qerr + task list" where
  "StoreList now f s = ListTasks (s_db s) now f"

text \<open>The engine's journal reads return its errors unmapped: no sentinel of the queue's vocabulary matches them.\<close>

definition raw_err :: "(uerr + 'a) \<Rightarrow> qerr + 'a" where
  "raw_err r = (case r of Inl (UOther m) \<Rightarrow> Inl (StoreErr m) | Inl _ \<Rightarrow> Inl (StoreErr ''engine'') | Inr a \<Rightarrow> Inr a)"

definition Facts :: "engine_ops \<Rightarrow> int \<Rightarrow> int \<Rightarrow> sql_store \<Rightarrow> qerr + fact list" where
  "Facts e after limit s =
     (case raw_err (eng_Facts e after limit (s_db s)) of Inl er \<Rightarrow> Inl er | Inr fs \<Rightarrow> Inr (JournalFacts fs))"

definition FactsForTask :: "engine_ops \<Rightarrow> string \<Rightarrow> int \<Rightarrow> sql_store \<Rightarrow> qerr + fact list" where
  "FactsForTask e i limit s =
     (case raw_err (eng_FactsForTask e i limit (s_db s)) of Inl er \<Rightarrow> Inl er | Inr fs \<Rightarrow> Inr (JournalFacts fs))"

text \<open>The adapter as the store of the queue facade.\<close>

definition adapter_ops :: "engine_ops \<Rightarrow> go_time \<Rightarrow> sql_store store_ops" where
  "adapter_ops e now =
     \<lparr>st_Enqueue = Enqueue e, st_List = StoreList now, st_Get = StoreGet,
      st_FactsForTask = FactsForTask e, st_UpdatePendingPriority = UpdatePendingPriority e\<rparr>"

section \<open>The gate in front of the engine\<close>

lemma with_token_Inl: "TokenFor (s_db s) now i claim live = Inl er \<Longrightarrow> with_token now i claim live use s = (Inl er, s)"
  by (simp add: with_token_def)

text \<open>Who holds a claim: the row is running under this token; and whether its lease is still live.\<close>

definition holds_claim :: "db \<Rightarrow> task_id \<Rightarrow> string \<Rightarrow> bool" where
  "holds_claim d i claim \<longleftrightarrow>
     (case row_of d i of None \<Rightarrow> False | Some r \<Rightarrow> r_status r = Running \<and> r_lease_token r = claim \<and> claim \<noteq> [])"

definition lease_live :: "db \<Rightarrow> go_time \<Rightarrow> task_id \<Rightarrow> bool" where
  "lease_live d now i \<longleftrightarrow>
     (case row_of d i of None \<Rightarrow> False
      | Some r \<Rightarrow> (case r_lease_expires r of None \<Rightarrow> False | Some e \<Rightarrow> e \<noteq> 0 \<and> e > unix_milli now))"

lemma TokenFor_iff:
  "TokenFor d now i claim live =
     (if holds_claim d i claim \<and> (live \<longrightarrow> lease_live d now i) then Inr claim else Inl (leaseErr d i))"
  by (auto simp: TokenFor_def leaseErr_def holds_claim_def lease_live_def Let_def split: option.splits)

lemma TokenFor_refuses:
  "\<not> (holds_claim d i claim \<and> (live \<longrightarrow> lease_live d now i)) \<Longrightarrow> TokenFor d now i claim live = Inl (leaseErr d i)"
  by (simp add: TokenFor_iff)

lemmas gated_ops = Complete_def Fail_def FailPermanent_def HeartbeatLease_def CancelOwned_def

lemma then_wake_Inr: "then_wake rs = (Inr a, s) \<Longrightarrow> s_wake s"
  by (auto simp: then_wake_def fireWake_def split: prod.splits sum.splits)

section \<open>Properties\<close>


definition demo_store :: "task_row list \<Rightarrow> sql_store" where
  "demo_store rs = \<lparr>s_db = demo_db rs, s_exclusive = False, s_wake = False\<rparr>"


text \<open>
  New work wakes the pool. Every store call that succeeds and may have made a task claimable leaves
  a signal in the wake channel: enqueue, a failed attempt, a rescue, a requeue and an answer.
\<close>

theorem releasing_calls_wake:
  "(Enqueue e n s = (Inr t, s') \<longrightarrow> s_wake s')
   \<and> (Fail e i claim errText backoff evidence now s = (Inr (), s') \<longrightarrow> s_wake s')
   \<and> (RescueDead e i maxAttempts s = (Inr (), s') \<longrightarrow> s_wake s')
   \<and> (StoreRequeue i claim errText delay resume cls provider now s = (Inr (), s') \<longrightarrow> s_wake s')
   \<and> (StoreRecordAnswer i ans now s = (Inr (), s') \<longrightarrow> s_wake s')"
proof (intro conjI impI)
  show "s_wake s'" if "Enqueue e n s = (Inr t, s')"
    using that by (auto simp: Enqueue_def fireWake_def Let_def split: if_splits prod.splits sum.splits)
  show "s_wake s'" if "Fail e i claim errText backoff evidence now s = (Inr (), s')"
    using that by (auto simp: Fail_def with_token_def dest: then_wake_Inr split: sum.splits)
qed (auto simp: RescueDead_def StoreRequeue_def StoreRecordAnswer_def dest: then_wake_Inr)

lemma releasing_calls_wake_witness:
  "\<exists>s'. StoreRequeue ''a'' ''tok'' ''boom'' minute False ''gate'' [] second
      (demo_store [leased ''w'' ''tok'' 9000 (demo_row ''a'' 1 Pending)]) = (Inr (), s') \<and> s_wake s'"
proof -
  let ?s = "demo_store [leased ''w'' ''tok'' 9000 (demo_row ''a'' 1 Pending)]"
  have "\<exists>s'. StoreRequeue ''a'' ''tok'' ''boom'' minute False ''gate'' [] second ?s = (Inr (), s')"
    by (simp add: StoreRequeue_def then_wake_def companion_call_def demo_store_def demo_defs Requeue_def WithTx_def
        held_by_def exec_update_def)
  then obtain s' where run: "StoreRequeue ''a'' ''tok'' ''boom'' minute False ''gate'' [] second ?s = (Inr (), s')" by blast
  then have "s_wake s'"
    using releasing_calls_wake [where i = "''a''" and claim = "''tok''" and errText = "''boom''" and delay = minute
        and resume = False and cls = "''gate''" and provider = "[]" and now = second and s = ?s and s' = s'] by blast
  with run show ?thesis by blast
qed

text \<open>
  Placeholders are numbered in order. In the PostgreSQL form of a query the first placeholder
  outside string literals becomes \<open>$1\<close>, and a placeholder that follows a stretch with \<open>n\<close> of them
  becomes \<open>$n+1\<close>; a query without placeholders is unchanged, and so is everything inside a literal.
\<close>

theorem pgq_numbers_in_order:
  "(scan_query False a = (n, False) \<longrightarrow>
      pgq (a @ CHR ''?'' # b) = pgq a @ CHR ''$'' # show_nat (n + 1) @ pgq_from (n + 1) False b)
   \<and> (fst (scan_query False q) = 0 \<longrightarrow> pgq q = q)"
proof
  show "scan_query False a = (n, False) \<longrightarrow>
      pgq (a @ CHR ''?'' # b) = pgq a @ CHR ''$'' # show_nat (n + 1) @ pgq_from (n + 1) False b"
    by (simp add: pgq_def pgq_from_append)
  have "fst (scan_query s q) = 0 \<Longrightarrow> pgq_from k s q = q" for k s
    by (induction k s q rule: pgq_from.induct) (auto split: if_splits prod.splits)
  then show "fst (scan_query False q) = 0 \<longrightarrow> pgq q = q" by (simp add: pgq_def)
qed

lemma pgq_numbers_in_order_witness:
  "pgq (''a=? AND b='' @ CHR ''?'' # '' LIMIT 5'') = ''a=$1 AND b=$2 LIMIT 5''"
  using pgq_numbers_in_order [where a = "''a=? AND b=''" and n = 1 and b = "'' LIMIT 5''" and q = "[]"]
  by (simp add: pgq_def show_nat.simps digit_char_def) code_simp

end
