(* ===== verification/Tq_Lockout.thy ===== *)
theory Tq_Lockout
  imports Tq_Prelude "HOL-Library.AList"
begin

text \<open>
  Package \<open>internal/lockout\<close>: the strike limiter in front of both HTTP surfaces. The strikes map is an
  association list with unique keys; the list order stands for the order in which Go walks the map,
  which only matters for entries with equal times. Each operation takes one clock reading. Shows that
  exactly the \<open>MaxHits\<close>-th failure locks a key and for exactly the lockout window, that the map never
  exceeds \<open>MaxKeys\<close>, and that a locked key can be evicted before an unlocked one.
\<close>

section \<open>State\<close>

definition DefaultMaxHits :: int where "DefaultMaxHits = 3"
definition DefaultLockout :: duration where "DefaultLockout = minute"
definition DefaultIdleKeep :: duration where "DefaultIdleKeep = 10 * minute"
definition DefaultMaxKeys :: int where "DefaultMaxKeys = 1024"

record strikes =
  sk_count :: int
  sk_lockedUntil :: go_time
  sk_last :: go_time

record limiter =
  lm_maxHits :: int
  lm_lockout :: duration
  lm_idleKeep :: duration
  lm_maxKeys :: int
  lm_strikes :: "(string \<times> strikes) list"
  lm_evictWarned :: bool

definition NewLimiter :: "int \<Rightarrow> duration \<Rightarrow> duration \<Rightarrow> int \<Rightarrow> limiter" where
  "NewLimiter maxHits lockout idleKeep maxKeys =
     \<lparr>lm_maxHits = maxHits, lm_lockout = lockout, lm_idleKeep = idleKeep, lm_maxKeys = maxKeys,
      lm_strikes = [], lm_evictWarned = False\<rparr>"

section \<open>Operations\<close>

text \<open>The predicate of both the per-contact and the global pruning.\<close>

definition keep_entry :: "limiter \<Rightarrow> go_time \<Rightarrow> strikes \<Rightarrow> bool" where
  "keep_entry l now e \<longleftrightarrow> now < sk_lockedUntil e \<or> time_sub now (sk_last e) < lm_idleKeep l"

definition pruneLocked :: "string \<Rightarrow> go_time \<Rightarrow> limiter \<Rightarrow> strikes option \<times> limiter" where
  "pruneLocked key now l =
     (case map_of (lm_strikes l) key of
        None \<Rightarrow> (None, l)
      | Some e \<Rightarrow> if keep_entry l now e then (Some e, l)
                  else (None, l\<lparr>lm_strikes := AList.delete key (lm_strikes l)\<rparr>))"

definition Locked :: "string \<Rightarrow> go_time \<Rightarrow> limiter \<Rightarrow> (duration \<times> bool) \<times> limiter" where
  "Locked key now l =
     (case pruneLocked key now l of
        (None, l') \<Rightarrow> ((0, False), l')
      | (Some e, l') \<Rightarrow> if now < sk_lockedUntil e then ((time_sub (sk_lockedUntil e) now, True), l')
                         else ((0, False), l'))"

text \<open>The eviction loop: the first of the least recently active entries goes until the map fits.\<close>

definition oldest_key :: "(string \<times> strikes) list \<Rightarrow> string" where
  "oldest_key xs = (case first_by (\<lambda>a b. sk_last (snd a) < sk_last (snd b)) xs of None \<Rightarrow> [] | Some (k, e) \<Rightarrow> k)"

fun evict :: "nat \<Rightarrow> int \<Rightarrow> (string \<times> strikes) list \<Rightarrow> (string \<times> strikes) list" where
  "evict 0 maxKeys xs = xs"
| "evict (Suc n) maxKeys xs =
     (if int (length xs) > maxKeys then evict n maxKeys (AList.delete (oldest_key xs) xs) else xs)"

definition boundLocked :: "go_time \<Rightarrow> limiter \<Rightarrow> limiter" where
  "boundLocked now l =
     (if int (length (lm_strikes l)) \<le> lm_maxKeys l then l
      else let swept = filter (\<lambda>(k, e). keep_entry l now e) (lm_strikes l);
               left = evict (length swept) (lm_maxKeys l) swept in
        l\<lparr>lm_strikes := left, lm_evictWarned := (lm_evictWarned l \<or> length left < length swept)\<rparr>)"

definition strike_entry :: "limiter \<Rightarrow> go_time \<Rightarrow> strikes option \<Rightarrow> strikes" where
  "strike_entry l now found =
     (let e0 = (case found of None \<Rightarrow> \<lparr>sk_count = 0, sk_lockedUntil = zero_time, sk_last = zero_time\<rparr> | Some e \<Rightarrow> e);
          e1 = e0\<lparr>sk_last := now, sk_count := sk_count e0 + 1\<rparr>
      in if sk_count e1 \<ge> lm_maxHits l
         then e1\<lparr>sk_lockedUntil := sk_last e1 + lm_lockout l, sk_count := 0\<rparr> else e1)"

definition Add :: "string \<Rightarrow> go_time \<Rightarrow> limiter \<Rightarrow> limiter" where
  "Add key now l =
     (case pruneLocked key now l of
        (found, l1) \<Rightarrow>
          boundLocked now (l1\<lparr>lm_strikes := AList.update key (strike_entry l1 now found) (lm_strikes l1)\<rparr>))"

definition Reset :: "string \<Rightarrow> go_time \<Rightarrow> limiter \<Rightarrow> limiter" where
  "Reset key now l =
     (case pruneLocked key now l of
        (None, l1) \<Rightarrow> l1
      | (Some e, l1) \<Rightarrow> l1\<lparr>lm_strikes := AList.update key (e\<lparr>sk_count := 0, sk_lockedUntil := zero_time\<rparr>) (lm_strikes l1)\<rparr>)"

definition Len :: "limiter \<Rightarrow> int" where
  "Len l = int (length (lm_strikes l))"

definition Has :: "string \<Rightarrow> limiter \<Rightarrow> bool" where
  "Has key l \<longleftrightarrow> map_of (lm_strikes l) key \<noteq> None"

section \<open>Well-formedness\<close>

definition limiter_ok :: "limiter \<Rightarrow> bool" where
  "limiter_ok l \<longleftrightarrow> distinct (map fst (lm_strikes l)) \<and> 0 \<le> lm_maxKeys l"

lemma same_config:
  "lm_maxHits (boundLocked now l) = lm_maxHits l" "lm_lockout (boundLocked now l) = lm_lockout l"
  "lm_idleKeep (boundLocked now l) = lm_idleKeep l" "lm_maxKeys (boundLocked now l) = lm_maxKeys l"
  by (simp_all add: boundLocked_def Let_def)

lemma oldest_key_mem: "xs \<noteq> [] \<Longrightarrow> oldest_key xs \<in> fst ` set xs"
proof -
  assume "xs \<noteq> []"
  then obtain k e where "first_by (\<lambda>a b. sk_last (snd a) < sk_last (snd b)) xs = Some (k, e)"
    by (metis first_by_None not_None_eq surj_pair)
  then show ?thesis using first_by_mem [of _ xs "(k, e)"] by (force simp: oldest_key_def)
qed

lemma length_delete_mem: "k \<in> fst ` set xs \<Longrightarrow> length (AList.delete k xs) < length xs"
  by (induction xs) (auto intro: le_imp_less_Suc length_delete_le)

lemma evict_spec:
  "0 \<le> maxKeys \<Longrightarrow> length xs \<le> n \<Longrightarrow> int (length (evict n maxKeys xs)) \<le> maxKeys
     \<and> (distinct (map fst xs) \<longrightarrow> distinct (map fst (evict n maxKeys xs)))"
proof (induction n arbitrary: xs)
  case (Suc n)
  show ?case
  proof (cases "int (length xs) > maxKeys")
    case True
    then have "xs \<noteq> []" using Suc.prems(1) by auto
    then have "length (AList.delete (oldest_key xs) xs) < length xs"
      by (intro length_delete_mem oldest_key_mem)
    then show ?thesis using Suc True distinct_delete [of xs "oldest_key xs"] by auto
  qed simp
qed simp

lemma limiter_ok_bound:
  assumes "limiter_ok l"
  shows "limiter_ok (boundLocked now l) \<and> Len (boundLocked now l) \<le> lm_maxKeys l"
proof (cases "int (length (lm_strikes l)) \<le> lm_maxKeys l")
  case False
  let ?swept = "filter (\<lambda>(k, e). keep_entry l now e) (lm_strikes l)"
  have "distinct (map fst ?swept)" using assms by (simp add: limiter_ok_def distinct_map_filter)
  then show ?thesis
    using False assms evict_spec [of "lm_maxKeys l" ?swept "length ?swept"]
    by (simp add: boundLocked_def Let_def limiter_ok_def Len_def)
qed (use assms in \<open>simp add: boundLocked_def Len_def\<close>)

lemma limiter_ok_prune: "limiter_ok l \<Longrightarrow> limiter_ok (snd (pruneLocked key now l))"
  by (auto simp: pruneLocked_def limiter_ok_def distinct_delete split: option.split)

lemma prune_config:
  "lm_maxHits (snd (pruneLocked key now l)) = lm_maxHits l" "lm_lockout (snd (pruneLocked key now l)) = lm_lockout l"
  "lm_idleKeep (snd (pruneLocked key now l)) = lm_idleKeep l" "lm_maxKeys (snd (pruneLocked key now l)) = lm_maxKeys l"
  by (auto simp: pruneLocked_def split: option.split)

lemma limiter_ok_Add:
  assumes "limiter_ok l"
  shows "limiter_ok (Add key now l) \<and> Len (Add key now l) \<le> lm_maxKeys l"
proof -
  obtain found l1 where p: "pruneLocked key now l = (found, l1)" by (cases "pruneLocked key now l")
  have l1: "limiter_ok l1" "lm_maxKeys l1 = lm_maxKeys l"
    using limiter_ok_prune [OF assms, of key now] prune_config [of key now l] p by simp_all
  have "limiter_ok (l1\<lparr>lm_strikes := AList.update key e (lm_strikes l1)\<rparr>)" for e
    using l1(1) by (simp add: limiter_ok_def distinct_update)
  then show ?thesis
    using limiter_ok_bound [of "l1\<lparr>lm_strikes := AList.update key (strike_entry l1 now found) (lm_strikes l1)\<rparr>" now] p l1(2)
    by (simp add: Add_def)
qed

section \<open>Strikes of one key\<close>

text \<open>Under the cap, an added failure changes exactly its key.\<close>

lemma Add_under_cap:
  assumes "Len l < lm_maxKeys l"
  shows "Add key now l = (snd (pruneLocked key now l))\<lparr>lm_strikes :=
     AList.update key (strike_entry l now (fst (pruneLocked key now l))) (lm_strikes (snd (pruneLocked key now l)))\<rparr>"
proof -
  obtain found l1 where p: "pruneLocked key now l = (found, l1)" by (cases "pruneLocked key now l")
  have cfg: "lm_maxHits l1 = lm_maxHits l" "lm_lockout l1 = lm_lockout l" "lm_maxKeys l1 = lm_maxKeys l"
    using prune_config [of key now l] p by simp_all
  have upd: "length (AList.update key e xs) \<le> Suc (length xs)" for e and xs :: "(string \<times> strikes) list"
    by (induction xs) auto
  have "length (lm_strikes l1) \<le> length (lm_strikes l)"
    using p by (auto simp: pruneLocked_def intro: length_delete_le split: option.splits if_splits)
  then have "int (length (AList.update key e (lm_strikes l1))) \<le> lm_maxKeys l1" for e
    using upd [of e "lm_strikes l1"] assms cfg(3) by (simp add: Len_def)
  moreover have "strike_entry l1 now found = strike_entry l now found" using cfg by (simp add: strike_entry_def Let_def)
  ultimately show ?thesis using p by (simp add: Add_def boundLocked_def)
qed

text \<open>A key whose entry is kept: its failures follow one another in place.\<close>

lemma Add_next_strike:
  assumes "Len l < lm_maxKeys l" "map_of (lm_strikes l) key = Some e" "keep_entry l now e"
  shows "Len (Add key now l) = Len l" "map_of (lm_strikes (Add key now l)) key = Some (strike_entry l now (Some e))"
    and "lm_maxHits (Add key now l) = lm_maxHits l" "lm_lockout (Add key now l) = lm_lockout l"
    and "lm_idleKeep (Add key now l) = lm_idleKeep l" "lm_maxKeys (Add key now l) = lm_maxKeys l"
proof -
  have "pruneLocked key now l = (Some e, l)" using assms(2,3) by (simp add: pruneLocked_def)
  then have eq: "Add key now l = l\<lparr>lm_strikes := AList.update key (strike_entry l now (Some e)) (lm_strikes l)\<rparr>"
    using Add_under_cap [OF assms(1), of key now] by simp
  have upd: "key \<in> fst ` set xs \<Longrightarrow> length (AList.update key x xs) = length xs" for x and xs :: "(string \<times> strikes) list"
    by (induction xs) auto
  have "key \<in> fst ` set (lm_strikes l)" using assms(2) by (force dest: map_of_SomeD)
  then show "Len (Add key now l) = Len l" by (simp add: eq Len_def upd)
  show "map_of (lm_strikes (Add key now l)) key = Some (strike_entry l now (Some e))"
    by (simp add: eq update_conv')
  show "lm_maxHits (Add key now l) = lm_maxHits l" "lm_lockout (Add key now l) = lm_lockout l"
    "lm_idleKeep (Add key now l) = lm_idleKeep l" "lm_maxKeys (Add key now l) = lm_maxKeys l"
    by (simp_all add: eq)
qed

text \<open>Failures at the given times, each within the idle lifetime of the one before.\<close>

fun spaced :: "duration \<Rightarrow> go_time \<Rightarrow> go_time list \<Rightarrow> bool" where
  "spaced idle prev [] \<longleftrightarrow> True"
| "spaced idle prev (t # ts) \<longleftrightarrow> time_sub t prev < idle \<and> spaced idle t ts"

fun adds :: "string \<Rightarrow> go_time list \<Rightarrow> limiter \<Rightarrow> limiter" where
  "adds key [] l = l"
| "adds key (t # ts) l = adds key ts (Add key t l)"

lemma adds_append: "adds key (a @ b) l = adds key b (adds key a l)"
  by (induction a arbitrary: l) simp_all

lemma spaced_append: "spaced idle p (a @ b) \<longleftrightarrow> spaced idle p a \<and> spaced idle (last (p # a)) b"
  by (induction a arbitrary: p) auto

lemma adds_below_max:
  assumes "map_of (lm_strikes l) key = Some e" "Len l < lm_maxKeys l" "spaced (lm_idleKeep l) (sk_last e) ts"
    and "sk_count e + int (length ts) < lm_maxHits l"
  shows "map_of (lm_strikes (adds key ts l)) key =
       Some (e\<lparr>sk_count := sk_count e + int (length ts), sk_last := last (sk_last e # ts)\<rparr>)
     \<and> Len (adds key ts l) = Len l \<and> lm_maxHits (adds key ts l) = lm_maxHits l \<and> lm_lockout (adds key ts l) = lm_lockout l
     \<and> lm_idleKeep (adds key ts l) = lm_idleKeep l \<and> lm_maxKeys (adds key ts l) = lm_maxKeys l"
  using assms
proof (induction ts arbitrary: l e)
  case (Cons t ts)
  have keep: "keep_entry l t e" using Cons.prems(3) by (simp add: keep_entry_def)
  note add = Add_next_strike [OF Cons.prems(2,1) keep]
  let ?e = "e\<lparr>sk_last := t, sk_count := sk_count e + 1\<rparr>"
  have "strike_entry l t (Some e) = ?e" using Cons.prems(4) by (simp add: strike_entry_def)
  then have "map_of (lm_strikes (Add key t l)) key = Some ?e" using add(2) by simp
  then show ?case using Cons.IH [of "Add key t l" ?e] add Cons.prems by (simp add: algebra_simps)
qed simp

lemma Locked_value:
  "fst (Locked key now l) = (case map_of (lm_strikes l) key of None \<Rightarrow> (0, False)
     | Some e \<Rightarrow> if now < sk_lockedUntil e then (time_sub (sk_lockedUntil e) now, True) else (0, False))"
  by (auto simp: Locked_def pruneLocked_def keep_entry_def split: option.split)

section \<open>Properties\<close>

text \<open>
  Three strikes. For a client that is not tracked yet and a map below its cap, the \<open>MaxHits\<close>-th of
  a series of failures, each within the idle lifetime of the one before, locks the client, and no
  earlier one does; the lockout lasts exactly the window from that failure, and the remaining time is
  reported; a success in between clears it.
\<close>

theorem MaxHits_failures_lock:
  assumes "map_of (lm_strikes l) key = None" "Len l + 1 < lm_maxKeys l"
    and "spaced (lm_idleKeep l) t0 ts" "int (length (t0 # ts)) = lm_maxHits l" "zero_time \<le> u"
  shows "fst (Locked key u (adds key (t0 # ts) l)) =
       (if u < last (t0 # ts) + lm_lockout l then (time_sub (last (t0 # ts) + lm_lockout l) u, True) else (0, False))
     \<and> fst (Locked key u (adds key (butlast (t0 # ts)) l)) = (0, False)
     \<and> fst (Locked key u (Reset key now (adds key (t0 # ts) l))) = (0, False)"
proof -
  have reset: "fst (Locked key u (Reset key now m)) = (0, False)" for m
    using assms(5) by (auto simp: Locked_value Reset_def pruneLocked_def update_conv' delete_conv' split: option.split)
  have p0: "pruneLocked key t0 l = (None, l)" using assms(1) by (simp add: pruneLocked_def)
  have fresh: "Add key t0 l = l\<lparr>lm_strikes := AList.update key (strike_entry l t0 None) (lm_strikes l)\<rparr>"
    using Add_under_cap [of l key t0] assms(2) p0 by simp
  show ?thesis
  proof (cases ts rule: rev_cases)
    case Nil
    then have "strike_entry l t0 None = \<lparr>sk_count = 0, sk_lockedUntil = t0 + lm_lockout l, sk_last = t0\<rparr>"
      using assms(4) by (simp add: strike_entry_def)
    then show ?thesis using Nil fresh reset assms(1) by (simp add: Locked_value update_conv')
  next
    case (snoc rs t)
    let ?e = "\<lparr>sk_count = 1, sk_lockedUntil = zero_time, sk_last = t0\<rparr>"
    let ?l1 = "Add key t0 l" and ?l2 = "adds key rs (Add key t0 l)"
    have e1: "strike_entry l t0 None = ?e" using assms(4) snoc by (simp add: strike_entry_def)
    have upd: "length (AList.update key x xs) \<le> Suc (length xs)" for x and xs :: "(string \<times> strikes) list"
      by (induction xs) auto
    have l1: "map_of (lm_strikes ?l1) key = Some ?e" "Len ?l1 < lm_maxKeys ?l1"
        "lm_maxHits ?l1 = lm_maxHits l" "lm_idleKeep ?l1 = lm_idleKeep l" "lm_lockout ?l1 = lm_lockout l"
      using fresh e1 upd [of ?e "lm_strikes l"] assms(2) by (simp_all add: update_conv' Len_def)
    have sp: "spaced (lm_idleKeep l) t0 rs" "time_sub t (last (t0 # rs)) < lm_idleKeep l"
      using assms(3) snoc by (simp_all add: spaced_append)
    let ?e2 = "?e\<lparr>sk_count := 1 + int (length rs), sk_last := last (t0 # rs)\<rparr>"
    have l2: "map_of (lm_strikes ?l2) key = Some ?e2" "Len ?l2 < lm_maxKeys ?l2" "lm_maxHits ?l2 = lm_maxHits l"
        "lm_idleKeep ?l2 = lm_idleKeep l" "lm_lockout ?l2 = lm_lockout l"
      using adds_below_max [OF l1(1,2), of rs] sp(1) l1 assms(4) snoc by simp_all
    have "keep_entry ?l2 t ?e2" using sp(2) l2(4) by (simp add: keep_entry_def)
    then have l3: "map_of (lm_strikes (Add key t ?l2)) key = Some (strike_entry ?l2 t (Some ?e2))"
      using Add_next_strike(2) [OF l2(2,1)] by blast
    have "strike_entry ?l2 t (Some ?e2) = \<lparr>sk_count = 0, sk_lockedUntil = t + lm_lockout l, sk_last = t\<rparr>"
      using l2(3,5) assms(4) snoc by (simp add: strike_entry_def)
    moreover have "adds key (t0 # ts) l = Add key t ?l2" by (simp add: snoc adds_append)
    moreover have "adds key (butlast (t0 # ts)) l = ?l2" by (simp add: snoc butlast_append)
    ultimately show ?thesis using l3 l2(1) reset assms(5) by (simp add: Locked_value snoc)
  qed
qed

lemma MaxHits_failures_lock_witness:
  "fst (Locked ''ip'' second (adds ''ip'' [0, 5, 9] (NewLimiter DefaultMaxHits DefaultLockout DefaultIdleKeep DefaultMaxKeys)))
     = (time_sub (9 + minute) second, True)"
  using MaxHits_failures_lock [of "NewLimiter DefaultMaxHits DefaultLockout DefaultIdleKeep DefaultMaxKeys" "''ip''" 0 "[5, 9]" second 0]
  by (simp add: NewLimiter_def Len_def DefaultMaxHits_def DefaultLockout_def DefaultIdleKeep_def DefaultMaxKeys_def
      time_sub_def zero_time_def)

text \<open>
  The limiter's memory is bounded. Whatever keys fail and when, after every recorded failure the
  map has at most \<open>MaxKeys\<close> entries, with unique keys.
\<close>

theorem strikes_map_is_bounded:
  assumes "limiter_ok l" "ks \<noteq> []"
  shows "limiter_ok (fold (\<lambda>(key, now). Add key now) ks l)
     \<and> Len (fold (\<lambda>(key, now). Add key now) ks l) \<le> lm_maxKeys l"
  using assms
proof (induction ks arbitrary: l)
  case (Cons k ks)
  obtain key now where k: "k = (key, now)" by (cases k)
  have step: "limiter_ok (Add key now l)" "Len (Add key now l) \<le> lm_maxKeys l"
    using limiter_ok_Add [OF Cons.prems(1)] by simp_all
  have "lm_maxKeys (Add key now l) = lm_maxKeys l"
    by (cases "pruneLocked key now l") (use prune_config(4) [of key now l] in \<open>simp add: Add_def same_config\<close>)
  then show ?case using step Cons.IH [OF step(1)] k by (cases "ks = []") simp_all
qed simp

lemma strikes_map_is_bounded_witness:
  "Len (fold (\<lambda>(key, now). Add key now) [(''a'', 0), (''b'', 1), (''c'', 2)] (NewLimiter 3 minute hour 2)) \<le> 2"
  using strikes_map_is_bounded [of "NewLimiter 3 minute hour 2" "[(''a'', 0), (''b'', 1), (''c'', 2)]"]
  by (simp add: limiter_ok_def NewLimiter_def)

text \<open>
  The bound can free a locked client while an unlocked one stays. At the cap, a new failure evicts
  the least recently active entry, here one that is locked for another minute, although an entry that
  is not locked is in the map.
\<close>

theorem locked_key_evicted_before_unlocked:
  "\<exists>l. limiter_ok l \<and> snd (fst (Locked ''bad'' 10 l)) \<and> \<not> snd (fst (Locked ''ok'' 10 l))
     \<and> \<not> Has ''bad'' (Add ''new'' 10 l) \<and> Has ''ok'' (Add ''new'' 10 l)"
proof (intro exI conjI)
  let ?l = "\<lparr>lm_maxHits = 3, lm_lockout = minute, lm_idleKeep = hour, lm_maxKeys = 2,
     lm_strikes = [(''bad'', \<lparr>sk_count = 0, sk_lockedUntil = minute, sk_last = 0\<rparr>),
       (''ok'', \<lparr>sk_count = 1, sk_lockedUntil = zero_time, sk_last = 5\<rparr>)], lm_evictWarned = False\<rparr>"
  show "limiter_ok ?l" by (simp add: limiter_ok_def)
  show "snd (fst (Locked ''bad'' 10 ?l))" "\<not> snd (fst (Locked ''ok'' 10 ?l))" by (simp_all add: Locked_value zero_time_def)
  show "\<not> Has ''bad'' (Add ''new'' 10 ?l)" "Has ''ok'' (Add ''new'' 10 ?l)"
    by (simp_all add: Add_def pruneLocked_def strike_entry_def boundLocked_def keep_entry_def time_sub_def
        oldest_key_def Has_def zero_time_def eval_nat_numeral)
qed

end
