(* ===== verification/Tq_Budget.thy ===== *)
theory Tq_Budget
  imports Tq_Reads
begin

text \<open>
  Package \<open>internal/budget\<close>: may the pool spend more agent money right now? The guard reads the journal
  through the \<open>FactSource\<close> interface (record \<open>fact_source\<close>), asks an operator's command when one is
  set, and can cache the command's verdict. The command is an argument: what it prints and whether it
  exits with zero. A location is its offset from UTC, without daylight saving changes; dollar amounts
  are exact fractions where the code has floating point; a refusal carries its data, not its wording.
\<close>

section \<open>The guard\<close>

record 's fact_source =
  fs_CountFacts :: "fact_type \<Rightarrow> go_time \<Rightarrow> 's \<Rightarrow> qerr + int"
  fs_FactsSince :: "fact_type \<Rightarrow> go_time \<Rightarrow> int \<Rightarrow> 's \<Rightarrow> qerr + fact list"

record session_usage =
  su_Runs :: int
  su_CostUSD :: rat
  su_PromptTokens :: int
  su_CompletionTokens :: int
  su_Messages :: int

datatype budget_reason =
    WithinBudget
  | CommandRefused string
  | CountExhausted int int "session_usage option"
  | CostReached rat rat int

record cmd_cache =
  cc_ttl :: duration
  cc_allowed :: bool
  cc_reason :: budget_reason
  cc_at :: go_time
  cc_ok :: bool

record guard =
  g_DailyCap :: int
  g_DailyCostCapUSD :: rat
  g_BudgetCmd :: string
  g_cmdCache :: "cmd_cache option"

definition DefaultCmdCacheTTL :: duration where "DefaultCmdCacheTTL = 30 * second"

definition WithCmdCache :: "duration \<Rightarrow> guard \<Rightarrow> guard" where
  "WithCmdCache ttl g =
     (if ttl \<le> 0 then g
      else g\<lparr>g_cmdCache := Some \<lparr>cc_ttl = ttl, cc_allowed = False, cc_reason = WithinBudget, cc_at = zero_time, cc_ok = False\<rparr>\<rparr>)"

definition cache_get :: "go_time \<Rightarrow> cmd_cache \<Rightarrow> (bool \<times> budget_reason) option" where
  "cache_get now c = (if cc_ok c \<and> time_sub now (cc_at c) < cc_ttl c then Some (cc_allowed c, cc_reason c) else None)"

definition cache_put :: "go_time \<Rightarrow> bool \<times> budget_reason \<Rightarrow> cmd_cache \<Rightarrow> cmd_cache" where
  "cache_put now v c = c\<lparr>cc_allowed := fst v, cc_reason := snd v, cc_at := now, cc_ok := True\<rparr>"

section \<open>Days\<close>

abbreviation day :: duration where "day \<equiv> 86400000000000"

definition startOfDay :: "duration \<Rightarrow> go_time \<Rightarrow> go_time" where
  "startOfDay off t = (t + off) div day * day - off"

definition NextMidnight :: "duration \<Rightarrow> go_time \<Rightarrow> go_time" where
  "NextMidnight off now = ((now + off) div day + 1) * day - off"

lemma day_bounds: "startOfDay off t \<le> t" "t < NextMidnight off t" "NextMidnight off t - t \<le> day"
proof -
  have e: "(t + off) div day * day + (t + off) mod day = t + off" by (rule div_mult_mod_eq)
  have "0 \<le> (t + off) mod day" "(t + off) mod day < day" by simp_all
  then show "startOfDay off t \<le> t" "t < NextMidnight off t" "NextMidnight off t - t \<le> day"
    using e by (simp_all add: startOfDay_def NextMidnight_def)
qed

section \<open>Spend\<close>

definition spentSince :: "'s fact_source \<Rightarrow> go_time \<Rightarrow> 's \<Rightarrow> int" where
  "spentSince src since s = (case fs_CountFacts src F_Enqueued since s of Inl _ \<Rightarrow> 0 | Inr n \<Rightarrow> n)"

definition SpentToday :: "'s fact_source \<Rightarrow> duration \<Rightarrow> go_time \<Rightarrow> 's \<Rightarrow> int" where
  "SpentToday src off now = spentSince src (startOfDay off now)"

text \<open>The usage keys of a completion detail: cost, prompt tokens, completion tokens, messages.\<close>

definition sessionUsageDetail :: "jtext \<Rightarrow> (rat \<times> int \<times> int \<times> int) option" where
  "sessionUsageDetail detail =
     do { j \<leftarrow> jt_parse detail; kvs \<leftarrow> jfields j;
          cost \<leftarrow> jrat_field ''session_cost_usd'' kvs;
          prompt \<leftarrow> jint_field ''session_prompt_tokens'' kvs;
          completion \<leftarrow> jint_field ''session_completion_tokens'' kvs;
          messages \<leftarrow> jint_field ''session_message_count'' kvs;
          Some (cost, prompt, completion, messages) }"

definition add_usage :: "fact \<Rightarrow> session_usage \<Rightarrow> session_usage" where
  "add_usage f u =
     (case sessionUsageDetail (Detail f) of
        None \<Rightarrow> u
      | Some (cost, prompt, completion, messages) \<Rightarrow>
          if prompt = 0 \<and> completion = 0 \<and> cost = 0 then u
          else \<lparr>su_Runs = wrap64 (su_Runs u + 1), su_CostUSD = su_CostUSD u + cost,
                su_PromptTokens = wrap64 (su_PromptTokens u + prompt),
                su_CompletionTokens = wrap64 (su_CompletionTokens u + completion),
                su_Messages = wrap64 (su_Messages u + messages)\<rparr>)"

definition no_usage :: session_usage where
  "no_usage = \<lparr>su_Runs = 0, su_CostUSD = 0, su_PromptTokens = 0, su_CompletionTokens = 0, su_Messages = 0\<rparr>"

definition usageSince :: "'s fact_source \<Rightarrow> go_time \<Rightarrow> 's \<Rightarrow> session_usage" where
  "usageSince src since s =
     (case fs_FactsSince src F_Completed since 0 s of Inl _ \<Rightarrow> no_usage | Inr fs \<Rightarrow> fold add_usage fs no_usage)"

definition UsageToday :: "'s fact_source \<Rightarrow> duration \<Rightarrow> go_time \<Rightarrow> 's \<Rightarrow> session_usage" where
  "UsageToday src off now = usageSince src (startOfDay off now)"

section \<open>Check\<close>

definition firstLine :: "string \<Rightarrow> string" where
  "firstLine line =
     (let l = takeWhile (\<lambda>c. c \<noteq> CHR 0x0A) (trim_space line) in if l = [] then ''exit status non-zero'' else l)"

definition runBudgetCmd :: "(string \<Rightarrow> bool \<times> string) \<Rightarrow> guard \<Rightarrow> bool \<times> budget_reason" where
  "runBudgetCmd sh g =
     (case sh (g_BudgetCmd g) of (succeeded, out) \<Rightarrow>
        if \<not> succeeded then (False, CommandRefused (firstLine out)) else (True, WithinBudget))"

definition Check :: "(string \<Rightarrow> bool \<times> string) \<Rightarrow> 's fact_source \<Rightarrow> duration \<Rightarrow> go_time \<Rightarrow> guard \<Rightarrow> 's
    \<Rightarrow> (bool \<times> budget_reason) \<times> guard" where
  "Check sh src off now g s =
     (if g_BudgetCmd g \<noteq> [] then
        (case g_cmdCache g of
           Some c \<Rightarrow>
             (case cache_get now c of
                Some v \<Rightarrow> (v, g)
              | None \<Rightarrow> let v = runBudgetCmd sh g in (v, g\<lparr>g_cmdCache := Some (cache_put now v c)\<rparr>))
         | None \<Rightarrow> (runBudgetCmd sh g, g))
      else
        let spent = SpentToday src off now s; usage = UsageToday src off now s in
        if g_DailyCap g > 0 \<and> spent \<ge> g_DailyCap g then
          ((False, CountExhausted spent (g_DailyCap g) (if su_Runs usage > 0 then Some usage else None)), g)
        else if g_DailyCostCapUSD g > 0 \<and> su_CostUSD usage \<ge> g_DailyCostCapUSD g then
          ((False, CostReached (su_CostUSD usage) (g_DailyCostCapUSD g) (su_Runs usage)), g)
        else ((True, WithinBudget), g))"

text \<open>The companion tables as the source.\<close>

definition table_source :: "db fact_source" where
  "table_source = \<lparr>fs_CountFacts = (\<lambda>ty since d. Inr (CountFacts d ty since)),
     fs_FactsSince = (\<lambda>ty since limit d. Inr (FactsSince d ty since limit))\<rparr>"

lemma CountFacts_mono: "prefix (db_facts d) (db_facts d') \<Longrightarrow> CountFacts d ty since \<le> CountFacts d' ty since"
  by (auto simp: CountFacts_def prefix_def)

lemma no_facts_since:
  assumes "\<forall>f\<in>set (db_facts d). unix_milli (Time f) < unix_milli since"
  shows "CountFacts d ty since = 0" "FactsSince d ty since limit = []"
proof -
  have none: "filter (\<lambda>f. FType f = ty \<and> unix_milli since \<le> unix_milli (Time f)) (db_facts d) = []"
    using assms by (auto simp: filter_empty_conv)
  then show "CountFacts d ty since = 0" by (simp add: CountFacts_def)
  show "FactsSince d ty since limit = []" unfolding FactsSince_def none by (simp add: scanFacts_def)
qed

section \<open>Properties\<close>

text \<open>
  An exhausted day stays exhausted until midnight, and midnight clears it. Once the daily cap is
  reached, every later check of the same day refuses, whatever is journaled meanwhile; a check on a day
  whose start is after all recorded facts allows, whatever the caps.
\<close>

theorem exhausted_until_midnight:
  assumes "g_BudgetCmd g = []" "0 < g_DailyCap g" "g_DailyCap g \<le> SpentToday table_source off now d"
    and "prefix (db_facts d) (db_facts d')" "startOfDay off later = startOfDay off now"
    and "\<forall>f\<in>set (db_facts d'). unix_milli (Time f) < unix_milli (startOfDay off tomorrow)"
  shows "\<not> fst (fst (Check sh table_source off later g d')) \<and> fst (fst (Check sh table_source off tomorrow g d'))"
proof
  have "SpentToday table_source off now d \<le> SpentToday table_source off later d'"
    using CountFacts_mono [OF assms(4)] assms(5) by (simp add: SpentToday_def spentSince_def table_source_def)
  then show "\<not> fst (fst (Check sh table_source off later g d'))"
    using assms(1-3) by (simp add: Check_def Let_def)
  have "SpentToday table_source off tomorrow d' = 0" "UsageToday table_source off tomorrow d' = no_usage"
    using no_facts_since [OF assms(6)]
    by (simp_all add: SpentToday_def spentSince_def UsageToday_def usageSince_def table_source_def)
  then show "fst (fst (Check sh table_source off tomorrow g d'))"
    using assms(1,2) by (simp add: Check_def Let_def no_usage_def)
qed

lemma exhausted_until_midnight_witness:
  "\<not> fst (fst (Check (\<lambda>_. (True, [])) table_source 0 hour
     \<lparr>g_DailyCap = 1, g_DailyCostCapUSD = 0, g_BudgetCmd = [], g_cmdCache = None\<rparr>
     ((demo_db [])\<lparr>db_facts := [blank_fact\<lparr>FType := F_Enqueued, Time := second\<rparr>]\<rparr>)))"
proof -
  let ?g = "\<lparr>g_DailyCap = 1, g_DailyCostCapUSD = 0, g_BudgetCmd = [], g_cmdCache = None\<rparr>"
  let ?d = "(demo_db [])\<lparr>db_facts := [blank_fact\<lparr>FType := F_Enqueued, Time := second\<rparr>]\<rparr>"
  show ?thesis
    using exhausted_until_midnight [where g = ?g and off = 0 and now = minute and d = ?d and d' = ?d and later = hour
        and tomorrow = "2 * day" and sh = "\<lambda>_. (True, [])"]
    by (simp add: SpentToday_def spentSince_def table_source_def CountFacts_def startOfDay_def unix_milli_def blank_fact_def)
qed

text \<open>
  The command is the final authority, and its verdict is shared for the cache window. With a command
  set the caps do not matter; after a check that filled the cache, every check within the lifetime gives
  the same verdict whatever the command would say now; without a cache each check asks it.
\<close>

theorem command_verdict_cached:
  assumes "g_BudgetCmd g \<noteq> []" "g_cmdCache g = Some c"
    and "Check sh src off now g s = (v, g')" "cache_get now c = None" "time_sub later now < cc_ttl c"
  shows "v = runBudgetCmd sh g \<and> Check sh' src' off' later g' s' = (v, g')
     \<and> fst (Check sh src off now (g\<lparr>g_cmdCache := None\<rparr>) s) = runBudgetCmd sh g"
proof -
  have g': "v = runBudgetCmd sh g" "g' = g\<lparr>g_cmdCache := Some (cache_put now v c)\<rparr>"
    using assms(1-4) by (auto simp: Check_def Let_def)
  have "cache_get later (cache_put now v c) = Some v" using assms(5) by (simp add: cache_get_def cache_put_def)
  then show ?thesis using g' assms(1) by (simp add: Check_def runBudgetCmd_def)
qed

lemma command_verdict_cached_witness:
  "\<exists>v g'. Check (\<lambda>_. (False, ''over'')) table_source 0 0
       (WithCmdCache minute \<lparr>g_DailyCap = 0, g_DailyCostCapUSD = 0, g_BudgetCmd = ''check'', g_cmdCache = None\<rparr>) (demo_db []) = (v, g')
     \<and> \<not> fst v \<and> Check (\<lambda>_. (True, [])) table_source 0 second g' (demo_db []) = (v, g')"
proof -
  let ?g = "WithCmdCache minute \<lparr>g_DailyCap = 0, g_DailyCostCapUSD = 0, g_BudgetCmd = ''check'', g_cmdCache = None\<rparr>"
  let ?c = "\<lparr>cc_ttl = minute, cc_allowed = False, cc_reason = WithinBudget, cc_at = zero_time, cc_ok = False\<rparr>"
  obtain v g' where run: "Check (\<lambda>_. (False, ''over'')) table_source 0 0 ?g (demo_db []) = (v, g')"
    by (metis prod.collapse)
  have "v = runBudgetCmd (\<lambda>_. (False, ''over'')) ?g \<and> Check (\<lambda>_. (True, [])) table_source 0 second g' (demo_db []) = (v, g')"
    using command_verdict_cached [where c = ?c, OF _ _ run, where sh' = "\<lambda>_. (True, [])" and src' = table_source
        and off' = 0 and later = second and s' = "demo_db []"]
    by (simp add: WithCmdCache_def cache_get_def time_sub_def)
  with run show ?thesis by (auto simp: runBudgetCmd_def)
qed

end
