(* ===== verification/Tq_Dlqbackoff.thy ===== *)
theory Tq_Dlqbackoff
  imports Tq_Reads "HOL-Library.AList"
begin

text \<open>
  Package \<open>internal/dlqbackoff\<close>: the deadline until which a repository whose work keeps dying is left
  alone, folded from the journal. Go's maps are functions to options (the dead-letter times, which are
  iterated, an association list); a missing project reads as the empty string. Shows that the fold
  computes exactly the latest standing dead letter plus the window, and that the store-backed form
  reads the whole journal.
\<close>

section \<open>The fold\<close>

definition drainPageSize :: int where "drainPageSize = 1000"

type_synonym outcomes = "(task_id \<times> go_time) list \<times> task_id set \<times> string set"

definition scan_outcome :: "(task_id \<Rightarrow> string) \<Rightarrow> fact \<Rightarrow> outcomes \<Rightarrow> outcomes" where
  "scan_outcome proj f acc =
     (case acc of (deadAt, dismissed, everCompleted) \<Rightarrow>
        (case FType f of
           F_Completed \<Rightarrow> (deadAt, dismissed, if proj (TaskID f) \<noteq> [] then insert (proj (TaskID f)) everCompleted else everCompleted)
         | F_DeadLettered \<Rightarrow> (AList.update (TaskID f) (Time f) deadAt, dismissed, everCompleted)
         | F_Cancelled \<Rightarrow> (deadAt, insert (TaskID f) dismissed, everCompleted)
         | _ \<Rightarrow> (deadAt, dismissed, everCompleted)))"

definition scanOutcomes :: "fact list \<Rightarrow> (task_id \<Rightarrow> string) \<Rightarrow> outcomes" where
  "scanOutcomes facts proj = fold (scan_outcome proj) facts ([], {}, {})"

definition keep_latest :: "task_id set \<Rightarrow> (task_id \<Rightarrow> string) \<Rightarrow> task_id \<times> go_time
    \<Rightarrow> (string \<Rightarrow> go_time option) \<Rightarrow> string \<Rightarrow> go_time option" where
  "keep_latest dismissed proj d m =
     (if fst d \<in> dismissed then m
      else if proj (fst d) = [] then m
      else case m (proj (fst d)) of
        None \<Rightarrow> m(proj (fst d) \<mapsto> snd d)
      | Some best \<Rightarrow> if best < snd d then m(proj (fst d) \<mapsto> snd d) else m)"

definition latestStandingDead :: "(task_id \<times> go_time) list \<Rightarrow> task_id set \<Rightarrow> (task_id \<Rightarrow> string)
    \<Rightarrow> string \<Rightarrow> go_time option" where
  "latestStandingDead deadAt dismissed proj = fold (keep_latest dismissed proj) deadAt Map.empty"

definition stillActive :: "(string \<Rightarrow> go_time option) \<Rightarrow> string set \<Rightarrow> go_time \<Rightarrow> duration \<Rightarrow> string \<Rightarrow> go_time option" where
  "stillActive lastLiveDead everCompleted now window repo =
     (case lastLiveDead repo of
        None \<Rightarrow> None
      | Some lastDead \<Rightarrow>
          if repo \<in> everCompleted then None
          else if now < lastDead + window then Some (lastDead + window) else None)"

definition Deadlines :: "fact list \<Rightarrow> (task_id \<Rightarrow> string) \<Rightarrow> go_time \<Rightarrow> duration \<Rightarrow> string \<Rightarrow> go_time option" where
  "Deadlines facts proj now window =
     (if window \<le> 0 then Map.empty
      else case scanOutcomes facts proj of (deadAt, dismissed, everCompleted) \<Rightarrow>
        stillActive (latestStandingDead deadAt dismissed proj) everCompleted now window)"

section \<open>The store-backed form\<close>

datatype dl_err = ReadFactsErr int qerr | ListTasksErr qerr

text \<open>The drain loop, one unit of fuel per page.\<close>

fun drain :: "nat \<Rightarrow> (int \<Rightarrow> int \<Rightarrow> qerr + fact list) \<Rightarrow> int \<Rightarrow> (dl_err + fact list) option" where
  "drain 0 read after = None"
| "drain (Suc n) read after =
     (case read after drainPageSize of
        Inl e \<Rightarrow> Some (Inl (ReadFactsErr after e))
      | Inr batch \<Rightarrow>
          if int (length batch) < drainPageSize then Some (Inr batch)
          else (case drain n read (Seq (last batch)) of
                  None \<Rightarrow> None
                | Some (Inl e) \<Rightarrow> Some (Inl e)
                | Some (Inr rest) \<Rightarrow> Some (Inr (batch @ rest))))"

definition project_map :: "task list \<Rightarrow> task_id \<Rightarrow> string" where
  "project_map ts i =
     (case find (\<lambda>t. ID t = i \<and> Project t \<noteq> []) (rev ts) of None \<Rightarrow> [] | Some t \<Rightarrow> Project t)"

definition DeadlinesForStore :: "nat \<Rightarrow> (int \<Rightarrow> int \<Rightarrow> qerr + fact list) \<Rightarrow> (task_filter \<Rightarrow> qerr + task list)
    \<Rightarrow> go_time \<Rightarrow> duration \<Rightarrow> (dl_err + (string \<Rightarrow> go_time option)) option" where
  "DeadlinesForStore fuel read lst now window =
     (if window \<le> 0 then Some (Inr Map.empty)
      else case drain fuel read 0 of
        None \<Rightarrow> None
      | Some (Inl e) \<Rightarrow> Some (Inl e)
      | Some (Inr facts) \<Rightarrow>
          (case lst no_filter of
             Inl e \<Rightarrow> Some (Inl (ListTasksErr e))
           | Inr ts \<Rightarrow> Some (Inr (Deadlines facts (project_map ts) now window))))"

section \<open>What the fold computes\<close>

text \<open>The time of a task's last dead letter, if it stands: no cancellation of the task is recorded.\<close>

definition last_dead :: "fact list \<Rightarrow> task_id \<Rightarrow> go_time option" where
  "last_dead facts i =
     (let fs = filter (\<lambda>f. FType f = F_DeadLettered \<and> TaskID f = i) facts in
      if fs = [] then None else Some (Time (last fs)))"

definition standing :: "fact list \<Rightarrow> (task_id \<Rightarrow> string) \<Rightarrow> string \<Rightarrow> go_time set" where
  "standing facts proj repo = {t. \<exists>i. last_dead facts i = Some t \<and> proj i = repo
     \<and> (\<forall>f\<in>set facts. \<not> (FType f = F_Cancelled \<and> TaskID f = i))}"

lemma last_dead_snoc:
  "last_dead (fs @ [f]) i = (if FType f = F_DeadLettered \<and> TaskID f = i then Some (Time f) else last_dead fs i)"
  by (simp add: last_dead_def Let_def)

lemma scanOutcomes_snoc: "scanOutcomes (fs @ [f]) proj = scan_outcome proj f (scanOutcomes fs proj)"
  by (simp add: scanOutcomes_def)

lemma scanOutcomes_spec:
  assumes "scanOutcomes facts proj = (deadAt, dismissed, healed)"
  shows "map_of deadAt = last_dead facts \<and> distinct (map fst deadAt)
     \<and> dismissed = {TaskID f | f. f \<in> set facts \<and> FType f = F_Cancelled}
     \<and> healed = {proj (TaskID f) | f. f \<in> set facts \<and> FType f = F_Completed \<and> proj (TaskID f) \<noteq> []}"
  using assms
proof (induction facts arbitrary: deadAt dismissed healed rule: rev_induct)
  case Nil
  then show ?case by (auto simp: scanOutcomes_def last_dead_def)
next
  case (snoc f facts)
  obtain a b c where prev: "scanOutcomes facts proj = (a, b, c)" by (cases "scanOutcomes facts proj")
  note IH = snoc.IH [OF prev]
  have eq: "(deadAt, dismissed, healed) = scan_outcome proj f (a, b, c)"
    using snoc.prems prev by (simp add: scanOutcomes_snoc)
  have 1: "map_of deadAt = last_dead (facts @ [f])"
    using eq IH by (auto simp: fun_eq_iff last_dead_snoc scan_outcome_def update_conv' split: fact_type.splits)
  have 2: "distinct (map fst deadAt)"
    using eq IH by (auto simp: scan_outcome_def distinct_update split: fact_type.splits)
  have 3: "dismissed = {TaskID g | g. g \<in> set (facts @ [f]) \<and> FType g = F_Cancelled}"
    using eq IH by (cases "FType f") (auto simp: scan_outcome_def)
  have 4: "healed = {proj (TaskID g) | g. g \<in> set (facts @ [f]) \<and> FType g = F_Completed \<and> proj (TaskID g) \<noteq> []}"
    using eq IH by (cases "FType f") (auto simp: scan_outcome_def)
  from 1 2 3 4 show ?case by blast
qed

text \<open>The reduction keeps the maximum per repository.\<close>

definition dead_times :: "(task_id \<times> go_time) list \<Rightarrow> task_id set \<Rightarrow> (task_id \<Rightarrow> string) \<Rightarrow> string \<Rightarrow> go_time set" where
  "dead_times deadAt dismissed proj repo = {t. \<exists>i. (i, t) \<in> set deadAt \<and> i \<notin> dismissed \<and> proj i = repo \<and> repo \<noteq> []}"

lemma finite_dead_times: "finite (dead_times ds dismissed proj repo)"
  by (rule finite_subset [of _ "snd ` set ds"]) (force simp: dead_times_def)+

lemma latestStandingDead_spec:
  "latestStandingDead deadAt dismissed proj repo =
     (if dead_times deadAt dismissed proj repo = {} then None else Some (Max (dead_times deadAt dismissed proj repo)))"
proof (induction deadAt rule: rev_induct)
  case (snoc d ds)
  obtain i t where d: "d = (i, t)" by (cases d)
  have step: "latestStandingDead (ds @ [d]) dismissed proj = keep_latest dismissed proj d (latestStandingDead ds dismissed proj)"
    by (simp add: latestStandingDead_def)
  show ?case
  proof (cases "i \<notin> dismissed \<and> proj i = repo \<and> repo \<noteq> []")
    case True
    then have "dead_times (ds @ [d]) dismissed proj repo = insert t (dead_times ds dismissed proj repo)"
      using d by (auto simp: dead_times_def)
    moreover have "latestStandingDead (ds @ [d]) dismissed proj repo =
        (case latestStandingDead ds dismissed proj repo of None \<Rightarrow> Some t | Some best \<Rightarrow> Some (max t best))"
      using True d step by (auto simp: keep_latest_def max_def split: option.split)
    ultimately show ?thesis using snoc.IH finite_dead_times [of ds dismissed proj repo] by simp
  next
    case False
    then have "dead_times (ds @ [d]) dismissed proj repo = dead_times ds dismissed proj repo"
      using d by (auto simp: dead_times_def)
    moreover have "latestStandingDead (ds @ [d]) dismissed proj repo = latestStandingDead ds dismissed proj repo"
      using False d step by (auto simp: keep_latest_def split: option.split)
    ultimately show ?thesis using snoc by simp
  qed
qed (simp add: latestStandingDead_def dead_times_def)

lemma standing_finite: "finite (standing facts proj repo)"
proof (rule finite_subset)
  show "standing facts proj repo \<subseteq> Time ` set facts"
  proof
    fix t assume "t \<in> standing facts proj repo"
    then obtain i where "last_dead facts i = Some t" by (auto simp: standing_def)
    then have "filter (\<lambda>f. FType f = F_DeadLettered \<and> TaskID f = i) facts \<noteq> []"
        "t = Time (last (filter (\<lambda>f. FType f = F_DeadLettered \<and> TaskID f = i) facts))"
      by (simp_all add: last_dead_def Let_def split: if_splits)
    then show "t \<in> Time ` set facts" using last_in_set by fastforce
  qed
qed simp

section \<open>Reading the whole journal\<close>

lemma drain_all:
  assumes "seq_sorted J" "\<And>after. read after drainPageSize = Inr (AfterSeq J after drainPageSize)"
    and "length (AfterSeq J after 0) < n"
  shows "drain n read after = Some (Inr (AfterSeq J after 0))"
  using assms(3)
proof (induction n arbitrary: after)
  case (Suc n)
  let ?b = "AfterSeq J after drainPageSize"
  have pos: "0 < drainPageSize" by (simp add: drainPageSize_def)
  show ?case
  proof (cases "int (length ?b) < drainPageSize")
    case True
    then show ?thesis using assms(2) [of after] AfterSeq_short_page [OF pos True] by simp
  next
    case False
    then have ne: "?b \<noteq> []" using pos by auto
    note split = AfterSeq_next_page [OF assms(1) ne]
    have "length (AfterSeq J (Seq (last ?b)) 0) < n"
      using Suc.prems arg_cong [OF split, of length] ne by (simp only: length_append) (simp add: length_greater_0_conv [symmetric] del: length_greater_0_conv)
    then have "drain n read (Seq (last ?b)) = Some (Inr (AfterSeq J (Seq (last ?b)) 0))" by (rule Suc.IH)
    then show ?thesis using assms(2) [of after] False split [symmetric] by simp
  qed
qed simp

section \<open>Properties\<close>

text \<open>
  The backoff deadline is the latest standing dead letter plus the window. A repository has a
  deadline if and only if the window is positive, none of its tasks ever completed, some dead letter of
  one of its tasks stands (is the task's last one and the task was not dismissed), and the latest of
  them plus the window lies strictly in the future; then that instant is the deadline.
\<close>

theorem Deadlines_exact:
  "Deadlines facts proj now window repo = Some until \<longleftrightarrow>
     0 < window \<and> repo \<noteq> [] \<and> \<not> (\<exists>f\<in>set facts. FType f = F_Completed \<and> proj (TaskID f) = repo)
     \<and> standing facts proj repo \<noteq> {} \<and> until = Max (standing facts proj repo) + window \<and> now < until"
proof -
  obtain deadAt dismissed healed where out: "scanOutcomes facts proj = (deadAt, dismissed, healed)"
    by (cases "scanOutcomes facts proj")
  note spec = scanOutcomes_spec [OF out]
  have dead: "(i, t) \<in> set deadAt \<longleftrightarrow> last_dead facts i = Some t" for i t
    using spec by (metis map_of_eq_Some_iff)
  have "dead_times deadAt dismissed proj repo = (if repo = [] then {} else standing facts proj repo)"
    using spec by (auto simp: dead standing_def dead_times_def)
  then have latest: "latestStandingDead deadAt dismissed proj repo =
      (if repo = [] \<or> standing facts proj repo = {} then None else Some (Max (standing facts proj repo)))"
    by (simp add: latestStandingDead_spec)
  have "repo \<in> healed \<longleftrightarrow> repo \<noteq> [] \<and> (\<exists>f\<in>set facts. FType f = F_Completed \<and> proj (TaskID f) = repo)"
    using spec by auto
  then show ?thesis using out latest by (auto simp: Deadlines_def stillActive_def)
qed

text \<open>
  The store-backed form misses nothing. On a store whose journal is in sequence order with positive
  numbers and whose reads follow the cursor contract, the drain returns after at most one page more
  than there are facts and the deadlines are those of the whole journal.
\<close>

theorem DeadlinesForStore_reads_all:
  assumes "facts_ok d" "\<forall>f\<in>set (db_facts d). 0 < Seq f" "length (db_facts d) < fuel"
    and "ListTasks d t0 no_filter = Inr ts" "0 < window"
  shows "DeadlinesForStore fuel (\<lambda>after limit. Inr (AfterSeq (db_facts d) after limit)) (ListTasks d t0) now window
     = Some (Inr (Deadlines (db_facts d) (project_map ts) now window))"
proof -
  have all: "AfterSeq (db_facts d) 0 0 = db_facts d" using assms(2) by (simp add: filter_id_conv)
  have "drain fuel (\<lambda>after limit. Inr (AfterSeq (db_facts d) after limit)) 0 = Some (Inr (db_facts d))"
    using drain_all [of "db_facts d" "\<lambda>after limit. Inr (AfterSeq (db_facts d) after limit)" 0 fuel] assms(1,3) all
    by (simp add: facts_ok_def)
  then show ?thesis using assms(4,5) by (simp add: DeadlinesForStore_def)
qed

lemma DeadlinesForStore_reads_all_witness:
  "\<exists>m. DeadlinesForStore 2 (\<lambda>after limit. Inr (AfterSeq (db_facts ((demo_db [demo_row ''a'' 1 Dead])
         \<lparr>db_facts := [blank_fact\<lparr>Seq := 1, TaskID := ''a'', FType := F_DeadLettered, Time := second\<rparr>], db_next_seq := 2\<rparr>)) after limit))
       (ListTasks ((demo_db [demo_row ''a'' 1 Dead])
         \<lparr>db_facts := [blank_fact\<lparr>Seq := 1, TaskID := ''a'', FType := F_DeadLettered, Time := second\<rparr>], db_next_seq := 2\<rparr>) 0)
       minute hour = Some (Inr m) \<and> m ''demo'' = Some (second + hour)"
proof -
  let ?d = "(demo_db [demo_row ''a'' 1 Dead])
         \<lparr>db_facts := [blank_fact\<lparr>Seq := 1, TaskID := ''a'', FType := F_DeadLettered, Time := second\<rparr>], db_next_seq := 2\<rparr>"
  have "\<exists>ts. ListTasks ?d 0 no_filter = Inr ts \<and> project_map ts ''a'' = ''demo''"
    by (simp add: ListTasks_def selected_def page_def no_filter_def listWhere_def given_def order_by_def
        scanTaskRow_def scan_deps_def demo_defs project_map_def)
  then obtain ts where ts: "ListTasks ?d 0 no_filter = Inr ts" "project_map ts ''a'' = ''demo''" by blast
  have "Deadlines (db_facts ?d) (project_map ts) minute hour ''demo'' = Some (second + hour)"
    using ts(2) by (simp add: Deadlines_def scanOutcomes_def scan_outcome_def latestStandingDead_def keep_latest_def
        stillActive_def blank_fact_def)
  moreover have "DeadlinesForStore 2 (\<lambda>after limit. Inr (AfterSeq (db_facts ?d) after limit)) (ListTasks ?d 0) minute hour
      = Some (Inr (Deadlines (db_facts ?d) (project_map ts) minute hour))"
    by (rule DeadlinesForStore_reads_all [OF _ _ _ ts(1)])
      (simp_all add: facts_ok_def seq_sorted_def blank_fact_def)
  ultimately show ?thesis by blast
qed

end
