(* ===== verification/Tq_Worker.thy ===== *)
theory Tq_Worker
  imports Tq_Adapter
begin

text \<open>
  Package \<open>internal/worker\<close>: the pool's configuration, its delays, the refusal ladder with its circuit
  breaker, and \<open>execute\<close>, which turns the outcome of one claimed run into store writes; with the error
  classes of \<open>internal/executor\<close> it matches on. The store is the record \<open>worker_store\<close>; the run of the
  executor with its heartbeats, the hooks, the clock, the random draws and the retry package
  (go-retry) are arguments. \<open>execute\<close> also returns the writes it attempted, in order, with their success.
\<close>

section \<open>Errors of a run\<close>

text \<open>
  An error is its chain of wrapped errors, outermost first, each with its message. \<open>errors.AsType\<close>
  finds the first of a kind; \<open>errors.Is\<close> asks for a sentinel anywhere in the chain.
\<close>

datatype gate_class = VerifyGateDead | VerifyGateSlow | VerifyGateEnvironmental

datatype exec_node =
    LeaseLostError
  | ContextCanceled
  | PreflightError
  | ErrDirtyTree
  | VerifyGateError gate_class
  | RateLimitError duration string bool bool
  | CrushServerDeathError
  | QuestionPendingError duration bool
  | PermanentError
  | PlainError

type_synonym exec_err = "(exec_node \<times> string) list"

definition err_text :: "exec_err \<Rightarrow> string" where
  "err_text err = (case err of [] \<Rightarrow> [] | (n, m) # _ \<Rightarrow> m)"

definition has_node :: "(exec_node \<Rightarrow> bool) \<Rightarrow> exec_err \<Rightarrow> bool" where
  "has_node p err \<longleftrightarrow> (\<exists>x\<in>set err. p (fst x))"

text \<open>\<open>errors.AsType\<close>: the matching error, as the chain that starts with it.\<close>

fun as_type :: "(exec_node \<Rightarrow> bool) \<Rightarrow> exec_err \<Rightarrow> exec_err option" where
  "as_type p [] = None"
| "as_type p (x # xs) = (if p (fst x) then Some (x # xs) else as_type p xs)"

lemma as_type_None: "as_type p err = None \<longleftrightarrow> \<not> has_node p err"
  by (induction err) (auto simp: has_node_def)

lemma as_type_Some: "as_type p err = Some c \<Longrightarrow> \<exists>x xs. c = x # xs \<and> p (fst x) \<and> suffix c err"
  by (induction err) (auto split: if_splits intro: suffix_ConsI)

fun is_gate :: "exec_node \<Rightarrow> bool" where "is_gate (VerifyGateError _) \<longleftrightarrow> True" | "is_gate _ \<longleftrightarrow> False"
fun is_rate_limit :: "exec_node \<Rightarrow> bool" where "is_rate_limit (RateLimitError _ _ _ _) \<longleftrightarrow> True" | "is_rate_limit _ \<longleftrightarrow> False"
fun is_question :: "exec_node \<Rightarrow> bool" where "is_question (QuestionPendingError _ _) \<longleftrightarrow> True" | "is_question _ \<longleftrightarrow> False"

definition gate_of :: "exec_err \<Rightarrow> gate_class option" where
  "gate_of err = (case as_type is_gate err of Some ((VerifyGateError c, _) # _) \<Rightarrow> Some c | _ \<Rightarrow> None)"

text \<open>\<open>PreflightError.DirtyTree\<close>: the sentinel is in the chain of its cause.\<close>

definition DirtyTree :: "exec_err \<Rightarrow> bool" where
  "DirtyTree pre = has_node (\<lambda>n. n = ErrDirtyTree) (tl pre)"

datatype failure_class = FailureClassTransient | FailureClassPermanent | FailureClassProviderWindow | FailureClassEnvironment

definition class_string :: "failure_class \<Rightarrow> string" where
  "class_string c = (case c of FailureClassTransient \<Rightarrow> ''transient'' | FailureClassPermanent \<Rightarrow> ''permanent''
     | FailureClassProviderWindow \<Rightarrow> ''provider-window'' | FailureClassEnvironment \<Rightarrow> ''environment'')"

definition ClassifyFailure :: "exec_err \<Rightarrow> failure_class" where
  "ClassifyFailure err =
     (if has_node is_rate_limit err then FailureClassProviderWindow
      else if has_node (\<lambda>n. n = PermanentError) err then FailureClassPermanent
      else if has_node (\<lambda>n. n = PreflightError) err then FailureClassEnvironment
      else if has_node is_gate err then FailureClassEnvironment
      else FailureClassTransient)"

section \<open>Configuration and delays\<close>

text \<open>\<open>ExpBackoff\<close>: a power of two beyond 64 bits converts to the smallest integer on the usual platforms.\<close>

definition ExpBackoff :: "int \<Rightarrow> duration" where
  "ExpBackoff attempt0 =
     (let attempt = (if attempt0 < 1 then 1 else attempt0);
          p = (if attempt < 63 then 2 ^ nat attempt else min_int64)
      in min (wrap64 (p * second)) (5 * minute))"

record worker_config =
  w_Owner :: string
  w_Concurrency :: int
  w_PollInterval :: duration
  w_IdlePollMax :: duration
  w_Lease :: duration
  w_Heartbeat :: duration
  w_TaskTimeout :: duration
  w_Backoff :: "(int \<Rightarrow> duration) option"
  w_PreflightBackoff :: duration
  w_EnvRequeueBurn :: int

definition setDefaults :: "go_time \<Rightarrow> worker_config \<Rightarrow> worker_config" where
  "setDefaults now c =
     (let lease = (if w_Lease c \<le> 0 then 2 * minute else w_Lease c) in
      \<lparr>w_Owner = (if w_Owner c = [] then ''worker-'' @ show_int (unix_milli now mod 100000) else w_Owner c),
       w_Concurrency = (if w_Concurrency c \<le> 0 then 2 else w_Concurrency c),
       w_PollInterval = (if w_PollInterval c \<le> 0 then 250 * millisecond else w_PollInterval c),
       w_IdlePollMax = (if w_IdlePollMax c = 0 then 2 * second else w_IdlePollMax c),
       w_Lease = lease,
       w_Heartbeat = (if w_Heartbeat c \<le> 0 then quot lease 4 else w_Heartbeat c),
       w_TaskTimeout = (if w_TaskTimeout c \<le> 0 then 10 * minute else w_TaskTimeout c),
       w_Backoff = (case w_Backoff c of None \<Rightarrow> Some ExpBackoff | Some f \<Rightarrow> Some f),
       w_PreflightBackoff = (if w_PreflightBackoff c \<le> 0 then 2 * minute else w_PreflightBackoff c),
       w_EnvRequeueBurn = (if w_EnvRequeueBurn c = 0 then 3 else w_EnvRequeueBurn c)\<rparr>)"

definition idleGap :: "worker_config \<Rightarrow> int \<Rightarrow> duration" where
  "idleGap c idle =
     (if w_IdlePollMax c < 0 \<or> idle \<le> 0 then w_PollInterval c
      else let gap0 = wrap64 (w_PollInterval c * 2 ^ nat (min idle 8));
               gap = (if gap0 \<le> 0 then w_IdlePollMax c else gap0)
           in min (max gap (w_PollInterval c)) (max (w_IdlePollMax c) (w_PollInterval c)))"

text \<open>\<open>rateLimitDelay\<close>; \<open>draw n\<close> is the random integer below \<open>n\<close>.\<close>

definition rateLimitDelay :: "(int \<Rightarrow> int) \<Rightarrow> duration \<Rightarrow> duration" where
  "rateLimitDelay draw d = (let spread = min (quot d 20) minute in d - spread + draw (2 * spread + 1))"

section \<open>The refusal ladder\<close>

record preflight_state =
  pf_count :: int
  pf_lastLog :: go_time

record pool =
  pl_preflightSeen :: "task_id \<Rightarrow> preflight_state option"
  pl_inFlight :: "task_id set"

definition preflightMaxBackoff :: duration where "preflightMaxBackoff = 15 * minute"
definition preflightLogInterval :: duration where "preflightLogInterval = minute"
definition EnvStreakCode :: string where "EnvStreakCode = ''env-streak''"

definition preflightStateFor :: "task_id \<Rightarrow> go_time \<Rightarrow> pool \<Rightarrow> (preflight_state \<times> bool) \<times> pool" where
  "preflightStateFor i lastLog p =
     (case pl_preflightSeen p i of
        Some st \<Rightarrow> ((st, False), p)
      | None \<Rightarrow> let st = \<lparr>pf_count = 0, pf_lastLog = lastLog\<rparr> in
          ((st, True), p\<lparr>pl_preflightSeen := (pl_preflightSeen p)(i \<mapsto> st)\<rparr>))"

text \<open>\<open>u\<close> is the random fraction in \<open>[0, 1)\<close>; the product is cut to whole nanoseconds.\<close>

definition preflightDelay :: "worker_config \<Rightarrow> rat \<Rightarrow> task_id \<Rightarrow> pool \<Rightarrow> (duration \<times> int) \<times> pool" where
  "preflightDelay c u i p =
     (case preflightStateFor i zero_time p of
        ((st, _), p1) \<Rightarrow>
          let count = pf_count st + 1;
              d0 = wrap64 (w_PreflightBackoff c * 2 ^ nat (min (count - 1) 8));
              d = (if d0 \<le> 0 \<or> d0 > preflightMaxBackoff then preflightMaxBackoff else d0)
          in ((\<lfloor>of_int d * (4 / 5 + 2 / 5 * u)\<rfloor>, count),
              p1\<lparr>pl_preflightSeen := (pl_preflightSeen p1)(i \<mapsto> st\<lparr>pf_count := count\<rparr>)\<rparr>))"

definition preflightShouldLog :: "go_time \<Rightarrow> task_id \<Rightarrow> pool \<Rightarrow> bool \<times> pool" where
  "preflightShouldLog now i p =
     (case preflightStateFor i now p of
        ((st, created), p1) \<Rightarrow>
          if created then (True, p1)
          else if time_sub now (pf_lastLog st) \<ge> preflightLogInterval
          then (True, p1\<lparr>pl_preflightSeen := (pl_preflightSeen p1)(i \<mapsto> st\<lparr>pf_lastLog := now\<rparr>)\<rparr>)
          else (False, p1))"

definition preflightReset :: "task_id \<Rightarrow> pool \<Rightarrow> pool" where
  "preflightReset i p = p\<lparr>pl_preflightSeen := (pl_preflightSeen p)(i := None)\<rparr>"

definition staysOnLadder :: "exec_err \<Rightarrow> bool" where
  "staysOnLadder err =
     (if has_node (\<lambda>n. n = PreflightError) err then True
      else case gate_of err of
        Some c \<Rightarrow> c \<noteq> VerifyGateEnvironmental
      | None \<Rightarrow> has_node (\<lambda>n. n = CrushServerDeathError) err \<or> has_node is_rate_limit err \<or> has_node is_question err)"

section \<open>Store writes\<close>

record 's worker_store =
  ws_Complete :: "task_id \<Rightarrow> string \<Rightarrow> jtext \<Rightarrow> 's \<Rightarrow> (qerr + unit) \<times> 's"
  ws_Fail :: "task_id \<Rightarrow> string \<Rightarrow> string \<Rightarrow> duration \<Rightarrow> jtext \<Rightarrow> 's \<Rightarrow> (qerr + unit) \<times> 's"
  ws_FailPermanent :: "task_id \<Rightarrow> string \<Rightarrow> string \<Rightarrow> jtext \<Rightarrow> 's \<Rightarrow> (qerr + unit) \<times> 's"
  ws_Requeue :: "task_id \<Rightarrow> string \<Rightarrow> string \<Rightarrow> duration \<Rightarrow> bool \<Rightarrow> string \<Rightarrow> string \<Rightarrow> 's \<Rightarrow> (qerr + unit) \<times> 's"
  ws_CancelOwned :: "task_id \<Rightarrow> string \<Rightarrow> 's \<Rightarrow> (qerr + unit) \<times> 's"
  ws_CancelRequested :: "task_id \<Rightarrow> 's \<Rightarrow> qerr + bool"

datatype outcome_write =
    WComplete jtext
  | WFail string duration jtext
  | WFailPermanent string jtext
  | WRequeue string duration bool string string
  | WCancelOwned

definition run_write :: "'s worker_store \<Rightarrow> task_id \<Rightarrow> string \<Rightarrow> outcome_write \<Rightarrow> 's \<Rightarrow> (qerr + unit) \<times> 's" where
  "run_write ops i claim w =
     (case w of
        WComplete detail \<Rightarrow> ws_Complete ops i claim detail
      | WFail errText backoff evidence \<Rightarrow> ws_Fail ops i claim errText backoff evidence
      | WFailPermanent errText evidence \<Rightarrow> ws_FailPermanent ops i claim errText evidence
      | WRequeue errText delay resume cls provider \<Rightarrow> ws_Requeue ops i claim errText delay resume cls provider
      | WCancelOwned \<Rightarrow> ws_CancelOwned ops i claim)"

definition isTransientStoreBusy :: "qerr \<Rightarrow> bool" where
  "isTransientStoreBusy e \<longleftrightarrow>
     (case e of StoreErr m \<Rightarrow> str_contains m ''SQLITE_BUSY'' \<or> str_contains m ''database is locked'' | _ \<Rightarrow> False)"

text \<open>\<open>stampedFailureEvidence\<close>: the evidence object with its class set; anything else becomes a class-only document.\<close>

definition stampedFailureEvidence :: "jtext \<Rightarrow> exec_err \<Rightarrow> jtext" where
  "stampedFailureEvidence evidence err =
     (let fields = (if jt_text evidence = [] then [] else case jt_parse evidence of Some (JObj kvs) \<Rightarrow> kvs | _ \<Rightarrow> []) in
      marshal (JObj (obj_set ''class'' (JStr (class_string (ClassifyFailure err))) fields)))"

text \<open>The completion detail of a task that was found done: an otherwise zero \<open>AgentResult\<close>.\<close>

definition done_detail :: "string \<Rightarrow> jtext" where
  "done_detail reason = marshal (JObj ([(''session_cost_usd'', jint 0), (''session_prompt_tokens'', jint 0),
     (''session_completion_tokens'', jint 0), (''session_message_count'', jint 0)] @ omit_empty ''preflight_done'' reason))"

section \<open>Settling one run\<close>

text \<open>
  What one \<open>execute\<close> works with: the store, the retry package around a write (it gets the predicate of
  retryable errors), the configuration, the random draws, the clock, and the done and budget hooks, which
  look at the world they are called in.
\<close>

record 's env =
  ev_store :: "'s worker_store"
  ev_retry :: "(qerr \<Rightarrow> bool) \<Rightarrow> ('s \<Rightarrow> (qerr + unit) \<times> 's) \<Rightarrow> 's \<Rightarrow> (qerr + unit) \<times> 's"
  ev_cfg :: worker_config
  ev_draw :: "int \<Rightarrow> int"
  ev_frac :: rat
  ev_now :: go_time
  ev_done :: "(task \<Rightarrow> 's \<Rightarrow> bool \<times> string) option"
  ev_budget :: "('s \<Rightarrow> bool \<times> string \<times> duration) option"
  ev_ctxDead :: bool

definition persistOutcome :: "'s env \<Rightarrow> task_id \<Rightarrow> string \<Rightarrow> outcome_write \<Rightarrow> 's \<Rightarrow> (qerr + unit) \<times> 's" where
  "persistOutcome ev i claim w = ev_retry ev isTransientStoreBusy (run_write (ev_store ev) i claim w)"

type_synonym 's settled = "(outcome_write \<times> bool) list \<times> pool \<times> 's"

definition write1 :: "'s env \<Rightarrow> task_id \<Rightarrow> string \<Rightarrow> outcome_write \<Rightarrow> pool \<Rightarrow> 's \<Rightarrow> 's settled" where
  "write1 ev i claim w p s = (case persistOutcome ev i claim w s of (r, s') \<Rightarrow> ([(w, \<not> isl r)], p, s'))"

text \<open>A requeue whose success is logged through the ladder's log clock.\<close>

definition write_logged :: "'s env \<Rightarrow> task_id \<Rightarrow> string \<Rightarrow> outcome_write \<Rightarrow> pool \<Rightarrow> 's \<Rightarrow> 's settled" where
  "write_logged ev i claim w p s =
     (case persistOutcome ev i claim w s of
        (Inl _, s') \<Rightarrow> ([(w, False)], p, s')
      | (Inr _, s') \<Rightarrow> ([(w, True)], snd (preflightShouldLog (ev_now ev) i p), s'))"

definition backoff_of :: "worker_config \<Rightarrow> int \<Rightarrow> duration" where
  "backoff_of c = (case w_Backoff c of None \<Rightarrow> ExpBackoff | Some f \<Rightarrow> f)"

definition burn_reason :: "int \<Rightarrow> exec_err \<Rightarrow> string" where
  "burn_reason streak cause = ''environmental requeue streak burned the attempt ['' @ EnvStreakCode @ '']: streak ''
     @ show_int streak @ '': '' @ err_text cause"

text \<open>\<open>burnEnvStreak\<close>: \<open>None\<close> when the requeue stands; the trace has the failed burn in that case.\<close>

definition burnEnvStreak :: "'s env \<Rightarrow> task \<Rightarrow> string \<Rightarrow> int \<Rightarrow> exec_err \<Rightarrow> jtext \<Rightarrow> pool \<Rightarrow> 's
    \<Rightarrow> bool \<times> 's settled" where
  "burnEnvStreak ev t claim streak cause failure p s =
     (if w_EnvRequeueBurn (ev_cfg ev) \<le> 0 \<or> streak < w_EnvRequeueBurn (ev_cfg ev) then (False, [], p, s)
      else let w = WFail (burn_reason streak cause) (backoff_of (ev_cfg ev) (Attempts t + 1))
                     (stampedFailureEvidence failure cause) in
        (case persistOutcome ev (ID t) claim w s of
           (Inl _, s') \<Rightarrow> (False, [(w, False)], p, s')
         | (Inr _, s') \<Rightarrow> (True, [(w, True)], preflightReset (ID t) p, s')))"

text \<open>A refusal on the ladder: advance it, burn when it has matured, requeue otherwise.\<close>

definition refuse :: "'s env \<Rightarrow> task \<Rightarrow> string \<Rightarrow> bool \<Rightarrow> string \<Rightarrow> exec_err \<Rightarrow> jtext \<Rightarrow> pool \<Rightarrow> 's \<Rightarrow> 's settled" where
  "refuse ev t claim burnable cls cause failure p s =
     (case preflightDelay (ev_cfg ev) (ev_frac ev) (ID t) p of
        ((delay, streak), p1) \<Rightarrow>
          (case (if burnable then burnEnvStreak ev t claim streak cause failure p1 s else (False, [], p1, s)) of
             (True, out) \<Rightarrow> out
           | (False, trace, p2, s2) \<Rightarrow>
               (case write_logged ev (ID t) claim (WRequeue (err_text cause) delay False cls []) p2 s2 of
                  (trace', p3, s3) \<Rightarrow> (trace @ trace', p3, s3))))"

definition completeAsPreflightDone :: "'s env \<Rightarrow> task \<Rightarrow> string \<Rightarrow> string \<Rightarrow> pool \<Rightarrow> 's \<Rightarrow> 's settled" where
  "completeAsPreflightDone ev t claim reason = write1 ev (ID t) claim (WComplete (done_detail reason))"

text \<open>The verify-gate arm.\<close>

definition settle_gate :: "'s env \<Rightarrow> task \<Rightarrow> string \<Rightarrow> gate_class \<Rightarrow> exec_err \<Rightarrow> exec_err \<Rightarrow> jtext \<Rightarrow> pool \<Rightarrow> 's \<Rightarrow> 's settled" where
  "settle_gate ev t claim c gate err failure p s =
     (if c = VerifyGateEnvironmental then
        write1 ev (ID t) claim (WFailPermanent (err_text gate) (stampedFailureEvidence failure err)) p s
      else case ev_done ev of
        Some hook \<Rightarrow> (case hook t s of
            (True, reason) \<Rightarrow> completeAsPreflightDone ev t claim reason p s
          | (False, _) \<Rightarrow> refuse ev t claim True RequeueClassGate gate failure p s)
      | None \<Rightarrow> refuse ev t claim True RequeueClassGate gate failure p s)"

text \<open>The arms after the cancellation check, in the order of the code.\<close>

definition settle_failure :: "'s env \<Rightarrow> task \<Rightarrow> string \<Rightarrow> exec_err \<Rightarrow> jtext \<Rightarrow> pool \<Rightarrow> 's \<Rightarrow> 's settled" where
  "settle_failure ev t claim err failure p s =
     (case as_type (\<lambda>n. n = PreflightError) err of
        Some pre \<Rightarrow> refuse ev t claim (\<not> DirtyTree pre) RequeueClassPreflight pre failure p s
      | None \<Rightarrow>
     (case as_type is_gate err of
        Some ((VerifyGateError c, m) # rest) \<Rightarrow> settle_gate ev t claim c ((VerifyGateError c, m) # rest) err failure p s
      | _ \<Rightarrow>
     (case as_type is_rate_limit err of
        Some ((RateLimitError retryAfter provider resume fast, m) # _) \<Rightarrow>
          write1 ev (ID t) claim (WRequeue m (rateLimitDelay (ev_draw ev) retryAfter) resume
            (if fast then RequeueClassRateLimitGate else RequeueClassRateLimit) provider) p s
      | _ \<Rightarrow>
     (case as_type (\<lambda>n. n = CrushServerDeathError) err of
        Some death \<Rightarrow> refuse ev t claim False RequeueClassCrushServer death failure p s
      | None \<Rightarrow>
     (case as_type is_question err of
        Some ((QuestionPendingError retryAfter resume, m) # _) \<Rightarrow>
          write1 ev (ID t) claim (WRequeue m retryAfter resume RequeueClassQuestion []) p s
      | _ \<Rightarrow>
     (case as_type (\<lambda>n. n = PermanentError) err of
        Some perm \<Rightarrow> write1 ev (ID t) claim (WFailPermanent (err_text perm) (stampedFailureEvidence failure err)) p s
      | None \<Rightarrow>
          if has_node (\<lambda>n. n = ContextCanceled) err \<and> ev_ctxDead ev then
            write1 ev (ID t) claim (WFail (''worker shutdown: '' @ err_text err) 0 (stampedFailureEvidence failure err)) p s
          else
            write1 ev (ID t) claim (WFail (err_text err) (backoff_of (ev_cfg ev) (Attempts t + 1))
              (stampedFailureEvidence failure err)) p s))))))"

record run_result =
  rr_err :: "exec_err option"
  rr_detail :: jtext
  rr_failure :: jtext

definition settle :: "'s env \<Rightarrow> task \<Rightarrow> string \<Rightarrow> run_result \<Rightarrow> pool \<Rightarrow> 's \<Rightarrow> 's settled" where
  "settle ev t claim res p0 s =
     (let p = (case rr_err res of None \<Rightarrow> preflightReset (ID t) p0
               | Some err \<Rightarrow> if staysOnLadder err then p0 else preflightReset (ID t) p0) in
      case rr_err res of
        None \<Rightarrow> write1 ev (ID t) claim (WComplete (rr_detail res)) p s
      | Some err \<Rightarrow>
          if has_node (\<lambda>n. n = LeaseLostError) err then ([], p, s)
          else if has_node (\<lambda>n. n = ContextCanceled) err \<and> ws_CancelRequested (ev_store ev) (ID t) s = Inr True
          then write1 ev (ID t) claim WCancelOwned p s
          else settle_failure ev t claim err (rr_failure res) p s)"

section \<open>Execute\<close>

text \<open>
  How the goroutine of one run ends, as the select sees it: the executor returned, it panicked, the
  parent context ended with its error, or the task timeout passed.
\<close>

datatype exec_ending = Returned "exec_err option" | Panicked string | ParentEnded exec_err | DeadlinePassed

text \<open>An executor's run: its ending, the detail and failure evidence it left in the sink, and its effect.\<close>

type_synonym 's exec_run = "task \<Rightarrow> 's \<Rightarrow> (exec_ending \<times> jtext \<times> jtext) \<times> 's"

definition ErrUnknownType :: string where "ErrUnknownType = ''executor: unknown task type''"

definition Lookup :: "(string \<Rightarrow> 's exec_run option) \<Rightarrow> string \<Rightarrow> exec_err + 's exec_run" where
  "Lookup execs taskType =
     (case execs taskType of
        Some e \<Rightarrow> Inr e
      | None \<Rightarrow> Inl [(PlainError, ErrUnknownType @ '': '' @ go_quote taskType), (PlainError, ErrUnknownType)])"

definition Permanent :: "exec_err \<Rightarrow> exec_err" where
  "Permanent err = (PermanentError, ''permanent: '' @ err_text err) # err"

definition runExecutor :: "worker_config \<Rightarrow> (string \<Rightarrow> 's exec_run option) \<Rightarrow> task \<Rightarrow> 's \<Rightarrow> run_result \<times> 's" where
  "runExecutor c execs t s =
     (case Lookup execs (Type t) of
        Inl err \<Rightarrow>
          (\<lparr>rr_err = Some (Permanent ((PlainError, ''no executor for type '' @ go_quote (Type t) @ '': '' @ err_text err) # err)),
            rr_detail = empty_text, rr_failure = empty_text\<rparr>, s)
      | Inr run \<Rightarrow>
          (case run t s of ((ending, detail, failure), s') \<Rightarrow>
             (\<lparr>rr_err = (case ending of
                 Returned r \<Rightarrow> r
               | Panicked m \<Rightarrow> Some [(PlainError, ''executor panicked: '' @ m)]
               | ParentEnded e \<Rightarrow> Some e
               | DeadlinePassed \<Rightarrow> Some [(PlainError, ''task timeout after '' @ dur_string (w_TaskTimeout c))]),
               rr_detail = detail, rr_failure = failure\<rparr>, s')))"

definition execute :: "'s env \<Rightarrow> (string \<Rightarrow> 's exec_run option) \<Rightarrow> task \<Rightarrow> string \<Rightarrow> pool \<Rightarrow> 's \<Rightarrow> 's settled" where
  "execute ev registry t claim p0 s =
     (let p = p0\<lparr>pl_inFlight := insert (ID t) (pl_inFlight p0)\<rparr>;
          leave = (\<lambda>(trace, p', s'). (trace, p'\<lparr>pl_inFlight := pl_inFlight p' - {ID t}\<rparr>, s')) in
      leave
        (case (case ev_budget ev of Some hook \<Rightarrow> hook s | None \<Rightarrow> (False, [], 0)) of
           (True, reason, retryIn) \<Rightarrow>
             write1 ev (ID t) claim (WRequeue (''budget gate: '' @ reason)
               (if retryIn > 0 then rateLimitDelay (ev_draw ev) retryIn else retryIn) False RequeueClassBudget []) p s
         | (False, _, _) \<Rightarrow>
             (case (case ev_done ev of Some hook \<Rightarrow> hook t s | None \<Rightarrow> (False, [])) of
                (True, reason) \<Rightarrow> completeAsPreflightDone ev t claim reason p s
              | (False, _) \<Rightarrow>
                  (case runExecutor (ev_cfg ev) registry t s of (res, s1) \<Rightarrow> settle ev t claim res p s1))))"

section \<open>The idle loop\<close>

datatype idle_event = CtxDone | PoolStopped | Woken | Ticked

definition idleWait :: "idle_event \<Rightarrow> int \<Rightarrow> int \<times> bool" where
  "idleWait e idle = (case e of CtxDone \<Rightarrow> (idle, False) | PoolStopped \<Rightarrow> (idle, False) | Woken \<Rightarrow> (0, True) | Ticked \<Rightarrow> (idle, True))"

text \<open>The idle streak after a failed claim, before the wait.\<close>

definition idle_after :: "qerr \<Rightarrow> int \<Rightarrow> int" where
  "idle_after e idle = (if e = ErrNoTaskDue then idle + 1 else 0)"

text \<open>
  One round of \<open>loop\<close>: nothing once the pool stops; a claim over the registry's types; then a wait or a
  run. \<open>None\<close> ends the loop, \<open>Some idle\<close> is the streak of the next round. \<open>deadAfter\<close> says whether the
  context has ended when a claim failed.
\<close>

definition loop_round :: "'s env \<Rightarrow> (string \<Rightarrow> 's exec_run option)
    \<Rightarrow> (string \<Rightarrow> duration \<Rightarrow> string list \<Rightarrow> 's \<Rightarrow> (qerr + task \<times> string) \<times> 's) \<Rightarrow> string list
    \<Rightarrow> bool \<Rightarrow> bool \<Rightarrow> idle_event \<Rightarrow> int \<Rightarrow> pool \<Rightarrow> 's \<Rightarrow> int option \<times> pool \<times> 's" where
  "loop_round ev registry claimDue types stopping deadAfter e idle p s =
     (if stopping then (None, p, s)
      else case claimDue (w_Owner (ev_cfg ev)) (w_Lease (ev_cfg ev)) types s of
        (Inl err, s') \<Rightarrow>
          if deadAfter then (None, p, s')
          else (case idleWait e (idle_after err idle) of (next, awake) \<Rightarrow> (if awake then Some next else None, p, s'))
      | (Inr (t, claim), s') \<Rightarrow> (case execute ev registry t claim p s' of (_, p', s'') \<Rightarrow> (Some 0, p', s'')))"

definition InFlight :: "pool \<Rightarrow> nat" where
  "InFlight p = card (pl_inFlight p)"

section \<open>What a settled run has written\<close>

text \<open>A write that burns an attempt or dead-letters the task.\<close>

fun burns :: "outcome_write \<Rightarrow> bool" where
  "burns (WFail _ _ _) \<longleftrightarrow> True"
| "burns (WFailPermanent _ _) \<longleftrightarrow> True"
| "burns _ \<longleftrightarrow> False"

fun is_requeue :: "outcome_write \<Rightarrow> bool" where
  "is_requeue (WRequeue _ _ _ _ _) \<longleftrightarrow> True"
| "is_requeue _ \<longleftrightarrow> False"

text \<open>The traces a run can leave: nothing, one write, or a burn that failed followed by the requeue.\<close>

definition tidy_trace :: "(outcome_write \<times> bool) list \<Rightarrow> bool" where
  "tidy_trace tr \<longleftrightarrow> length tr \<le> 1 \<or> (\<exists>w w' ok. tr = [(w, False), (w', ok)] \<and> burns w \<and> is_requeue w')"

text \<open>The writes of a trace, made one after the other from \<open>s\<close>, had the recorded success and led to \<open>s'\<close>.\<close>

fun replays :: "'s env \<Rightarrow> task_id \<Rightarrow> string \<Rightarrow> (outcome_write \<times> bool) list \<Rightarrow> 's \<Rightarrow> 's \<Rightarrow> bool" where
  "replays ev i claim [] s s' \<longleftrightarrow> s' = s"
| "replays ev i claim ((w, ok) # tr) s s' \<longleftrightarrow>
     (case persistOutcome ev i claim w s of (r, s1) \<Rightarrow> ok = (\<not> isl r) \<and> replays ev i claim tr s1 s')"

lemma tidy_one [simp]: "tidy_trace [x]" "tidy_trace []"
  by (simp_all add: tidy_trace_def)

lemma tidy_two [simp]: "burns w \<Longrightarrow> is_requeue w' \<Longrightarrow> tidy_trace [(w, False), (w', ok)]"
  by (auto simp: tidy_trace_def)

text \<open>What every arm of \<open>execute\<close> keeps: a tidy trace that accounts for the store.\<close>

definition accounts :: "'s env \<Rightarrow> task_id \<Rightarrow> string \<Rightarrow> 's \<Rightarrow> 's settled \<Rightarrow> bool" where
  "accounts ev i claim s out \<longleftrightarrow> (case out of (tr, p, s') \<Rightarrow> tidy_trace tr \<and> replays ev i claim tr s s')"

lemma accounts_write1 [simp]: "accounts ev i claim s (write1 ev i claim w p s)"
  by (simp add: accounts_def write1_def split: prod.splits)

lemma accounts_none [simp]: "accounts ev i claim s ([], p, s)"
  by (simp add: accounts_def)

lemma burnEnvStreak_cases:
  obtains (stands) "burnEnvStreak ev t claim streak cause failure p s = (False, [], p, s)"
    | (failed) w e s' where "burns w" "persistOutcome ev (ID t) claim w s = (Inl e, s')"
        "burnEnvStreak ev t claim streak cause failure p s = (False, [(w, False)], p, s')"
    | (burned) w s' where "burns w" "persistOutcome ev (ID t) claim w s = (Inr (), s')"
        "burnEnvStreak ev t claim streak cause failure p s = (True, [(w, True)], preflightReset (ID t) p, s')"
proof (cases "w_EnvRequeueBurn (ev_cfg ev) \<le> 0 \<or> streak < w_EnvRequeueBurn (ev_cfg ev)")
  case True
  then show ?thesis using stands by (simp add: burnEnvStreak_def)
next
  case False
  let ?w = "WFail (burn_reason streak cause) (backoff_of (ev_cfg ev) (Attempts t + 1)) (stampedFailureEvidence failure cause)"
  obtain r s' where run: "persistOutcome ev (ID t) claim ?w s = (r, s')" by fastforce
  show ?thesis
    using False run failed [of ?w _ s'] burned [of ?w s'] by (cases r) (simp_all add: burnEnvStreak_def Let_def)
qed

lemma write_logged_trace:
  obtains r s' p' where "persistOutcome ev i claim w s = (r, s')"
    "write_logged ev i claim w p s = ([(w, \<not> isl r)], p', s')"
proof -
  obtain r s' where run: "persistOutcome ev i claim w s = (r, s')" by fastforce
  then show ?thesis using that [OF run] by (cases r) (simp_all add: write_logged_def)
qed

lemma accounts_refuse [simp]: "accounts ev (ID t) claim s (refuse ev t claim burnable cls cause failure p s)"
proof -
  obtain delay streak p1 where pd: "preflightDelay (ev_cfg ev) (ev_frac ev) (ID t) p = ((delay, streak), p1)"
    by (metis surj_pair)
  let ?w = "WRequeue (err_text cause) delay False cls []"
  obtain r s1 p2 where plain: "persistOutcome ev (ID t) claim ?w s = (r, s1)"
    "write_logged ev (ID t) claim ?w p1 s = ([(?w, \<not> isl r)], p2, s1)"
    by (rule write_logged_trace)
  show ?thesis
    using burnEnvStreak_cases [of ev t claim streak cause failure p1 s]
  proof cases
    case (failed w e s')
    obtain r' s2 p3 where "persistOutcome ev (ID t) claim ?w s' = (r', s2)"
      "write_logged ev (ID t) claim ?w p1 s' = ([(?w, \<not> isl r')], p3, s2)"
      by (rule write_logged_trace)
    then show ?thesis using failed plain pd by (auto simp: refuse_def accounts_def)
  qed (use plain pd in \<open>auto simp: refuse_def accounts_def\<close>)
qed

lemma accounts_settle_gate [simp]: "accounts ev (ID t) claim s (settle_gate ev t claim c gate err failure p s)"
proof (cases "ev_done ev")
  case (Some hook)
  then show ?thesis
    by (cases "hook t s"; cases "fst (hook t s)") (auto simp: settle_gate_def completeAsPreflightDone_def)
qed (simp add: settle_gate_def)

lemma as_gate: "as_type is_gate err = Some c \<Longrightarrow> \<exists>g m rest. c = (VerifyGateError g, m) # rest"
  using as_type_Some [of is_gate err c] by (auto elim: is_gate.elims)

lemma as_rate_limit: "as_type is_rate_limit err = Some c \<Longrightarrow> \<exists>d pr re fa m rest. c = (RateLimitError d pr re fa, m) # rest"
  using as_type_Some [of is_rate_limit err c] by (auto elim: is_rate_limit.elims)

lemma as_question: "as_type is_question err = Some c \<Longrightarrow> \<exists>d re m rest. c = (QuestionPendingError d re, m) # rest"
  using as_type_Some [of is_question err c] by (auto elim: is_question.elims)

text \<open>The first arm that matches decides; the later ones see an error without the earlier kinds.\<close>

lemma settle_failure_cases:
  obtains (preflight) pre where "as_type (\<lambda>n. n = PreflightError) err = Some pre"
      "settle_failure ev t claim err failure p s = refuse ev t claim (\<not> DirtyTree pre) RequeueClassPreflight pre failure p s"
    | (gate) c m rest where "\<not> has_node (\<lambda>n. n = PreflightError) err" "as_type is_gate err = Some ((VerifyGateError c, m) # rest)"
      "settle_failure ev t claim err failure p s = settle_gate ev t claim c ((VerifyGateError c, m) # rest) err failure p s"
    | (rate_limit) d provider resume fast m rest where
      "\<not> has_node (\<lambda>n. n = PreflightError) err" "\<not> has_node is_gate err"
      "as_type is_rate_limit err = Some ((RateLimitError d provider resume fast, m) # rest)"
      "settle_failure ev t claim err failure p s = write1 ev (ID t) claim (WRequeue m (rateLimitDelay (ev_draw ev) d) resume
         (if fast then RequeueClassRateLimitGate else RequeueClassRateLimit) provider) p s"
    | (death) c where "\<not> has_node (\<lambda>n. n = PreflightError) err" "\<not> has_node is_gate err"
      "as_type (\<lambda>n. n = CrushServerDeathError) err = Some c"
      "settle_failure ev t claim err failure p s = refuse ev t claim False RequeueClassCrushServer c failure p s"
    | (question) d resume m rest where "\<not> has_node (\<lambda>n. n = PreflightError) err" "\<not> has_node is_gate err"
      "as_type is_question err = Some ((QuestionPendingError d resume, m) # rest)"
      "settle_failure ev t claim err failure p s = write1 ev (ID t) claim (WRequeue m d resume RequeueClassQuestion []) p s"
    | (judged) w where "\<not> has_node (\<lambda>n. n = PreflightError) err" "\<not> has_node is_gate err" "\<not> has_node is_rate_limit err"
      "\<not> has_node (\<lambda>n. n = CrushServerDeathError) err" "\<not> has_node is_question err" "burns w"
      "settle_failure ev t claim err failure p s = write1 ev (ID t) claim w p s"
proof (cases "as_type (\<lambda>n. n = PreflightError) err")
  case (Some pre)
  then show ?thesis using preflight by (simp add: settle_failure_def)
next
  case noPre: None
  note no1 = noPre [unfolded as_type_None]
  show ?thesis
  proof (cases "as_type is_gate err")
    case (Some c)
    then show ?thesis using as_gate [OF Some] gate [OF no1] noPre by (auto simp: settle_failure_def)
  next
    case noGate: None
    note no2 = noGate [unfolded as_type_None]
    consider (r) c where "as_type is_rate_limit err = Some c"
      | (d) c where "as_type is_rate_limit err = None" "as_type (\<lambda>n. n = CrushServerDeathError) err = Some c"
      | (q) c where "as_type is_rate_limit err = None" "as_type (\<lambda>n. n = CrushServerDeathError) err = None"
          "as_type is_question err = Some c"
      | (j) "as_type is_rate_limit err = None" "as_type (\<lambda>n. n = CrushServerDeathError) err = None"
          "as_type is_question err = None" by fastforce
    then show ?thesis
    proof cases
      case r
      then show ?thesis using as_rate_limit [OF r] rate_limit [OF no1 no2] noPre noGate by (auto simp: settle_failure_def)
    next
      case d
      then show ?thesis using death [OF no1 no2 d(2)] noPre noGate by (simp add: settle_failure_def)
    next
      case q
      then show ?thesis using as_question [OF q(3)] question [OF no1 no2] noPre noGate by (auto simp: settle_failure_def)
    next
      case j
      note nos = no1 no2 j [unfolded as_type_None]
      have "\<exists>w. burns w \<and> settle_failure ev t claim err failure p s = write1 ev (ID t) claim w p s"
        using noPre noGate j
        by (cases "as_type (\<lambda>n. n = PermanentError) err") (simp add: settle_failure_def, metis burns.simps(1,2))+
      then show ?thesis using judged [OF nos] by blast
    qed
  qed
qed

lemma accounts_settle_failure [simp]: "accounts ev (ID t) claim s (settle_failure ev t claim err failure p s)"
  by (rule settle_failure_cases [of err ev t claim failure p s]) simp_all

lemma accounts_settle [simp]: "accounts ev (ID t) claim s (settle ev t claim res p s)"
  by (simp add: settle_def Let_def split: option.split)

text \<open>The two gates in front of the executor.\<close>

definition gates_pass :: "'s env \<Rightarrow> task \<Rightarrow> 's \<Rightarrow> bool" where
  "gates_pass ev t s \<longleftrightarrow>
     (case ev_budget ev of None \<Rightarrow> True | Some hook \<Rightarrow> \<not> fst (hook s))
     \<and> (case ev_done ev of None \<Rightarrow> True | Some hook \<Rightarrow> \<not> fst (hook t s))"

definition enter :: "task_id \<Rightarrow> pool \<Rightarrow> pool" where
  "enter i p = p\<lparr>pl_inFlight := insert i (pl_inFlight p)\<rparr>"

definition leave :: "task_id \<Rightarrow> 's settled \<Rightarrow> 's settled" where
  "leave i = (\<lambda>(tr, p, s). (tr, p\<lparr>pl_inFlight := pl_inFlight p - {i}\<rparr>, s))"

lemma execute_gated:
  assumes "\<not> gates_pass ev t s"
  obtains w where "\<not> burns w" "execute ev registry t claim p s = leave (ID t) (write1 ev (ID t) claim w (enter (ID t) p) s)"
proof (cases "case ev_budget ev of None \<Rightarrow> True | Some hook \<Rightarrow> \<not> fst (hook s)")
  case True
  then obtain hook where "ev_done ev = Some hook" "fst (hook t s)"
    using assms by (auto simp: gates_pass_def split: option.splits)
  moreover obtain reason retryIn where "(case ev_budget ev of Some hook \<Rightarrow> hook s | None \<Rightarrow> (False, [], 0)) = (False, reason, retryIn)"
    using True by (cases "ev_budget ev") (auto, metis prod.collapse)
  ultimately show ?thesis
    using that [of "WComplete (done_detail (snd (hook t s)))"]
    by (cases "hook t s") (simp add: execute_def Let_def enter_def leave_def completeAsPreflightDone_def)
next
  case False
  then obtain hook where h: "ev_budget ev = Some hook" "fst (hook s)" by (auto split: option.splits)
  obtain reason retryIn where "hook s = (True, reason, retryIn)" using h by (metis prod.collapse)
  then show ?thesis
    using h that [of "WRequeue (''budget gate: '' @ reason)
       (if retryIn > 0 then rateLimitDelay (ev_draw ev) retryIn else retryIn) False RequeueClassBudget []"]
    by (simp add: execute_def Let_def enter_def leave_def)
qed

lemma execute_ran:
  "gates_pass ev t s \<Longrightarrow>
   execute ev registry t claim p s =
     leave (ID t) (settle ev t claim (fst (runExecutor (ev_cfg ev) registry t s)) (enter (ID t) p) (snd (runExecutor (ev_cfg ev) registry t s)))"
  by (cases "ev_done ev"; cases "ev_budget ev")
    (auto simp: gates_pass_def execute_def Let_def enter_def leave_def split: prod.splits)

lemma accounts_leave [simp]: "accounts ev i claim s (leave i out) \<longleftrightarrow> accounts ev i claim s out"
  by (cases out) (simp add: accounts_def leave_def)

lemma settle_lease_lost:
  "rr_err res = Some err \<Longrightarrow> has_node (\<lambda>n. n = LeaseLostError) err \<Longrightarrow> fst (settle ev t claim res p s) = []"
  by (simp add: settle_def Let_def)

section \<open>A store that fences\<close>

text \<open>
  What the worker relies on in a store: a write under a claim that is not held is refused and changes
  nothing. The retry package may repeat such a write; it ends with the refusal.
\<close>

definition retry_keeps :: "'s env \<Rightarrow> bool" where
  "retry_keeps ev \<longleftrightarrow> (\<forall>op s e. op s = (Inl e, s) \<longrightarrow> (\<exists>e'. ev_retry ev isTransientStoreBusy op s = (Inl e', s)))"

locale fenced_store =
  fixes ops :: "'s worker_store" and held :: "task_id \<Rightarrow> string \<Rightarrow> 's \<Rightarrow> bool"
  assumes fenced: "\<not> held i claim s \<Longrightarrow> \<exists>e. run_write ops i claim w s = (Inl e, s)"
begin

lemma write_fenced:
  assumes "ev_store ev = ops" "retry_keeps ev" "\<not> held i claim s"
  shows "\<exists>e. persistOutcome ev i claim w s = (Inl e, s)"
  using fenced [OF assms(3), of w] assms(1,2) by (auto simp: persistOutcome_def retry_keeps_def)

lemma replays_fenced:
  assumes "ev_store ev = ops" "retry_keeps ev" "\<not> held i claim s" "replays ev i claim tr s s'"
  shows "s' = s \<and> (\<forall>(w, ok)\<in>set tr. \<not> ok)"
  using assms(4)
proof (induction tr)
  case (Cons x tr)
  then show ?case using write_fenced [OF assms(1-3), of "fst x"] by (cases x) auto
qed simp

lemma settle_fenced:
  assumes "ev_store ev = ops" "retry_keeps ev" "\<not> held (ID t) claim s" "settle ev t claim res p s = (tr, p', s')"
  shows "s' = s \<and> (\<forall>(w, ok)\<in>set tr. \<not> ok)"
  using replays_fenced [OF assms(1-3), of tr s'] accounts_settle [of ev t claim s res p] assms(4)
  by (simp add: accounts_def)

end

text \<open>The adapter as the worker's store, at one instant.\<close>

definition worker_ops :: "engine_ops \<Rightarrow> go_time \<Rightarrow> sql_store worker_store" where
  "worker_ops e now =
     \<lparr>ws_Complete = (\<lambda>i claim detail. Complete e i claim detail now),
      ws_Fail = (\<lambda>i claim errText backoff evidence. Fail e i claim errText backoff evidence now),
      ws_FailPermanent = (\<lambda>i claim errText evidence. FailPermanent e i claim errText evidence now),
      ws_Requeue = (\<lambda>i claim errText delay resume cls provider. StoreRequeue i claim errText delay resume cls provider now),
      ws_CancelOwned = (\<lambda>i claim. CancelOwned e i claim now),
      ws_CancelRequested = CancelRequested e\<rparr>"

text \<open>A claim is held when a row of the task runs under its token.\<close>

definition claim_held :: "task_id \<Rightarrow> string \<Rightarrow> sql_store \<Rightarrow> bool" where
  "claim_held i claim s \<longleftrightarrow> list_ex (held_by i claim) (db_tasks (s_db s))"

lemma holds_claim_held: "holds_claim (s_db s) i claim \<Longrightarrow> claim_held i claim s"
  by (force simp: holds_claim_def claim_held_def list_ex_iff held_by_def dest: row_of_mem split: option.splits)

lemma Requeue_fenced:
  "\<not> claim_held i claim s \<Longrightarrow>
   Requeue i claim errText delay resume cls provider now (s_db s) = (Inl (leaseErr (s_db s) i), s_db s)"
  by (simp add: claim_held_def Requeue_def WithTx_def list_ex_iff find_None_iff [THEN iffD2])

interpretation adapter: fenced_store "worker_ops e now" claim_held for e :: engine_ops and now :: go_time
proof
  fix i claim w and s :: sql_store
  assume no: "\<not> claim_held i claim s"
  have gate: "TokenFor (s_db s) now i claim live = Inl (leaseErr (s_db s) i)" for live
    using no holds_claim_held [of s i claim] by (auto simp: TokenFor_iff)
  show "\<exists>er. run_write (worker_ops e now) i claim w s = (Inl er, s)"
    using no gate
    by (cases w) (simp_all add: run_write_def worker_ops_def gated_ops with_token_Inl StoreRequeue_def
        companion_call_def then_wake_def Requeue_fenced)
qed

section \<open>The ladder's count\<close>

definition ladder_count :: "pool \<Rightarrow> task_id \<Rightarrow> int" where
  "ladder_count p i = (case pl_preflightSeen p i of None \<Rightarrow> 0 | Some st \<Rightarrow> pf_count st)"

lemma preflightDelay_count:
  "preflightDelay c u i p = ((delay, streak), p1) \<Longrightarrow> streak = ladder_count p i + 1 \<and> ladder_count p1 i = streak"
  by (auto simp: preflightDelay_def preflightStateFor_def ladder_count_def Let_def split: option.splits)

lemma preflightShouldLog_count: "ladder_count (snd (preflightShouldLog now i p)) i = ladder_count p i"
  by (auto simp: preflightShouldLog_def preflightStateFor_def ladder_count_def Let_def split: option.splits)

lemma preflightReset_count [simp]: "ladder_count (preflightReset i p) i = 0"
  by (simp add: ladder_count_def preflightReset_def)

text \<open>Errors that blame the environment: a preflight refusal other than a dirty tree, or a gate without a verdict.\<close>

definition breaker_armed :: "exec_err \<Rightarrow> bool" where
  "breaker_armed err \<longleftrightarrow>
     (case as_type (\<lambda>n. n = PreflightError) err of
        Some pre \<Rightarrow> \<not> DirtyTree pre
      | None \<Rightarrow> (case gate_of err of Some c \<Rightarrow> c \<noteq> VerifyGateEnvironmental | None \<Rightarrow> False))"

definition refused_run :: "run_result \<Rightarrow> bool" where
  "refused_run res \<longleftrightarrow>
     (case rr_err res of None \<Rightarrow> False
      | Some err \<Rightarrow> \<not> has_node (\<lambda>n. n = LeaseLostError) err \<and> \<not> has_node (\<lambda>n. n = ContextCanceled) err \<and> breaker_armed err)"

text \<open>Errors that judge neither the task nor its environment.\<close>

definition parked_run :: "exec_err \<Rightarrow> bool" where
  "parked_run err \<longleftrightarrow>
     (case as_type (\<lambda>n. n = PreflightError) err of
        Some pre \<Rightarrow> DirtyTree pre
      | None \<Rightarrow> \<not> has_node is_gate err
          \<and> (has_node is_rate_limit err \<or> has_node (\<lambda>n. n = CrushServerDeathError) err \<or> has_node is_question err))"

text \<open>The done hook, where there is one, does not find the work done; and a store whose writes succeed.\<close>

definition never_done :: "'s env \<Rightarrow> bool" where
  "never_done ev \<longleftrightarrow> (\<forall>hook t s. ev_done ev = Some hook \<longrightarrow> \<not> fst (hook t s))"

definition writes_succeed :: "'s env \<Rightarrow> bool" where
  "writes_succeed ev \<longleftrightarrow> (\<forall>i claim w s. \<not> isl (fst (persistOutcome ev i claim w s)))"

text \<open>Successive runs by one pool, each with its task, its claim, its outcome and the store it found.\<close>

fun settle_runs :: "'s env \<Rightarrow> (task \<times> string \<times> run_result \<times> 's) list \<Rightarrow> pool \<Rightarrow> (outcome_write \<times> bool) list list \<times> pool" where
  "settle_runs ev [] p = ([], p)"
| "settle_runs ev ((t, claim, res, s) # runs) p =
     (case settle ev t claim res p s of (tr, p', _) \<Rightarrow>
        (case settle_runs ev runs p' of (trs, p'') \<Rightarrow> (tr # trs, p'')))"

lemma write1_trace: "\<exists>ok s'. write1 ev i claim w p s = ([(w, ok)], p, s')"
  by (simp add: write1_def split: prod.split)

lemma refuse_parks:
  "\<exists>w ok p' s'. refuse ev t claim False cls cause failure p s = ([(w, ok)], p', s') \<and> is_requeue w
     \<and> ladder_count p' (ID t) = ladder_count p (ID t) + 1"
proof -
  obtain delay streak p1 where pd: "preflightDelay (ev_cfg ev) (ev_frac ev) (ID t) p = ((delay, streak), p1)"
    by (metis surj_pair)
  let ?w = "WRequeue (err_text cause) delay False cls []"
  obtain r s' where "persistOutcome ev (ID t) claim ?w s = (r, s')" by fastforce
  then show ?thesis
    using pd preflightDelay_count [OF pd] preflightShouldLog_count [of "ev_now ev" "ID t" p1]
    by (cases r) (auto simp: refuse_def write_logged_def)
qed

lemma write_succeeds: "writes_succeed ev \<Longrightarrow> \<exists>s'. persistOutcome ev i claim w s = (Inr (), s')"
  by (cases "persistOutcome ev i claim w s"; cases "fst (persistOutcome ev i claim w s)")
    (auto simp: writes_succeed_def, metis fst_conv isl_def)

lemma write_logged_ok:
  "writes_succeed ev \<Longrightarrow> \<exists>s'. write_logged ev i claim w p s = ([(w, True)], snd (preflightShouldLog (ev_now ev) i p), s')"
  using write_succeeds [of ev i claim w s] by (auto simp: write_logged_def)

lemma refuse_step:
  assumes ok: "writes_succeed ev" and N: "w_EnvRequeueBurn (ev_cfg ev) > 0"
  shows "\<exists>w p' s'. refuse ev t claim True cls cause failure p s = ([(w, True)], p', s')
     \<and> (if ladder_count p (ID t) + 1 \<ge> w_EnvRequeueBurn (ev_cfg ev)
        then burns w \<and> ladder_count p' (ID t) = 0
        else is_requeue w \<and> ladder_count p' (ID t) = ladder_count p (ID t) + 1)"
proof -
  obtain delay streak p1 where pd: "preflightDelay (ev_cfg ev) (ev_frac ev) (ID t) p = ((delay, streak), p1)"
    by (metis surj_pair)
  note cnt = preflightDelay_count [OF pd]
  let ?w = "WFail (burn_reason streak cause) (backoff_of (ev_cfg ev) (Attempts t + 1)) (stampedFailureEvidence failure cause)"
  obtain s1 where "persistOutcome ev (ID t) claim ?w s = (Inr (), s1)"
    using write_succeeds [OF ok] by blast
  moreover obtain s2 where "write_logged ev (ID t) claim (WRequeue (err_text cause) delay False cls []) p1 s
     = ([(WRequeue (err_text cause) delay False cls [], True)], snd (preflightShouldLog (ev_now ev) (ID t) p1), s2)"
    using write_logged_ok [OF ok] by blast
  ultimately show ?thesis
    using pd cnt N preflightShouldLog_count [of "ev_now ev" "ID t" p1]
    by (auto simp: refuse_def burnEnvStreak_def Let_def)
qed

lemma gate_of_Some: "gate_of err = Some c \<Longrightarrow> \<exists>m rest. as_type is_gate err = Some ((VerifyGateError c, m) # rest)"
  using as_gate [of err] by (auto simp: gate_of_def split: option.splits)

lemma refused_run_refuses:
  assumes "refused_run res" "never_done ev"
  shows "\<exists>cls cause. settle ev t claim res p s = refuse ev t claim True cls cause (rr_failure res) p s"
proof -
  obtain err where err: "rr_err res = Some err" "\<not> has_node (\<lambda>n. n = LeaseLostError) err"
      "\<not> has_node (\<lambda>n. n = ContextCanceled) err" "breaker_armed err"
    using assms(1) by (auto simp: refused_run_def split: option.splits)
  have stays: "staysOnLadder err"
    using err(4) as_type_None [of "\<lambda>n. n = PreflightError" err]
    by (auto simp: breaker_armed_def staysOnLadder_def split: option.splits)
  have "\<exists>cls cause. settle_failure ev t claim err (rr_failure res) p s = refuse ev t claim True cls cause (rr_failure res) p s"
  proof (cases "as_type (\<lambda>n. n = PreflightError) err")
    case (Some pre)
    then show ?thesis using err(4) by (auto simp: breaker_armed_def settle_failure_def)
  next
    case None
    then obtain c m rest where c: "c \<noteq> VerifyGateEnvironmental" "as_type is_gate err = Some ((VerifyGateError c, m) # rest)"
      using err(4) gate_of_Some by (fastforce simp: breaker_armed_def split: option.splits)
    have "settle_gate ev t claim c ((VerifyGateError c, m) # rest) err (rr_failure res) p s
        = refuse ev t claim True RequeueClassGate ((VerifyGateError c, m) # rest) (rr_failure res) p s"
    proof (cases "ev_done ev")
      case (Some hook)
      then have "\<not> fst (hook t s)" using assms(2) by (simp add: never_done_def)
      then show ?thesis using c(1) Some by (cases "hook t s") (auto simp: settle_gate_def)
    qed (use c(1) in \<open>simp add: settle_gate_def\<close>)
    then show ?thesis using None c(2) by (auto simp: settle_failure_def)
  qed
  then show ?thesis using err stays by (simp add: settle_def)
qed

lemma dvd_step:
  fixes N c :: int
  assumes "0 \<le> c" "c < N"
  shows "N dvd c + 1 \<longleftrightarrow> c + 1 = N"
  using assms zdvd_imp_le [of N "c + 1"] by auto

lemma settle_runs_burns:
  assumes ok: "writes_succeed ev" "never_done ev" and N: "w_EnvRequeueBurn (ev_cfg ev) > 0"
    and runs: "\<forall>(t, claim, res, s)\<in>set runs. ID t = i \<and> refused_run res"
    and c: "0 \<le> ladder_count p i" "ladder_count p i < w_EnvRequeueBurn (ev_cfg ev)"
  shows "list_all2 (\<lambda>tr k. \<exists>w. tr = [(w, True)] \<and>
            (if w_EnvRequeueBurn (ev_cfg ev) dvd ladder_count p i + int k + 1 then burns w else is_requeue w))
          (fst (settle_runs ev runs p)) [0..<length runs]"
  using runs c
proof (induction runs arbitrary: p)
  case (Cons x runs)
  obtain t claim res s where x: "x = (t, claim, res, s)" by (cases x)
  let ?N = "w_EnvRequeueBurn (ev_cfg ev)" and ?c = "ladder_count p i"
  have run: "ID t = i" "refused_run res" using Cons.prems(1) x by auto
  obtain w p' s' where step: "settle ev t claim res p s = ([(w, True)], p', s')"
      "if ?c + 1 \<ge> ?N then burns w \<and> ladder_count p' i = 0 else is_requeue w \<and> ladder_count p' i = ?c + 1"
    using refused_run_refuses [OF run(2) ok(2), of t claim p s] refuse_step [OF ok(1) N, of t] run(1) by metis
  have dv: "?N dvd ladder_count p' i + int k + 1 \<longleftrightarrow> ?N dvd ?c + int (Suc k) + 1" for k
  proof (cases "?c + 1 = ?N")
    case True
    then have "?c + int (Suc k) + 1 = ?N + (int k + 1)" by simp
    moreover have "ladder_count p' i + int k + 1 = int k + 1" using True step(2) by simp
    ultimately show ?thesis by (metis dvd_add_triv_left_iff)
  next
    case False
    then show ?thesis using step(2) Cons.prems(3) by (simp add: algebra_simps)
  qed
  have "list_all2 (\<lambda>tr k. \<exists>w. tr = [(w, True)] \<and> (if ?N dvd ladder_count p' i + int k + 1 then burns w else is_requeue w))
      (fst (settle_runs ev runs p')) [0..<length runs]"
    using Cons.prems step(2) N by (intro Cons.IH) (auto split: if_splits)
  then have rest: "list_all2 (\<lambda>tr k. \<exists>w. tr = [(w, True)] \<and> (if ?N dvd ?c + int k + 1 then burns w else is_requeue w))
      (fst (settle_runs ev runs p')) (map Suc [0..<length runs])"
    unfolding dv by (simp add: list.rel_map)
  have now: "if ?N dvd ?c + int 0 + 1 then burns w else is_requeue w"
    using step(2) dvd_step [OF Cons.prems(2,3)] Cons.prems(3) by (auto split: if_splits)
  have "fst (settle_runs ev (x # runs) p) = [(w, True)] # fst (settle_runs ev runs p')"
    by (simp add: x step(1) split: prod.split)
  moreover have "[0..<length (x # runs)] = 0 # map Suc [0..<length runs]"
    by (simp add: upt_conv_Cons map_Suc_upt del: upt_Suc)
  ultimately show ?case using rest now by (simp only: list_all2_Cons) blast
qed simp

section \<open>Runs at concrete inputs\<close>

text \<open>A store that counts its accepted writes, one task, and the outcomes the runs below end in.\<close>

definition counting_store :: "nat worker_store" where
  "counting_store =
     \<lparr>ws_Complete = (\<lambda>_ _ _ n. (Inr (), n + 1)), ws_Fail = (\<lambda>_ _ _ _ _ n. (Inr (), n + 1)),
      ws_FailPermanent = (\<lambda>_ _ _ _ n. (Inr (), n + 1)), ws_Requeue = (\<lambda>_ _ _ _ _ _ _ n. (Inr (), n + 1)),
      ws_CancelOwned = (\<lambda>_ _ n. (Inr (), n + 1)), ws_CancelRequested = (\<lambda>_ _. Inr False)\<rparr>"

definition no_config :: worker_config where
  "no_config = \<lparr>w_Owner = ''w'', w_Concurrency = 0, w_PollInterval = 0, w_IdlePollMax = 0, w_Lease = 0,
     w_Heartbeat = 0, w_TaskTimeout = 0, w_Backoff = None, w_PreflightBackoff = 0, w_EnvRequeueBurn = 0\<rparr>"

definition no_pool :: pool where
  "no_pool = \<lparr>pl_preflightSeen = (\<lambda>_. None), pl_inFlight = {}\<rparr>"

definition counting_env :: "nat env" where
  "counting_env = \<lparr>ev_store = counting_store, ev_retry = (\<lambda>_ op. op), ev_cfg = setDefaults 0 no_config,
     ev_draw = (\<lambda>_. 0), ev_frac = 1 / 2, ev_now = hour, ev_done = None, ev_budget = None, ev_ctxDead = False\<rparr>"

definition run_of :: "exec_err \<Rightarrow> run_result" where
  "run_of err = \<lparr>rr_err = Some err, rr_detail = empty_text, rr_failure = empty_text\<rparr>"

definition dirty_tree :: exec_err where
  "dirty_tree = [(PreflightError, ''preflight: dirty''), (ErrDirtyTree, ''dirty'')]"

definition no_autonomy :: exec_err where
  "no_autonomy = [(PreflightError, ''preflight: no autonomy''), (PlainError, ''no autonomy'')]"

lemma counting_env_ok: "writes_succeed counting_env" "never_done counting_env" "w_EnvRequeueBurn (ev_cfg counting_env) = 3"
proof -
  show "writes_succeed counting_env"
    unfolding writes_succeed_def
  proof (intro allI)
    fix i claim w and s :: nat
    show "\<not> isl (fst (persistOutcome counting_env i claim w s))"
      by (cases w) (simp_all add: persistOutcome_def counting_env_def run_write_def counting_store_def)
  qed
qed (simp_all add: never_done_def counting_env_def setDefaults_def no_config_def Let_def)

section \<open>Properties of the worker\<close>



text \<open>
  C12: environment refusals trip the breaker exactly on schedule. With a store whose writes succeed and
  no done verdict, in any row of refusals of one task that blame the environment, whatever claims,
  attempts and stores they meet, starting from a fresh ladder, run number \<open>k\<close> burns an attempt when
  \<open>EnvRequeueBurn\<close> divides \<open>k\<close> and is otherwise one requeue.
\<close>

theorem breaker_burns_every_nth:
  assumes "writes_succeed ev" "never_done ev" "w_EnvRequeueBurn (ev_cfg ev) > 0"
    and "\<forall>(t, claim, res, s)\<in>set runs. ID t = i \<and> refused_run res"
    and "pl_preflightSeen p i = None"
  shows "list_all2 (\<lambda>tr k. \<exists>w. tr = [(w, True)] \<and>
            (if w_EnvRequeueBurn (ev_cfg ev) dvd int k + 1 then burns w else is_requeue w))
          (fst (settle_runs ev runs p)) [0..<length runs]"
proof -
  have "ladder_count p i = 0" using assms(5) by (simp add: ladder_count_def)
  then show ?thesis using settle_runs_burns [OF assms(1-4), of p] assms(3) by simp
qed

lemma breaker_burns_every_nth_witness:
  "list_all2 (\<lambda>tr b. \<exists>w. tr = [(w, True)] \<and> (if b then burns w else is_requeue w))
     (fst (settle_runs counting_env (replicate 4 (demo_task ''a'' [] Running, ''tok'', run_of no_autonomy, 0)) no_pool))
     [False, False, True, False]"
proof -
  let ?runs = "replicate 4 (demo_task ''a'' [] Running, ''tok'', run_of no_autonomy, 0)"
  have runs: "\<forall>(t, claim, res, s)\<in>set ?runs. ID t = ''a'' \<and> refused_run res"
    by (simp add: demo_task_def refused_run_def run_of_def no_autonomy_def has_node_def breaker_armed_def DirtyTree_def)
  have "list_all2 (\<lambda>tr k. \<exists>w. tr = [(w, True)] \<and> (if (3::int) dvd int k + 1 then burns w else is_requeue w))
      (fst (settle_runs counting_env ?runs no_pool)) [0..<4]"
    using breaker_burns_every_nth [OF counting_env_ok(1,2) _ runs, of no_pool]
    by (simp add: counting_env_ok(3) no_pool_def)
  moreover have "[False, False, True, False] = map (\<lambda>k. (3::int) dvd int k + 1) [0..<4]" by code_simp
  ultimately show ?thesis by (simp only: list.rel_map)
qed

text \<open>
  C11: outcomes that judge nothing burn nothing. A run that ends in a dirty-tree refusal, a provider rate
  limit, a death of the shared server or a question to the owner (no earlier arm matching) is settled by
  one requeue, never by a failure, whether or not the store accepts it; and the refusal ladder is not
  reset.
\<close>

theorem parked_runs_burn_nothing:
  assumes "rr_err res = Some err" "parked_run err" "\<not> has_node (\<lambda>n. n = LeaseLostError) err"
    and "\<not> (has_node (\<lambda>n. n = ContextCanceled) err \<and> ws_CancelRequested (ev_store ev) (ID t) s = Inr True)"
    and "settle ev t claim res p s = (tr, p', s')"
  shows "(\<exists>w ok. tr = [(w, ok)] \<and> is_requeue w) \<and> ladder_count p (ID t) \<le> ladder_count p' (ID t)"
proof -
  have stays: "staysOnLadder err"
    using assms(2) as_type_None [of "\<lambda>n. n = PreflightError" err] as_type_None [of is_gate err]
    by (auto simp: parked_run_def staysOnLadder_def gate_of_def split: option.splits)
  then have run: "settle_failure ev t claim err (rr_failure res) p s = (tr, p', s')"
    using assms by (auto simp: settle_def split: if_splits)
  show ?thesis
    using settle_failure_cases [of err ev t claim "rr_failure res" p s]
  proof cases
    case (preflight pre)
    then show ?thesis
      using assms(2) refuse_parks [of ev t claim RequeueClassPreflight pre "rr_failure res" p s] run
      by (auto simp: parked_run_def)
  next
    case (gate c m rest)
    then show ?thesis using assms(2) as_type_None [of is_gate err] as_type_None [of "\<lambda>n. n = PreflightError" err]
      by (auto simp: parked_run_def split: option.splits)
  next
    case (rate_limit d provider resume fast m rest)
    then show ?thesis using run by (auto simp: write1_def split: prod.splits)
  next
    case (death c)
    then show ?thesis using refuse_parks [of ev t claim RequeueClassCrushServer c "rr_failure res" p s] run by auto
  next
    case (question d resume m rest)
    then show ?thesis using run by (auto simp: write1_def split: prod.splits)
  next
    case (judged w)
    then show ?thesis using assms(2) as_type_None [of "\<lambda>n. n = PreflightError" err]
      by (auto simp: parked_run_def split: option.splits)
  qed
qed

lemma parked_runs_burn_nothing_witness:
  "\<exists>w ok p' s'. settle counting_env (demo_task ''a'' [] Running) ''tok'' (run_of dirty_tree) no_pool 0 = ([(w, ok)], p', s')
     \<and> is_requeue w \<and> ladder_count no_pool ''a'' \<le> ladder_count p' ''a''"
proof -
  obtain tr p' s' where run: "settle counting_env (demo_task ''a'' [] Running) ''tok'' (run_of dirty_tree) no_pool 0 = (tr, p', s')"
    by (metis surj_pair)
  have "ID (demo_task ''a'' [] Running) = ''a''" by (simp add: demo_task_def)
  moreover have "rr_err (run_of dirty_tree) = Some dirty_tree" "parked_run dirty_tree"
    "\<not> has_node (\<lambda>n. n = LeaseLostError) dirty_tree" "\<not> has_node (\<lambda>n. n = ContextCanceled) dirty_tree"
    by (simp_all add: run_of_def dirty_tree_def parked_run_def DirtyTree_def has_node_def)
  ultimately show ?thesis using parked_runs_burn_nothing [of "run_of dirty_tree" dirty_tree, OF _ _ _ _ run] run by auto
qed

section \<open>Delays\<close>

lemma preflightDelay_bounds:
  assumes "w_PreflightBackoff c > 0" "0 \<le> u" "u < 1"
  shows "0 \<le> fst (fst (preflightDelay c u i p)) \<and> fst (fst (preflightDelay c u i p)) \<le> 18 * minute"
proof -
  obtain st b p1 where st: "preflightStateFor i zero_time p = ((st, b), p1)" by (metis surj_pair)
  define d0 where "d0 = wrap64 (w_PreflightBackoff c * 2 ^ nat (min (pf_count st + 1 - 1) 8))"
  define d where "d = (if d0 \<le> 0 \<or> d0 > preflightMaxBackoff then preflightMaxBackoff else d0)"
  have d: "0 < d" "d \<le> preflightMaxBackoff" by (auto simp: d_def preflightMaxBackoff_def)
  have val: "fst (fst (preflightDelay c u i p)) = \<lfloor>of_int d * (4 / 5 + 2 / 5 * u)\<rfloor>"
    by (simp add: preflightDelay_def st Let_def d_def d0_def)
  have "0 \<le> of_int d * (4 / 5 + 2 / 5 * u)" using d assms by simp
  moreover have "of_int d * (4 / 5 + 2 / 5 * u) \<le> of_int preflightMaxBackoff * (6 / 5)"
    using d assms by (intro mult_mono) auto
  ultimately show ?thesis unfolding val
    by (auto simp: preflightMaxBackoff_def floor_le_iff)
qed

lemma rateLimitDelay_bounds:
  assumes "0 \<le> d" "\<forall>n>0. 0 \<le> draw n \<and> draw n < n"
  shows "\<bar>rateLimitDelay draw d - d\<bar> \<le> min (d div 20) minute"
proof -
  let ?s = "min (d div 20) minute"
  have "0 \<le> d div 20" using assms(1) by simp
  then have "0 < 2 * ?s + 1" by linarith
  then have "0 \<le> draw (2 * ?s + 1) \<and> draw (2 * ?s + 1) < 2 * ?s + 1" using assms(2) by blast
  then show ?thesis using assms(1) by (simp only: rateLimitDelay_def quot_nonneg Let_def) linarith
qed

lemma idleGap_bounds:
  assumes "0 < w_PollInterval c"
  shows "w_PollInterval c \<le> idleGap c idle \<and> idleGap c idle \<le> max (w_IdlePollMax c) (w_PollInterval c)"
  by (auto simp: idleGap_def Let_def)

lemma ExpBackoff_small:
  assumes "attempt \<le> 33"
  shows "ExpBackoff attempt = min (2 ^ nat (max attempt 1) * second) (5 * minute)"
proof -
  define P :: int where "P = 2 ^ nat (max attempt 1)"
  have "P \<le> 2 ^ 33" unfolding P_def using assms by (intro power_increasing) auto
  moreover have "0 \<le> P" by (simp add: P_def)
  ultimately have "int64 (P * second)" by (simp add: int64_def)
  then have "int64 (2 ^ nat (max attempt 1) * second)" by (simp only: P_def)
  then show ?thesis using assms by (auto simp: ExpBackoff_def Let_def max_def)
qed

text \<open>
  Every delay stays within its bounds. A refused run waits at most 15 minutes plus a fifth; a parked
  provider window is spread by at most a twentieth and one minute either way; the idle poll is never
  shorter than the configured interval and never longer than the larger of it and the cap; and up to
  attempt 33 the retry delay is two to the attempt in seconds, at most five minutes.
\<close>

theorem delays_are_bounded:
  assumes "w_PreflightBackoff c > 0" "0 \<le> u" "u < 1" "0 \<le> d" "\<forall>n>0. 0 \<le> draw n \<and> draw n < n"
    and "0 < w_PollInterval c" "attempt \<le> 33"
  shows "0 \<le> fst (fst (preflightDelay c u i p)) \<and> fst (fst (preflightDelay c u i p)) \<le> 18 * minute
     \<and> \<bar>rateLimitDelay draw d - d\<bar> \<le> min (d div 20) minute
     \<and> w_PollInterval c \<le> idleGap c idle \<and> idleGap c idle \<le> max (w_IdlePollMax c) (w_PollInterval c)
     \<and> ExpBackoff attempt = min (2 ^ nat (max attempt 1) * second) (5 * minute)"
  using preflightDelay_bounds [OF assms(1-3)] rateLimitDelay_bounds [OF assms(4,5)] idleGap_bounds [OF assms(6)]
    ExpBackoff_small [OF assms(7)] by blast

lemma delays_are_bounded_witness:
  "\<bar>rateLimitDelay (\<lambda>n. 0) hour - hour\<bar> \<le> minute
   \<and> fst (fst (preflightDelay (setDefaults 0 no_config) (1 / 2) ''a'' no_pool)) \<le> 18 * minute
   \<and> ExpBackoff 3 = 8 * second"
  using delays_are_bounded [where c = "setDefaults 0 no_config" and u = "1 / 2" and d = hour and draw = "\<lambda>n. 0"
      and i = "''a''" and p = no_pool and attempt = 3]
  by (simp add: setDefaults_def no_config_def Let_def)

text \<open>
  The retry delay overflows. From attempt 34 on the product of the power of two and a second leaves
  64 bits: attempt 34 has a negative delay, attempt 54 the smallest one, and attempts 55 to 62 none at all.
\<close>

theorem ExpBackoff_overflows:
  "ExpBackoff 33 = 5 * minute \<and> ExpBackoff 34 < 0 \<and> ExpBackoff 54 = min_int64
   \<and> list_all (\<lambda>k. ExpBackoff k = 0) [55..62] \<and> ExpBackoff 63 = 0"
  by (simp add: ExpBackoff_def Let_def wrap64_def upto.simps)

end
