(* ===== verification/Tq_Regex.thy ===== *)
theory Tq_Regex
  imports Tq_Prelude
begin

text \<open>
  The part of Go's \<open>regexp\<close> the program uses: expressions with leftmost-first matching. \<open>matches\<close> lists
  the ways an expression matches a prefix of the text in the order a backtracking matcher prefers them,
  each with its length and the span of the capture group; the position's left neighbour decides word
  boundaries and line starts. Case-insensitive expressions run on lowered text.
\<close>

datatype re =
    Chr "char \<Rightarrow> bool"
  | Cat re re
  | Or re re
  | Rep nat "nat option" re
  | Grp re
  | WordB
  | LineStart
  | LineEnd
  | Eps

type_synonym found = "nat \<times> (nat \<times> nat) option"

definition word_char :: "char \<Rightarrow> bool" where
  "word_char c \<longleftrightarrow> (let n = of_char c :: nat in
     48 \<le> n \<and> n \<le> 57 \<or> 65 \<le> n \<and> n \<le> 90 \<or> 97 \<le> n \<and> n \<le> 122 \<or> n = 95)"

definition digit :: "char \<Rightarrow> bool" where
  "digit c \<longleftrightarrow> (let n = of_char c :: nat in 48 \<le> n \<and> n \<le> 57)"

definition re_space :: "char \<Rightarrow> bool" where
  "re_space c \<longleftrightarrow> c \<in> {CHR '' '', CHR 0x09, CHR 0x0A, CHR 0x0C, CHR 0x0D}"

text \<open>Shift a later match behind one of length \<open>n\<close>; the earlier capture is kept when the later has none.\<close>

definition behind :: "nat \<Rightarrow> (nat \<times> nat) option \<Rightarrow> found \<Rightarrow> found" where
  "behind n c f = (n + fst f, case snd f of Some (a, b) \<Rightarrow> Some (n + a, n + b) | None \<Rightarrow> c)"

definition left_of :: "char option \<Rightarrow> string \<Rightarrow> nat \<Rightarrow> char option" where
  "left_of p s n = (if n = 0 then p else if n \<le> length s then Some (s ! (n - 1)) else None)"

text \<open>\<open>rep m lo hi k\<close>: pos least \<open>lo\<close> and pos most \<open>hi\<close> rounds of \<open>m\<close>, greedy, pos most \<open>k\<close> more rounds that consume.\<close>

fun rep :: "(char option \<Rightarrow> string \<Rightarrow> found list) \<Rightarrow> nat \<Rightarrow> nat option \<Rightarrow> nat \<Rightarrow> char option \<Rightarrow> string \<Rightarrow> found list" where
  "rep m lo hi 0 p s = (if lo = 0 then [(0, None)] else [])"
| "rep m lo hi (Suc k) p s =
     (if hi = Some 0 then (if lo = 0 then [(0, None)] else [])
      else concat (map (\<lambda>(n, c). if n = 0 \<and> lo = 0 then [] else
             map (behind n c) (rep m (lo - 1) (map_option (\<lambda>h. h - 1) hi) k (left_of p s n) (drop n s))) (m p s))
        @ (if lo = 0 then [(0, None)] else []))"

fun matches :: "re \<Rightarrow> char option \<Rightarrow> string \<Rightarrow> found list" where
  "matches (Chr f) p s = (case s of [] \<Rightarrow> [] | c # _ \<Rightarrow> if f c then [(1, None)] else [])"
| "matches (Cat a b) p s =
     concat (map (\<lambda>(n, c). map (behind n c) (matches b (left_of p s n) (drop n s))) (matches a p s))"
| "matches (Or a b) p s = matches a p s @ matches b p s"
| "matches (Rep lo hi a) p s = rep (matches a) lo hi (lo + length s) p s"
| "matches (Grp a) p s = map (\<lambda>(n, c). (n, Some (0, n))) (matches a p s)"
| "matches WordB p s =
     (let l = (case p of None \<Rightarrow> False | Some c \<Rightarrow> word_char c); r = (case s of [] \<Rightarrow> False | c # _ \<Rightarrow> word_char c) in
      if l \<noteq> r then [(0, None)] else [])"
| "matches LineStart p s = (case p of None \<Rightarrow> [(0, None)] | Some c \<Rightarrow> if c = CHR 0x0A then [(0, None)] else [])"
| "matches LineEnd p s = (case s of [] \<Rightarrow> [(0, None)] | c # _ \<Rightarrow> if c = CHR 0x0A then [(0, None)] else [])"
| "matches Eps p s = [(0, None)]"

text \<open>Literals, classes and the usual repetitions.\<close>

definition lit :: "string \<Rightarrow> re" where
  "lit w = foldr (\<lambda>c. Cat (Chr ((=) c))) w Eps"

definition cls :: "string \<Rightarrow> re" where
  "cls w = Chr (\<lambda>c. c \<in> set w)"

definition opt :: "re \<Rightarrow> re" where "opt a = Rep 0 (Some 1) a"
definition star :: "re \<Rightarrow> re" where "star a = Rep 0 None a"
definition plus1 :: "re \<Rightarrow> re" where "plus1 a = Rep 1 None a"
definition rpt :: "nat \<Rightarrow> re \<Rightarrow> re" where "rpt n a = Rep n (Some n) a"
definition rpt_min :: "nat \<Rightarrow> re \<Rightarrow> re" where "rpt_min n a = Rep n None a"

fun cats :: "re list \<Rightarrow> re" where
  "cats [] = Eps"
| "cats [a] = a"
| "cats (a # as) = Cat a (cats as)"

fun alts :: "re list \<Rightarrow> re" where
  "alts [] = Chr (\<lambda>_. False)"
| "alts [a] = a"
| "alts (a # as) = Or a (alts as)"

text \<open>The leftmost match: its start, length and capture.\<close>

fun find_from :: "re \<Rightarrow> nat \<Rightarrow> char option \<Rightarrow> string \<Rightarrow> (nat \<times> found) option" where
  "find_from r k p [] = (case matches r p [] of [] \<Rightarrow> None | f # _ \<Rightarrow> Some (k, f))"
| "find_from r k p (c # cs) =
     (case matches r p (c # cs) of [] \<Rightarrow> find_from r (Suc k) (Some c) cs | f # _ \<Rightarrow> Some (k, f))"

definition find_match :: "re \<Rightarrow> string \<Rightarrow> (nat \<times> found) option" where
  "find_match r s = find_from r 0 None s"

definition match_string :: "re \<Rightarrow> string \<Rightarrow> bool" where
  "match_string r s \<longleftrightarrow> find_match r s \<noteq> None"

text \<open>\<open>FindStringSubmatch\<close> with one group: the text of the group, empty when the group did not take part.\<close>

definition submatch :: "re \<Rightarrow> string \<Rightarrow> string option" where
  "submatch r s =
     (case find_match r s of
        None \<Rightarrow> None
      | Some (k, n, None) \<Rightarrow> Some []
      | Some (k, n, Some (a, b)) \<Rightarrow> Some (take (b - a) (drop (k + a) s)))"

text \<open>\<open>ReplaceAllLiteralString\<close> for expressions that match pos least one character.\<close>

fun replace_from :: "re \<Rightarrow> string \<Rightarrow> nat \<Rightarrow> char option \<Rightarrow> string \<Rightarrow> string" where
  "replace_from r w skip p [] = []"
| "replace_from r w (Suc k) p (c # cs) = replace_from r w k (Some c) cs"
| "replace_from r w 0 p (c # cs) =
     (case matches r p (c # cs) of
        (Suc n, _) # _ \<Rightarrow> w @ replace_from r w n (Some c) cs
      | _ \<Rightarrow> c # replace_from r w 0 (Some c) cs)"

text \<open>\<open>FindAllStringIndex\<close> for such expressions: the spans of the successive matches.\<close>

fun spans_from :: "re \<Rightarrow> nat \<Rightarrow> nat \<Rightarrow> char option \<Rightarrow> string \<Rightarrow> (nat \<times> nat) list" where
  "spans_from r pos skip p [] = []"
| "spans_from r pos (Suc k) p (c # cs) = spans_from r (Suc pos) k (Some c) cs"
| "spans_from r pos 0 p (c # cs) =
     (case matches r p (c # cs) of
        (Suc n, _) # _ \<Rightarrow> (pos, pos + Suc n) # spans_from r (Suc pos) n (Some c) cs
      | _ \<Rightarrow> spans_from r (Suc pos) 0 (Some c) cs)"

definition find_all :: "re \<Rightarrow> string \<Rightarrow> (nat \<times> nat) list" where
  "find_all r s = spans_from r 0 0 None s"

definition replace_all :: "re \<Rightarrow> string \<Rightarrow> string \<Rightarrow> string" where
  "replace_all r w s = replace_from r w 0 None s"

section \<open>Facts\<close>

lemma find_from_None: "find_from r k p s = None \<Longrightarrow> matches r p s = []"
  by (cases s) (auto split: list.splits)

lemma lit_matches: "matches (lit w) p s = (if take (length w) s = w then [(length w, None)] else [])"
proof (induction w arbitrary: p s)
  case (Cons c w)
  then show ?case by (cases s) (auto simp: lit_def behind_def)
qed (simp add: lit_def)

end
