(* ===== verification/Tq_Text.thy ===== *)
theory Tq_Text
  imports Tq_Regex
begin

text \<open>
  The text utilities of \<open>internal/executor\<close>: one-line excerpts (\<open>excerpt.go\<close>), the merge of findings
  (\<open>finding.go\<close>) and the server-death signature (\<open>crushdeath.go\<close>), with the UTF-8 check and the string
  functions they use. A string is its bytes.
\<close>

section \<open>UTF-8\<close>

definition byte :: "char \<Rightarrow> nat" where "byte c = of_char c"

definition cont :: "char \<Rightarrow> bool" where "cont c \<longleftrightarrow> 128 \<le> byte c \<and> byte c \<le> 191"

text \<open>\<open>rune_len s\<close>: the length of the well-formed rune at the front, if there is one.\<close>

definition tail_len :: "nat \<Rightarrow> nat option" where
  "tail_len n = (if n < 128 then Some 0 else if 194 \<le> n \<and> n \<le> 223 then Some 1 else if 224 \<le> n \<and> n \<le> 239 then Some 2
     else if 240 \<le> n \<and> n \<le> 244 then Some 3 else None)"

definition second_ok :: "nat \<Rightarrow> string \<Rightarrow> bool" where
  "second_ok n ds \<longleftrightarrow>
     (case ds of [] \<Rightarrow> True
      | d # _ \<Rightarrow> (n = 224 \<longrightarrow> 160 \<le> byte d) \<and> (n = 237 \<longrightarrow> byte d \<le> 159) \<and> (n = 240 \<longrightarrow> 144 \<le> byte d) \<and> (n = 244 \<longrightarrow> byte d \<le> 143))"

definition rune_len :: "string \<Rightarrow> nat option" where
  "rune_len s =
     (case s of [] \<Rightarrow> None
      | c # cs \<Rightarrow>
          (case tail_len (byte c) of
             None \<Rightarrow> None
           | Some k \<Rightarrow> if k \<le> length cs \<and> list_all cont (take k cs) \<and> second_ok (byte c) (take k cs) then Some (Suc k) else None))"

lemma rune_len_bounds: "rune_len s = Some n \<Longrightarrow> 0 < n \<and> n \<le> 4 \<and> n \<le> length s"
  by (auto simp: rune_len_def tail_len_def split: list.splits if_splits option.splits)

text \<open>\<open>utf8.ValidString\<close>.\<close>

function valid_utf8 :: "string \<Rightarrow> bool" where
  "valid_utf8 s = (s = [] \<or> (case rune_len s of None \<Rightarrow> False | Some n \<Rightarrow> valid_utf8 (drop n s)))"
  by pat_completeness auto
termination
  by (relation "measure length") (auto dest: rune_len_bounds)

declare valid_utf8.simps [simp del]

lemma valid_utf8_Nil [simp]: "valid_utf8 []"
  by (simp add: valid_utf8.simps)

lemma valid_utf8_step: "rune_len s = Some n \<Longrightarrow> valid_utf8 s \<longleftrightarrow> valid_utf8 (drop n s)"
  by (auto simp: valid_utf8.simps [of s] dest: rune_len_bounds)

lemma rune_len_take: "rune_len s = Some n \<Longrightarrow> n \<le> m \<Longrightarrow> rune_len (take m s) = Some n"
  by (cases s; cases m) (auto simp: rune_len_def min_absorb1 split: if_splits option.splits)

text \<open>The longest valid prefix of a cut of valid text ends within three bytes of the cut.\<close>

lemma valid_cut:
  assumes "valid_utf8 s"
  shows "\<exists>k\<le>3. k \<le> n \<and> valid_utf8 (take (n - k) s)"
  using assms
proof (induction s arbitrary: n rule: valid_utf8.induct)
  case (1 s)
  show ?case
  proof (cases "s = []")
    case False
    then obtain m where m: "rune_len s = Some m" "valid_utf8 (drop m s)"
      using 1(2) by (auto simp: valid_utf8.simps [of s] split: option.splits)
    note b = rune_len_bounds [OF m(1)]
    show ?thesis
    proof (cases "n < m")
      case True
      then show ?thesis using b by (intro exI [of _ n]) auto
    next
      case False
      then obtain k where k: "k \<le> 3" "k \<le> n - m" "valid_utf8 (take (n - m - k) (drop m s))"
        using 1(1) [OF m(1,2), of "n - m"] by auto
      have "rune_len (take (n - k) s) = Some m" using m(1) k(2) False by (intro rune_len_take) auto
      moreover have "drop m (take (n - k) s) = take (n - m - k) (drop m s)" by (simp add: drop_take add.commute)
      ultimately have "valid_utf8 (take (n - k) s)" using k(3) valid_utf8_step by metis
      then show ?thesis using k False by (intro exI [of _ k]) auto
    qed
  qed (auto intro: exI [of _ 0])
qed

text \<open>The loop that drops bytes until the rest is valid.\<close>

function trim_valid :: "string \<Rightarrow> string" where
  "trim_valid s = (if valid_utf8 s then s else trim_valid (butlast s))"
  by pat_completeness auto
termination
proof (relation "measure length")
  fix s assume "\<not> valid_utf8 s"
  then show "(butlast s, s) \<in> measure length" by (cases s) auto
qed simp

declare trim_valid.simps [simp del]

lemma trim_valid_spec: "valid_utf8 (trim_valid s) \<and> prefix (trim_valid s) s"
proof (induction s rule: trim_valid.induct)
  case (1 s)
  then show ?case
    by (cases "valid_utf8 s") (auto simp: trim_valid.simps [of s] intro: prefix_order.trans prefixeq_butlast)
qed

lemma trim_valid_longest: "valid_utf8 t \<Longrightarrow> prefix t s \<Longrightarrow> length t \<le> length (trim_valid s)"
proof (induction s rule: trim_valid.induct)
  case (1 s)
  show ?case
  proof (cases "valid_utf8 s")
    case False
    then have "t \<noteq> s" using 1(2) by auto
    then have "prefix t (butlast s)" using 1(3) by (auto simp: prefix_def butlast_append)
    then show ?thesis using 1 False by (simp add: trim_valid.simps [of s])
  qed (use 1 in \<open>simp add: trim_valid.simps [of s] prefix_length_le\<close>)
qed

lemma trim_valid_cut:
  assumes "valid_utf8 s" "n \<le> length s"
  shows "n - 3 \<le> length (trim_valid (take n s)) \<and> length (trim_valid (take n s)) \<le> n"
proof -
  obtain k where k: "k \<le> 3" "k \<le> n" "valid_utf8 (take (n - k) s)" using valid_cut [OF assms(1), of n] by blast
  have "prefix (take (n - k) s) (take n s)" by (simp add: take_is_prefix prefix_def) (metis append_take_drop_id take_take min.absorb1 diff_le_self)
  then have "n - k \<le> length (trim_valid (take n s))"
    using trim_valid_longest [OF k(3)] assms(2) by fastforce
  moreover have "length (trim_valid (take n s)) \<le> n"
    using trim_valid_spec [of "take n s"] prefix_length_le by fastforce
  ultimately show ?thesis using k by linarith
qed

lemma rune_within:
  assumes "rune_len (a @ c # b) = Some n" "byte c < 128" "a \<noteq> []"
  shows "n \<le> length a"
proof (rule ccontr)
  assume "\<not> n \<le> length a"
  then obtain x xs k where a: "a = x # xs" and k: "tail_len (byte x) = Some k" "n = Suc k" "length xs < k"
      "list_all cont (take k (xs @ c # b))"
    using assms by (cases a) (auto simp: rune_len_def split: option.splits if_splits)
  then have "cont c" by (auto simp: take_Cons' split: if_splits)
  then show False using assms(2) by (simp add: cont_def)
qed

lemma valid_split:
  assumes "valid_utf8 (a @ c # b)" "byte c < 128"
  shows "valid_utf8 a \<and> valid_utf8 b"
  using assms(1)
proof (induction "length a" arbitrary: a rule: less_induct)
  case less
  show ?case
  proof (cases "a = []")
    case True
    have "rune_len (c # b) = Some 1" using assms(2) by (simp add: rune_len_def tail_len_def second_ok_def)
    then show ?thesis using less(2) True valid_utf8_step [of "c # b" 1] by simp
  next
    case False
    then obtain n where n: "rune_len (a @ c # b) = Some n" "valid_utf8 (drop n (a @ c # b))"
      using less(2) by (subst (asm) valid_utf8.simps) (auto split: option.splits)
    have le: "n \<le> length a" using rune_within [OF n(1) assms(2) False] .
    then have "rune_len a = Some n" using rune_len_take [OF n(1) le] by simp
    moreover have "valid_utf8 (drop n a) \<and> valid_utf8 b"
      using n(2) le rune_len_bounds [OF n(1)] False by (intro less(1)) auto
    ultimately show ?thesis using valid_utf8_step by blast
  qed
qed

lemma rune_len_append: "rune_len a = Some n \<Longrightarrow> rune_len (a @ b) = Some n"
  by (cases a) (auto simp: rune_len_def split: option.splits if_splits)

lemma valid_append: "valid_utf8 a \<Longrightarrow> valid_utf8 b \<Longrightarrow> valid_utf8 (a @ b)"
proof (induction a rule: valid_utf8.induct)
  case (1 a)
  show ?case
  proof (cases "a = []")
    case False
    then obtain n where n: "rune_len a = Some n" "valid_utf8 (drop n a)"
      using 1(2) by (subst (asm) valid_utf8.simps) (auto split: option.splits)
    then have "valid_utf8 (drop n (a @ b))" using 1(1) [OF n] 1(3) rune_len_bounds [OF n(1)] by simp
    then show ?thesis using valid_utf8_step [OF rune_len_append [OF n(1)]] by blast
  qed (use 1 in simp)
qed

lemma ascii_space_byte: "ascii_space c \<Longrightarrow> byte c < 128"
  by (auto simp: ascii_space_def byte_def)

lemma valid_drop_space: "valid_utf8 s \<Longrightarrow> valid_utf8 (dropWhile ascii_space s)"
proof (induction s)
  case (Cons c s)
  then show ?case using valid_split [of "[]" c s] ascii_space_byte by auto
qed simp

lemma valid_drop_space_end: "valid_utf8 s \<Longrightarrow> valid_utf8 (rev (dropWhile ascii_space (rev s)))"
proof (induction s rule: rev_induct)
  case (snoc c s)
  then show ?case using valid_split [of s c "[]"] ascii_space_byte by auto
qed simp

lemma valid_trim_space: "valid_utf8 s \<Longrightarrow> valid_utf8 (trim_space s)"
  unfolding trim_space_def by (rule valid_drop_space_end) (rule valid_drop_space)

lemma length_trim_space: "length (trim_space s) \<le> length s"
  unfolding trim_space_def by (metis length_dropWhile_le length_rev le_trans)

lemma set_trim_space: "set (trim_space s) \<subseteq> set s"
  unfolding trim_space_def by (metis set_dropWhileD set_rev subsetI)

section \<open>Lines\<close>

text \<open>\<open>strings.Split\<close> at a character, and \<open>strings.Fields\<close> on ASCII text.\<close>

fun split_on :: "char \<Rightarrow> string \<Rightarrow> string list" where
  "split_on sep [] = [[]]"
| "split_on sep (c # cs) =
     (if c = sep then [] # split_on sep cs
      else case split_on sep cs of [] \<Rightarrow> [[c]] | l # ls \<Rightarrow> (c # l) # ls)"

definition lines_of :: "string \<Rightarrow> string list" where
  "lines_of s = split_on (CHR 0x0A) s"

fun fields_from :: "string \<Rightarrow> string \<Rightarrow> string list" where
  "fields_from acc [] = (if acc = [] then [] else [rev acc])"
| "fields_from acc (c # cs) =
     (if ascii_space c then (if acc = [] then fields_from [] cs else rev acc # fields_from [] cs)
      else fields_from (c # acc) cs)"

definition fields_of :: "string \<Rightarrow> string list" where
  "fields_of s = fields_from [] s"

definition first_line :: "string \<Rightarrow> string" where
  "first_line s = takeWhile (\<lambda>c. c \<noteq> CHR 0x0A) s"

lemma valid_first_line: "valid_utf8 s \<Longrightarrow> valid_utf8 (first_line s)"
proof (cases "CHR 0x0A \<in> set s")
  case True
  assume v: "valid_utf8 s"
  obtain a b where s: "s = a @ CHR 0x0A # b" "CHR 0x0A \<notin> set a" using split_list_first [OF True] by blast
  then have "first_line s = a" by (auto simp: first_line_def takeWhile_append)
  then show ?thesis using v s(1) valid_split [of a "CHR 0x0A" b] by (simp add: byte_def)
next
  case False
  assume v: "valid_utf8 s"
  have "first_line s = s" unfolding first_line_def takeWhile_eq_all_conv using False by auto
  then show ?thesis using v by simp
qed

section \<open>Excerpts\<close>

definition excerptMaxLen :: nat where "excerptMaxLen = 200"

definition ellipsis :: string where "ellipsis = [CHR 0xE2, CHR 0x80, CHR 0xA6]"

definition Excerpt :: "string \<Rightarrow> string" where
  "Excerpt txt =
     (let line = first_line (trim_space txt) in
      if length line > excerptMaxLen then trim_space (trim_valid (take excerptMaxLen line)) @ ellipsis else line)"

lemma ellipsis_valid: "valid_utf8 ellipsis"
  by (simp add: ellipsis_def valid_utf8.simps rune_len_def tail_len_def second_ok_def cont_def byte_def)

text \<open>
  An excerpt is one bounded line of whole characters. It has no line break and at most 203 bytes; a
  first line of at most 200 bytes is returned as it is; valid UTF-8 stays valid, and a longer line loses
  at most three bytes of its first 200 to the character boundary before its trailing blanks are cut.
\<close>

theorem Excerpt_whole_characters:
  "CHR 0x0A \<notin> set (Excerpt txt) \<and> length (Excerpt txt) \<le> 203
   \<and> (length (first_line (trim_space txt)) \<le> 200 \<longrightarrow> Excerpt txt = first_line (trim_space txt))
   \<and> (valid_utf8 txt \<longrightarrow> valid_utf8 (Excerpt txt))
   \<and> (valid_utf8 txt \<and> 200 < length (first_line (trim_space txt)) \<longrightarrow>
        (\<exists>cut. Excerpt txt = trim_space cut @ ellipsis \<and> prefix cut (first_line (trim_space txt))
             \<and> 197 \<le> length cut \<and> length cut \<le> 200))"
proof -
  let ?l = "first_line (trim_space txt)" and ?c = "trim_valid (take excerptMaxLen (first_line (trim_space txt)))"
  have pre: "valid_utf8 ?c" "prefix ?c (take excerptMaxLen ?l)" using trim_valid_spec by blast+
  have line: "CHR 0x0A \<notin> set ?l" by (auto simp: first_line_def dest: set_takeWhileD)
  have "CHR 0x0A \<notin> set ?c"
    using line pre(2) by (meson in_mono in_set_takeD prefix_order.refl set_mono_prefix)
  then have nl: "CHR 0x0A \<notin> set (Excerpt txt)"
    using line set_trim_space [of ?c] by (auto simp: Excerpt_def Let_def ellipsis_def)
  have "length ?c \<le> 200" using prefix_length_le [OF pre(2)] by (simp add: excerptMaxLen_def)
  then have len: "length (Excerpt txt) \<le> 203"
    using length_trim_space [of ?c] by (simp add: Excerpt_def Let_def ellipsis_def excerptMaxLen_def)
  have vl: "valid_utf8 ?l" if "valid_utf8 txt" using that by (intro valid_first_line valid_trim_space)
  have val: "valid_utf8 (Excerpt txt)" if "valid_utf8 txt"
    using vl [OF that] pre(1) by (auto simp: Excerpt_def Let_def intro: valid_append valid_trim_space ellipsis_valid)
  have cut: "\<exists>cut. Excerpt txt = trim_space cut @ ellipsis \<and> prefix cut ?l \<and> 197 \<le> length cut \<and> length cut \<le> 200"
    if "valid_utf8 txt" "200 < length ?l"
    using trim_valid_cut [OF vl [OF that(1)], of 200] that(2) pre(2) take_is_prefix [of 200 ?l]
    by (intro exI [of _ ?c]) (auto simp: Excerpt_def Let_def excerptMaxLen_def intro: prefix_order.trans)
  show ?thesis using nl len val cut by (auto simp: Excerpt_def Let_def excerptMaxLen_def)
qed

lemma Excerpt_whole_characters_witness: "Excerpt '' fix it '' = ''fix it''"
proof -
  have "first_line (trim_space '' fix it '') = ''fix it''" by (simp add: first_line_def trim_space_def ascii_space_def)
  then show ?thesis using Excerpt_whole_characters [of "'' fix it ''"] by simp
qed

section \<open>Findings\<close>

record finding =
  fd_Severity :: string
  fd_Flags :: "string list"

definition riskRank :: "string \<Rightarrow> nat" where
  "riskRank severity =
     (let s = to_lower (trim_space severity) in
      if s = ''high'' then 3 else if s = ''medium'' then 2 else if s = ''low'' then 1 else 0)"

text \<open>\<open>seen\<close> is the set of flags already taken.\<close>

fun add_flags :: "string set \<Rightarrow> string list \<Rightarrow> string list" where
  "add_flags seen [] = []"
| "add_flags seen (f # fs) = (if f = [] \<or> f \<in> seen then add_flags seen fs else f # add_flags (insert f seen) fs)"

definition unionFlags :: "string list \<Rightarrow> string list \<Rightarrow> string list" where
  "unionFlags a b = add_flags {} (concat [a, b])"

definition MergeFindings :: "finding \<Rightarrow> finding \<Rightarrow> finding" where
  "MergeFindings deterministic learned =
     \<lparr>fd_Severity = (if riskRank (fd_Severity learned) > riskRank (fd_Severity deterministic) then fd_Severity learned
                     else fd_Severity deterministic),
      fd_Flags = unionFlags (fd_Flags deterministic) (fd_Flags learned)\<rparr>"

lemma add_flags_set: "set (add_flags seen fs) = set fs - seen - {[]}"
  by (induction seen fs rule: add_flags.induct) auto

lemma add_flags_distinct: "distinct (add_flags seen fs)"
  by (induction seen fs rule: add_flags.induct) (auto simp: add_flags_set)

text \<open>
  Learned checks may only narrow. The merged severity ranks as the higher of the two, is the
  deterministic one unless the learned one ranks strictly higher, and the merged flags are exactly the
  non-empty flags of either side, each once; so no learned finding lowers a rating or removes a flag.
\<close>

theorem MergeFindings_only_narrows:
  "riskRank (fd_Severity (MergeFindings d l)) = max (riskRank (fd_Severity d)) (riskRank (fd_Severity l))
   \<and> (fd_Severity (MergeFindings d l) = fd_Severity d \<or> riskRank (fd_Severity d) < riskRank (fd_Severity l))
   \<and> set (fd_Flags (MergeFindings d l)) = (set (fd_Flags d) \<union> set (fd_Flags l)) - {[]}
   \<and> distinct (fd_Flags (MergeFindings d l))"
  by (auto simp: MergeFindings_def unionFlags_def add_flags_set add_flags_distinct max_def)

section \<open>The server-death signature\<close>

definition crushServerDeathMarkers :: "string list" where
  "crushServerDeathMarkers = [''Events stream ended'', ''dial unix'']"

definition equalFoldASCII :: "string \<Rightarrow> string \<Rightarrow> bool" where
  "equalFoldASCII a b \<longleftrightarrow> length a = length b \<and> list_all2 (\<lambda>x y. lower_char x = lower_char y) a b"

definition containsFold :: "string \<Rightarrow> string \<Rightarrow> bool" where
  "containsFold s sub \<longleftrightarrow>
     sub = [] \<or> (length sub \<le> length s
       \<and> (\<exists>i\<in>set [0..<length s - length sub + 1]. equalFoldASCII (take (length sub) (drop i s)) sub))"

definition DetectCrushServerDeath :: "string \<Rightarrow> string \<Rightarrow> bool" where
  "DetectCrushServerDeath output errText \<longleftrightarrow>
     list_ex (\<lambda>m. containsFold output m \<or> containsFold errText m) crushServerDeathMarkers"

text \<open>
  The hand-written case-insensitive search is substring search on lowered text, so the server-death
  test is the presence of a marker in any letter case in the output or the error.
\<close>

theorem DetectCrushServerDeath_is_fold_search:
  "(containsFold s sub \<longleftrightarrow> sublist (to_lower sub) (to_lower s))
   \<and> (DetectCrushServerDeath output errText \<longleftrightarrow>
        (\<exists>m\<in>set crushServerDeathMarkers. sublist (to_lower m) (to_lower output) \<or> sublist (to_lower m) (to_lower errText)))"
proof -
  have eq: "equalFoldASCII a b \<longleftrightarrow> to_lower a = to_lower b" for a b
    by (auto simp: equalFoldASCII_def to_lower_def list_all2_conv_all_nth list_eq_iff_nth_eq)
  have fold: "containsFold s sub \<longleftrightarrow> sublist (to_lower sub) (to_lower s)" for s sub
  proof
    assume "containsFold s sub"
    then show "sublist (to_lower sub) (to_lower s)"
      unfolding containsFold_def eq
      by (metis (no_types, lifting) Nil_is_map_conv append_take_drop_id map_append sublist_Nil_left sublist_appendI to_lower_def)
  next
    assume "sublist (to_lower sub) (to_lower s)"
    then obtain p q where pq: "to_lower s = p @ to_lower sub @ q" by (auto simp: sublist_def)
    have l: "length (to_lower x) = length x" for x by (simp add: to_lower_def)
    have len: "length s = length p + length sub + length q" using pq l by (metis add.assoc length_append)
    have "to_lower (take (length sub) (drop (length p) s)) = take (length sub) (drop (length p) (to_lower s))"
      by (simp add: to_lower_def take_map drop_map)
    also have "\<dots> = to_lower sub" using pq l by simp
    finally show "containsFold s sub" unfolding containsFold_def eq using len
      by (intro disjI2 conjI bexI [of _ "length p"]) auto
  qed
  then show ?thesis by (auto simp: DetectCrushServerDeath_def list_ex_iff)
qed

end
