(* ===== verification/Tq_Redact.thy ===== *)
theory Tq_Redact
  imports Tq_Text
begin

text \<open>
  Secret redaction (\<open>internal/executor/redact.go\<close>) and the output tail of \<open>command.go\<close>: the provider
  token shapes as regular expressions, the masker, the location counter of the audit, and the tail that
  failure evidence carries.
\<close>

section \<open>Patterns\<close>

definition RedactMarker :: string where "RedactMarker = ''[REDACTED]''"

definition alnum :: "char \<Rightarrow> bool" where
  "alnum c \<longleftrightarrow> word_char c \<and> c \<noteq> CHR ''_''"

definition upper_digit :: "char \<Rightarrow> bool" where
  "upper_digit c \<longleftrightarrow> digit c \<or> (65 \<le> byte c \<and> byte c \<le> 90)"

definition alnum_or :: "string \<Rightarrow> re" where
  "alnum_or w = Chr (\<lambda>c. alnum c \<or> c \<in> set w)"

text \<open>A literal in any letter case, for the expressions marked case-insensitive.\<close>

definition ilit :: "string \<Rightarrow> re" where
  "ilit w = foldr (\<lambda>c. Cat (Chr (\<lambda>d. lower_char d = c))) w Eps"

definition blank :: re where "blank = Chr re_space"

definition quote_mark :: re where "quote_mark = cls [CHR 0x22, CHR 0x27]"

definition secretPatterns :: "re list" where
  "secretPatterns =
     [cats [lit ''sk-ant-'', rpt_min 16 (alnum_or ''_-'')],
      cats [lit ''sk-'', alts [lit ''proj'', lit ''svcacct''], lit ''-'', rpt_min 20 (alnum_or ''_-'')],
      cats [lit ''sk-'', rpt_min 20 (alnum_or [])],
      cats [lit ''gh'', cls ''pousr'', lit ''_'', rpt_min 20 (alnum_or [])],
      cats [lit ''github_pat_'', rpt_min 20 (alnum_or ''_'')],
      cats [alts [lit ''AKIA'', lit ''ASIA''], rpt 16 (Chr upper_digit)],
      cats [lit ''AIza'', rpt 35 (alnum_or ''_-'')],
      cats [lit ''xox'', cls ''baprs'', lit ''-'', rpt_min 10 (alnum_or ''-'')],
      cats [WordB, ilit ''bearer'', plus1 blank, rpt_min 16 (alnum_or ''._~+/=-'')],
      cats [WordB, ilit ''authorization'', opt quote_mark, star blank, cls '':='', star blank, opt quote_mark,
            opt (cats [ilit ''bearer'', plus1 blank]), rpt_min 16 (alnum_or ''._~+/=-'')],
      cats [WordB,
            alts [cats [ilit ''api'', opt (cls ''_-''), ilit ''key''], ilit ''apikey'', ilit ''secret'',
                  cats [ilit ''access'', opt (cls ''_-''), ilit ''token''], cats [ilit ''auth'', opt (cls ''_-''), ilit ''token''],
                  ilit ''password'', ilit ''passwd''],
            WordB, opt quote_mark, star blank, cls '':='', star blank, opt quote_mark, rpt_min 12 (alnum_or ''+/_-'')]]"

section \<open>Operations\<close>

definition RedactSecrets :: "string \<Rightarrow> string" where
  "RedactSecrets s = fold (\<lambda>r. replace_all r RedactMarker) secretPatterns s"

text \<open>The count of merged spans after the first, whose end is the running \<open>mergedEnd\<close>.\<close>

fun merge_spans :: "nat \<Rightarrow> (nat \<times> nat) list \<Rightarrow> nat" where
  "merge_spans mergedEnd [] = 0"
| "merge_spans mergedEnd ((a, b) # spans) =
     (if a < mergedEnd then merge_spans (max mergedEnd b) spans else Suc (merge_spans b spans))"

definition SecretHits :: "string \<Rightarrow> nat" where
  "SecretHits s =
     (case sort_key fst (concat (map (\<lambda>r. find_all r s) secretPatterns)) of
        [] \<Rightarrow> 0
      | (a, b) # spans \<Rightarrow> Suc (merge_spans b spans))"

text \<open>\<open>active\<close> is the setting of the environment.\<close>

definition redactOutput :: "bool \<Rightarrow> string \<Rightarrow> string" where
  "redactOutput active s = (if active then RedactSecrets s else s)"

definition redactBytes :: "bool \<Rightarrow> string \<Rightarrow> string" where
  "redactBytes active b = (if \<not> active then b else fold (\<lambda>r. replace_all r RedactMarker) secretPatterns b)"

definition tailBytes :: "bool \<Rightarrow> string \<Rightarrow> nat \<Rightarrow> string" where
  "tailBytes active b n =
     (let b1 = trim_space (redactBytes active b);
          b2 = (if length b1 > n then drop (length b1 - n) b1 else b1) in
      if b2 = [] then ''(no output)'' else b2)"

section \<open>Masking and detecting agree\<close>

text \<open>An expression none of whose characters is \<open>c\<close> matches no text with \<open>c\<close>.\<close>

fun avoids :: "char \<Rightarrow> re \<Rightarrow> bool" where
  "avoids c (Chr f) \<longleftrightarrow> \<not> f c"
| "avoids c (Cat a b) \<longleftrightarrow> avoids c a \<and> avoids c b"
| "avoids c (Or a b) \<longleftrightarrow> avoids c a \<and> avoids c b"
| "avoids c (Rep _ _ a) \<longleftrightarrow> avoids c a"
| "avoids c (Grp a) \<longleftrightarrow> avoids c a"
| "avoids c _ \<longleftrightarrow> True"

lemma rep_avoids:
  assumes "\<And>p s n x. (n, x) \<in> set (m p s) \<Longrightarrow> c \<notin> set (take n s)"
  shows "(n, x) \<in> set (rep m lo hi k p s) \<Longrightarrow> c \<notin> set (take n s)"
proof (induction k arbitrary: lo hi p s n x)
  case (Suc k)
  then show ?case
    by (auto simp: behind_def take_add dest: assms split: if_splits)
qed (auto split: if_splits)

lemma matches_avoids: "avoids c r \<Longrightarrow> (n, x) \<in> set (matches r p s) \<Longrightarrow> c \<notin> set (take n s)"
proof (induction r arbitrary: p s n x)
  case (Rep lo hi a)
  have "c \<notin> set (take n s)" if "(n, x) \<in> set (rep (matches a) lo hi k p s)" for k
    by (rule rep_avoids [OF _ that]) (use Rep in auto)
  then show ?case using Rep.prems by simp
qed (auto simp: behind_def Let_def take_add split: list.splits if_splits option.splits)

lemma replace_count:
  assumes "avoids c r" "count_list w c = 1"
  shows "c \<notin> set (take k s) \<Longrightarrow>
    count_list (replace_from r w k p s) c = count_list s c + length (spans_from r pos k p s)"
proof (induction s arbitrary: k p pos)
  case (Cons d s)
  show ?case
  proof (cases k)
    case (Suc j)
    then show ?thesis using Cons by auto
  next
    case 0
    show ?thesis
    proof (cases "matches r p (d # s)")
      case Nil
      then show ?thesis using 0 Cons.IH [of 0] by simp
    next
      case (Cons f fs)
      then obtain n x where f: "f = (n, x)" by (cases f)
      have "c \<notin> set (take n (d # s))" using matches_avoids [OF assms(1), of n x p "d # s"] Cons f by simp
      then show ?thesis using 0 Cons f Cons.IH Cons.IH [of "n - 1"] assms(2) by (cases n) auto
    qed
  qed
qed simp

lemma replace_nothing: "spans_from r pos 0 p s = [] \<Longrightarrow> replace_from r w 0 p s = s"
proof (induction s arbitrary: pos p)
  case (Cons d s)
  then show ?case by (auto split: list.splits prod.splits nat.splits)
qed simp

lemma replace_all_same_iff:
  assumes "avoids c r" "count_list w c = 1"
  shows "replace_all r w s = s \<longleftrightarrow> find_all r s = []"
    and "count_list s c \<le> count_list (replace_all r w s) c"
  using replace_count [OF assms, of 0 s None 0] replace_nothing [of r 0 None s w]
  by (auto simp: replace_all_def find_all_def)

lemma fold_replace_same_iff:
  assumes "\<forall>r\<in>set rs. avoids c r" "count_list w c = 1"
  shows "fold (\<lambda>r. replace_all r w) rs s = s \<longleftrightarrow> (\<forall>r\<in>set rs. find_all r s = [])"
proof -
  have grow: "count_list s c \<le> count_list (fold (\<lambda>r. replace_all r w) rs s) c" if "\<forall>r\<in>set rs. avoids c r" for rs s
    using that
  proof (induction rs arbitrary: s)
    case (Cons r rs)
    then show ?case using replace_all_same_iff(2) [of c r w s] assms(2) by (auto intro: le_trans)
  qed simp
  show ?thesis using assms(1)
  proof (induction rs arbitrary: s)
    case (Cons r rs)
    have av: "avoids c r" "\<forall>r\<in>set rs. avoids c r" using Cons.prems by auto
    show ?case
    proof (cases "find_all r s = []")
      case True
      then have "replace_all r w s = s" using replace_all_same_iff(1) [OF av(1) assms(2)] by simp
      then show ?thesis using Cons.IH [OF av(2), of s] True by simp
    next
      case False
      then have "count_list s c < count_list (replace_all r w s) c"
        using replace_count [OF av(1) assms(2), of 0 s None 0] by (simp add: replace_all_def find_all_def)
      then have "count_list s c < count_list (fold (\<lambda>r. replace_all r w) (r # rs) s) c"
        using grow [OF av(2), of "replace_all r w s"] by simp
      then show ?thesis using False by auto
    qed
  qed simp
qed

lemma patterns_avoid: "\<forall>r\<in>set secretPatterns. avoids (CHR ''['') r"
  by (simp add: secretPatterns_def rpt_def rpt_min_def plus1_def star_def opt_def cls_def lit_def ilit_def blank_def
      quote_mark_def alnum_or_def alnum_def word_char_def upper_digit_def digit_def byte_def re_space_def lower_char_def Let_def)

text \<open>
  The masker and the detector agree. The audit counts no secret location in a text exactly when
  redaction leaves the text as it is.
\<close>

theorem SecretHits_zero_iff_unredacted: "SecretHits s = 0 \<longleftrightarrow> RedactSecrets s = s"
proof -
  have "SecretHits s = 0 \<longleftrightarrow> sort_key fst (concat (map (\<lambda>r. find_all r s) secretPatterns)) = []"
    by (simp add: SecretHits_def split: list.splits prod.splits)
  also have "\<dots> \<longleftrightarrow> (\<forall>r\<in>set secretPatterns. find_all r s = [])"
    by (metis (no_types, lifting) concat_eq_Nil_conv length_0_conv length_sort list.set_map image_iff)
  also have "\<dots> \<longleftrightarrow> RedactSecrets s = s"
    unfolding RedactSecrets_def by (rule fold_replace_same_iff [OF patterns_avoid, symmetric]) (simp add: RedactMarker_def)
  finally show ?thesis .
qed

end
