(* ===== verification/Tq_Ratelimit.thy ===== *)
theory Tq_Ratelimit
  imports Tq_Worker Tq_Redact
begin

text \<open>
  Provider rate limits (\<open>internal/executor/ratelimit.go\<close>) and the HTTP executor's use of them
  (\<open>http.go\<close>): the detection in an agent's output with the time stamp it parses, the in-process gates
  with the compare-and-swap loop of concurrent runs as a step relation, and the errors they make. The
  offset of the local time zone, the clock, the setting of redaction and the HTTP transport are arguments.
\<close>

section \<open>Time stamps\<close>

text \<open>Days since 1 January 1970 of a date of the Gregorian calendar.\<close>

definition leap :: "int \<Rightarrow> bool" where
  "leap y \<longleftrightarrow> y mod 4 = 0 \<and> (y mod 100 \<noteq> 0 \<or> y mod 400 = 0)"

definition month_days :: "int \<Rightarrow> int \<Rightarrow> int" where
  "month_days y m = (if m = 2 then (if leap y then 29 else 28) else if m \<in> {4, 6, 9, 11} then 30 else 31)"

definition days_before_year :: "int \<Rightarrow> int" where
  "days_before_year y = 365 * (y - 1970) + (y - 1) div 4 - (y - 1) div 100 + (y - 1) div 400 - 477"

definition civil_days :: "int \<Rightarrow> int \<Rightarrow> int \<Rightarrow> int" where
  "civil_days y m d = days_before_year y + sum_list (map (month_days y) [1..m - 1]) + d - 1"

fun digits_value :: "string \<Rightarrow> int" where
  "digits_value s = foldl (\<lambda>n c. 10 * n + int (byte c) - 48) 0 s"

text \<open>Exactly \<open>k\<close> digits at the front.\<close>

definition get_num :: "nat \<Rightarrow> string \<Rightarrow> (int \<times> string) option" where
  "get_num k s = (if length s \<ge> k \<and> list_all digit (take k s) then Some (digits_value (take k s), drop k s) else None)"

definition get_char :: "char \<Rightarrow> string \<Rightarrow> string option" where
  "get_char c s = (case s of d # ds \<Rightarrow> if d = c then Some ds else None | [] \<Rightarrow> None)"

text \<open>A fraction after the seconds is taken even where the layout has none; nine digits count.\<close>

definition get_fraction :: "string \<Rightarrow> int \<times> string" where
  "get_fraction s =
     (case s of
        p # d # ds \<Rightarrow>
          if (p = CHR ''.'' \<or> p = CHR '','') \<and> digit d then
            (let all = takeWhile digit (d # ds); used = take 9 all in
             (digits_value used * 10 ^ (9 - length used), dropWhile digit (d # ds)))
          else (0, s)
      | _ \<Rightarrow> (0, s))"

text \<open>The zone of RFC 3339: \<open>Z\<close> or an offset in hours and minutes, in seconds.\<close>

definition get_zone :: "string \<Rightarrow> int option" where
  "get_zone s =
     (if s = ''Z'' then Some 0
      else case s of
        sign # r \<Rightarrow>
          if sign \<in> {CHR ''+'', CHR ''-''} then
            do { (h, r1) \<leftarrow> get_num 2 r; r2 \<leftarrow> get_char (CHR '':'') r1; (m, r3) \<leftarrow> get_num 2 r2;
                 if r3 = [] \<and> h \<le> 24 \<and> m \<le> 60 then Some ((if sign = CHR ''-'' then - 1 else 1) * (3600 * h + 60 * m)) else None }
          else None
      | [] \<Rightarrow> None)"

datatype layout = DateSpaceTime | DateTTime | RFC3339

text \<open>\<open>time.ParseInLocation\<close> for the three layouts; \<open>off\<close> is the local offset in seconds.\<close>

definition parse_time :: "int \<Rightarrow> layout \<Rightarrow> string \<Rightarrow> go_time option" where
  "parse_time off layout s =
     do { (y, s1) \<leftarrow> get_num 4 s; s2 \<leftarrow> get_char (CHR ''-'') s1; (mo, s3) \<leftarrow> get_num 2 s2;
          s4 \<leftarrow> get_char (CHR ''-'') s3; (d, s5) \<leftarrow> get_num 2 s4;
          s6 \<leftarrow> get_char (if layout = DateSpaceTime then CHR '' '' else CHR ''T'') s5;
          (h, s7) \<leftarrow> get_num 2 s6; s8 \<leftarrow> get_char (CHR '':'') s7; (mi, s9) \<leftarrow> get_num 2 s8;
          s10 \<leftarrow> get_char (CHR '':'') s9; (sec, s11) \<leftarrow> get_num 2 s10;
          (case get_fraction s11 of (ns, rest) \<Rightarrow>
             do { zone \<leftarrow> (if layout = RFC3339 then get_zone rest else if rest = [] then Some off else None);
                  if 1 \<le> mo \<and> mo \<le> 12 \<and> 1 \<le> d \<and> d \<le> month_days y mo \<and> h < 24 \<and> mi < 60 \<and> sec < 60
                  then Some ((civil_days y mo d * 86400 + 3600 * h + 60 * mi + sec - zone) * second + ns)
                  else None }) }"

definition resetAtLayouts :: "layout list" where
  "resetAtLayouts = [DateSpaceTime, DateTTime, RFC3339]"

section \<open>Detection\<close>

definition defaultRateLimitBackoff :: duration where "defaultRateLimitBackoff = 15 * minute"
definition maxRateLimitWait :: duration where "maxRateLimitWait = 6 * hour"
definition rateLimitGrace :: duration where "rateLimitGrace = 30 * second"

definition letter :: "char \<Rightarrow> bool" where
  "letter c \<longleftrightarrow> alnum c \<and> \<not> digit c"

definition rateLimitRe :: re where
  "rateLimitRe = alts
     [cats [ilit ''status'', opt (cls '' _-''), ilit ''code'', plus1 (cls ''=: ''), opt quote_mark, lit ''429''],
      cats [ilit ''http'', opt (ilit ''s''), lit '' 429''],
      ilit ''too many requests'', ilit ''rate limit'', ilit ''usage limit'', ilit ''insufficient_quota'',
      ilit ''quota exceeded'', ilit ''subscription limit'']"

definition dd :: "nat \<Rightarrow> re" where "dd n = rpt n (Chr digit)"

text \<open>The shared capture: under the case-insensitive flag \<open>T\<close> and \<open>Z\<close> match either case.\<close>

definition resetTimestamp :: re where
  "resetTimestamp = Grp (cats [dd 4, lit ''-'', dd 2, lit ''-'', dd 2, cls ''Tt '', dd 2, lit '':'', dd 2, lit '':'', dd 2,
     opt (cats [lit ''.'', plus1 (Chr digit)]),
     opt (alts [cls ''Zz'', cats [cls ''+-'', dd 2, opt (lit '':''), dd 2]])])"

definition resetAtRe :: re where
  "resetAtRe = cats
     [alts [cats [alts [ilit ''reset'', ilit ''renew''], star (Chr letter), plus1 blank, ilit ''at'', plus1 blank],
            cats [alts [ilit ''reset'', ilit ''renew''], star (Chr (\<lambda>c. letter c \<or> c = CHR ''_'')), opt quote_mark, star blank,
                  lit '':'', star blank, opt (cls [CHR 0x22])]],
      resetTimestamp]"

definition retryAfterRe :: re where
  "retryAfterRe = cats [ilit ''retry'', cls '' _-'', ilit ''after'', opt (cats [cls '' _-'', ilit ''seconds'']), opt quote_mark,
     alts [cats [star blank, cls '':='', star blank], plus1 blank], opt quote_mark, Grp (Rep 1 (Some 6) (Chr digit)), opt quote_mark]"

definition providerRe :: re where
  "providerRe = cats [WordB, ilit ''provider'', lit ''='', Grp (plus1 (alnum_or ''_.-''))]"

definition providerTag :: "string \<Rightarrow> string" where
  "providerTag output = (case submatch providerRe output of Some m \<Rightarrow> m | None \<Rightarrow> [])"

text \<open>The first layout that parses decides; \<open>None\<close> when none does.\<close>

fun first_parse :: "int \<Rightarrow> layout list \<Rightarrow> string \<Rightarrow> go_time option" where
  "first_parse off [] s = None"
| "first_parse off (l # ls) s = (case parse_time off l s of Some t \<Rightarrow> Some t | None \<Rightarrow> first_parse off ls s)"

definition DetectRateLimit :: "int \<Rightarrow> string \<Rightarrow> go_time \<Rightarrow> duration \<times> bool" where
  "DetectRateLimit off output now =
     (if \<not> match_string rateLimitRe output then (0, False)
      else let delay =
        (case submatch resetAtRe output of
           Some m \<Rightarrow>
             (case first_parse off resetAtLayouts m of
                Some reset \<Rightarrow>
                  if reset > now + maxRateLimitWait then maxRateLimitWait
                  else if time_sub reset now > 0 then time_sub reset now + rateLimitGrace else defaultRateLimitBackoff
              | None \<Rightarrow> defaultRateLimitBackoff)
         | None \<Rightarrow>
             (case submatch retryAfterRe output of
                Some m \<Rightarrow> if digits_value m > 0 then digits_value m * second + rateLimitGrace else defaultRateLimitBackoff
              | None \<Rightarrow> defaultRateLimitBackoff))
        in (min delay maxRateLimitWait, True))"

section \<open>The gates\<close>

text \<open>An executor's shared gate and its gates per repository, as instants in nanoseconds.\<close>

record gates =
  gt_shared :: int
  gt_repo :: "string \<Rightarrow> int option"

text \<open>The effect of the compare-and-swap loop on one gate, run alone.\<close>

definition arm :: "go_time \<Rightarrow> duration \<Rightarrow> int \<Rightarrow> int" where
  "arm now retryAfter cur = (let until = now + retryAfter in if cur \<ge> until then cur else until)"

definition armRateLimit :: "go_time \<Rightarrow> duration \<Rightarrow> gates \<Rightarrow> gates" where
  "armRateLimit now retryAfter g =
     (if retryAfter \<le> 0 then g else g\<lparr>gt_shared := arm now retryAfter (gt_shared g)\<rparr>)"

definition rateLimitWait :: "go_time \<Rightarrow> gates \<Rightarrow> duration \<times> bool" where
  "rateLimitWait now g = (let d = time_sub (gt_shared g) now in if d > 0 then (d, True) else (0, False))"

definition rateLimitGateFor :: "string \<Rightarrow> gates \<Rightarrow> int \<times> gates" where
  "rateLimitGateFor repoDir g =
     (case gt_repo g repoDir of
        Some v \<Rightarrow> (v, g)
      | None \<Rightarrow> (0, g\<lparr>gt_repo := (gt_repo g)(repoDir \<mapsto> 0)\<rparr>))"

definition armRateLimitRepo :: "go_time \<Rightarrow> string \<Rightarrow> duration \<Rightarrow> gates \<Rightarrow> gates" where
  "armRateLimitRepo now repoDir retryAfter g =
     (if repoDir = [] \<or> retryAfter \<le> 0 then g
      else case rateLimitGateFor repoDir g of
        (cur, g1) \<Rightarrow> g1\<lparr>gt_repo := (gt_repo g1)(repoDir \<mapsto> arm now retryAfter cur)\<rparr>)"

definition rateLimitWaitRepo :: "go_time \<Rightarrow> string \<Rightarrow> gates \<Rightarrow> duration \<times> bool" where
  "rateLimitWaitRepo now repoDir g =
     (if repoDir \<noteq> [] then
        (case gt_repo g repoDir of
           Some v \<Rightarrow> (let d = time_sub v now in if d > 0 then (d, True) else (0, False))
         | None \<Rightarrow> (0, False))
      else rateLimitWait now g)"

section \<open>Errors\<close>

definition dur_truncate :: "duration \<Rightarrow> duration \<Rightarrow> duration" where
  "dur_truncate m d = quot d m * m"

definition rate_limit_text :: "duration \<Rightarrow> string \<Rightarrow> string" where
  "rate_limit_text retryAfter cause = ''rate limited (retry after '' @ dur_string (dur_truncate second retryAfter) @ ''): '' @ cause"

definition RateLimited :: "exec_err \<Rightarrow> duration \<Rightarrow> exec_err" where
  "RateLimited cause retryAfter =
     (if cause = [] \<or> has_node is_rate_limit cause then cause
      else (RateLimitError retryAfter [] False False, rate_limit_text retryAfter (err_text cause)) # cause)"

text \<open>The provider tag is written into the first rate-limit error of the chain.\<close>

fun set_provider :: "string \<Rightarrow> exec_err \<Rightarrow> exec_err" where
  "set_provider p [] = []"
| "set_provider p ((RateLimitError d pr re fa, m) # rest) = (RateLimitError d p re fa, m) # rest"
| "set_provider p (x # rest) = x # set_provider p rest"

definition rateLimitedTurn :: "int \<Rightarrow> bool \<Rightarrow> go_time \<Rightarrow> string \<Rightarrow> string \<Rightarrow> exec_err \<Rightarrow> string \<Rightarrow> gates \<Rightarrow> exec_err option \<times> gates" where
  "rateLimitedTurn off active now stage repoDir runErr output g =
     (case DetectRateLimit off output now of
        (_, False) \<Rightarrow> (None, g)
      | (wait, True) \<Rightarrow>
          (let g1 = (if repoDir \<noteq> [] then armRateLimitRepo now repoDir wait g else armRateLimit now wait g);
               cause = (PlainError, stage @ '' failed: '' @ err_text runErr @ '': '' @ tailBytes active output 8192) # runErr in
           (Some (set_provider (providerTag output) (RateLimited cause wait)), g1)))"

section \<open>The HTTP executor\<close>

text \<open>\<open>strconv.ParseInt\<close> in base ten and 64 bits.\<close>

definition parse_int64 :: "string \<Rightarrow> int option" where
  "parse_int64 s =
     (let neg = (case s of c # _ \<Rightarrow> c = CHR ''-'' | [] \<Rightarrow> False);
          ds = (case s of c # cs \<Rightarrow> if c = CHR ''-'' \<or> c = CHR ''+'' then cs else s | [] \<Rightarrow> []);
          v = (if neg then - digits_value ds else digits_value ds) in
      if ds \<noteq> [] \<and> list_all digit ds \<and> int64 v then Some v else None)"

text \<open>\<open>http_date\<close> is the library's parser of HTTP dates.\<close>

definition parseRetryAfterHeader :: "(string \<Rightarrow> go_time option) \<Rightarrow> string \<Rightarrow> go_time \<Rightarrow> duration" where
  "parseRetryAfterHeader http_date value0 now =
     (let value = trim_space value0 in
      if value = [] then 0
      else case parse_int64 value of
        Some secs \<Rightarrow> if secs \<le> 0 then 0 else wrap64 (secs * second)
      | None \<Rightarrow>
          (case http_date value of
             Some moment \<Rightarrow> if time_sub moment now > 0 then time_sub moment now else 0
           | None \<Rightarrow> 0))"

definition transientStatus :: "int \<Rightarrow> bool" where
  "transientStatus code \<longleftrightarrow> code = 408 \<or> code = 429 \<or> code \<ge> 500"

record http_response =
  hr_StatusCode :: int
  hr_RetryAfter :: string
  hr_Body :: string

definition http_rateLimited :: "int \<Rightarrow> (string \<Rightarrow> go_time option) \<Rightarrow> go_time \<Rightarrow> http_response \<Rightarrow> exec_err" where
  "http_rateLimited off http_date now resp =
     (let ra = parseRetryAfterHeader http_date (hr_RetryAfter resp) now;
          delay = (if ra > 0 then ra else defaultRateLimitBackoff);
          delay1 = (case DetectRateLimit off (take 8192 (hr_Body resp)) now of (d, True) \<Rightarrow> d | (_, False) \<Rightarrow> delay) in
      RateLimited [(PlainError, ''http executor: status 429'')] delay1)"

text \<open>What the transport answers to the request of a task: no request, no response, or a response.\<close>

datatype http_outcome = BadRequest exec_err | Transport exec_err | Response http_response

definition http_Execute :: "int \<Rightarrow> (string \<Rightarrow> go_time option) \<Rightarrow> go_time \<Rightarrow> http_outcome \<Rightarrow> exec_err option" where
  "http_Execute off http_date now answer =
     (case answer of
        BadRequest e \<Rightarrow> Some (Permanent ((PlainError, ''http executor: build request: '' @ err_text e) # e))
      | Transport e \<Rightarrow> Some ((PlainError, ''http executor: '' @ err_text e) # e)
      | Response r \<Rightarrow>
          let code = hr_StatusCode r in
          if code < 200 \<or> code > 299 then
            (if code = 429 then Some (http_rateLimited off http_date now r)
             else if transientStatus code then Some [(PlainError, ''http executor: transient status '' @ show_int code)]
             else Some (Permanent [(PlainError, ''http executor: status '' @ show_int code)]))
          else None)"

section \<open>Concurrent arming\<close>

text \<open>
  The loop of \<open>armRateLimit\<close> and \<open>armRateLimitRepo\<close> in several runs at once: each run holds its instant and
  its place in the loop; every load and every compare-and-swap is one step.
\<close>

datatype place = Start | Loaded int | Finished

type_synonym armers = "int \<times> (int \<times> place) list"

inductive arm_step :: "armers \<Rightarrow> armers \<Rightarrow> bool" where
  load: "k < length ts \<Longrightarrow> ts ! k = (u, Start) \<Longrightarrow> arm_step (g, ts) (g, ts[k := (u, Loaded g)])"
| enough: "k < length ts \<Longrightarrow> ts ! k = (u, Loaded cur) \<Longrightarrow> cur \<ge> u \<Longrightarrow> arm_step (g, ts) (g, ts[k := (u, Finished)])"
| swapped: "k < length ts \<Longrightarrow> ts ! k = (u, Loaded cur) \<Longrightarrow> cur < u \<Longrightarrow> g = cur \<Longrightarrow> arm_step (g, ts) (u, ts[k := (u, Finished)])"
| failed: "k < length ts \<Longrightarrow> ts ! k = (u, Loaded cur) \<Longrightarrow> cur < u \<Longrightarrow> g \<noteq> cur \<Longrightarrow> arm_step (g, ts) (g, ts[k := (u, Start)])"

inductive_cases arm_stepE: "arm_step (g, ts) st"

definition place_ok :: "int \<Rightarrow> int \<times> place \<Rightarrow> bool" where
  "place_ok g t \<longleftrightarrow> (case snd t of Start \<Rightarrow> True | Loaded cur \<Rightarrow> cur \<le> g | Finished \<Rightarrow> fst t \<le> g)"

definition arm_inv :: "int \<Rightarrow> int list \<Rightarrow> armers \<Rightarrow> bool" where
  "arm_inv g0 us st \<longleftrightarrow> map fst (snd st) = us \<and> g0 \<le> fst st \<and> fst st \<in> insert g0 (set us) \<and> list_all (place_ok (fst st)) (snd st)"

lemma place_ok_mono: "place_ok g t \<Longrightarrow> g \<le> g' \<Longrightarrow> place_ok g' t"
  by (auto simp: place_ok_def split: place.splits)

lemma list_all_place_mono: "list_all (place_ok g) ts \<Longrightarrow> g \<le> g' \<Longrightarrow> list_all (place_ok g') ts"
  by (auto simp: list_all_iff intro: place_ok_mono)

lemma list_all_update: "list_all P ts \<Longrightarrow> P x \<Longrightarrow> list_all P (ts[k := x])"
  by (cases "k < length ts") (auto simp: list_all_length nth_list_update)

lemma map_fst_update: "ts ! k = (u, q) \<Longrightarrow> map fst (ts[k := (u, q')]) = map fst ts"
  by (cases "k < length ts") (auto simp: map_update list_update_same_conv list_update_beyond)

lemma arm_step_inv: "arm_step st st' \<Longrightarrow> arm_inv g0 us st \<Longrightarrow> arm_inv g0 us st'"
proof (induction rule: arm_step.induct)
  case (load k ts u g)
  then show ?case by (auto simp: arm_inv_def map_fst_update place_ok_def intro!: list_all_update)
next
  case (enough k ts u cur g)
  then have "place_ok g (ts ! k)" by (auto simp: arm_inv_def list_all_length)
  then show ?case using enough by (auto simp: arm_inv_def map_fst_update place_ok_def intro!: list_all_update)
next
  case (swapped k ts u cur g)
  have "u \<in> set us" using swapped by (auto simp: arm_inv_def in_set_conv_nth intro: exI [of _ k])
  moreover have "list_all (place_ok u) ts" using swapped by (auto simp: arm_inv_def intro: list_all_place_mono)
  ultimately show ?case using swapped by (auto simp: arm_inv_def map_fst_update place_ok_def intro!: list_all_update)
next
  case (failed k ts u cur g)
  then show ?case by (auto simp: arm_inv_def map_fst_update place_ok_def intro!: list_all_update)
qed

lemma arm_steps_inv: "arm_step\<^sup>*\<^sup>* st st' \<Longrightarrow> arm_inv g0 us st \<Longrightarrow> arm_inv g0 us st'"
  by (induction rule: rtranclp_induct) (auto intro: arm_step_inv)

text \<open>A measure that every step lowers: the instants still above the gate, then the places in the loop.\<close>

definition place_weight :: "int \<Rightarrow> int \<times> place \<Rightarrow> nat" where
  "place_weight g t = (case snd t of Start \<Rightarrow> 2 | Loaded cur \<Rightarrow> if cur = g then 1 else 3 | Finished \<Rightarrow> 0)"

definition arm_weight :: "armers \<Rightarrow> nat" where
  "arm_weight st = (let g = fst st; ts = snd st in
     length (filter (\<lambda>t. g < fst t) ts) * (2 * length ts + 2) + sum_list (map (place_weight g) ts))"

lemma sum_list_update_lt:
  fixes f :: "'a \<Rightarrow> nat"
  assumes "k < length ts" "f x < f (ts ! k)"
  shows "sum_list (map f (ts[k := x])) < sum_list (map f ts)"
proof -
  have "map f ts = map f (take k ts) @ f (ts ! k) # map f (drop (Suc k) ts)"
    by (metis assms(1) id_take_nth_drop list.simps(9) map_append)
  moreover have "map f (ts[k := x]) = map f (take k ts) @ f x # map f (drop (Suc k) ts)"
    by (simp add: upd_conv_take_nth_drop assms(1))
  ultimately show ?thesis using assms(2) by simp
qed

lemma length_filter_map_fst: "length (filter (\<lambda>t. g < fst t) ts) = length (filter ((<) g) (map fst ts))"
  by (simp add: filter_map comp_def)

lemma filter_fst_update:
  "ts ! k = (u, q) \<Longrightarrow> length (filter (\<lambda>t. g < fst t) (ts[k := (u, q')])) = length (filter (\<lambda>t. g < fst t) ts)"
  using map_fst_update [of ts k u q q'] by (simp add: length_filter_map_fst)

lemma weight_raise: "sum_list (map (place_weight g') ts) \<le> sum_list (map (place_weight g) ts) + 2 * length ts"
proof (induction ts)
  case (Cons t ts)
  have "place_weight g' t \<le> place_weight g t + 2" by (auto simp: place_weight_def split: place.splits)
  then show ?case using Cons by simp
qed simp

lemma arm_step_weight: "arm_step st st' \<Longrightarrow> arm_weight st' < arm_weight st"
proof (induction rule: arm_step.induct)
  case (load k ts u g)
  then show ?case
    using sum_list_update_lt [OF load(1), of "place_weight g" "(u, Loaded g)"]
    by (simp add: arm_weight_def filter_fst_update place_weight_def)
next
  case (enough k ts u cur g)
  then show ?case
    using sum_list_update_lt [OF enough(1), of "place_weight g" "(u, Finished)"]
    by (simp add: arm_weight_def filter_fst_update place_weight_def)
next
  case (swapped k ts u cur g)
  let ?n = "length ts"
  have sub: "length (filter (\<lambda>t. u < fst t) ts) < length (filter (\<lambda>t. g < fst t) ts)"
  proof -
    have "filter (\<lambda>t. u < fst t) ts = filter (\<lambda>t. u < fst t) (filter (\<lambda>t. g < fst t) ts)"
      using swapped(3,4) by (auto simp: filter_filter intro!: filter_cong)
    moreover have "ts ! k \<in> set (filter (\<lambda>t. g < fst t) ts)" "\<not> u < fst (ts ! k)"
      using swapped nth_mem [OF swapped(1)] by auto
    ultimately show ?thesis by (metis length_filter_less)
  qed
  have "sum_list (map (place_weight u) (ts[k := (u, Finished)])) \<le> sum_list (map (place_weight g) (ts[k := (u, Finished)])) + 2 * ?n"
    using weight_raise [of u "ts[k := (u, Finished)]" g] by simp
  also have "\<dots> < sum_list (map (place_weight g) ts) + 2 * ?n"
    using sum_list_update_lt [OF swapped(1), of "place_weight g" "(u, Finished)"] swapped by (simp add: place_weight_def)
  finally have sum: "sum_list (map (place_weight u) (ts[k := (u, Finished)])) < sum_list (map (place_weight g) ts) + 2 * ?n" .
  have "length (filter (\<lambda>t. u < fst t) ts) * (2 * ?n + 2) + (2 * ?n + 2) \<le> length (filter (\<lambda>t. g < fst t) ts) * (2 * ?n + 2)"
    using sub by (metis Suc_leI add.commute mult_Suc mult_le_mono1)
  then show ?case using sum by (simp add: arm_weight_def filter_fst_update [OF swapped(2)])
next
  case (failed k ts u cur g)
  then show ?case
    using sum_list_update_lt [OF failed(1), of "place_weight g" "(u, Start)"]
    by (simp add: arm_weight_def filter_fst_update place_weight_def)
qed

lemma arm_progress:
  assumes "k < length ts" "snd (ts ! k) \<noteq> Finished"
  shows "\<exists>st. arm_step (g, ts) st"
proof (cases "ts ! k")
  case (Pair u q)
  then show ?thesis
    using assms arm_step.intros [OF assms(1)] by (cases q) (auto, metis not_le)
qed

section \<open>Properties\<close>

text \<open>
  C22: concurrent 429s merge to the latest instant, and the loop ends. However the loads and swaps of any
  number of runs interleave, every execution is finite, an unfinished run can always take a step, and
  once all are finished the gate is the largest of its old value and the instants of the runs.
\<close>

theorem concurrent_arms_take_max:
  "wfP (\<lambda>st' st. arm_step st st')
   \<and> (\<forall>k<length ts. snd (ts ! k) \<noteq> Finished \<longrightarrow> (\<exists>st. arm_step (g, ts) st))
   \<and> (arm_step\<^sup>*\<^sup>* (g0, map (\<lambda>u. (u, Start)) us) (g, ts) \<and> list_all (\<lambda>t. snd t = Finished) ts \<longrightarrow>
        g = Max (insert g0 (set us)))"
proof (intro conjI allI impI)
  show "wfP (\<lambda>st' st. arm_step st st')"
    by (rule wfp_if_convertible_to_nat [of _ arm_weight]) (rule arm_step_weight)
  show "\<exists>st. arm_step (g, ts) st" if "k < length ts" "snd (ts ! k) \<noteq> Finished" for k
    using arm_progress [OF that] .
  assume run: "arm_step\<^sup>*\<^sup>* (g0, map (\<lambda>u. (u, Start)) us) (g, ts) \<and> list_all (\<lambda>t. snd t = Finished) ts"
  have "arm_inv g0 us (g0, map (\<lambda>u. (u, Start)) us)" by (auto simp: arm_inv_def place_ok_def list_all_iff comp_def)
  then have inv: "arm_inv g0 us (g, ts)" using arm_steps_inv run by blast
  have "fst t \<le> g" if "t \<in> set ts" for t
    using inv run that by (auto simp: arm_inv_def list_all_iff place_ok_def split: place.splits)
  then have "\<forall>u\<in>set us. u \<le> g" using inv by (auto simp: arm_inv_def)
  then show "g = Max (insert g0 (set us))" using inv by (intro Max_eqI [symmetric]) (auto simp: arm_inv_def)
qed

lemma concurrent_arms_take_max_witness:
  "arm_step\<^sup>*\<^sup>* (0, map (\<lambda>u. (u, Start)) [5, 3]) (5, [(5, Finished), (3, Finished)]) \<and> (5::int) = Max {0, 5, 3}"
proof -
  have s1: "arm_step (0, [(5, Start), (3, Start)]) (0, [(5, Start), (3, Loaded 0)])"
    using load [of 1 "[(5, Start), (3, Start)]" 3 0] by simp
  have s2: "arm_step (0, [(5, Start), (3, Loaded 0)]) (0, [(5, Loaded 0), (3, Loaded 0)])"
    using load [of 0 "[(5, Start), (3, Loaded 0)]" 5 0] by simp
  have s3: "arm_step (0, [(5, Loaded 0), (3, Loaded 0)]) (5, [(5, Finished), (3, Loaded 0)])"
    using swapped [of 0 "[(5, Loaded 0), (3, Loaded 0)]" 5 0 0] by simp
  have s4: "arm_step (5, [(5, Finished), (3, Loaded 0)]) (5, [(5, Finished), (3, Start)])"
    using failed [of 1 "[(5, Finished), (3, Loaded 0)]" 3 0 5] by simp
  have s5: "arm_step (5, [(5, Finished), (3, Start)]) (5, [(5, Finished), (3, Loaded 5)])"
    using load [of 1 "[(5, Finished), (3, Start)]" 3 5] by simp
  have s6: "arm_step (5, [(5, Finished), (3, Loaded 5)]) (5, [(5, Finished), (3, Finished)])"
    using enough [of 1 "[(5, Finished), (3, Loaded 5)]" 3 5 5] by simp
  have "arm_step\<^sup>*\<^sup>* (0, map (\<lambda>u. (u, Start)) [5, 3]) (5, [(5, Finished), (3, Finished)])"
    using s1 s2 s3 s4 s5 s6 by simp
  then show ?thesis using concurrent_arms_take_max [where g = 5 and ts = "[(5, Finished), (3, Finished)]" and g0 = 0 and us = "[5, 3]"]
    by simp
qed

text \<open>
  A detected limit parks for a positive time of at most six hours, and not before the reset. Where the
  output names a reset time in the future, the wait is the time to it plus the grace, cut to six hours.
\<close>

theorem DetectRateLimit_waits_for_reset:
  "(DetectRateLimit off output now = (d, True) \<longrightarrow> 0 < d \<and> d \<le> maxRateLimitWait)
   \<and> (match_string rateLimitRe output \<and> submatch resetAtRe output = Some m \<and> first_parse off resetAtLayouts m = Some reset
        \<and> now < reset \<longrightarrow> DetectRateLimit off output now = (min (reset - now + rateLimitGrace) maxRateLimitWait, True))"
proof (intro conjI impI)
  assume "DetectRateLimit off output now = (d, True)"
  then show "0 < d" "d \<le> maxRateLimitWait"
    by (auto simp: DetectRateLimit_def Let_def maxRateLimitWait_def defaultRateLimitBackoff_def rateLimitGrace_def
        split: if_splits option.splits)
next
  assume "match_string rateLimitRe output \<and> submatch resetAtRe output = Some m \<and> first_parse off resetAtLayouts m = Some reset \<and> now < reset"
  then show "DetectRateLimit off output now = (min (reset - now + rateLimitGrace) maxRateLimitWait, True)"
    by (auto simp: DetectRateLimit_def Let_def maxRateLimitWait_def rateLimitGrace_def time_sub_def)
qed

lemma DetectRateLimit_waits_for_reset_witness:
  "DetectRateLimit 0 ''rate limit'' 0 = (defaultRateLimitBackoff, True) \<and> 0 < defaultRateLimitBackoff"
proof -
  have "DetectRateLimit 0 ''rate limit'' 0 = (defaultRateLimitBackoff, True)" by code_simp
  then show ?thesis
    using DetectRateLimit_waits_for_reset [of 0 "''rate limit''" 0 defaultRateLimitBackoff] by blast
qed

text \<open>
  Provider gates are isolated by repository. Arming one repository's gate changes what that repository
  is told and nothing else; the shared gate has no say for a named repository; and a repository armed at
  several moments is told the remainder of the latest instant.
\<close>

theorem repo_gates_are_isolated:
  "(repo \<noteq> other \<longrightarrow> rateLimitWaitRepo now repo (armRateLimitRepo t other d g) = rateLimitWaitRepo now repo g)
   \<and> (repo \<noteq> [] \<longrightarrow> rateLimitWaitRepo now repo (armRateLimit t d g) = rateLimitWaitRepo now repo g)
   \<and> (repo \<noteq> [] \<and> 0 < d \<and> now < t + d \<and> t + d - now \<le> max_int64 \<and> gt_repo g repo = None \<and> 0 \<le> now \<longrightarrow>
        rateLimitWaitRepo now repo (armRateLimitRepo t repo d g) = (t + d - now, True))"
proof (intro conjI impI)
  show "rateLimitWaitRepo now repo (armRateLimitRepo t other d g) = rateLimitWaitRepo now repo g" if "repo \<noteq> other"
    using that by (cases "gt_repo g other") (simp_all add: rateLimitWaitRepo_def rateLimitWait_def armRateLimitRepo_def rateLimitGateFor_def)
  show "rateLimitWaitRepo now repo (armRateLimit t d g) = rateLimitWaitRepo now repo g" if "repo \<noteq> []"
    using that by (simp add: rateLimitWaitRepo_def armRateLimit_def)
  assume "repo \<noteq> [] \<and> 0 < d \<and> now < t + d \<and> t + d - now \<le> max_int64 \<and> gt_repo g repo = None \<and> 0 \<le> now"
  then show "rateLimitWaitRepo now repo (armRateLimitRepo t repo d g) = (t + d - now, True)"
    by (simp add: rateLimitWaitRepo_def armRateLimitRepo_def rateLimitGateFor_def arm_def time_sub_def)
qed

lemma repo_gates_are_isolated_witness:
  "rateLimitWaitRepo second ''/r'' (armRateLimitRepo 0 ''/r'' minute \<lparr>gt_shared = 9 * hour, gt_repo = (\<lambda>_. None)\<rparr>) = (59 * second, True)
   \<and> rateLimitWaitRepo second ''/q'' (armRateLimitRepo 0 ''/r'' minute \<lparr>gt_shared = 9 * hour, gt_repo = (\<lambda>_. None)\<rparr>) = (0, False)"
  using repo_gates_are_isolated [where repo = "''/r''" and d = minute and t = 0 and now = second
      and g = "\<lparr>gt_shared = 9 * hour, gt_repo = (\<lambda>_. None)\<rparr>"]
    repo_gates_are_isolated [where repo = "''/q''" and other = "''/r''" and d = minute and t = 0 and now = second
      and g = "\<lparr>gt_shared = 9 * hour, gt_repo = (\<lambda>_. None)\<rparr>"]
  by (simp add: rateLimitWaitRepo_def)

text \<open>
  The wait of an HTTP 429 is not capped. A numeric \<open>Retry-After\<close> is taken as it is, so a year parks the
  task for a year although the error's wait is documented as capped at six hours, and a value beyond
  the range of a duration wraps to another wait.
\<close>

theorem http_retry_after_uncapped:
  "as_type is_rate_limit (http_rateLimited 0 (\<lambda>_. None) 0 \<lparr>hr_StatusCode = 429, hr_RetryAfter = ''31536000'', hr_Body = []\<rparr>)
     = Some [(RateLimitError (365 * 24 * hour) [] False False, rate_limit_text (365 * 24 * hour) ''http executor: status 429''),
             (PlainError, ''http executor: status 429'')]
   \<and> 365 * 24 * hour > maxRateLimitWait
   \<and> parseRetryAfterHeader (\<lambda>_. None) ''18446744074'' 0 = 290448384"
proof (intro conjI)
  have "DetectRateLimit 0 [] 0 = (0, False)" by code_simp
  moreover have "parseRetryAfterHeader (\<lambda>_. None) ''31536000'' 0 = 365 * 24 * hour" by code_simp
  ultimately show "as_type is_rate_limit (http_rateLimited 0 (\<lambda>_. None) 0 \<lparr>hr_StatusCode = 429, hr_RetryAfter = ''31536000'', hr_Body = []\<rparr>)
     = Some [(RateLimitError (365 * 24 * hour) [] False False, rate_limit_text (365 * 24 * hour) ''http executor: status 429''),
             (PlainError, ''http executor: status 429'')]"
    by (simp add: http_rateLimited_def RateLimited_def has_node_def err_text_def)
  show "365 * 24 * hour > maxRateLimitWait" by (simp add: maxRateLimitWait_def)
  show "parseRetryAfterHeader (\<lambda>_. None) ''18446744074'' 0 = 290448384" by code_simp
qed

end
