(* ===== verification/Tq_Verify.thy ===== *)
theory Tq_Verify
  imports Tq_Worker Tq_Redact
begin

text \<open>
  The verify gate of \<open>internal/executor\<close>: the classes of gate failures with their texts and the death
  signatures (\<open>verifygate.go\<close>, \<open>crushdeath.go\<close>), the failure evidence with its readers and matchers
  (\<open>result.go\<close>, \<open>evidence.go\<close>), gate receipts with their attestation (\<open>receipt.go\<close>), stale gate
  commands (\<open>staleverify.go\<close>) and questions to the owner (\<open>question.go\<close>). The processes the code runs
  (the gate, its baseline probe, gofmt) enter as their results.
\<close>

section \<open>Gate failures and death signatures\<close>

definition VerifyGateEnvCode :: string where "VerifyGateEnvCode = ''vendor-gofmt''"
definition CrushServerDeathCode :: string where "CrushServerDeathCode = ''crush-server''"
definition VerifyStageGofmt :: string where "VerifyStageGofmt = ''gofmt''"
definition VerifyStageTest :: string where "VerifyStageTest = ''test''"
definition VerifyStageE2ETimeout :: string where "VerifyStageE2ETimeout = ''e2e-timeout''"
definition VerifyStageRun :: string where "VerifyStageRun = ''run''"

definition gate_string :: "gate_class \<Rightarrow> string" where
  "gate_string c = (case c of VerifyGateDead \<Rightarrow> ''gate-dead'' | VerifyGateSlow \<Rightarrow> ''gate-slow'' | VerifyGateEnvironmental \<Rightarrow> ''gate-env'')"

text \<open>\<open>VerifyGateError.Error\<close>.\<close>

definition gate_error_text :: "gate_class \<Rightarrow> string \<Rightarrow> string \<Rightarrow> string" where
  "gate_error_text c verify cause =
     (case c of
        VerifyGateDead \<Rightarrow> ''agent verify gate dead ('' @ go_quote verify
          @ ''): failure is pre-existing/environmental (gate also fails at the pre-attempt rev): '' @ cause
      | VerifyGateSlow \<Rightarrow> ''agent verify gate slow ('' @ go_quote verify
          @ ''): deadline before a verdict, retry on a warm cache: '' @ cause
      | VerifyGateEnvironmental \<Rightarrow> ''agent verify gate environmental signature ['' @ VerifyGateEnvCode @ ''] ('' @ go_quote verify
          @ ''): all package stages passed and gofmt flags only gitignored vendor/ files; the identical retry dies identically so the task is dead-lettered without re-dispatch (rescue: classify environmental): '' @ cause)"

text \<open>\<open>CrushServerDeathError.Error\<close>, up to the dash of its last clause.\<close>

definition crush_death_text :: "string option \<Rightarrow> string" where
  "crush_death_text cause =
     ''crush server died around the routed run ['' @ CrushServerDeathCode @ '']: ''
     @ (case cause of None \<Rightarrow> ''<run severed mid-turn>'' | Some c \<Rightarrow> c)
     @ '' '' @ [CHR 0xE2, CHR 0x80, CHR 0x94] @ '' the supervisor restarts it; the task requeues without attempt burn''"

definition IsEnvironmentalDeath :: "string \<Rightarrow> bool" where
  "IsEnvironmentalDeath lastError \<longleftrightarrow>
     list_ex (str_contains lastError)
       [''['' @ EnvStreakCode @ '']'', ''['' @ VerifyGateEnvCode @ '']'', ''['' @ CrushServerDeathCode @ '']'',
        ''agent verify gate environmental'', ''agent verify gate dead'', ''agent verify gate slow'']"

definition has_prefix :: "string \<Rightarrow> string \<Rightarrow> bool" where
  "has_prefix s p \<longleftrightarrow> take (length p) s = p"

definition allPackagesPassed :: "string \<Rightarrow> bool" where
  "allPackagesPassed tail \<longleftrightarrow>
     \<not> str_contains tail ''FAIL''
     \<and> list_ex (\<lambda>line. let fs = fields_of line in length fs \<ge> 2 \<and> fs ! 0 = ''ok'') (lines_of tail)"

text \<open>\<open>vendor\<close> says whether the tree has a vendor directory; \<open>flagged\<close> is what gofmt printed, \<open>None\<close> when it failed.\<close>

definition gofmtFlagged :: "string option \<Rightarrow> string list option" where
  "gofmtFlagged out = map_option (\<lambda>txt. filter (\<lambda>l. l \<noteq> []) (map trim_space (lines_of txt))) out"

definition vendorGofmtSignature :: "string \<Rightarrow> bool \<Rightarrow> string option \<Rightarrow> string \<Rightarrow> bool" where
  "vendorGofmtSignature verify vendor gofmt tail \<longleftrightarrow>
     str_contains verify ''gofmt -l'' \<and> allPackagesPassed tail \<and> vendor
     \<and> (case gofmtFlagged gofmt of
          None \<Rightarrow> False
        | Some flagged \<Rightarrow> flagged \<noteq> [] \<and> list_all (\<lambda>f. has_prefix f ''vendor/'') flagged)"

text \<open>The result of the baseline probe: it could not run, the baseline passed, it failed, or it ran out of time.\<close>

datatype probe = ProbeError | BaselinePassed | BaselineFailed | ProbeDeadline

definition baselineVerify :: "probe \<Rightarrow> gate_class option" where
  "baselineVerify p = (case p of BaselineFailed \<Rightarrow> Some VerifyGateDead | ProbeDeadline \<Rightarrow> Some VerifyGateSlow | _ \<Rightarrow> None)"

definition classifyVerifyFailure :: "bool \<Rightarrow> bool \<Rightarrow> string \<Rightarrow> bool \<Rightarrow> string option \<Rightarrow> string \<Rightarrow> probe \<Rightarrow> string \<Rightarrow> gate_class option" where
  "classifyVerifyFailure cancelled deadline verify vendor gofmt baseRev probe tail =
     (if cancelled then None
      else if deadline then Some VerifyGateSlow
      else if vendorGofmtSignature verify vendor gofmt tail then Some VerifyGateEnvironmental
      else if baseRev = [] then None
      else baselineVerify probe)"

definition verifyTestFailRe :: re where
  "verifyTestFailRe = alts [cats [LineStart, lit ''--- FAIL: ''], cats [LineStart, lit ''FAIL'', WordB]]"

definition gofmtFlaggedPathRe :: re where
  "gofmtFlaggedPathRe = cats [LineStart, plus1 (Chr (\<lambda>c. \<not> re_space c)), lit ''.go'', LineEnd]"

definition verifyDeathStage :: "bool \<Rightarrow> string \<Rightarrow> string \<Rightarrow> string" where
  "verifyDeathStage deadline verify out =
     (if deadline \<or> str_contains out ''panic: test timed out after'' \<or> str_contains out ''Test killed with quit: ran too long''
      then VerifyStageE2ETimeout
      else if match_string verifyTestFailRe out then VerifyStageTest
      else if str_contains verify ''gofmt'' \<and> (allPackagesPassed out \<or> match_string gofmtFlaggedPathRe out) then VerifyStageGofmt
      else VerifyStageRun)"

section \<open>Receipts\<close>

record verify_receipt =
  vr_Command :: string
  vr_RC :: int
  vr_Head :: string
  vr_OK :: int
  vr_Fail :: int

definition receipt_is_zero :: "verify_receipt option \<Rightarrow> bool" where
  "receipt_is_zero r \<longleftrightarrow>
     (case r of None \<Rightarrow> True | Some r \<Rightarrow> vr_Command r = [] \<and> vr_RC r = 0 \<and> vr_Head r = [] \<and> vr_OK r = 0 \<and> vr_Fail r = 0)"

definition ParseVerifyCounts :: "string \<Rightarrow> int \<times> int" where
  "ParseVerifyCounts out =
     fold (\<lambda>line (ok, fl). if has_prefix line ''ok:'' then (ok + 1, fl) else if has_prefix line ''FAIL'' then (ok, fl + 1) else (ok, fl))
       (lines_of out) (0, 0)"

record verify_verdict =
  vv_OK :: bool
  vv_Refusal :: string
  vv_Detail :: string
  vv_Checked :: "string list"

record attestation_input =
  ai_Receipt :: "verify_receipt option"
  ai_PayloadVerify :: string
  ai_RepoVerify :: string
  ai_ClaimedHead :: string
  ai_GateOutput :: string

fun str_join :: "string \<Rightarrow> string list \<Rightarrow> string" where
  "str_join sep [] = []"
| "str_join sep [x] = x"
| "str_join sep (x # y # zs) = x @ sep @ str_join sep (y # zs)"

definition normalizeSpace :: "string \<Rightarrow> string" where
  "normalizeSpace s = str_join '' '' (fields_of s)"

definition shortRev :: "string \<Rightarrow> string" where
  "shortRev r = (if length r \<le> 7 then r else take 7 r)"

definition sameRev :: "string \<Rightarrow> string \<Rightarrow> bool" where
  "sameRev a b =
     (if a = [] \<or> b = [] then False
      else if a = b then True
      else let longest = (if length b > length a then b else a); shortest = (if length b > length a then a else b) in
        length shortest \<ge> 7 \<and> has_prefix longest shortest)"

definition declaredVerifyCommands :: "string \<Rightarrow> string \<Rightarrow> string list" where
  "declaredVerifyCommands repoVerify payloadVerify =
     fold (\<lambda>c declared. let n = normalizeSpace c in if n = [] \<or> n \<in> set declared then declared else declared @ [n])
       [repoVerify, payloadVerify] []"

definition refusal :: "string \<Rightarrow> string list \<Rightarrow> string \<Rightarrow> verify_verdict" where
  "refusal why checked detail = \<lparr>vv_OK = False, vv_Refusal = why, vv_Detail = detail, vv_Checked = checked\<rparr>"

definition AttestVerify :: "attestation_input \<Rightarrow> verify_verdict" where
  "AttestVerify inp =
     (case ai_Receipt inp of
        None \<Rightarrow> \<lparr>vv_OK = False, vv_Refusal = ''no-receipt'', vv_Detail = ''no verify receipt recorded (unverified, not invalid)'', vv_Checked = []\<rparr>
      | Some r \<Rightarrow>
          let head = ai_ClaimedHead inp \<noteq> [] \<and> vr_Head r \<noteq> [];
              checked1 = [''receipt''] @ (if head then [''head''] else []) in
          if head \<and> \<not> sameRev (vr_Head r) (ai_ClaimedHead inp) then
            refusal ''head-mismatch'' checked1 (''gate ran at '' @ shortRev (vr_Head r) @ '', completion claims '' @ shortRev (ai_ClaimedHead inp))
          else
          let declared = declaredVerifyCommands (ai_RepoVerify inp) (ai_PayloadVerify inp);
              checked2 = checked1 @ (if declared \<noteq> [] then [''command''] else []) in
          if declared \<noteq> [] \<and> normalizeSpace (vr_Command r) \<notin> set declared then
            refusal ''command-mismatch'' checked2
              (''executed '' @ go_quote (normalizeSpace (vr_Command r)) @ '', pinned '' @ go_quote (str_join (CHR 0x22 # '' or '' @ [CHR 0x22]) declared))
          else
          let out = ai_GateOutput inp; checked3 = checked2 @ (if out \<noteq> [] then [''counts''] else []) in
          (case ParseVerifyCounts out of
             (okc, flc) \<Rightarrow>
               if out \<noteq> [] \<and> (okc \<noteq> vr_OK r \<or> flc \<noteq> vr_Fail r) then
                 refusal ''count-mismatch'' checked3
                   (''receipt says '' @ show_int (vr_OK r) @ '' ok / '' @ show_int (vr_Fail r) @ '' fail, output says ''
                    @ show_int okc @ '' ok / '' @ show_int flc @ '' fail'')
               else \<lparr>vv_OK = True, vv_Refusal = [], vv_Detail = [], vv_Checked = checked3\<rparr>))"

section \<open>Failure evidence\<close>

record failure_evidence =
  fe_Stage :: string
  fe_ExitCode :: int
  fe_Tail :: string
  fe_VerifyStage :: string
  fe_Class :: string
  fe_FilesChanged :: "string list"
  fe_Verify :: "verify_receipt option"
  fe_Attestation :: "verify_verdict option"

definition no_evidence :: failure_evidence where
  "no_evidence = \<lparr>fe_Stage = [], fe_ExitCode = 0, fe_Tail = [], fe_VerifyStage = [], fe_Class = [], fe_FilesChanged = [],
     fe_Verify = None, fe_Attestation = None\<rparr>"

definition evidence_is_zero :: "failure_evidence \<Rightarrow> bool" where
  "evidence_is_zero e \<longleftrightarrow> fe_Stage e = [] \<and> fe_VerifyStage e = [] \<and> fe_Class e = [] \<and> fe_ExitCode e = 0 \<and> fe_Tail e = [] \<and> fe_FilesChanged e = []"

text \<open>The documents the types marshal to and decode from.\<close>

definition jstrs :: "string list \<Rightarrow> json" where "jstrs xs = JArr (map JStr xs)"

definition omit_strs :: "string \<Rightarrow> string list \<Rightarrow> (string \<times> json) list" where
  "omit_strs k xs = (if xs = [] then [] else [(k, jstrs xs)])"

definition receipt_json :: "verify_receipt \<Rightarrow> json" where
  "receipt_json r = JObj (omit_empty ''command'' (vr_Command r) @ [(''rc'', jint (vr_RC r))] @ omit_empty ''head'' (vr_Head r)
     @ [(''ok'', jint (vr_OK r)), (''fail'', jint (vr_Fail r))])"

definition verdict_json :: "verify_verdict \<Rightarrow> json" where
  "verdict_json v = JObj ([(''ok'', JBool (vv_OK v))] @ omit_empty ''refusal'' (vv_Refusal v) @ omit_empty ''detail'' (vv_Detail v)
     @ omit_strs ''checked'' (vv_Checked v))"

definition omit_none :: "string \<Rightarrow> json option \<Rightarrow> (string \<times> json) list" where
  "omit_none k v = (case v of None \<Rightarrow> [] | Some j \<Rightarrow> [(k, j)])"

definition evidence_json :: "failure_evidence \<Rightarrow> json" where
  "evidence_json e = JObj ([(''stage'', JStr (fe_Stage e)), (''exit_code'', jint (fe_ExitCode e))] @ omit_empty ''tail'' (fe_Tail e)
     @ omit_empty ''verify_stage'' (fe_VerifyStage e) @ omit_empty ''class'' (fe_Class e) @ omit_strs ''files_changed'' (fe_FilesChanged e)
     @ omit_none ''verify'' (map_option receipt_json (fe_Verify e)) @ omit_none ''attestation'' (map_option verdict_json (fe_Attestation e)))"

definition jbool_field :: "string \<Rightarrow> (string \<times> json) list \<Rightarrow> bool option" where
  "jbool_field k kvs = (case map_of kvs k of None \<Rightarrow> Some False | Some JNull \<Rightarrow> Some False | Some (JBool b) \<Rightarrow> Some b | Some _ \<Rightarrow> None)"

definition jelem_str :: "json \<Rightarrow> string option" where
  "jelem_str j = (case j of JStr s \<Rightarrow> Some s | JNull \<Rightarrow> Some [] | _ \<Rightarrow> None)"

definition jstrs_field :: "string \<Rightarrow> (string \<times> json) list \<Rightarrow> string list option" where
  "jstrs_field k kvs =
     (case map_of kvs k of None \<Rightarrow> Some [] | Some JNull \<Rightarrow> Some [] | Some (JArr js) \<Rightarrow> those (map jelem_str js) | Some _ \<Rightarrow> None)"

text \<open>A pointer field: absent and \<open>null\<close> are nil, anything else is decoded.\<close>

definition jptr_field :: "(json \<Rightarrow> 'a option) \<Rightarrow> string \<Rightarrow> (string \<times> json) list \<Rightarrow> 'a option option" where
  "jptr_field dec k kvs =
     (case map_of kvs k of None \<Rightarrow> Some None | Some JNull \<Rightarrow> Some None | Some j \<Rightarrow> map_option Some (dec j))"

definition dec_receipt :: "json \<Rightarrow> verify_receipt option" where
  "dec_receipt j =
     do { kvs \<leftarrow> jfields j; c \<leftarrow> jstr_field ''command'' kvs; rc \<leftarrow> jint_field ''rc'' kvs; h \<leftarrow> jstr_field ''head'' kvs;
          ok \<leftarrow> jint_field ''ok'' kvs; fl \<leftarrow> jint_field ''fail'' kvs;
          Some \<lparr>vr_Command = c, vr_RC = rc, vr_Head = h, vr_OK = ok, vr_Fail = fl\<rparr> }"

definition dec_verdict :: "json \<Rightarrow> verify_verdict option" where
  "dec_verdict j =
     do { kvs \<leftarrow> jfields j; ok \<leftarrow> jbool_field ''ok'' kvs; r \<leftarrow> jstr_field ''refusal'' kvs; d \<leftarrow> jstr_field ''detail'' kvs;
          c \<leftarrow> jstrs_field ''checked'' kvs;
          Some \<lparr>vv_OK = ok, vv_Refusal = r, vv_Detail = d, vv_Checked = c\<rparr> }"

definition dec_evidence :: "json \<Rightarrow> failure_evidence option" where
  "dec_evidence j =
     do { kvs \<leftarrow> jfields j; st \<leftarrow> jstr_field ''stage'' kvs; ec \<leftarrow> jint_field ''exit_code'' kvs; tl \<leftarrow> jstr_field ''tail'' kvs;
          vs \<leftarrow> jstr_field ''verify_stage'' kvs; c \<leftarrow> jstr_field ''class'' kvs; fs \<leftarrow> jstrs_field ''files_changed'' kvs;
          v \<leftarrow> jptr_field dec_receipt ''verify'' kvs; a \<leftarrow> jptr_field dec_verdict ''attestation'' kvs;
          Some \<lparr>fe_Stage = st, fe_ExitCode = ec, fe_Tail = tl, fe_VerifyStage = vs, fe_Class = c, fe_FilesChanged = fs,
                fe_Verify = v, fe_Attestation = a\<rparr> }"

text \<open>\<open>LastFailureEvidenceFromTrail\<close>: the last failed fact decides, even when its detail cannot be read.\<close>

fun evidence_of_rev :: "fact list \<Rightarrow> failure_evidence" where
  "evidence_of_rev [] = no_evidence"
| "evidence_of_rev (f # fs) =
     (if FType f \<noteq> F_Failed then evidence_of_rev fs
      else case Option.bind (jt_parse (Detail f)) dec_evidence of Some e \<Rightarrow> e | None \<Rightarrow> no_evidence)"

definition LastFailureEvidenceFromTrail :: "fact list \<Rightarrow> failure_evidence" where
  "LastFailureEvidenceFromTrail trail = evidence_of_rev (rev trail)"

definition LastFailureEvidence :: "(qerr + fact list) \<Rightarrow> failure_evidence" where
  "LastFailureEvidence trail = (case trail of Inl _ \<Rightarrow> no_evidence | Inr fs \<Rightarrow> LastFailureEvidenceFromTrail fs)"

definition Summary :: "failure_evidence \<Rightarrow> string" where
  "Summary e = fe_Stage e @ (if fe_VerifyStage e \<noteq> [] then ''/'' @ fe_VerifyStage e else [])
     @ (if fe_Class e \<noteq> [] then '' class='' @ fe_Class e else [])
     @ (if fe_ExitCode e \<noteq> 0 then '' exit='' @ show_int (fe_ExitCode e) else [])"

definition IsGateArtifactDeath :: "failure_evidence \<Rightarrow> string \<Rightarrow> bool" where
  "IsGateArtifactDeath ev lastError =
     (if fe_Stage ev \<noteq> ''verify'' then False
      else if str_contains lastError VerifyGateEnvCode then True
      else if fe_VerifyStage ev \<noteq> [] then False
      else allPackagesPassed (fe_Tail ev) \<and> str_contains lastError ''gofmt -l'')"

text \<open>\<open>strings.EqualFold\<close> on ASCII text.\<close>

definition equal_fold :: "string \<Rightarrow> string \<Rightarrow> bool" where
  "equal_fold a b \<longleftrightarrow> to_lower a = to_lower b"

definition MatchesEvidenceStage :: "failure_evidence \<Rightarrow> string \<Rightarrow> string \<Rightarrow> bool" where
  "MatchesEvidenceStage ev lastError want0 =
     (let want = to_lower (trim_space want0) in
      if want = [] then False
      else if list_ex (\<lambda>have. equal_fold have want) [fe_Stage ev, fe_VerifyStage ev, fe_Class ev] then True
      else if want = gate_string VerifyGateEnvironmental then
        str_contains lastError VerifyGateEnvCode \<or> str_contains lastError ''agent verify gate environmental''
      else if want = gate_string VerifyGateDead then str_contains lastError ''agent verify gate dead''
      else if want = gate_string VerifyGateSlow then str_contains lastError ''agent verify gate slow''
      else False)"

definition SummaryWithError :: "failure_evidence \<Rightarrow> string \<Rightarrow> string" where
  "SummaryWithError e lastError =
     (let stage = Summary e in
      if fe_Class e \<noteq> [] then stage
      else case find (MatchesEvidenceStage e lastError) (map gate_string [VerifyGateEnvironmental, VerifyGateDead, VerifyGateSlow]) of
        Some alias \<Rightarrow> (if stage \<noteq> [] then stage @ '' '' else stage) @ ''alias='' @ alias
      | None \<Rightarrow> stage)"

text \<open>One term of a specification: \<open>None\<close> when it is empty, else whether it is negated, and its word.\<close>

definition spec_term :: "string \<Rightarrow> (bool \<times> string) option" where
  "spec_term raw =
     (let t = to_lower (trim_space raw) in
      if t = [] then None
      else let negated = has_prefix t ''!''; word = (if negated then trim_space (drop 1 t) else t) in
        if word = [] then None else Some (negated, word))"

fun match_terms :: "(string \<Rightarrow> bool) \<Rightarrow> bool \<Rightarrow> bool \<Rightarrow> bool \<Rightarrow> string list \<Rightarrow> bool" where
  "match_terms m hasPositive anyMatch sawNegation [] = (if hasPositive then anyMatch else sawNegation)"
| "match_terms m hasPositive anyMatch sawNegation (raw # rest) =
     (case spec_term raw of
        None \<Rightarrow> match_terms m hasPositive anyMatch sawNegation rest
      | Some (True, w) \<Rightarrow> if m w then False else match_terms m hasPositive anyMatch True rest
      | Some (False, w) \<Rightarrow> match_terms m True (anyMatch \<or> m w) sawNegation rest)"

definition MatchesEvidenceStageSet :: "failure_evidence \<Rightarrow> string \<Rightarrow> string \<Rightarrow> bool" where
  "MatchesEvidenceStageSet ev lastError spec =
     match_terms (MatchesEvidenceStage ev lastError) False False False (split_on (CHR '','') spec)"

definition KnownEvidenceTerms :: "string list" where
  "KnownEvidenceTerms = [''agent'', ''command'', ''verify'', ''depbump'', VerifyStageGofmt, VerifyStageTest, VerifyStageE2ETimeout,
     VerifyStageRun, gate_string VerifyGateEnvironmental, gate_string VerifyGateDead, gate_string VerifyGateSlow]"

definition UnknownEvidenceTerms :: "string \<Rightarrow> string list" where
  "UnknownEvidenceTerms spec =
     concat (map (\<lambda>raw. case spec_term raw of Some (False, w) \<Rightarrow> if list_ex (\<lambda>k. equal_fold k w) KnownEvidenceTerms then [] else [w] | _ \<Rightarrow> [])
       (split_on (CHR '','') spec))"

section \<open>Stale gate commands\<close>

definition GoEnvExperiment :: string where "GoEnvExperiment = ''GOEXPERIMENT=jsonv2''"

fun go_verify_from :: "bool \<Rightarrow> string list \<Rightarrow> bool" where
  "go_verify_from goTool [] = False"
| "go_verify_from goTool (f # fs) =
     (if f = ''go'' then go_verify_from True fs
      else if goTool \<and> (f = ''build'' \<or> f = ''test'') then True else go_verify_from goTool fs)"

definition isGoVerify :: "string \<Rightarrow> bool" where
  "isGoVerify verify = go_verify_from False (fields_of verify)"

datatype stale_reason = RootModuleOnly | ExecdirWalk | MissingExperiment | UnscopedGofmt

definition StaleVerifyReasons :: "string \<Rightarrow> stale_reason list" where
  "StaleVerifyReasons verify =
     (if \<not> isGoVerify verify then []
      else (if str_contains verify ''-name go.mod'' then [] else [RootModuleOnly])
         @ (if str_contains verify ''-execdir'' then [ExecdirWalk] else [])
         @ (if str_contains verify GoEnvExperiment then [] else [MissingExperiment])
         @ (if str_contains verify ''gofmt -l'' \<and> \<not> str_contains verify ''git check-ignore'' then [UnscopedGofmt] else []))"

section \<open>Questions to the owner\<close>

definition minQuestionWait :: duration where "minQuestionWait = minute"

definition QuestionPending :: "exec_err \<Rightarrow> duration \<Rightarrow> exec_err" where
  "QuestionPending cause retryAfter =
     (if cause = [] \<or> has_node is_question cause then cause
      else (QuestionPendingError retryAfter False,
            ''question pending (retry after '' @ dur_string (quot retryAfter second * second) @ ''): '' @ err_text cause) # cause)"

text \<open>What reading the marker file gives. The text of the decoder's own error is left out.\<close>

datatype marker = NoFile | ReadError string | Content jtext

definition questionPendingFrom :: "marker \<Rightarrow> go_time \<Rightarrow> exec_err option" where
  "questionPendingFrom raw now =
     (case raw of
        NoFile \<Rightarrow> None
      | ReadError m \<Rightarrow> Some [(PlainError, ''agent: read question marker: '' @ m), (PlainError, m)]
      | Content body \<Rightarrow>
          if trim_space (jt_text body) = [] then None
          else case Option.bind (jt_parse body) (\<lambda>j. do { kvs \<leftarrow> jfields j; ref \<leftarrow> jstr_field ''ref'' kvs; q \<leftarrow> jstr_field ''question'' kvs;
                  e \<leftarrow> jint_field ''expires_at'' kvs; t \<leftarrow> jstr_field ''type'' kvs; opts \<leftarrow> jstrs_field ''options'' kvs; r \<leftarrow> jstr_field ''repo'' kvs;
                  Some (ref, q, e) }) of
            None \<Rightarrow> Some (Permanent [(PlainError, ''agent: question marker is not question JSON: '' @ trim_space (jt_text body))])
          | Some (ref, q, expiresAt) \<Rightarrow>
              if ref = [] \<or> q = [] then Some (Permanent [(PlainError, ''agent: question marker missing ref/question: '' @ trim_space (jt_text body))])
              else let till = time_sub (from_milli expiresAt) now;
                       wait = (if expiresAt > 0 \<and> till > minQuestionWait then till else minQuestionWait) in
                Some (QuestionPending [(PlainError, ''agent asked: '' @ q)] wait))"

definition renderAnswered :: "string \<Rightarrow> (string \<times> string) list \<Rightarrow> string" where
  "renderAnswered prompt answered =
     (if answered = [] then prompt
      else prompt @ [CHR 0x0A, CHR 0x0A] @ ''# Answers from the owner'' @ [CHR 0x0A, CHR 0x0A]
        @ ''These rulings arrived while this task was parked on your questions. Honor them '' @ [CHR 0xE2, CHR 0x80, CHR 0x94]
        @ '' do not re-ask what is already answered, and do not re-do work the answer supersedes.''
        @ concat (map (\<lambda>(q, a). [CHR 0x0A, CHR 0x0A] @ ''Q: '' @ q @ [CHR 0x0A] @ ''A: '' @ a) answered))"

section \<open>Properties\<close>

lemma contains_infix: "str_contains (a @ m @ b) m"
  by (simp add: str_contains_iff sublist_appendI)

lemma contains_I: "s = a @ m @ b \<Longrightarrow> str_contains s m"
  by (simp add: contains_infix)

text \<open>
  What the worker writes, the dead-letter sweep recognises. The text of every gate failure, of a death
  of the shared server and of an attempt burned by the streak breaker is classified as an environmental
  death, whatever the gate command and the cause.
\<close>

theorem environmental_deaths_are_recognised:
  "IsEnvironmentalDeath (gate_error_text c verify cause) \<and> IsEnvironmentalDeath (crush_death_text why)
   \<and> IsEnvironmentalDeath (burn_reason streak err)"
proof (intro conjI)
  show "IsEnvironmentalDeath (gate_error_text c verify cause)"
  proof (cases c)
    case VerifyGateDead
    have "str_contains (gate_error_text c verify cause) ''agent verify gate dead''"
      by (rule contains_I [where a = "[]"]) (simp add: gate_error_text_def VerifyGateDead)
    then show ?thesis by (simp add: IsEnvironmentalDeath_def)
  next
    case VerifyGateSlow
    have "str_contains (gate_error_text c verify cause) ''agent verify gate slow''"
      by (rule contains_I [where a = "[]"]) (simp add: gate_error_text_def VerifyGateSlow)
    then show ?thesis by (simp add: IsEnvironmentalDeath_def)
  next
    case VerifyGateEnvironmental
    have "str_contains (gate_error_text c verify cause) ''agent verify gate environmental''"
      by (rule contains_I [where a = "[]"]) (simp add: gate_error_text_def VerifyGateEnvironmental)
    then show ?thesis by (simp add: IsEnvironmentalDeath_def)
  qed
  have "str_contains (crush_death_text why) (''['' @ CrushServerDeathCode @ '']'')"
    by (rule contains_I [where a = "''crush server died around the routed run ''"]) (simp add: crush_death_text_def)
  then show "IsEnvironmentalDeath (crush_death_text why)" by (simp add: IsEnvironmentalDeath_def)
  have "str_contains (burn_reason streak err) (''['' @ EnvStreakCode @ '']'')"
    by (rule contains_I [where a = "''environmental requeue streak burned the attempt ''"]) (simp add: burn_reason_def)
  then show "IsEnvironmentalDeath (burn_reason streak err)" by (simp add: IsEnvironmentalDeath_def)
qed

text \<open>Decoding what was encoded.\<close>

lemma those_jelem [simp]: "those (map (jelem_str \<circ> JStr) xs) = Some xs"
  by (induction xs) (simp_all add: jelem_str_def)

lemma jptr_Some: "map_of kvs k = Some j \<Longrightarrow> j \<noteq> JNull \<Longrightarrow> jptr_field dec k kvs = map_option Some (dec j)"
  by (cases j) (simp_all add: jptr_field_def)

lemma jptr_None: "map_of kvs k = None \<Longrightarrow> jptr_field dec k kvs = Some None"
  by (simp add: jptr_field_def)

lemmas dec_simps = jfields_def jstr_field_def jint_field_def jbool_field_def jstrs_field_def jptr_field_def
  omit_empty_def omit_strs_def omit_none_def jstrs_def

definition receipt_in_range :: "verify_receipt \<Rightarrow> bool" where
  "receipt_in_range r \<longleftrightarrow> int64 (vr_RC r) \<and> int64 (vr_OK r) \<and> int64 (vr_Fail r)"

lemma dec_receipt_json: "receipt_in_range r \<Longrightarrow> dec_receipt (receipt_json r) = Some r"
  by (cases r) (simp add: dec_receipt_def receipt_json_def receipt_in_range_def dec_simps)

lemma dec_verdict_json: "dec_verdict (verdict_json v) = Some v"
  by (cases v) (simp add: dec_verdict_def verdict_json_def dec_simps)

lemma not_null: "receipt_json r \<noteq> JNull" "verdict_json v \<noteq> JNull"
  by (simp_all add: receipt_json_def verdict_json_def)

definition evidence_fields :: "failure_evidence \<Rightarrow> (string \<times> json) list" where
  "evidence_fields e = (case evidence_json e of JObj kvs \<Rightarrow> kvs | _ \<Rightarrow> [])"

definition evidence_in_range :: "failure_evidence \<Rightarrow> bool" where
  "evidence_in_range e \<longleftrightarrow> int64 (fe_ExitCode e) \<and> (case fe_Verify e of None \<Rightarrow> True | Some r \<Rightarrow> receipt_in_range r)"

lemma evidence_lookup:
  "map_of (evidence_fields e) ''stage'' = Some (JStr (fe_Stage e))"
  "map_of (evidence_fields e) ''exit_code'' = Some (jint (fe_ExitCode e))"
  "map_of (evidence_fields e) ''tail'' = (if fe_Tail e = [] then None else Some (JStr (fe_Tail e)))"
  "map_of (evidence_fields e) ''verify_stage'' = (if fe_VerifyStage e = [] then None else Some (JStr (fe_VerifyStage e)))"
  "map_of (evidence_fields e) ''files_changed'' = (if fe_FilesChanged e = [] then None else Some (jstrs (fe_FilesChanged e)))"
  "map_of (evidence_fields e) ''verify'' = map_option receipt_json (fe_Verify e)"
  "map_of (evidence_fields e) ''attestation'' = map_option verdict_json (fe_Attestation e)"
  by (simp_all add: evidence_fields_def evidence_json_def omit_empty_def omit_strs_def omit_none_def split: option.split)

lemma dec_stamped:
  assumes "evidence_in_range e"
  shows "dec_evidence (JObj (obj_set ''class'' (JStr c) (evidence_fields e))) = Some (e\<lparr>fe_Class := c\<rparr>)"
proof -
  let ?kvs = "obj_set ''class'' (JStr c) (evidence_fields e)"
  have ptr: "jptr_field dec_receipt ''verify'' ?kvs = Some (fe_Verify e)"
    using assms by (cases "fe_Verify e")
      (simp_all add: jptr_Some jptr_None map_of_obj_set evidence_lookup evidence_in_range_def dec_receipt_json not_null)
  have att: "jptr_field dec_verdict ''attestation'' ?kvs = Some (fe_Attestation e)"
    by (cases "fe_Attestation e") (simp_all add: jptr_Some jptr_None map_of_obj_set evidence_lookup dec_verdict_json not_null)
  have strs: "jstrs_field ''files_changed'' ?kvs = Some (fe_FilesChanged e)"
    by (simp add: jstrs_field_def map_of_obj_set evidence_lookup jstrs_def)
  show ?thesis
    using assms ptr att strs
    by (simp add: dec_evidence_def jfields_def jstr_field_def jint_field_def map_of_obj_set evidence_lookup evidence_in_range_def)
qed

text \<open>
  The evidence of a failed attempt survives the journal. The evidence an executor records, stamped with
  the class of the run's error by the worker and appended as the detail of the last failed fact, is read
  back by the autopsy as it was, with that class; later facts of other types do not hide it.
\<close>

theorem evidence_survives_journal:
  assumes "evidence_in_range e" "FType f = F_Failed" "Detail f = stampedFailureEvidence (marshal (evidence_json e)) err"
    and "\<forall>g\<in>set later. FType g \<noteq> F_Failed"
  shows "LastFailureEvidenceFromTrail (earlier @ [f] @ later) = e\<lparr>fe_Class := class_string (ClassifyFailure err)\<rparr>"
proof -
  have "evidence_of_rev (xs @ rev (earlier @ [f])) = evidence_of_rev (rev (earlier @ [f]))" if "\<forall>g\<in>set xs. FType g \<noteq> F_Failed" for xs
    using that by (induction xs) auto
  then have skip: "LastFailureEvidenceFromTrail (earlier @ [f] @ later) = evidence_of_rev (f # rev earlier)"
    using assms(4) by (simp add: LastFailureEvidenceFromTrail_def)
  have j: "evidence_json e = JObj (evidence_fields e)" by (simp add: evidence_fields_def evidence_json_def)
  then have "jt_text (marshal (evidence_json e)) \<noteq> []" by (simp add: marshal_def)
  then have "jt_parse (Detail f) = Some (JObj (obj_set ''class'' (JStr (class_string (ClassifyFailure err))) (evidence_fields e)))"
    using assms(3) j by (simp add: stampedFailureEvidence_def)
  then show ?thesis using skip assms(2) dec_stamped [OF assms(1)] by simp
qed

lemma evidence_survives_journal_witness:
  "LastFailureEvidenceFromTrail [(mk_fact ''a'' F_Failed ''w'' (stampedFailureEvidence
        (marshal (evidence_json (no_evidence\<lparr>fe_Stage := ''verify'', fe_ExitCode := 1\<rparr>))) [(PermanentError, ''permanent: x'')])),
      mk_fact ''a'' F_DeadLettered ''w'' empty_text]
    = no_evidence\<lparr>fe_Stage := ''verify'', fe_ExitCode := 1, fe_Class := ''permanent''\<rparr>"
proof -
  let ?e = "no_evidence\<lparr>fe_Stage := ''verify'', fe_ExitCode := 1\<rparr>" and ?err = "[(PermanentError, ''permanent: x'')] :: exec_err"
  have "evidence_in_range ?e" by (simp add: evidence_in_range_def no_evidence_def int64_def)
  moreover have "class_string (ClassifyFailure ?err) = ''permanent''"
    by (simp add: ClassifyFailure_def has_node_def class_string_def)
  ultimately show ?thesis
    using evidence_survives_journal [where e = ?e and f = "mk_fact ''a'' F_Failed ''w'' (stampedFailureEvidence (marshal (evidence_json ?e)) ?err)"
        and err = ?err and later = "[mk_fact ''a'' F_DeadLettered ''w'' empty_text]" and earlier = "[]"]
    by (simp add: mk_fact_def)
qed

text \<open>
  A receipt is attested exactly when every comparison that can run agrees: there is a receipt; its
  revision agrees with the claimed one where both are known; its command is one of the pinned ones
  where any is pinned; and its tallies are those of the gate's output where that is at hand. The
  verdict lists exactly the comparisons that ran when it is positive.
\<close>

theorem AttestVerify_exact:
  "(vv_OK (AttestVerify inp) \<longleftrightarrow>
      (\<exists>r. ai_Receipt inp = Some r
         \<and> (ai_ClaimedHead inp \<noteq> [] \<and> vr_Head r \<noteq> [] \<longrightarrow> sameRev (vr_Head r) (ai_ClaimedHead inp))
         \<and> (let pins = declaredVerifyCommands (ai_RepoVerify inp) (ai_PayloadVerify inp) in
              pins \<noteq> [] \<longrightarrow> normalizeSpace (vr_Command r) \<in> set pins)
         \<and> (ai_GateOutput inp \<noteq> [] \<longrightarrow> ParseVerifyCounts (ai_GateOutput inp) = (vr_OK r, vr_Fail r))))
   \<and> (vv_OK (AttestVerify inp) \<longrightarrow>
        vv_Checked (AttestVerify inp) = [''receipt'']
          @ (if ai_ClaimedHead inp \<noteq> [] \<and> vr_Head (the (ai_Receipt inp)) \<noteq> [] then [''head''] else [])
          @ (if declaredVerifyCommands (ai_RepoVerify inp) (ai_PayloadVerify inp) \<noteq> [] then [''command''] else [])
          @ (if ai_GateOutput inp \<noteq> [] then [''counts''] else []))"
  by (cases "ai_Receipt inp"; cases "ParseVerifyCounts (ai_GateOutput inp)")
    (auto simp: AttestVerify_def refusal_def Let_def)

lemma AttestVerify_exact_witness:
  "vv_OK (AttestVerify \<lparr>ai_Receipt = Some \<lparr>vr_Command = ''go test'', vr_RC = 0, vr_Head = ''abcdef0123'', vr_OK = 1, vr_Fail = 0\<rparr>,
     ai_PayloadVerify = ''go  test'', ai_RepoVerify = [], ai_ClaimedHead = ''abcdef0'', ai_GateOutput = ''ok: p''\<rparr>)"
proof -
  let ?i = "\<lparr>ai_Receipt = Some \<lparr>vr_Command = ''go test'', vr_RC = 0, vr_Head = ''abcdef0123'', vr_OK = 1, vr_Fail = 0\<rparr>,
     ai_PayloadVerify = ''go  test'', ai_RepoVerify = [], ai_ClaimedHead = ''abcdef0'', ai_GateOutput = ''ok: p''\<rparr>"
  have "sameRev ''abcdef0123'' ''abcdef0''" by code_simp
  moreover have "normalizeSpace ''go test'' \<in> set (declaredVerifyCommands [] ''go  test'')" by code_simp
  moreover have "ParseVerifyCounts ''ok: p'' = (1, 0)" by code_simp
  ultimately show ?thesis using AttestVerify_exact [of ?i] by (simp add: Let_def)
qed

text \<open>
  The evidence filter is its set reading. A specification selects a death exactly when no negated term
  matches it and, if there are positive terms, one of them does; with no positive term it needs a
  negated one. The loop with its early return computes this whatever the order of the terms.
\<close>

theorem MatchesEvidenceStageSet_is_set_reading:
  "MatchesEvidenceStageSet ev lastError spec \<longleftrightarrow>
     (let terms = set (map spec_term (split_on (CHR '','') spec));
          pos = {w. Some (False, w) \<in> terms}; neg = {w. Some (True, w) \<in> terms}; m = MatchesEvidenceStage ev lastError in
      (\<forall>w\<in>neg. \<not> m w) \<and> (if pos \<noteq> {} then \<exists>w\<in>pos. m w else neg \<noteq> {}))"
proof -
  have loop: "match_terms m hp am sn raws \<longleftrightarrow>
     (let terms = set (map spec_term raws); pos = {w. Some (False, w) \<in> terms}; neg = {w. Some (True, w) \<in> terms} in
      (\<forall>w\<in>neg. \<not> m w) \<and> (if hp \<or> pos \<noteq> {} then am \<or> (\<exists>w\<in>pos. m w) else sn \<or> neg \<noteq> {}))"
    if "am \<longrightarrow> hp" for m hp am sn raws
    using that
  proof (induction m hp am sn raws rule: match_terms.induct)
    case (2 m hp am sn raw rest)
    show ?case
    proof (cases "spec_term raw")
      case None
      then show ?thesis using 2 by (auto simp: Let_def)
    next
      case (Some t)
      then show ?thesis using 2 by (cases t; cases "fst t") (auto simp: Let_def)
    qed
  qed (auto simp: Let_def)
  show ?thesis unfolding MatchesEvidenceStageSet_def by (subst loop) (auto simp: Let_def)
qed

lemma MatchesEvidenceStageSet_is_set_reading_witness:
  "\<not> MatchesEvidenceStageSet (no_evidence\<lparr>fe_Stage := ''verify''\<rparr>) [] ''agent,!verify''"
proof -
  have "set (map spec_term (split_on (CHR '','') ''agent,!verify'')) = {Some (False, ''agent''), Some (True, ''verify'')}" by code_simp
  moreover have "MatchesEvidenceStage (no_evidence\<lparr>fe_Stage := ''verify''\<rparr>) [] ''verify''" by code_simp
  ultimately show ?thesis using MatchesEvidenceStageSet_is_set_reading [of "no_evidence\<lparr>fe_Stage := ''verify''\<rparr>" "[]" "''agent,!verify''"]
    by (simp add: Let_def)
qed

text \<open>
  A question parks the task at least a minute and until it expires. A readable marker with a question
  yields the question error, without burning class, whose wait is the time to the expiry when that is
  more than a minute away and one minute otherwise; an unreadable or incomplete marker is permanent.
\<close>

theorem question_parks_until_expiry:
  assumes "trim_space (jt_text body) \<noteq> []"
    and "jt_parse body = Some (JObj [(''ref'', JStr ref), (''question'', JStr q), (''expires_at'', jint ex)])" "int64 ex"
    and "now \<le> from_milli ex" "from_milli ex - now \<le> max_int64" "0 < ex"
  shows "(ref \<noteq> [] \<and> q \<noteq> [] \<longrightarrow>
       (\<exists>m rest. questionPendingFrom (Content body) now
          = Some ((QuestionPendingError (max minQuestionWait (from_milli ex - now)) False, m) # rest)))
     \<and> (ref = [] \<or> q = [] \<longrightarrow> (\<exists>err. questionPendingFrom (Content body) now = Some err \<and> has_node (\<lambda>n. n = PermanentError) err))"
  using assms
  by (auto simp: questionPendingFrom_def jfields_def jstr_field_def jint_field_def jstrs_field_def QuestionPending_def has_node_def
      Permanent_def time_sub_def max_def Let_def)

lemma question_parks_until_expiry_witness:
  "\<exists>m rest. questionPendingFrom (Content (marshal (JObj [(''ref'', JStr ''q1''), (''question'', JStr ''why?''), (''expires_at'', jint 600000)]))) 0
     = Some ((QuestionPendingError (10 * minute) False, m) # rest)"
proof -
  let ?b = "marshal (JObj [(''ref'', JStr ''q1''), (''question'', JStr ''why?''), (''expires_at'', jint 600000)])"
  have "trim_space (jt_text ?b) \<noteq> []" by (simp add: marshal_def trim_space_def ascii_space_def show_str_def escape_char_def)
  then show ?thesis
    using question_parks_until_expiry [of ?b "''q1''" "''why?''" 600000 0]
    by (simp add: int64_def from_milli_def minQuestionWait_def)
qed

end
