(* ===== verification/Tq_Command.thy ===== *)
theory Tq_Command
  imports Tq_Verify
begin

text \<open>
  The command executor (\<open>internal/executor/command.go\<close>): how a task becomes a shell line, the wrapper with
  its resource limits and its quoting, and the result of a run. Against it stands a reading of the
  shell's quoting rules.
\<close>

section \<open>The line to run\<close>

record command_executor =
  ce_Template :: string
  ce_MemoryLimitMB :: int
  ce_Nice :: int

text \<open>\<open>strings.ReplaceAll\<close> for a non-empty old text; \<open>skip\<close> characters of a match are still to be passed over.\<close>

fun replace_text_from :: "string \<Rightarrow> string \<Rightarrow> nat \<Rightarrow> string \<Rightarrow> string" where
  "replace_text_from old new skip [] = []"
| "replace_text_from old new (Suc k) (c # cs) = replace_text_from old new k cs"
| "replace_text_from old new 0 (c # cs) =
     (if has_prefix (c # cs) old then new @ replace_text_from old new (length old - 1) cs
      else c # replace_text_from old new 0 cs)"

definition replace_text :: "string \<Rightarrow> string \<Rightarrow> string \<Rightarrow> string" where
  "replace_text old new s = replace_text_from old new 0 s"

definition unwrapCommand :: "jtext \<Rightarrow> string" where
  "unwrapCommand payload =
     (let s = trim_space (jt_text payload);
          fallback = (case jt_parse payload of
              Some (JStr str) \<Rightarrow> str
            | Some JNull \<Rightarrow> []
            | _ \<Rightarrow> if s = [] then ''true'' else s) in
      if has_prefix s [CHR 0x7B] \<and> s \<noteq> [] \<and> last s = CHR 0x7D then
        (case Option.bind (jt_parse payload) (\<lambda>j. Option.bind (jfields j) (jstr_field ''cmd'')) of
           Some cmd \<Rightarrow> if cmd \<noteq> [] then cmd else fallback
         | None \<Rightarrow> fallback)
      else fallback)"

definition CommandFromPayload :: "jtext \<Rightarrow> string" where
  "CommandFromPayload payload = unwrapCommand payload"

definition mustache :: "string \<Rightarrow> string" where
  "mustache w = [CHR 0x7B, CHR 0x7B] @ w @ [CHR 0x7D, CHR 0x7D]"

definition render :: "command_executor \<Rightarrow> task \<Rightarrow> string" where
  "render e t =
     (if ce_Template e = [] then unwrapCommand (Payload t)
      else replace_text (mustache ''PAYLOAD'') (jt_text (Payload t))
        (replace_text (mustache ''TYPE'') (Type t)
          (replace_text (mustache ''PROJECT'') (Project t)
            (replace_text (mustache ''ID'') (ID t) (ce_Template e)))))"

definition quoteSh :: "string \<Rightarrow> string" where
  "quoteSh s = [CHR 0x27] @ replace_text [CHR 0x27] ([CHR 0x27] @ ''+'' @ [CHR 0x22, CHR 0x27, CHR 0x22] @ ''+'' @ [CHR 0x27]) s @ [CHR 0x27]"

definition limited :: "command_executor \<Rightarrow> string \<Rightarrow> string" where
  "limited e line =
     (if ce_MemoryLimitMB e \<le> 0 \<and> ce_Nice e = 0 then line
      else ''exec'' @ (if ce_Nice e \<noteq> 0 then '' nice -n '' @ show_int (ce_Nice e) else [])
        @ (if ce_MemoryLimitMB e > 0 then
             '' sh -c '' @ [CHR 0x27] @ ''ulimit -v '' @ show_int (wrap64 (ce_MemoryLimitMB e * 1024)) @ ''; '' @ line @ [CHR 0x27]
           else '' sh -c '' @ quoteSh line))"

text \<open>What the process left: nothing on success, else its error (with its exit code) and its output.\<close>

definition command_Execute :: "command_executor \<Rightarrow> bool \<Rightarrow> (string \<Rightarrow> (exec_err \<times> int \<times> string) option) \<Rightarrow> exec_err option \<Rightarrow> task
    \<Rightarrow> exec_err option \<times> failure_evidence option" where
  "command_Execute e active shell ctxErr t =
     (case shell (limited e (render e t)) of
        None \<Rightarrow> (None, None)
      | Some (err, code, output) \<Rightarrow>
          let tail = tailBytes active output 4096;
              evidence = no_evidence\<lparr>fe_Stage := ''command'', fe_ExitCode := code, fe_Tail := tail\<rparr> in
          (case ctxErr of
             Some c \<Rightarrow> (Some ((PlainError, ''command cancelled ('' @ err_text c @ ''): '' @ tail) # c), Some evidence)
           | None \<Rightarrow> (Some (Permanent ((PlainError, ''command failed: '' @ err_text err @ '': '' @ tail) # err)), Some evidence)))"

section \<open>The shell's quoting\<close>

text \<open>
  A word of the shell: text in single quotes is literal, text in double quotes without a backslash, a
  dollar or a backquote is literal, other characters stand for themselves; \<open>None\<close> when a quote is not
  closed or a character has another meaning.
\<close>

datatype quoting = Bare | InSingle | InDouble

fun sh_word :: "quoting \<Rightarrow> string \<Rightarrow> string option" where
  "sh_word q [] = (if q = Bare then Some [] else None)"
| "sh_word InSingle (c # cs) = (if c = CHR 0x27 then sh_word Bare cs else map_option ((#) c) (sh_word InSingle cs))"
| "sh_word InDouble (c # cs) =
     (if c = CHR 0x22 then sh_word Bare cs
      else if c \<in> {CHR 0x5C, CHR ''$'', CHR 0x60} then None else map_option ((#) c) (sh_word InDouble cs))"
| "sh_word Bare (c # cs) =
     (if c = CHR 0x27 then sh_word InSingle cs
      else if c = CHR 0x22 then sh_word InDouble cs
      else if c \<in> {CHR 0x5C, CHR ''$'', CHR 0x60, CHR '' '', CHR 0x09, CHR 0x0A, CHR '';'', CHR ''&'', CHR ''|'', CHR ''<'', CHR ''>'', CHR ''('', CHR '')''}
      then None else map_option ((#) c) (sh_word Bare cs))"

lemma replace_text_absent: "a \<notin> set s \<Longrightarrow> replace_text [a] new s = s"
proof -
  assume "a \<notin> set s"
  then have "replace_text_from [a] new 0 s = s" by (induction s) (auto simp: has_prefix_def)
  then show ?thesis by (simp add: replace_text_def)
qed

lemma sh_word_single: "CHR 0x27 \<notin> set s \<Longrightarrow> sh_word InSingle (s @ [CHR 0x27]) = Some s"
  by (induction s) auto

text \<open>
  Quoting works exactly on lines without a single quote. Such a line reaches the shell unchanged as one
  word; a line with a single quote does not: the quote comes back between two plus signs, and under a
  memory limit, where the line is not quoted at all, it ends the word early.
\<close>

theorem quoteSh_breaks_on_quotes:
  "(CHR 0x27 \<notin> set s \<longrightarrow> sh_word Bare (quoteSh s) = Some s)
   \<and> sh_word Bare (quoteSh (''a'' @ [CHR 0x27] @ ''b'')) = Some (''a+'' @ [CHR 0x27] @ ''+b'')
   \<and> limited \<lparr>ce_Template = [], ce_MemoryLimitMB = 1, ce_Nice = 0\<rparr> (''echo '' @ [CHR 0x27] @ ''a b'' @ [CHR 0x27])
      = ''exec sh -c '' @ [CHR 0x27] @ ''ulimit -v 1024; echo '' @ [CHR 0x27] @ ''a b'' @ [CHR 0x27, CHR 0x27]
   \<and> sh_word Bare ([CHR 0x27] @ ''ulimit -v 1024; echo '' @ [CHR 0x27] @ ''a b'' @ [CHR 0x27, CHR 0x27]) = None"
proof (intro conjI impI)
  show "sh_word Bare (quoteSh s) = Some s" if "CHR 0x27 \<notin> set s"
    using that by (simp add: quoteSh_def replace_text_absent sh_word_single)
qed code_simp+

lemma quoteSh_breaks_on_quotes_witness: "sh_word Bare (quoteSh ''go test ./...'') = Some ''go test ./...''"
  using quoteSh_breaks_on_quotes [of "''go test ./...''"] by simp

end
