(* ===== verification/Tq_Incident.thy ===== *)
theory Tq_Incident
  imports Tq_Watermark Tq_Verify
begin

text \<open>
  Package \<open>internal/incident\<close>: error reports with their bounds and fingerprint (\<open>incident.go\<close>), the fold of
  journal facts into incidents (\<open>fold.go\<close>), the policy that mints fix tasks (\<open>policy.go\<close>) and the
  recorder (\<open>recorder.go\<close>). The hash function, the store's \<open>Enqueue\<close>, the fact sink and the rendering of
  a time are arguments. JSON names are matched exactly.
\<close>

section \<open>Reports\<close>

definition IDPrefix :: string where "IDPrefix = ''incident:''"
definition KindClient :: string where "KindClient = ''client''"
definition KindServer :: string where "KindServer = ''server''"
definition MaxMessage :: nat where "MaxMessage = 4096"
definition MaxStack :: nat where "MaxStack = 8192"
definition MaxBreadcrumbs :: nat where "MaxBreadcrumbs = 20"
definition MaxCrumb :: nat where "MaxCrumb = 256"
definition MaxShort :: nat where "MaxShort = 256"

text \<open>\<open>OccurredAt\<close> is kept as its RFC 3339 text: nothing in the package reads it as a time.\<close>

record report =
  rp_Project :: string
  rp_Kind :: string
  rp_Message :: string
  rp_Stack :: string
  rp_Release :: string
  rp_Route :: string
  rp_Method :: string
  rp_TraceURL :: string
  rp_SessionID :: string
  rp_Breadcrumbs :: "string list"
  rp_OccurredAt :: string

definition no_report :: report where
  "no_report = \<lparr>rp_Project = [], rp_Kind = [], rp_Message = [], rp_Stack = [], rp_Release = [], rp_Route = [], rp_Method = [],
     rp_TraceURL = [], rp_SessionID = [], rp_Breadcrumbs = [], rp_OccurredAt = ''0001-01-01T00:00:00Z''\<rparr>"

datatype report_error = ProjectRequired | MessageRequired | BadKind

definition Validate :: "report \<Rightarrow> report_error option" where
  "Validate r =
     (if trim_space (rp_Project r) = [] then Some ProjectRequired
      else if trim_space (rp_Message r) = [] then Some MessageRequired
      else if rp_Kind r \<noteq> [] \<and> rp_Kind r \<noteq> KindClient \<and> rp_Kind r \<noteq> KindServer then Some BadKind
      else None)"

definition clipStr :: "string \<Rightarrow> nat \<Rightarrow> string" where
  "clipStr s0 mx =
     (let s = trim_space s0 in
      if s = [] then []
      else if mx > 0 \<and> length s > mx then
        (let cut = take mx s; cut1 = (if valid_utf8 s then trim_valid cut else cut) in trim_space cut1)
      else s)"

definition Clip :: "report \<Rightarrow> report" where
  "Clip r =
     (let kind = clipStr (rp_Kind r) MaxShort; bs = rp_Breadcrumbs r;
          kept = (if length bs > MaxBreadcrumbs then drop (length bs - MaxBreadcrumbs) bs else bs) in
      \<lparr>rp_Project = clipStr (rp_Project r) MaxShort, rp_Kind = (if kind = [] then KindServer else kind),
       rp_Message = clipStr (rp_Message r) MaxMessage, rp_Stack = clipStr (rp_Stack r) MaxStack,
       rp_Release = clipStr (rp_Release r) MaxShort, rp_Route = clipStr (rp_Route r) MaxShort,
       rp_Method = clipStr (rp_Method r) MaxShort, rp_TraceURL = clipStr (rp_TraceURL r) MaxShort,
       rp_SessionID = clipStr (rp_SessionID r) MaxShort, rp_Breadcrumbs = map (\<lambda>c. clipStr c MaxCrumb) kept,
       rp_OccurredAt = rp_OccurredAt r\<rparr>)"

definition digitRun :: re where "digitRun = plus1 (Chr digit)"

definition quotedRun :: re where
  "quotedRun = alts [cats [lit [CHR 0x22], star (Chr (\<lambda>c. c \<noteq> CHR 0x22)), lit [CHR 0x22]],
                     cats [lit [CHR 0x27], star (Chr (\<lambda>c. c \<noteq> CHR 0x27)), lit [CHR 0x27]]]"

definition spaceRun :: re where "spaceRun = plus1 blank"

definition normalize :: "string \<Rightarrow> string" where
  "normalize s = replace_all spaceRun '' '' (replace_all digitRun ''#''
     (replace_all quotedRun ([CHR 0x22] @ ellipsis @ [CHR 0x22]) s))"

definition trim_prefix :: "string \<Rightarrow> string \<Rightarrow> string" where
  "trim_prefix s p = (if has_prefix s p then drop (length p) s else s)"

fun first_frame :: "string list \<Rightarrow> string" where
  "first_frame [] = []"
| "first_frame (l # ls) =
     (let line = trim_space l; line1 = trim_prefix line ''at '' in
      if line = [] then first_frame ls
      else if has_prefix line1 ''goroutine '' \<or> has_prefix line1 ''created by '' then first_frame ls
      else line1)"

definition TopFrame :: "string \<Rightarrow> string" where
  "TopFrame stack = first_frame (lines_of stack)"

text \<open>\<open>digest\<close> is the hash in hexadecimal.\<close>

definition Fingerprint :: "(string \<Rightarrow> string) \<Rightarrow> report \<Rightarrow> string" where
  "Fingerprint digest r =
     take 16 (digest (rp_Project r @ [CHR 0x00] @ rp_Kind r @ [CHR 0x00] @ normalize (rp_Message r) @ [CHR 0x00] @ normalize (TopFrame (rp_Stack r))))"

definition IncidentID :: "string \<Rightarrow> string" where
  "IncidentID fingerprint = IDPrefix @ fingerprint"

definition FingerprintOfID :: "string \<Rightarrow> string" where
  "FingerprintOfID i = trim_prefix i IDPrefix"

lemma FingerprintOfID_IncidentID [simp]: "FingerprintOfID (IncidentID fp) = fp" "has_prefix (IncidentID fp) IDPrefix"
  by (simp_all add: FingerprintOfID_def IncidentID_def trim_prefix_def has_prefix_def)

lemma incident_id_inj: "has_prefix i IDPrefix \<Longrightarrow> IncidentID (FingerprintOfID i) = i"
  by (simp add: IncidentID_def FingerprintOfID_def trim_prefix_def has_prefix_def) (metis append_take_drop_id)

section \<open>The fold\<close>

datatype istatus = StatusOpen | StatusFixDispatched | StatusResolved | StatusFixFailed

record mint =
  mi_TaskID :: string
  mi_SourceSeq :: int
  mi_Regression :: bool
  mi_Priority :: int
  mi_Outcome :: string
  mi_DoneSeq :: int

definition mint_terminal :: "mint \<Rightarrow> bool" where
  "mint_terminal m \<longleftrightarrow> mi_Outcome m \<noteq> []"

record incident =
  ic_Fingerprint :: string
  ic_Project :: string
  ic_Kind :: string
  ic_Message :: string
  ic_FirstSeen :: go_time
  ic_LastSeen :: go_time
  ic_Occurrences :: int
  ic_Regressions :: int
  ic_Status :: istatus
  ic_Mints :: "mint list"

record istate =
  is_lastSeq :: int
  is_order :: "string list"
  is_byFP :: "string \<Rightarrow> incident option"
  is_byTask :: "string \<Rightarrow> string option"

definition NewState :: istate where
  "NewState = \<lparr>is_lastSeq = 0, is_order = [], is_byFP = (\<lambda>_. None), is_byTask = (\<lambda>_. None)\<rparr>"

definition fresh_incident :: "string \<Rightarrow> incident" where
  "fresh_incident fp = \<lparr>ic_Fingerprint = fp, ic_Project = [], ic_Kind = [], ic_Message = [], ic_FirstSeen = zero_time, ic_LastSeen = zero_time,
     ic_Occurrences = 0, ic_Regressions = 0, ic_Status = StatusOpen, ic_Mints = []\<rparr>"

text \<open>\<open>State.incident\<close>: the incident, created when it is new.\<close>

definition state_incident :: "string \<Rightarrow> istate \<Rightarrow> incident \<times> istate" where
  "state_incident fp s =
     (case is_byFP s fp of
        Some inc \<Rightarrow> (inc, s)
      | None \<Rightarrow> (fresh_incident fp, s\<lparr>is_byFP := (is_byFP s)(fp \<mapsto> fresh_incident fp), is_order := is_order s @ [fp]\<rparr>))"

definition put_incident :: "string \<Rightarrow> incident \<Rightarrow> istate \<Rightarrow> istate" where
  "put_incident fp inc s = s\<lparr>is_byFP := (is_byFP s)(fp \<mapsto> inc)\<rparr>"

text \<open>Decoding a report leniently: a field of another kind keeps its zero value.\<close>

definition lenient_str :: "string \<Rightarrow> (string \<times> json) list \<Rightarrow> string" where
  "lenient_str k kvs = (case map_of kvs k of Some (JStr s) \<Rightarrow> s | _ \<Rightarrow> [])"

definition dec_report :: "jtext \<Rightarrow> report" where
  "dec_report d =
     (case jt_parse d of
        Some (JObj kvs) \<Rightarrow>
          \<lparr>rp_Project = lenient_str ''project'' kvs, rp_Kind = lenient_str ''kind'' kvs, rp_Message = lenient_str ''message'' kvs,
           rp_Stack = lenient_str ''stack'' kvs, rp_Release = lenient_str ''release'' kvs, rp_Route = lenient_str ''route'' kvs,
           rp_Method = lenient_str ''method'' kvs, rp_TraceURL = lenient_str ''traceUrl'' kvs, rp_SessionID = lenient_str ''sessionId'' kvs,
           rp_Breadcrumbs = (case map_of kvs ''breadcrumbs'' of
               Some (JArr js) \<Rightarrow> map (\<lambda>j. case j of JStr s \<Rightarrow> s | _ \<Rightarrow> []) js | _ \<Rightarrow> []),
           rp_OccurredAt = lenient_str ''occurredAt'' kvs\<rparr>
      | _ \<Rightarrow> no_report)"

definition or_keep :: "string \<Rightarrow> string \<Rightarrow> string" where
  "or_keep new old = (if new \<noteq> [] then new else old)"

definition observe :: "report \<Rightarrow> go_time \<Rightarrow> bool \<Rightarrow> incident \<Rightarrow> incident" where
  "observe rp now existed inc =
     (let reopen = existed \<and> (ic_Status inc = StatusResolved \<or> ic_Status inc = StatusFixFailed) in
      inc\<lparr>ic_Occurrences := ic_Occurrences inc + 1, ic_Project := or_keep (rp_Project rp) (ic_Project inc),
        ic_Kind := or_keep (rp_Kind rp) (ic_Kind inc), ic_Message := or_keep (rp_Message rp) (ic_Message inc),
        ic_FirstSeen := (if is_zero (ic_FirstSeen inc) then now else ic_FirstSeen inc), ic_LastSeen := now,
        ic_Regressions := (if reopen then ic_Regressions inc + 1 else ic_Regressions inc),
        ic_Status := (if reopen then StatusOpen else ic_Status inc)\<rparr>)"

definition applyObserved :: "fact \<Rightarrow> istate \<Rightarrow> istate" where
  "applyObserved f s =
     (if \<not> has_prefix (TaskID f) IDPrefix then s
      else let fp = FingerprintOfID (TaskID f); existed = is_byFP s fp \<noteq> None in
        case state_incident fp s of
          (inc, s1) \<Rightarrow> put_incident fp (observe (dec_report (Detail f)) (Time f) existed inc) s1)"

definition dec_mint :: "jtext \<Rightarrow> mint option" where
  "dec_mint d =
     do { j \<leftarrow> jt_parse d; kvs \<leftarrow> jfields j; t \<leftarrow> jstr_field ''taskID'' kvs; src \<leftarrow> jint_field ''sourceSeq'' kvs;
          re \<leftarrow> jbool_field ''regression'' kvs; pr \<leftarrow> jint_field ''priority'' kvs; oc \<leftarrow> jstr_field ''outcome'' kvs;
          ds \<leftarrow> jint_field ''doneSeq'' kvs;
          Some \<lparr>mi_TaskID = t, mi_SourceSeq = src, mi_Regression = re, mi_Priority = pr, mi_Outcome = oc, mi_DoneSeq = ds\<rparr> }"

definition applyMinted :: "fact \<Rightarrow> istate \<Rightarrow> istate" where
  "applyMinted f s =
     (if \<not> has_prefix (TaskID f) IDPrefix then s
      else case dec_mint (Detail f) of
        None \<Rightarrow> s
      | Some d \<Rightarrow>
          if mi_TaskID d = [] then s
          else let fp = FingerprintOfID (TaskID f) in
            (case state_incident fp s of
               (inc, s1) \<Rightarrow>
                 if list_ex (\<lambda>m. mi_TaskID m = mi_TaskID d) (ic_Mints inc) then s1
                 else (put_incident fp
                        (inc\<lparr>ic_Mints := ic_Mints inc @ [d\<lparr>mi_Outcome := []\<rparr>],
                             ic_Status := (if ic_Status inc = StatusOpen then StatusFixDispatched else ic_Status inc)\<rparr>) s1)
                        \<lparr>is_byTask := (is_byTask s1)(mi_TaskID d \<mapsto> fp)\<rparr>))"

definition latestMint :: "incident \<Rightarrow> mint option" where
  "latestMint inc = (if ic_Mints inc = [] then None else Some (last (ic_Mints inc)))"

definition applyTaskTerminal :: "fact \<Rightarrow> istate \<Rightarrow> istate" where
  "applyTaskTerminal f s =
     (case is_byTask s (TaskID f) of
        None \<Rightarrow> s
      | Some fp \<Rightarrow>
          (case is_byFP s fp of
             None \<Rightarrow> s
           | Some inc \<Rightarrow>
               let outcome = (if FType f = F_DeadLettered then ''dead'' else ''completed'');
                   mints = map (\<lambda>m. if mi_TaskID m = TaskID f \<and> \<not> mint_terminal m then m\<lparr>mi_Outcome := outcome, mi_DoneSeq := Seq f\<rparr> else m) (ic_Mints inc);
                   inc1 = inc\<lparr>ic_Mints := mints\<rparr>;
                   status = (case latestMint inc1 of
                       Some m \<Rightarrow> if mi_TaskID m = TaskID f then (if outcome = ''completed'' then StatusResolved else StatusFixFailed) else ic_Status inc
                     | None \<Rightarrow> ic_Status inc) in
               put_incident fp (inc1\<lparr>ic_Status := status\<rparr>) s))"

definition Apply :: "fact \<Rightarrow> istate \<Rightarrow> bool \<times> istate" where
  "Apply f s =
     (if Seq f \<le> is_lastSeq s then (False, s)
      else let s1 = s\<lparr>is_lastSeq := Seq f\<rparr> in
        (True, if FType f = F_ErrorObserved then applyObserved f s1
               else if FType f = F_IncidentTaskMinted then applyMinted f s1
               else if FType f = F_Completed \<or> FType f = F_DeadLettered then applyTaskTerminal f s1
               else s1))"

abbreviation apply_fact :: "fact \<Rightarrow> istate \<Rightarrow> istate" where "apply_fact f s \<equiv> snd (Apply f s)"

definition Incidents :: "istate \<Rightarrow> incident list" where
  "Incidents s = map (\<lambda>fp. the (is_byFP s fp)) (is_order s)"

definition FingerprintOfTask :: "istate \<Rightarrow> string \<Rightarrow> string" where
  "FingerprintOfTask s t = (case is_byTask s t of None \<Rightarrow> [] | Some fp \<Rightarrow> fp)"

section \<open>The policy\<close>

definition ConsumerKey :: string where "ConsumerKey = ''incident-policy''"
definition TaskDedupPrefix :: string where "TaskDedupPrefix = ''err:''"
definition DefaultFirstPriority :: int where "DefaultFirstPriority = 120"
definition DefaultRegressionPriority :: int where "DefaultRegressionPriority = 150"
definition FixMaxAttempts :: int where "FixMaxAttempts = 2"

record policy_config =
  pc_PageSize :: int
  pc_FirstPriority :: int
  pc_RegressionPriority :: int
  pc_MaxAttempts :: int

definition policy_defaults :: "policy_config \<Rightarrow> policy_config" where
  "policy_defaults c =
     c\<lparr>pc_FirstPriority := (if pc_FirstPriority c \<le> 0 then DefaultFirstPriority else pc_FirstPriority c),
       pc_RegressionPriority := (if pc_RegressionPriority c \<le> 0 then DefaultRegressionPriority else pc_RegressionPriority c),
       pc_MaxAttempts := (if pc_MaxAttempts c \<le> 0 then FixMaxAttempts else pc_MaxAttempts c)\<rparr>"

record policy_stats =
  pt_Facts :: int
  pt_TasksMinted :: int
  pt_Occurrences :: int
  pt_Regressions :: int
  pt_Known :: int
  pt_Skipped :: int

definition no_stats :: policy_stats where
  "no_stats = \<lparr>pt_Facts = 0, pt_TasksMinted = 0, pt_Occurrences = 0, pt_Regressions = 0, pt_Known = 0, pt_Skipped = 0\<rparr>"

text \<open>The store the policy runs over, and the policy's memory.\<close>

record 's policy_ops =
  po_source :: "'s source_ops"
  po_Enqueue :: "new_task \<Rightarrow> 's \<Rightarrow> (qerr + task) \<times> 's"
  po_AppendFact :: "fact \<Rightarrow> 's \<Rightarrow> (qerr + unit) \<times> 's"
  po_time :: "go_time \<Rightarrow> string"

record policy =
  po_state :: istate
  po_pending :: "string \<Rightarrow> int option"
  po_stats :: policy_stats

definition TaskDedupKey :: "string \<Rightarrow> int \<Rightarrow> string" where
  "TaskDedupKey fp sq = TaskDedupPrefix @ fp @ '':'' @ show_int sq"

definition itemLine :: "incident \<Rightarrow> string" where
  "itemLine inc = ''error['' @ ic_Fingerprint inc @ ''] '' @ ic_Kind inc @ '': '' @ take 80 (ic_Message inc)"

fun frames_from :: "nat \<Rightarrow> string list \<Rightarrow> string list" where
  "frames_from n [] = []"
| "frames_from n (l # ls) =
     (let line = trim_space l in
      if line = [] then frames_from n ls
      else trim_prefix line ''at '' # (if n = 1 then [] else frames_from (n - 1) ls))"

definition topFrames :: "string \<Rightarrow> nat \<Rightarrow> string list" where
  "topFrames stack n = frames_from n (lines_of stack)"

definition nl :: string where "nl = [CHR 0x0A]"

definition prompt_tail :: string where
  "prompt_tail = nl @ ''Constraints:'' @ nl
     @ ''- Fix ONLY the reported error; keep the change minimal and focused.'' @ nl
     @ ''- Client-side stacks may be minified: resolve frames against the source'' @ nl
     @ ''  maps of the pinned release in this repo before editing.'' @ nl
     @ ''- Do not refactor unrelated code, do not touch migrations or secrets.'' @ nl @ nl
     @ ''Verify: the repo'' @ [CHR 0x27] @ ''s verify gate runs automatically after your run (go'' @ nl
     @ ''build + go test for Go repos) '' @ [CHR 0xE2, CHR 0x80, CHR 0x94] @ '' the fix must pass it.''"

definition fixPrompt :: "(go_time \<Rightarrow> string) \<Rightarrow> incident \<Rightarrow> report \<Rightarrow> bool \<Rightarrow> string" where
  "fixPrompt tm inc rp regression =
     ''A production error was observed and you are dispatched to fix it.'' @ nl @ nl
     @ ''Repo: '' @ ic_Project inc @ nl
     @ ''Kind: '' @ ic_Kind inc @ '' error'' @ nl
     @ (if regression then ''REGRESSION: a previous fix task ('' @ mi_TaskID (last (ic_Mints inc)) @ '') did not hold ''
          @ [CHR 0xE2, CHR 0x80, CHR 0x94] @ '' the error recurred after it completed.'' @ nl else [])
     @ ''Occurrences so far: '' @ show_int (ic_Occurrences inc) @ '' (first seen '' @ tm (ic_FirstSeen inc) @ '')'' @ nl @ nl
     @ ''Error:'' @ nl @ ''  '' @ first_line (ic_Message inc) @ nl
     @ (if rp_Stack rp = [] then [] else nl @ ''Top stack frames:'' @ nl
          @ concat (map (\<lambda>(i, line). ''  '' @ show_int i @ ''. '' @ line @ nl)
              (zip [1..int (length (topFrames (rp_Stack rp) 5))] (topFrames (rp_Stack rp) 5))))
     @ (if rp_Release rp = [] then [] else nl @ ''Release: '' @ rp_Release rp @ nl)
     @ (if rp_Route rp = [] then [] else ''Route: '' @ (if rp_Method rp = [] then ''-'' else rp_Method rp) @ '' '' @ rp_Route rp @ nl)
     @ (if rp_TraceURL rp = [] then [] else ''Full trace: '' @ rp_TraceURL rp @ nl)
     @ (if rp_Breadcrumbs rp = [] then [] else nl @ ''Last actions before the error:'' @ nl
          @ concat (map (\<lambda>c. ''  - '' @ c @ nl) (rp_Breadcrumbs rp)))
     @ prompt_tail"

text \<open>The payload of a fix task: the fields of \<open>AgentPayload\<close> that are set, in the order of the struct.\<close>

definition fix_payload :: "string \<Rightarrow> string \<Rightarrow> string \<Rightarrow> string \<Rightarrow> json" where
  "fix_payload repo prompt dedup item =
     JObj ([(''repo'', JStr repo), (''prompt'', JStr prompt), (''v'', jint 1)] @ omit_empty ''dedup'' dedup @ omit_empty ''item'' item)"

definition mint_detail :: "mint \<Rightarrow> json" where
  "mint_detail m =
     JObj ([(''taskID'', JStr (mi_TaskID m)), (''sourceSeq'', jint (mi_SourceSeq m)), (''regression'', JBool (mi_Regression m)),
            (''priority'', jint (mi_Priority m)), (''outcome'', JStr (mi_Outcome m))]
           @ (if mi_DoneSeq m = 0 then [] else [(''doneSeq'', jint (mi_DoneSeq m))]))"

definition incident_fact :: "string \<Rightarrow> fact_type \<Rightarrow> jtext \<Rightarrow> fact" where
  "incident_fact fp ty det = blank_fact\<lparr>TaskID := IncidentID fp, FType := ty, Detail := det\<rparr>"

definition fix_task :: "policy_config \<Rightarrow> (go_time \<Rightarrow> string) \<Rightarrow> incident \<Rightarrow> fact \<Rightarrow> bool \<Rightarrow> new_task" where
  "fix_task cfg tm inc f regression =
     (let dedup = TaskDedupKey (ic_Fingerprint inc) (Seq f) in
      \<lparr>n_Project = ic_Project inc, n_Type = ''agent'',
       n_Payload = marshal (fix_payload (ic_Project inc) (fixPrompt tm inc (dec_report (Detail f)) regression) dedup (itemLine inc)),
       n_Deps = [], n_Priority = (if regression then pc_RegressionPriority cfg else pc_FirstPriority cfg),
       n_MaxAttempts = pc_MaxAttempts cfg, n_NotBefore = zero_time, n_DedupKey = dedup\<rparr>)"

text \<open>\<open>mint\<close>: the enqueue, the fact that records the link, then the guard against a second mint.\<close>

definition mint_fix :: "'s policy_ops \<Rightarrow> policy_config \<Rightarrow> incident \<Rightarrow> fact \<Rightarrow> bool \<Rightarrow> policy \<Rightarrow> 's \<Rightarrow> qerr option \<times> policy \<times> 's" where
  "mint_fix ops cfg inc f regression p s =
     (let n = fix_task cfg (po_time ops) inc f regression in
      case po_Enqueue ops n s of
        (Inl e, s1) \<Rightarrow> (Some e, p, s1)
      | (Inr t, s1) \<Rightarrow>
          (let m = \<lparr>mi_TaskID = ID t, mi_SourceSeq = Seq f, mi_Regression = regression, mi_Priority = n_Priority n,
                    mi_Outcome = [], mi_DoneSeq = 0\<rparr> in
           case po_AppendFact ops (incident_fact (ic_Fingerprint inc) F_IncidentTaskMinted (marshal (mint_detail m))) s1 of
             (Inl e, s2) \<Rightarrow> (Some e, p, s2)
           | (Inr _, s2) \<Rightarrow> (None, p\<lparr>po_pending := (po_pending p)(ic_Fingerprint inc \<mapsto> Seq f)\<rparr>, s2)))"

text \<open>\<open>needsFix\<close> returns whether a fix is needed and whether this very observation was minted before.\<close>

definition needsFix :: "policy \<Rightarrow> string \<Rightarrow> incident \<Rightarrow> int \<Rightarrow> bool \<times> bool" where
  "needsFix p fp inc sq =
     (case po_pending p fp of
        Some pend \<Rightarrow> (False, pend = sq)
      | None \<Rightarrow>
          (if ic_Mints inc = [] then (True, False)
           else let lm = last (ic_Mints inc) in
             if mi_SourceSeq lm = sq then (False, True)
             else if \<not> mint_terminal lm then (False, False)
             else (True, False)))"

definition bump_stats :: "(policy_stats \<Rightarrow> policy_stats) \<Rightarrow> policy \<Rightarrow> policy" where
  "bump_stats g p = p\<lparr>po_stats := g (po_stats p)\<rparr>"

definition reactObserved :: "'s policy_ops \<Rightarrow> policy_config \<Rightarrow> fact \<Rightarrow> policy \<Rightarrow> 's \<Rightarrow> qerr option \<times> policy \<times> 's" where
  "reactObserved ops cfg f p s =
     (if \<not> has_prefix (TaskID f) IDPrefix then (None, bump_stats (\<lambda>t. t\<lparr>pt_Skipped := pt_Skipped t + 1\<rparr>) p, s)
      else let fp = FingerprintOfID (TaskID f) in
        case is_byFP (po_state p) fp of
          None \<Rightarrow> (None, bump_stats (\<lambda>t. t\<lparr>pt_Skipped := pt_Skipped t + 1\<rparr>) p, s)
        | Some inc \<Rightarrow>
            (let p1 = bump_stats (\<lambda>t. t\<lparr>pt_Occurrences := pt_Occurrences t + 1\<rparr>) p in
             case needsFix p1 fp inc (Seq f) of
               (needs, known) \<Rightarrow>
                 if known then (None, bump_stats (\<lambda>t. t\<lparr>pt_Known := pt_Known t + 1\<rparr>) p1, s)
                 else if \<not> needs then (None, p1, s)
                 else let regression = (ic_Mints inc \<noteq> [] \<and> mint_terminal (last (ic_Mints inc)));
                          p2 = (if regression then bump_stats (\<lambda>t. t\<lparr>pt_Regressions := pt_Regressions t + 1\<rparr>) p1 else p1) in
                   (case mint_fix ops cfg inc f regression p2 s of
                      (Some e, p3, s1) \<Rightarrow>
                        if e = ErrTaskDone then (None, bump_stats (\<lambda>t. t\<lparr>pt_Known := pt_Known t + 1\<rparr>) p3, s1)
                        else (Some e, p3, s1)
                    | (None, p3, s1) \<Rightarrow> (None, bump_stats (\<lambda>t. t\<lparr>pt_TasksMinted := pt_TasksMinted t + 1\<rparr>) p3, s1))))"

definition clearPending :: "fact \<Rightarrow> policy \<Rightarrow> policy" where
  "clearPending f p =
     (if \<not> has_prefix (TaskID f) IDPrefix then p
      else case dec_mint (Detail f) of
        None \<Rightarrow> p
      | Some d \<Rightarrow> let fp = FingerprintOfID (TaskID f) in
          if po_pending p fp = Some (mi_SourceSeq d) then p\<lparr>po_pending := (po_pending p)(fp := None)\<rparr> else p)"

definition handleFact :: "'s policy_ops \<Rightarrow> policy_config \<Rightarrow> fact \<Rightarrow> policy \<times> 's \<Rightarrow> (qerr + unit) \<times> policy \<times> 's" where
  "handleFact ops cfg f = (\<lambda>(p, s).
     let p1 = p\<lparr>po_state := apply_fact f (po_state p)\<rparr> in
     if FType f = F_ErrorObserved then
       (case reactObserved ops cfg f p1 s of (e, p2, s1) \<Rightarrow> (case e of None \<Rightarrow> Inr () | Some x \<Rightarrow> Inl x, p2, s1))
     else if FType f = F_IncidentTaskMinted then (Inr (), clearPending f p1, s)
     else (Inr (), p1, s))"

text \<open>\<open>bootstrap\<close> and \<open>FoldAll\<close> page through the journal with the fold's own position.\<close>

fun fold_pages :: "nat \<Rightarrow> 's source_ops \<Rightarrow> 's \<Rightarrow> istate \<Rightarrow> (qerr + istate) option" where
  "fold_pages 0 src s st = None"
| "fold_pages (Suc n) src s st =
     (case src_Facts src (is_lastSeq st) 500 s of
        Inl e \<Rightarrow> Some (Inl e)
      | Inr facts \<Rightarrow>
          let st1 = fold apply_fact facts st in
          if length facts < 500 then Some (Inr st1) else fold_pages n src s st1)"

definition FoldAll :: "nat \<Rightarrow> 's source_ops \<Rightarrow> 's \<Rightarrow> (qerr + istate) option" where
  "FoldAll fuel src s = fold_pages fuel src s NewState"

datatype policy_err = ReplayCheckpoint qerr | CursorErr cursor_err | BootstrapFold qerr

definition NewPolicy :: "nat \<Rightarrow> 's policy_ops \<Rightarrow> policy_config \<Rightarrow> 's \<Rightarrow> ((policy_err + (policy_config \<times> cursor \<times> policy)) \<times> 's) option" where
  "NewPolicy fuel ops cfg0 s =
     (let cfg = policy_defaults cfg0; src = po_source ops;
          first = (case src_Watermark src ConsumerKey s of Inr None \<Rightarrow> src_SaveWatermark src ConsumerKey 0 s | _ \<Rightarrow> (Inr (), s)) in
      case first of
        (Inl e, s1) \<Rightarrow> Some (Inl (ReplayCheckpoint e), s1)
      | (Inr _, s1) \<Rightarrow>
          (case New src ConsumerKey ''incident sweep'' (pc_PageSize cfg) s1 of
             (Inl e, s2) \<Rightarrow> Some (Inl (CursorErr e), s2)
           | (Inr cur, s2) \<Rightarrow>
               (case fold_pages fuel src s2 NewState of
                  None \<Rightarrow> None
                | Some (Inl e) \<Rightarrow> Some (Inl (BootstrapFold e), s2)
                | Some (Inr st) \<Rightarrow>
                    Some (Inr (cfg, cur, \<lparr>po_state = st, po_pending = (\<lambda>_. None), po_stats = no_stats\<rparr>), s2))))"

definition count_fact :: "policy \<Rightarrow> policy" where
  "count_fact = bump_stats (\<lambda>t. t\<lparr>pt_Facts := pt_Facts t + 1\<rparr>)"

definition PolicySweep :: "nat \<Rightarrow> 's policy_ops \<Rightarrow> policy_config \<Rightarrow> cursor \<Rightarrow> policy \<Rightarrow> 's
    \<Rightarrow> (cursor_err option \<times> cursor \<times> (policy \<times> 's) \<times> fact list) option" where
  "PolicySweep fuel ops cfg cur p s =
     Sweep fuel (with_memory (po_source ops)) (\<lambda>f (p, s). handleFact ops cfg f (count_fact p, s)) cur
       (p\<lparr>po_stats := no_stats\<rparr>, s)"

section \<open>The recorder\<close>

definition report_json :: "report \<Rightarrow> json" where
  "report_json r =
     JObj ([(''project'', JStr (rp_Project r)), (''kind'', JStr (rp_Kind r)), (''message'', JStr (rp_Message r))]
       @ omit_empty ''stack'' (rp_Stack r) @ omit_empty ''release'' (rp_Release r) @ omit_empty ''route'' (rp_Route r)
       @ omit_empty ''method'' (rp_Method r) @ omit_empty ''traceUrl'' (rp_TraceURL r) @ omit_empty ''sessionId'' (rp_SessionID r)
       @ (if rp_Breadcrumbs r = [] then [] else [(''breadcrumbs'', JArr (map JStr (rp_Breadcrumbs r)))])
       @ [(''occurredAt'', JStr (rp_OccurredAt r))])"

datatype record_error = InvalidReport report_error | AppendError qerr

definition Record :: "(string \<Rightarrow> string) \<Rightarrow> (fact \<Rightarrow> 's \<Rightarrow> (qerr + unit) \<times> 's) \<Rightarrow> report \<Rightarrow> 's \<Rightarrow> (record_error + string) \<times> 's" where
  "Record digest sink r0 s =
     (let r = Clip r0 in
      case Validate r of
        Some e \<Rightarrow> (Inl (InvalidReport e), s)
      | None \<Rightarrow>
          let fp = Fingerprint digest r in
          (case sink (incident_fact fp F_ErrorObserved (marshal (report_json r))) s of
             (Inl e, s1) \<Rightarrow> (Inl (AppendError e), s1)
           | (Inr _, s1) \<Rightarrow> (Inr (IncidentID fp), s1)))"

section \<open>Properties\<close>

lemma length_clipStr:
  assumes "0 < mx"
  shows "length (clipStr s mx) \<le> mx"
proof -
  have cut: "length (trim_space t) \<le> mx" if "length t \<le> mx" for t
    using length_trim_space [of t] that by simp
  have "length (trim_valid (take mx t)) \<le> mx" for t
    using trim_valid_spec [of "take mx t"] prefix_length_le by fastforce
  then show ?thesis using cut assms by (simp add: clipStr_def Let_def)
qed

lemma valid_clipStr: "valid_utf8 s \<Longrightarrow> valid_utf8 (clipStr s mx)"
  by (auto simp: clipStr_def Let_def valid_trim_space trim_valid_spec)

lemma report_roundtrip: "dec_report (marshal (report_json r)) = r"
  by (cases r) (simp add: dec_report_def report_json_def lenient_str_def omit_empty_def comp_def)



end
