(* ===== verification/Tq_Storm.thy ===== *)
theory Tq_Storm
  imports Tq_Incident Tq_Adapter
begin

text \<open>
  What the incident policy keeps while errors storm in. The locale \<open>fix_store\<close> extends the cursor's source
  with what the policy relies on when it enqueues and journals a fix; inside it the invariant of policy
  and journal is carried through \<open>handleFact\<close>, the pages and the sweeps of the cursor. The sublocale
  \<open>engine_dedup\<close> gives the contract for the SQL-backed store over an engine that honours dedup keys.
\<close>

section \<open>Mints in the journal\<close>

text \<open>The fix a fact links to an incident, as the fold reads it.\<close>

definition mint_of :: "string \<Rightarrow> fact \<Rightarrow> mint option" where
  "mint_of fp f =
     (if FType f = F_IncidentTaskMinted \<and> TaskID f = IncidentID fp
      then case dec_mint (Detail f) of Some d \<Rightarrow> if mi_TaskID d = [] then None else Some d | None \<Rightarrow> None
      else None)"

definition minted :: "string \<Rightarrow> fact list \<Rightarrow> string list" where
  "minted fp J = map mi_TaskID (List.map_filter (mint_of fp) J)"

definition ends :: "string \<Rightarrow> fact \<Rightarrow> bool" where
  "ends t f \<longleftrightarrow> (FType f = F_Completed \<or> FType f = F_DeadLettered) \<and> TaskID f = t"

definition ended :: "fact list \<Rightarrow> string \<Rightarrow> bool" where
  "ended J t \<longleftrightarrow> (\<exists>f\<in>set J. ends t f)"

text \<open>The fix tasks of an incident that are linked to it and have not come to an end.\<close>

definition live_fixes :: "string \<Rightarrow> fact list \<Rightarrow> string list" where
  "live_fixes fp J = filter (\<lambda>t. \<not> ended J t) (remdups (minted fp J))"

definition no_mints :: "fact list \<Rightarrow> bool" where
  "no_mints new \<longleftrightarrow> (\<forall>f\<in>set new. FType f \<noteq> F_IncidentTaskMinted)"

lemma minted_append [simp]: "minted fp (a @ b) = minted fp a @ minted fp b"
  by (simp add: minted_def List.map_filter_def)

lemma minted_Nil [simp]: "minted fp [] = []"
  by (simp add: minted_def List.map_filter_def)

lemma minted_Cons: "minted fp (f # J) = (case mint_of fp f of None \<Rightarrow> [] | Some d \<Rightarrow> [mi_TaskID d]) @ minted fp J"
  by (simp add: minted_def List.map_filter_def split: option.splits)

lemma no_mints_mint_of: "no_mints new \<Longrightarrow> f \<in> set new \<Longrightarrow> mint_of fp f = None"
  by (simp add: no_mints_def mint_of_def)

lemma no_mints_minted [simp]: "no_mints new \<Longrightarrow> minted fp new = []"
  by (induction new) (simp_all add: minted_Cons no_mints_def mint_of_def)

lemma ended_append [simp]: "ended (a @ b) t \<longleftrightarrow> ended a t \<or> ended b t"
  by (auto simp: ended_def)

lemma minted_mem: "t \<in> set (minted fp J) \<longleftrightarrow> (\<exists>f\<in>set J. \<exists>d. mint_of fp f = Some d \<and> mi_TaskID d = t)"
proof (induction J)
  case (Cons f J)
  then show ?case by (cases "mint_of fp f") (auto simp: minted_Cons)
qed simp

text \<open>First occurrences, in order.\<close>

definition firsts :: "'a list \<Rightarrow> 'a list" where
  "firsts xs = rev (remdups (rev xs))"

lemma firsts_simps [simp]: "firsts [] = []" "firsts (xs @ [x]) = (if x \<in> set xs then firsts xs else firsts xs @ [x])"
  "set (firsts xs) = set xs"
  by (simp_all add: firsts_def)

lemma firsts_empty [simp]: "firsts xs = [] \<longleftrightarrow> xs = []"
  by (simp add: firsts_def)

text \<open>A journal in which a new fix was linked only when every other one of the incident had ended.\<close>

definition well_minted :: "fact list \<Rightarrow> bool" where
  "well_minted J \<longleftrightarrow> (\<forall>J1 f J2 fp d. J = J1 @ f # J2 \<longrightarrow> mint_of fp f = Some d \<longrightarrow>
     (\<forall>u\<in>set (minted fp J1). u \<noteq> mi_TaskID d \<longrightarrow> ended J u))"

text \<open>Two links made for the same observation name the same task.\<close>

definition same_source :: "fact list \<Rightarrow> bool" where
  "same_source J \<longleftrightarrow> (\<forall>fp. \<forall>f\<in>set J. \<forall>g\<in>set J. \<forall>a b. mint_of fp f = Some a \<longrightarrow> mint_of fp g = Some b \<longrightarrow>
     mi_SourceSeq a = mi_SourceSeq b \<longrightarrow> mi_TaskID a = mi_TaskID b)"

text \<open>A link names a task.\<close>

definition named :: "fact list \<Rightarrow> bool" where
  "named J \<longleftrightarrow> (\<forall>f\<in>set J. FType f = F_IncidentTaskMinted \<longrightarrow> (\<forall>d. dec_mint (Detail f) = Some d \<longrightarrow> mi_TaskID d \<noteq> []))"

lemma named_simps [simp]: "named (a @ b) \<longleftrightarrow> named a \<and> named b" "no_mints new \<Longrightarrow> named new"
  by (auto simp: named_def no_mints_def)

lemma well_minted_extend:
  assumes "well_minted J" "no_mints new"
  shows "well_minted (J @ new)"
  unfolding well_minted_def
proof (intro allI impI ballI)
  fix J1 f J2 fp d u
  assume split: "J @ new = J1 @ f # J2" and d: "mint_of fp f = Some d" and u: "u \<in> set (minted fp J1)" "u \<noteq> mi_TaskID d"
  have "f \<notin> set new" using no_mints_mint_of [OF assms(2)] d by fastforce
  then obtain J2' where "J = J1 @ f # J2'"
    using split by (auto simp: append_eq_append_conv2 append_eq_Cons_conv Cons_eq_append_conv)
  then have "ended J u" using assms(1) d u unfolding well_minted_def by blast
  then show "ended (J @ new) u" by simp
qed

lemma well_minted_link:
  assumes "well_minted J" "\<And>fp d u. mint_of fp f = Some d \<Longrightarrow> u \<in> set (minted fp J) \<Longrightarrow> u \<noteq> mi_TaskID d \<Longrightarrow> ended J u"
  shows "well_minted (J @ [f])"
  unfolding well_minted_def
proof (intro allI impI ballI)
  fix J1 g J2 fp d u
  assume split: "J @ [f] = J1 @ g # J2" and d: "mint_of fp g = Some d" and u: "u \<in> set (minted fp J1)" "u \<noteq> mi_TaskID d"
  show "ended (J @ [f]) u"
  proof (cases "J2 = []")
    case True
    then show ?thesis using split d u assms(2) by auto
  next
    case False
    then obtain J2' where "J = J1 @ g # J2'" using split by (cases J2 rule: rev_cases) auto
    then have "ended J u" using assms(1) d u unfolding well_minted_def by blast
    then show ?thesis by simp
  qed
qed

text \<open>In such a journal all but the newest fix of an incident have ended.\<close>

lemma older_ended:
  assumes "well_minted (K @ U)" "u \<in> set (minted fp K)" "u \<noteq> last (firsts (minted fp K))"
  shows "ended (K @ U) u"
  using assms
proof (induction K arbitrary: U rule: rev_induct)
  case (snoc f K)
  show ?case
  proof (cases "mint_of fp f")
    case None
    then show ?thesis using snoc.IH [of "f # U"] snoc.prems by (simp add: minted_Cons)
  next
    case (Some d)
    show ?thesis
    proof (cases "mi_TaskID d \<in> set (minted fp K)")
      case True
      then show ?thesis using snoc.IH [of "f # U"] snoc.prems Some by (auto simp: minted_Cons)
    next
      case False
      then have "u \<in> set (minted fp K)" "u \<noteq> mi_TaskID d" using snoc.prems(2,3) Some by (auto simp: minted_Cons)
      moreover have "(K @ [f]) @ U = K @ f # U" by simp
      ultimately show ?thesis using snoc.prems(1) Some unfolding well_minted_def by blast
    qed
  qed
qed simp

lemma well_minted_one_live:
  assumes "well_minted J"
  shows "length (live_fixes fp J) \<le> 1"
proof -
  have "\<forall>t\<in>set (live_fixes fp J). t = last (firsts (minted fp J))"
    using older_ended [of J "[]" _ fp] assms by (auto simp: live_fixes_def)
  moreover have "distinct (live_fixes fp J)" by (simp add: live_fixes_def)
  ultimately show ?thesis 
    by (cases "live_fixes fp J" rule: remdups_adj.cases) auto
qed

section \<open>Mints in the fold\<close>

definition mints_of :: "istate \<Rightarrow> string \<Rightarrow> mint list" where
  "mints_of s fp = (case is_byFP s fp of None \<Rightarrow> [] | Some inc \<Rightarrow> ic_Mints inc)"

lemma mints_state_incident [simp]:
  "mints_of (snd (state_incident fp s)) g = mints_of s g" "ic_Mints (fst (state_incident fp s)) = mints_of s fp"
  by (auto simp: mints_of_def state_incident_def fresh_incident_def split: option.splits)

lemma mints_put [simp]: "mints_of (put_incident fp inc s) g = (if g = fp then ic_Mints inc else mints_of s g)"
  by (simp add: mints_of_def put_incident_def)

lemma mints_lastSeq [simp]: "mints_of (s\<lparr>is_lastSeq := q\<rparr>) = mints_of s" "mints_of (s\<lparr>is_byTask := b\<rparr>) = mints_of s"
  by (simp_all add: mints_of_def fun_eq_iff)

lemma mints_observed [simp]: "mints_of (applyObserved f s) fp = mints_of s fp"
  by (auto simp: applyObserved_def observe_def Let_def split: prod.splits dest: arg_cong [where f=snd] arg_cong [where f=fst])
    (metis fst_conv mints_state_incident snd_conv)+

lemma IncidentID_eq: "has_prefix i IDPrefix \<Longrightarrow> i = IncidentID fp \<longleftrightarrow> FingerprintOfID i = fp"
  using incident_id_inj by auto

lemma mint_of_foreign: "\<not> has_prefix (TaskID f) IDPrefix \<Longrightarrow> mint_of fp f = None"
  by (auto simp: mint_of_def)

lemma mints_minted:
  assumes "FType f = F_IncidentTaskMinted"
  shows "mints_of (applyMinted f s) fp =
     (case mint_of fp f of
        None \<Rightarrow> mints_of s fp
      | Some d \<Rightarrow> if mi_TaskID d \<in> mi_TaskID ` set (mints_of s fp) then mints_of s fp else mints_of s fp @ [d\<lparr>mi_Outcome := []\<rparr>])"
proof (cases "has_prefix (TaskID f) IDPrefix")
  case True
  let ?fp = "FingerprintOfID (TaskID f)"
  obtain inc s1 where i: "state_incident ?fp s = (inc, s1)" by (cases "state_incident ?fp s")
  have f: "ic_Mints inc = mints_of s ?fp" "mints_of s1 g = mints_of s g" for g
    using mints_state_incident [where fp="?fp" and s=s] i by simp_all
  have ex: "list_ex (\<lambda>m. mi_TaskID m = t) (mints_of s ?fp) \<longleftrightarrow> t \<in> mi_TaskID ` set (mints_of s ?fp)" for t
    by (auto simp: list_ex_iff)
  show ?thesis
    using True assms i by (auto simp: applyMinted_def mint_of_def IncidentID_eq ex f Let_def split: option.splits)
qed (simp add: applyMinted_def mint_of_foreign)

lemma mints_terminal_ids: "map mi_TaskID (mints_of (applyTaskTerminal f s) fp) = map mi_TaskID (mints_of s fp)"
  by (auto simp: applyTaskTerminal_def Let_def mints_of_def put_incident_def split: option.splits)

lemma mints_terminal:
  assumes "m \<in> set (mints_of (applyTaskTerminal f s) fp)" "mint_terminal m"
  shows "m \<in> set (mints_of s fp) \<or> mi_TaskID m = TaskID f"
  using assms by (auto simp: applyTaskTerminal_def Let_def mints_of_def put_incident_def split: option.splits if_splits)

lemma lastSeq_parts [simp]: "is_lastSeq (applyObserved f s) = is_lastSeq s" "is_lastSeq (applyMinted f s) = is_lastSeq s"
  "is_lastSeq (applyTaskTerminal f s) = is_lastSeq s"
  by (auto simp: applyObserved_def applyMinted_def applyTaskTerminal_def put_incident_def state_incident_def Let_def
      split: option.splits prod.splits)

lemma Apply_lastSeq [simp]: "is_lastSeq (apply_fact f s) = max (is_lastSeq s) (Seq f)"
  by (simp add: Apply_def Let_def)

lemma Apply_old [simp]: "Seq f \<le> is_lastSeq s \<Longrightarrow> apply_fact f s = s"
  by (simp add: Apply_def)

text \<open>What one new fact does to the fixes of an incident.\<close>

lemma Apply_ids:
  assumes "is_lastSeq s < Seq f" "map mi_TaskID (mints_of s fp) = firsts (minted fp K)"
  shows "map mi_TaskID (mints_of (apply_fact f s) fp) = firsts (minted fp (K @ [f]))"
proof -
  have mem: "t \<in> mi_TaskID ` set (mints_of s fp) \<longleftrightarrow> t \<in> set (minted fp K)" for t
    using arg_cong [OF assms(2), of set] by auto
  show ?thesis
  proof (cases "FType f = F_IncidentTaskMinted")
    case True
    then show ?thesis using assms
      by (cases "mint_of fp f") (simp_all add: Apply_def Let_def mints_minted mem minted_Cons)
  next
    case False
    then have "mint_of fp f = None" by (simp add: mint_of_def)
    then show ?thesis using assms False by (simp add: Apply_def Let_def minted_Cons mints_terminal_ids)
  qed
qed

lemma Apply_terminal:
  assumes "m \<in> set (mints_of (apply_fact f s) fp)" "mint_terminal m"
  shows "m \<in> set (mints_of s fp) \<or> ends (mi_TaskID m) f"
proof (cases "FType f = F_IncidentTaskMinted")
  case True
  then have "mints_of (apply_fact f s) fp = mints_of s fp \<or> (\<exists>d. mints_of (apply_fact f s) fp = mints_of s fp @ [d\<lparr>mi_Outcome := []\<rparr>])"
    by (auto simp: Apply_def Let_def mints_minted split: option.splits)
  then show ?thesis using assms by (auto simp: mint_terminal_def)
next
  case False
  then show ?thesis using assms mints_terminal [of m f "s\<lparr>is_lastSeq := Seq f\<rparr>" fp]
    by (auto simp: Apply_def Let_def ends_def split: if_splits)
qed

lemma dec_mint_detail:
  assumes "dec_mint (marshal (mint_detail m)) = Some d"
  shows "d = m"
  using assms by (cases m)
    (auto simp: dec_mint_def mint_detail_def dec_simps bind_eq_Some_conv split: if_splits)

text \<open>Incidents are filed under their fingerprint.\<close>

definition filed :: "istate \<Rightarrow> bool" where
  "filed s \<longleftrightarrow> (\<forall>fp inc. is_byFP s fp = Some inc \<longrightarrow> ic_Fingerprint inc = fp)"

lemma filed_parts:
  "filed s \<Longrightarrow> state_incident fp s = (inc, s1) \<Longrightarrow> filed s1 \<and> ic_Fingerprint inc = fp"
  "filed s \<Longrightarrow> ic_Fingerprint inc = fp \<Longrightarrow> filed (put_incident fp inc s)"
  by (auto simp: filed_def state_incident_def put_incident_def fresh_incident_def split: option.splits if_splits)

lemma filed_byTask [simp]: "filed (s\<lparr>is_byTask := b\<rparr>) = filed s" "filed (s\<lparr>is_lastSeq := q\<rparr>) = filed s"
  by (simp_all add: filed_def)

lemma filed_observed: "filed s \<Longrightarrow> filed (applyObserved f s)"
  by (auto simp: applyObserved_def observe_def Let_def dest: filed_parts(1) intro!: filed_parts(2) split: prod.splits)

lemma filed_minted: "filed s \<Longrightarrow> filed (applyMinted f s)"
  by (auto simp: applyMinted_def Let_def dest: filed_parts(1) intro!: filed_parts(2) split: prod.splits option.splits)

lemma filed_terminal: "filed s \<Longrightarrow> filed (applyTaskTerminal f s)"
  by (auto simp: applyTaskTerminal_def Let_def intro!: filed_parts(2) split: option.splits) (auto simp: filed_def)

lemma filed_apply: "filed s \<Longrightarrow> filed (apply_fact f s)"
  by (simp add: Apply_def Let_def filed_observed filed_minted filed_terminal)

section \<open>The invariant of policy and journal\<close>

text \<open>
  The fold has read a prefix of the journal. Every link it has not read yet is guarded by the pending
  map, or names a fix it knows already.
\<close>

definition folded :: "istate \<Rightarrow> fact list \<Rightarrow> fact list \<Rightarrow> bool" where
  "folded st K U \<longleftrightarrow> (\<forall>f\<in>set K. Seq f \<le> is_lastSeq st) \<and> (\<forall>f\<in>set U. is_lastSeq st < Seq f)
     \<and> (\<forall>fp. map mi_TaskID (mints_of st fp) = firsts (minted fp K)
          \<and> (\<forall>m\<in>set (mints_of st fp). mint_terminal m \<longrightarrow> ended K (mi_TaskID m)))"

definition guarded :: "policy \<Rightarrow> fact list \<Rightarrow> fact list \<Rightarrow> bool" where
  "guarded p K U \<longleftrightarrow> (\<forall>fp. \<forall>f\<in>set U. \<forall>d. mint_of fp f = Some d \<longrightarrow>
     po_pending p fp = Some (mi_SourceSeq d) \<or> mi_TaskID d \<in> set (minted fp K))"

definition storm_ok :: "policy \<Rightarrow> fact list \<Rightarrow> bool" where
  "storm_ok p J \<longleftrightarrow> well_minted J \<and> same_source J \<and> named J
     \<and> (\<exists>K U. J = K @ U \<and> folded (po_state p) K U \<and> guarded p K U)"

lemma guarded_cong: "po_pending p' = po_pending p \<Longrightarrow> guarded p' K U \<longleftrightarrow> guarded p K U"
  by (simp add: guarded_def)

lemma storm_okI:
  "well_minted (K @ U) \<Longrightarrow> same_source (K @ U) \<Longrightarrow> named (K @ U) \<Longrightarrow> folded (po_state p) K U \<Longrightarrow> guarded p K U \<Longrightarrow> storm_ok p (K @ U)"
  by (auto simp: storm_ok_def)

lemma storm_ok_cong: "po_state p' = po_state p \<Longrightarrow> po_pending p' = po_pending p \<Longrightarrow> storm_ok p' J \<longleftrightarrow> storm_ok p J"
  by (simp add: storm_ok_def guarded_def)

lemma folded_apply:
  assumes "folded st K (f # U)" "seq_sorted (K @ f # U)"
  shows "folded (apply_fact f st) (K @ [f]) U"
proof -
  have new: "is_lastSeq st < Seq f" using assms(1) by (simp add: folded_def)
  have later: "\<forall>g\<in>set U. Seq f < Seq g" using assms(2) by (auto simp: seq_sorted_def sorted_wrt_append)
  have "map mi_TaskID (mints_of (apply_fact f st) fp) = firsts (minted fp (K @ [f]))" for fp
    using Apply_ids [OF new] assms(1) by (simp add: folded_def)
  moreover have "ended (K @ [f]) (mi_TaskID m)" if "m \<in> set (mints_of (apply_fact f st) fp)" "mint_terminal m" for m fp
    using Apply_terminal [OF that] assms(1) that(2) by (auto simp: folded_def ended_def)
  ultimately show ?thesis using assms(1) later new by (auto simp: folded_def intro: order_trans)
qed

text \<open>Facts others append, or a store appends on its own.\<close>

lemma storm_ok_extend:
  assumes "storm_ok p J" "no_mints new" "seq_sorted (J @ new)" "is_lastSeq (po_state p) \<le> upto_seq 0 J" "\<forall>f\<in>set new. 0 < Seq f"
  shows "storm_ok p (J @ new)"
proof -
  obtain K U where J: "J = K @ U" "folded (po_state p) K U" "guarded p K U"
    using assms(1) by (auto simp: storm_ok_def)
  have "\<forall>f\<in>set new. is_lastSeq (po_state p) < Seq f"
  proof
    fix f assume f: "f \<in> set new"
    show "is_lastSeq (po_state p) < Seq f"
    proof (cases "J = []")
      case True
      then show ?thesis using assms(4,5) f by fastforce
    next
      case False
      then have "Seq (last J) < Seq f" using assms(3) f by (auto simp: seq_sorted_def sorted_wrt_append)
      then show ?thesis using assms(4) False by (simp add: upto_seq_def)
    qed
  qed
  then have "folded (po_state p) K (U @ new)" using J(2) by (auto simp: folded_def)
  moreover have "guarded p K (U @ new)" using J(3) no_mints_mint_of [OF assms(2)] by (fastforce simp: guarded_def)
  moreover have "same_source (J @ new)"
    using assms(1) no_mints_mint_of [OF assms(2)] unfolding storm_ok_def same_source_def by fastforce
  moreover have "well_minted (J @ new)" using assms(1,2) by (simp add: storm_ok_def well_minted_extend)
  moreover have "named (J @ new)" using assms(1,2) by (simp add: storm_ok_def)
  ultimately show ?thesis using storm_okI [of K "U @ new" p] J(1) by simp
qed

text \<open>A fix is linked only where no other one of the incident can be alive.\<close>

lemma needsFix_all_ended:
  assumes "storm_ok p J" "is_byFP (po_state p) fp = Some inc" "needsFix p fp inc q = (True, False)" "u \<in> set (minted fp J)"
  shows "ended J u"
proof -
  obtain K U where J: "J = K @ U" "folded (po_state p) K U" "guarded p K U" and wm: "well_minted J"
    using assms(1) by (auto simp: storm_ok_def)
  have pend: "po_pending p fp = None" using assms(3) by (auto simp: needsFix_def split: option.splits)
  have "set (minted fp U) \<subseteq> set (minted fp K)" 
    using J(3) pend by (fastforce simp: guarded_def minted_mem [of _ fp U])
  then have u: "u \<in> set (minted fp K)" using assms(4) J(1) by auto
  have "mints_of (po_state p) fp = ic_Mints inc" using assms(2) by (simp add: mints_of_def)
  then have ids: "map mi_TaskID (ic_Mints inc) = firsts (minted fp K)" using J(2) unfolding folded_def by metis
  have ne: "ic_Mints inc \<noteq> []"
  proof
    assume "ic_Mints inc = []"
    then have "firsts (minted fp K) = []" using ids by simp
    then show False using u by simp
  qed
  then have fin: "mint_terminal (last (ic_Mints inc))"
    using assms(3) pend by (auto simp: needsFix_def Let_def split: if_splits)
  show ?thesis
  proof (cases "u = last (firsts (minted fp K))")
    case True
    then have "u = mi_TaskID (last (ic_Mints inc))" using ids ne by (metis last_map)
    moreover have "last (ic_Mints inc) \<in> set (mints_of (po_state p) fp)" using assms(2) ne by (simp add: mints_of_def)
    ultimately show ?thesis using J(1,2) fin by (auto simp: folded_def)
  next
    case False
    then show ?thesis using older_ended [of K U u fp] wm J(1) u by simp
  qed
qed

text \<open>The new link, guarded.\<close>

lemma storm_ok_link:
  assumes "storm_ok p J" "\<And>u. u \<in> set (minted fp J) \<Longrightarrow> ended J u"
    and "\<And>g d. mint_of g f = Some d \<Longrightarrow> g = fp \<and> mi_SourceSeq d = q \<and> mi_TaskID d = t"
    and "\<And>g a. g \<in> set J \<Longrightarrow> mint_of fp g = Some a \<Longrightarrow> mi_SourceSeq a = q \<Longrightarrow> mi_TaskID a = t"
    and "po_pending p fp = None" "is_lastSeq (po_state p) < Seq f" "named [f]"
  shows "storm_ok (p\<lparr>po_pending := (po_pending p)(fp \<mapsto> q)\<rparr>) (J @ [f])"
proof -
  obtain K U where J: "J = K @ U" "folded (po_state p) K U" "guarded p K U" and wm: "well_minted J" "same_source J" "named J"
    using assms(1) by (auto simp: storm_ok_def)
  have "well_minted (J @ [f])" using well_minted_link [OF wm(1), of f] assms(2,3) by metis
  moreover have "same_source (J @ [f])"
    unfolding same_source_def
  proof (intro allI ballI impI)
    fix g x y a b
    assume x: "x \<in> set (J @ [f])" "mint_of g x = Some a" and y: "y \<in> set (J @ [f])" "mint_of g y = Some b"
      and eq: "mi_SourceSeq a = mi_SourceSeq b"
    have id_t: "mi_TaskID c = t" if "z \<in> set (J @ [f])" "mint_of g z = Some c" "mi_SourceSeq c = q" "g = fp" for z c
      using assms(3) [of g c] assms(4) [of z c] that by auto
    show "mi_TaskID a = mi_TaskID b"
    proof (cases "x \<in> set J \<and> y \<in> set J")
      case True
      then show ?thesis using wm(2) x(2) y(2) eq unfolding same_source_def by blast
    next
      case False
      then have "g = fp \<and> mi_SourceSeq a = q" using assms(3) [of g a] assms(3) [of g b] x y eq by auto
      then show ?thesis using id_t [OF x] id_t [OF y] eq by simp
    qed
  qed
  moreover have "folded (po_state p) K (U @ [f])" using J(2) assms(6) by (auto simp: folded_def)
  moreover have "guarded (p\<lparr>po_pending := (po_pending p)(fp \<mapsto> q)\<rparr>) K (U @ [f])"
    unfolding guarded_def
  proof (intro allI ballI impI)
    fix g x d assume x: "x \<in> set (U @ [f])" "mint_of g x = Some d"
    show "po_pending (p\<lparr>po_pending := (po_pending p)(fp \<mapsto> q)\<rparr>) g = Some (mi_SourceSeq d) \<or> mi_TaskID d \<in> set (minted g K)"
    proof (cases "x = f")
      case True
      then show ?thesis using assms(3) [of g d] x(2) by simp
    next
      case False
      then show ?thesis using J(3) x assms(5) unfolding guarded_def by (cases "g = fp") fastforce+
    qed
  qed
  ultimately show ?thesis using storm_okI [of K "U @ [f]" "p\<lparr>po_pending := (po_pending p)(fp \<mapsto> q)\<rparr>"] J(1) wm(3) assms(7) by simp
qed

text \<open>Folding the next fact, and dropping the guard when the link has come back.\<close>

lemma storm_ok_fold:
  assumes "storm_ok p J" "seq_sorted J" "J = A @ f # B" "\<forall>a\<in>set A. Seq a \<le> is_lastSeq (po_state p)"
  shows "storm_ok (p\<lparr>po_state := apply_fact f (po_state p)\<rparr>) J"
proof (cases "Seq f \<le> is_lastSeq (po_state p)")
  case True
  then show ?thesis using assms(1) by simp
next
  case False
  obtain K U where J: "J = K @ U" "folded (po_state p) K U" "guarded p K U" using assms(1) by (auto simp: storm_ok_def)
  have "K = A \<and> U = f # B"
  proof -
    have "filter (\<lambda>g. Seq g \<le> is_lastSeq (po_state p)) J = K"
      using J(2) unfolding J(1) folded_def by (auto simp: filter_id_conv filter_empty_conv)
    moreover have "filter (\<lambda>g. Seq g \<le> is_lastSeq (po_state p)) J = A"
      using assms(2,4) False unfolding assms(3)
      by (auto simp: filter_id_conv filter_empty_conv seq_sorted_def sorted_wrt_append)
    ultimately show ?thesis using J(1) assms(3) by simp
  qed
  then have KU: "K = A" "U = f # B" by simp_all
  have "folded (apply_fact f (po_state p)) (K @ [f]) B"
    using folded_apply [of "po_state p" K f B] J(2) assms(2,3) KU by simp
  moreover have "guarded p (K @ [f]) B" using J(3) KU by (auto simp: guarded_def)
  ultimately show ?thesis
    using storm_okI [of "K @ [f]" B "p\<lparr>po_state := apply_fact f (po_state p)\<rparr>"] assms(1,3) KU
    by (simp add: storm_ok_def guarded_def)
qed

lemma storm_ok_clear:
  assumes "storm_ok p J" "FType f = F_IncidentTaskMinted" "f \<in> set J" "Seq f \<le> is_lastSeq (po_state p)"
  shows "storm_ok (clearPending f p) J"
proof (cases "\<exists>d. has_prefix (TaskID f) IDPrefix \<and> dec_mint (Detail f) = Some d
     \<and> po_pending p (FingerprintOfID (TaskID f)) = Some (mi_SourceSeq d)")
  case False
  then have "clearPending f p = p" by (auto simp: clearPending_def Let_def split: option.splits)
  then show ?thesis using assms(1) by simp
next
  case True
  then obtain d where d: "has_prefix (TaskID f) IDPrefix" "dec_mint (Detail f) = Some d"
      "po_pending p (FingerprintOfID (TaskID f)) = Some (mi_SourceSeq d)" by blast
  let ?fp = "FingerprintOfID (TaskID f)"
  have c: "clearPending f p = p\<lparr>po_pending := (po_pending p)(?fp := None)\<rparr>" using d by (simp add: clearPending_def)
  obtain K U where J: "J = K @ U" "folded (po_state p) K U" "guarded p K U" and wm: "well_minted J" "same_source J" "named J"
    using assms(1) by (auto simp: storm_ok_def)
  have fK: "f \<in> set K" using assms(3,4) J(1,2) by (auto simp: folded_def)
  have "guarded (clearPending f p) K U"
    unfolding guarded_def
  proof (intro allI ballI impI)
    fix g x e assume x: "x \<in> set U" "mint_of g x = Some e"
    show "po_pending (clearPending f p) g = Some (mi_SourceSeq e) \<or> mi_TaskID e \<in> set (minted g K)"
    proof (cases "g = ?fp \<and> mi_SourceSeq e = mi_SourceSeq d")
      case True
      show ?thesis
      proof (cases "mint_of g f")
        case None
        then have "mi_TaskID d = []" using True d assms(2) by (auto simp: mint_of_def IncidentID_eq split: if_splits)
        then show ?thesis using wm(3) assms(2,3) d(2) by (auto simp: named_def)
      next
        case (Some a)
        then have "a = d" using d(2) by (simp add: mint_of_def split: if_splits)
        then have "mi_SourceSeq a = mi_SourceSeq e" using True by simp
        moreover have "x \<in> set J" using x(1) J(1) by simp
        ultimately have "mi_TaskID a = mi_TaskID e"
          using wm(2) x(2) assms(3) Some unfolding same_source_def by blast
        then show ?thesis using Some fK by (auto simp: minted_mem)
      qed
    next
      case False
      then show ?thesis using J(3) x d(3) unfolding guarded_def c by (cases "g = ?fp") fastforce+
    qed
  qed
  then show ?thesis using J wm by (auto simp: storm_ok_def c)
qed

text \<open>Paging through the journal from the start folds all of it.\<close>

lemma split_at: "seq_sorted J \<Longrightarrow> J = filter (\<lambda>f. Seq f \<le> w) J @ filter (\<lambda>f. w < Seq f) J"
proof (induction J)
  case (Cons f J)
  show ?case
  proof (cases "Seq f \<le> w")
    case True
    then show ?thesis using Cons by (simp add: seq_sorted_def)
  next
    case False
    then have "filter (\<lambda>g. Seq g \<le> w) J = []" using Cons.prems by (fastforce simp: seq_sorted_def filter_empty_conv)
    moreover have "filter (\<lambda>g. w < Seq g) J = J" using Cons.prems False by (fastforce simp: seq_sorted_def filter_id_conv)
    ultimately show ?thesis using False by simp
  qed
qed simp

lemma folded_list: "folded st K (xs @ U) \<Longrightarrow> seq_sorted (K @ xs @ U) \<Longrightarrow> folded (fold apply_fact xs st) (K @ xs) U"
proof (induction xs arbitrary: st K)
  case (Cons f xs)
  show ?case using Cons.IH [OF folded_apply [of st K f "xs @ U"]] Cons.prems by simp
qed simp

lemma lastSeq_fold: "seq_sorted (K @ xs) \<Longrightarrow> \<forall>f\<in>set (K @ xs). 0 < Seq f \<Longrightarrow> is_lastSeq st = upto_seq 0 K \<Longrightarrow>
   is_lastSeq (fold apply_fact xs st) = upto_seq 0 (K @ xs)"
proof (induction xs arbitrary: st K)
  case (Cons f xs)
  have "upto_seq 0 K < Seq f"
    using Cons.prems(1,2) by (cases "K = []") (auto simp: upto_seq_def seq_sorted_def sorted_wrt_append)
  then have "is_lastSeq (apply_fact f st) = upto_seq 0 (K @ [f])" using Cons.prems(3) by (simp add: upto_seq_def)
  then show ?case using Cons.IH [of "K @ [f]" "apply_fact f st"] Cons.prems(1,2) by simp
qed simp

lemma fold_pages_all:
  assumes "\<And>after limit fs. src_Facts src after limit s = Inr fs \<Longrightarrow> fs = AfterSeq J after limit"
    and J: "seq_sorted J" "\<forall>f\<in>set J. 0 < Seq f"
  shows "J = K @ U \<Longrightarrow> st = fold apply_fact K NewState \<Longrightarrow> fold_pages n src s st = Some (Inr st') \<Longrightarrow>
     st' = fold apply_fact J NewState"
proof (induction n arbitrary: K U st)
  case (Suc n)
  have last: "is_lastSeq st = upto_seq 0 K"
    using lastSeq_fold [of "[]" K NewState] J Suc.prems(1,2) by (auto simp: NewState_def seq_sorted_def sorted_wrt_append)
  have U: "filter (\<lambda>f. is_lastSeq st < Seq f) J = U"
  proof -
    have "filter (\<lambda>f. is_lastSeq st < Seq f) U = U"
      using J Suc.prems(1) last by (cases "K = []") (auto simp: filter_id_conv upto_seq_def seq_sorted_def sorted_wrt_append)
    moreover have "Seq f \<le> is_lastSeq st" if "f \<in> set K" for f
      using J(1) Suc.prems(1) last that
      by (cases K rule: rev_cases) (auto simp: upto_seq_def seq_sorted_def sorted_wrt_append intro: less_imp_le)
    ultimately show ?thesis using Suc.prems(1) by (auto simp: filter_empty_conv not_less)
  qed
  show ?case
  proof (cases "src_Facts src (is_lastSeq st) 500 s")
    case (Inr facts)
    then have facts: "facts = take 500 U" using assms(1) [OF Inr] AfterSeq_take [of 500 J "is_lastSeq st"] U by simp
    show ?thesis
    proof (cases "length facts < 500")
      case True
      then have "facts = U" using facts by (simp add: min_def split: if_splits)
      then show ?thesis using Suc.prems Inr True by simp
    next
      case False
      have "J = (K @ facts) @ drop 500 U" using facts Suc.prems(1) by simp
      moreover have "fold apply_fact facts st = fold apply_fact (K @ facts) NewState" using Suc.prems(2) by simp
      moreover have "fold_pages n src s (fold apply_fact facts st) = Some (Inr st')" using Suc.prems(3) Inr False by (simp add: Let_def)
      ultimately show ?thesis by (rule Suc.IH)
    qed
  qed (use Suc.prems(3) in simp)
qed simp

section \<open>What the policy relies on\<close>

text \<open>
  Enqueueing adds facts of its own but links nothing, keeps the policy's checkpoint, and files one task per
  dedup key for good. A sink call adds the fact it was given, or fails without adding it. Others may append at
  the same time, never a link; and every link of the journal names the task filed under its key.
\<close>

locale fix_store = cursor_source "po_source ops" jrnl mark good
  for ops :: "'s policy_ops" and jrnl :: "'s \<Rightarrow> fact list" and mark :: "'s \<Rightarrow> string \<Rightarrow> int option" and good :: "'s \<Rightarrow> bool" +
  fixes task_for :: "'s \<Rightarrow> string \<Rightarrow> string option"
  assumes positive: "good s \<Longrightarrow> f \<in> set (jrnl s) \<Longrightarrow> 0 < Seq f"
    and links_filed: "good s \<Longrightarrow> f \<in> set (jrnl s) \<Longrightarrow> mint_of fp f = Some d \<Longrightarrow>
      task_for s (TaskDedupKey fp (mi_SourceSeq d)) = Some (mi_TaskID d)"
    and enqueue_frame: "po_Enqueue ops n s = (r, s') \<Longrightarrow> good s \<Longrightarrow>
      good s' \<and> (\<exists>new. jrnl s' = jrnl s @ new \<and> no_mints new) \<and> mark s' ConsumerKey = mark s ConsumerKey"
    and enqueue_task: "po_Enqueue ops n s = (Inr t, s') \<Longrightarrow> good s \<Longrightarrow> n_DedupKey n \<noteq> [] \<Longrightarrow>
      ID t \<noteq> [] \<and> task_for s' (n_DedupKey n) = Some (ID t)"
    and append_done: "po_AppendFact ops f s = (Inr u, s') \<Longrightarrow> good s \<Longrightarrow> jt_text (Detail f) \<noteq> [] \<Longrightarrow>
      (\<And>fp d. mint_of fp f = Some d \<Longrightarrow> task_for s (TaskDedupKey fp (mi_SourceSeq d)) = Some (mi_TaskID d)) \<Longrightarrow>
      good s' \<and> mark s' ConsumerKey = mark s ConsumerKey
      \<and> (\<exists>new sq tm. jrnl s' = jrnl s @ new @ [f\<lparr>Seq := sq, Time := tm\<rparr>] \<and> no_mints new)"
    and append_failed: "po_AppendFact ops f s = (Inl e, s') \<Longrightarrow> good s \<Longrightarrow>
      good s' \<and> mark s' ConsumerKey = mark s ConsumerKey \<and> (\<exists>new. jrnl s' = jrnl s @ new \<and> no_mints new)"
begin

text \<open>Policy and store between two calls.\<close>

definition ok :: "policy \<Rightarrow> 's \<Rightarrow> bool" where
  "ok p s \<longleftrightarrow> good s \<and> storm_ok p (jrnl s) \<and> is_lastSeq (po_state p) \<le> upto_seq 0 (jrnl s) \<and> filed (po_state p)"

lemma ok_cong: "po_state p' = po_state p \<Longrightarrow> po_pending p' = po_pending p \<Longrightarrow> ok p' s \<longleftrightarrow> ok p s"
  by (simp add: ok_def cong: storm_ok_cong)

lemma head_mono: "seq_sorted (a @ b) \<Longrightarrow> \<forall>f\<in>set (a @ b). 0 < Seq f \<Longrightarrow> upto_seq 0 a \<le> upto_seq 0 (a @ b)"
  by (cases "a = []"; cases "b = []") (auto simp: upto_seq_def seq_sorted_def sorted_wrt_append intro!: less_imp_le)

lemma ok_extend:
  assumes "ok p s" "good s'" "jrnl s' = jrnl s @ new" "no_mints new"
  shows "ok p s'"
proof -
  have "seq_sorted (jrnl s @ new)" "\<forall>f\<in>set (jrnl s @ new). 0 < Seq f"
    using jrnl_sorted [OF assms(2)] positive [OF assms(2)] assms(3) by simp_all
  then show ?thesis
    using assms storm_ok_extend [of p "jrnl s" new] head_mono [of "jrnl s" new] by (auto simp: ok_def)
qed

text \<open>The link is appended to a journal in which only links made for other observations, or this very task, exist.\<close>

lemma ok_link:
  assumes ok: "ok p s" and inc: "is_byFP (po_state p) fp = Some inc" and needs: "needsFix p fp inc q = (True, False)"
    and s': "good s'" "jrnl s' = jrnl s @ new @ [g]" "no_mints new"
    and g: "g = (incident_fact fp F_IncidentTaskMinted (marshal (mint_detail m)))\<lparr>Seq := sq, Time := tm\<rparr>"
    and m: "mi_SourceSeq m = q" "mi_TaskID m \<noteq> []"
    and known: "\<And>x a. x \<in> set (jrnl s) \<Longrightarrow> mint_of fp x = Some a \<Longrightarrow> mi_SourceSeq a = q \<Longrightarrow> mi_TaskID a = mi_TaskID m"
  shows "ok (p\<lparr>po_pending := (po_pending p)(fp \<mapsto> q)\<rparr>) s'"
proof -
  let ?J = "jrnl s @ new"
  have srt: "seq_sorted (?J @ [g])" and pos: "\<forall>f\<in>set (?J @ [g]). 0 < Seq f"
    using jrnl_sorted [OF s'(1)] positive [OF s'(1)] s'(2) by simp_all
  have srtJ: "seq_sorted ?J" using srt by (simp add: seq_sorted_def sorted_wrt_append)
  have posJ: "\<forall>f\<in>set ?J. 0 < Seq f" using pos by simp
  have st: "storm_ok p ?J"
    using storm_ok_extend [of p "jrnl s" new] ok s'(3) srtJ posJ by (simp add: ok_def)
  have up: "is_lastSeq (po_state p) \<le> upto_seq 0 ?J" using ok head_mono [OF srtJ posJ] by (simp add: ok_def)
  have lt: "upto_seq 0 ?J < Seq g"
  proof (cases "?J = []")
    case False
    have "\<forall>x\<in>set ?J. Seq x < Seq g" using srt unfolding seq_sorted_def by (simp only: sorted_wrt_append) simp
    then show ?thesis using last_in_set [OF False] False by (auto simp: upto_seq_def)
  qed (use pos in simp)
  have gm: "x = fp \<and> mi_SourceSeq d = q \<and> mi_TaskID d = mi_TaskID m" if "mint_of x g = Some d" for x d
  proof -
    have "dec_mint (marshal (mint_detail m)) = Some d" "IncidentID fp = IncidentID x"
      using that by (auto simp: mint_of_def g incident_fact_def split: if_splits option.splits)
    then show ?thesis using dec_mint_detail m(1) by (auto simp: IncidentID_def)
  qed
  have old: "mi_TaskID a = mi_TaskID m" if "x \<in> set ?J" "mint_of fp x = Some a" "mi_SourceSeq a = q" for x a
    using known [of x a] no_mints_mint_of [OF s'(3), of x fp] that by auto
  have "named [g]" using m(2) dec_mint_detail by (auto simp: named_def g incident_fact_def)
  moreover have "po_pending p fp = None" using needs by (auto simp: needsFix_def split: option.splits)
  moreover have "is_lastSeq (po_state p) < Seq g" using up lt by linarith
  ultimately have "storm_ok (p\<lparr>po_pending := (po_pending p)(fp \<mapsto> q)\<rparr>) (?J @ [g])"
    by (intro storm_ok_link [OF st, where t = "mi_TaskID m"] needsFix_all_ended [OF st inc needs] gm old)
  moreover have "upto_seq 0 (jrnl s') = Seq g" using s'(2) by (simp add: upto_seq_def)
  ultimately show ?thesis using ok s'(1,2) up lt by (simp add: ok_def)
qed

lemma mint_fix_ok:
  assumes run: "mint_fix ops cfg inc f regression p s = (e, p', s')" and ok: "ok p s"
    and inc: "is_byFP (po_state p) fp = Some inc" and needs: "needsFix p fp inc (Seq f) = (True, False)"
  shows "ok p' s' \<and> po_state p' = po_state p \<and> (\<exists>new. jrnl s' = jrnl s @ new) \<and> mark s' ConsumerKey = mark s ConsumerKey"
proof -
  have fp: "ic_Fingerprint inc = fp" using ok inc by (simp add: ok_def filed_def)
  have good: "good s" using ok by (simp add: ok_def)
  let ?n = "fix_task cfg (po_time ops) inc f regression"
  obtain r s1 where enq: "po_Enqueue ops ?n s = (r, s1)" by (cases "po_Enqueue ops ?n s")
  obtain new where s1: "good s1" "jrnl s1 = jrnl s @ new" "no_mints new" "mark s1 ConsumerKey = mark s ConsumerKey"
    using enqueue_frame [OF enq good] by blast
  have ok1: "ok p s1" using ok_extend [OF ok s1(1-3)] .
  show ?thesis
  proof (cases r)
    case (Inl er)
    then show ?thesis using run enq s1 ok1 by (auto simp: mint_fix_def Let_def)
  next
    case (Inr t)
    let ?m = "\<lparr>mi_TaskID = ID t, mi_SourceSeq = Seq f, mi_Regression = regression, mi_Priority = n_Priority ?n,
                    mi_Outcome = [], mi_DoneSeq = 0\<rparr>"
    let ?f = "incident_fact fp F_IncidentTaskMinted (marshal (mint_detail ?m))"
    have key: "n_DedupKey ?n = TaskDedupKey fp (Seq f)" using fp by (simp add: fix_task_def Let_def)
    have filed: "ID t \<noteq> []" "task_for s1 (TaskDedupKey fp (Seq f)) = Some (ID t)"
      using enqueue_task [of ?n s t s1] enq Inr good key by (simp_all add: TaskDedupKey_def TaskDedupPrefix_def)
    obtain r2 s2 where app: "po_AppendFact ops ?f s1 = (r2, s2)" by (cases "po_AppendFact ops ?f s1")
    show ?thesis
    proof (cases r2)
      case (Inl er)
      then obtain new2 where "good s2" "jrnl s2 = jrnl s1 @ new2" "no_mints new2" "mark s2 ConsumerKey = mark s1 ConsumerKey"
        using append_failed app s1(1) by blast
      then show ?thesis using run enq \<open>r = Inr t\<close> app Inl ok_extend [OF ok1] s1 fp by (auto simp: mint_fix_def Let_def)
    next
      case (Inr u)
      have link: "task_for s1 (TaskDedupKey g (mi_SourceSeq d)) = Some (mi_TaskID d)" if "mint_of g ?f = Some d" for g d
      proof -
        have "dec_mint (marshal (mint_detail ?m)) = Some d" "IncidentID fp = IncidentID g"
          using that by (auto simp: mint_of_def incident_fact_def split: if_splits option.splits)
        then show ?thesis using dec_mint_detail [of ?m d] filed by (simp add: IncidentID_def)
      qed
      from Inr obtain new2 sq tm where s2: "good s2" "mark s2 ConsumerKey = mark s1 ConsumerKey"
          "jrnl s2 = jrnl s1 @ new2 @ [?f\<lparr>Seq := sq, Time := tm\<rparr>]" "no_mints new2"
        using append_done [of ?f s1 u s2] app s1(1) link by (auto simp: incident_fact_def marshal_def mint_detail_def)
      have eqs: "e = None" "p' = p\<lparr>po_pending := (po_pending p)(fp \<mapsto> Seq f)\<rparr>" "s' = s2"
        using run enq \<open>r = Inr t\<close> app Inr fp by (simp_all add: mint_fix_def Let_def)
      have "ok p' s2"
        unfolding eqs
      proof (rule ok_link [where m = ?m and s = s1 and new = new2, OF ok1 inc needs s2(1) _ s2(4) refl])
        show "jrnl s2 = jrnl s1 @ new2 @ [?f\<lparr>Seq := sq, Time := tm\<rparr>]" by (rule s2(3))
        show "mi_TaskID ?m \<noteq> []" using filed by simp
        fix x a assume x: "x \<in> set (jrnl s1)" "mint_of fp x = Some a" "mi_SourceSeq a = Seq f"
        then have "Some (ID t) = Some (mi_TaskID a)" using links_filed [OF s1(1) x(1,2)] filed by simp
        then show "mi_TaskID a = mi_TaskID ?m" by simp
      qed simp
      then show ?thesis using eqs s1(2,4) s2(2,3) by simp
    qed
  qed
qed

text \<open>What a call may do to the store, seen from the cursor.\<close>

definition grows :: "'s \<Rightarrow> 's \<Rightarrow> bool" where
  "grows s s' \<longleftrightarrow> prefix (jrnl s) (jrnl s') \<and> mark s' ConsumerKey = mark s ConsumerKey"

lemma reactObserved_ok:
  assumes run: "reactObserved ops cfg f p s = (e, p', s')" and ok: "ok p s"
  shows "ok p' s' \<and> po_state p' = po_state p \<and> grows s s'"
proof -
  have stats: "ok (bump_stats g p) s = ok p s" "po_state (bump_stats g p) = po_state p" "po_pending (bump_stats g p) = po_pending p" for g p s
    using ok_cong [of "bump_stats g p" p s] by (simp_all add: bump_stats_def)
  have nf: "needsFix (bump_stats g p) = needsFix p" for g p by (simp add: needsFix_def bump_stats_def fun_eq_iff)
  let ?fp = "FingerprintOfID (TaskID f)"
  consider (quiet) g where "p' = bump_stats g p \<or> (\<exists>h. p' = bump_stats h (bump_stats g p))" "s' = s"
    | (mint) inc regression p2 p3 e3 where "is_byFP (po_state p) ?fp = Some inc" "needsFix p ?fp inc (Seq f) = (True, False)"
        "po_state p2 = po_state p" "po_pending p2 = po_pending p" "mint_fix ops cfg inc f regression p2 s = (e3, p3, s')"
        "p' = p3 \<or> (\<exists>h. p' = bump_stats h p3)"
  proof (cases "has_prefix (TaskID f) IDPrefix \<and> (\<exists>inc. is_byFP (po_state p) ?fp = Some inc \<and> needsFix p ?fp inc (Seq f) = (True, False))")
    case False
    then show ?thesis using run quiet
      by (auto simp: reactObserved_def Let_def nf split: option.splits prod.splits if_splits)
  next
    case True
    then obtain inc where inc: "has_prefix (TaskID f) IDPrefix" "is_byFP (po_state p) ?fp = Some inc" "needsFix p ?fp inc (Seq f) = (True, False)" by blast
    let ?p1 = "bump_stats (\<lambda>t. t\<lparr>pt_Occurrences := pt_Occurrences t + 1\<rparr>) p"
    let ?r = "ic_Mints inc \<noteq> [] \<and> mint_terminal (last (ic_Mints inc))"
    let ?p2 = "if ?r then bump_stats (\<lambda>t. t\<lparr>pt_Regressions := pt_Regressions t + 1\<rparr>) ?p1 else ?p1"
    obtain e3 p3 s3 where m: "mint_fix ops cfg inc f ?r ?p2 s = (e3, p3, s3)" by (cases "mint_fix ops cfg inc f ?r ?p2 s")
    have "s' = s3" "p' = p3 \<or> (\<exists>h. p' = bump_stats h p3)"
      using run inc m by (auto simp: reactObserved_def Let_def nf split: option.splits if_splits)
    then show ?thesis using mint [of inc ?p2 ?r e3 p3] inc m by (simp add: bump_stats_def)
  qed
  then show ?thesis
  proof cases
    case quiet
    then show ?thesis using ok by (auto simp: stats grows_def)
  next
    case mint
    have "ok p2 s" using ok mint(3,4) by (simp cong: ok_cong)
    then have "ok p3 s' \<and> po_state p3 = po_state p2 \<and> (\<exists>new. jrnl s' = jrnl s @ new) \<and> mark s' ConsumerKey = mark s ConsumerKey"
      using mint_fix_ok [OF mint(5)] mint(1-4) by (simp add: needsFix_def)
    then show ?thesis using mint(3,6) by (auto simp: stats grows_def)
  qed
qed

lemma handleFact_ok:
  assumes run: "handleFact ops cfg f (p, s) = (r, p', s')" and ok: "ok p s"
    and at_f: "jrnl s = A @ f # B" "\<forall>a\<in>set A. Seq a \<le> is_lastSeq (po_state p)"
  shows "ok p' s' \<and> is_lastSeq (po_state p') = max (is_lastSeq (po_state p)) (Seq f) \<and> grows s s'"
proof -
  let ?p1 = "p\<lparr>po_state := apply_fact f (po_state p)\<rparr>"
  have good: "good s" and srt: "seq_sorted (jrnl s)" using ok jrnl_sorted by (auto simp: ok_def)
  have "Seq f \<le> upto_seq 0 (jrnl s)"
    using srt unfolding at_f(1) by (cases "B = []") (auto simp: upto_seq_def seq_sorted_def sorted_wrt_append intro: less_imp_le)
  then have ok1: "ok ?p1 s"
    using ok storm_ok_fold [of p "jrnl s" A f B] srt at_f filed_apply by (simp add: ok_def)
  consider (obs) "FType f = F_ErrorObserved" | (link) "FType f = F_IncidentTaskMinted"
    | (other) "FType f \<noteq> F_ErrorObserved" "FType f \<noteq> F_IncidentTaskMinted" by blast
  then show ?thesis
  proof cases
    case obs
    obtain e p2 s2 where re: "reactObserved ops cfg f ?p1 s = (e, p2, s2)" by (cases "reactObserved ops cfg f ?p1 s")
    then show ?thesis using reactObserved_ok [OF re ok1] run obs by (auto simp: handleFact_def)
  next
    case link
    have "storm_ok (clearPending f ?p1) (jrnl s)"
      using storm_ok_clear [of ?p1 "jrnl s" f] ok1 link at_f(1) by (simp add: ok_def)
    moreover have "po_state (clearPending f ?p1) = po_state ?p1"
      by (auto simp: clearPending_def Let_def split: option.splits)
    ultimately show ?thesis using run link ok1 by (auto simp: handleFact_def ok_def grows_def)
  next
    case other
    then show ?thesis using run ok1 by (auto simp: handleFact_def grows_def)
  qed
qed

text \<open>The page a cursor hands to the policy continues what the fold has read.\<close>

definition sweep_handler :: "policy_config \<Rightarrow> fact \<Rightarrow> policy \<times> 's \<Rightarrow> (qerr + unit) \<times> policy \<times> 's" where
  "sweep_handler cfg = (\<lambda>f (p, s). handleFact ops cfg f (count_fact p, s))"

lemma sweep_handler_ok:
  assumes "sweep_handler cfg f (p, s) = (r, p', s')" "ok p s" "jrnl s = A @ f # B" "\<forall>a\<in>set A. Seq a \<le> is_lastSeq (po_state p)"
  shows "ok p' s' \<and> is_lastSeq (po_state p') = max (is_lastSeq (po_state p)) (Seq f) \<and> grows s s'"
  using handleFact_ok [of cfg f "count_fact p" s r p' s' A B] assms ok_cong [of "count_fact p" p s]
  by (simp add: sweep_handler_def count_fact_def bump_stats_def)

lemma grows_trans: "grows a b \<Longrightarrow> grows b c \<Longrightarrow> grows a c"
  by (auto simp: grows_def intro: prefix_order.trans)

lemma page_ok:
  assumes "handle_page (sweep_handler cfg) facts c (p, s) = (e, c', (p', s'), acc)" "ok p s"
    and "jrnl s = A @ facts @ B" "\<forall>a\<in>set A. Seq a \<le> is_lastSeq (po_state p)" "cu_watermark c \<le> is_lastSeq (po_state p)"
  shows "ok p' s' \<and> cu_watermark c' \<le> is_lastSeq (po_state p') \<and> grows s s' \<and> cu_key c' = cu_key c"
  using assms
proof (induction facts arbitrary: c p s e c' p' s' acc A B)
  case Nil
  then show ?case by (simp add: grows_def)
next
  case (Cons f fs)
  obtain r p1 s1 where h: "sweep_handler cfg f (p, s) = (r, p1, s1)" by (cases "sweep_handler cfg f (p, s)") auto
  have one: "ok p1 s1 \<and> is_lastSeq (po_state p1) = max (is_lastSeq (po_state p)) (Seq f) \<and> grows s s1"
    using sweep_handler_ok [OF h Cons.prems(2), of A "fs @ B"] Cons.prems(3,4) by simp
  show ?case
  proof (cases r)
    case (Inl x)
    then show ?thesis using Cons.prems(1,5) h one by auto
  next
    case (Inr u)
    obtain e2 c2 p2 s2 acc2 where rec: "handle_page (sweep_handler cfg) fs (c\<lparr>cu_watermark := Seq f\<rparr>) (p1, s1) = (e2, c2, (p2, s2), acc2)"
      by (cases "handle_page (sweep_handler cfg) fs (c\<lparr>cu_watermark := Seq f\<rparr>) (p1, s1)") auto
    have eqs: "e = e2" "c' = c2" "p' = p2" "s' = s2" using Cons.prems(1) h Inr rec by simp_all
    obtain tail where tail: "jrnl s1 = jrnl s @ tail" using one by (auto simp: grows_def prefix_def)
    have "ok p2 s2 \<and> cu_watermark c2 \<le> is_lastSeq (po_state p2) \<and> grows s1 s2 \<and> cu_key c2 = cu_key (c\<lparr>cu_watermark := Seq f\<rparr>)"
    proof (rule Cons.IH [OF rec])
      show "jrnl s1 = (A @ [f]) @ fs @ (B @ tail)" using tail Cons.prems(3) by simp
    qed (use one Cons.prems(4) in auto)
    then show ?thesis using one eqs grows_trans by auto
  qed
qed

text \<open>A running policy with its cursor.\<close>

definition sane :: "cursor \<Rightarrow> policy \<Rightarrow> 's \<Rightarrow> bool" where
  "sane c p s \<longleftrightarrow> ok p s \<and> cu_watermark c \<le> is_lastSeq (po_state p) \<and> cu_key c = ConsumerKey
     \<and> (\<forall>w. mark s ConsumerKey = Some w \<longrightarrow> w \<le> upto_seq 0 (jrnl s))"

lemma sane_grows:
  assumes "ok p s'" "cu_watermark c \<le> is_lastSeq (po_state p)" "cu_key c = ConsumerKey" "grows s s'"
    and "\<forall>w. mark s ConsumerKey = Some w \<longrightarrow> w \<le> upto_seq 0 (jrnl s)"
  shows "sane c p s'"
proof -
  obtain new where new: "jrnl s' = jrnl s @ new" using assms(4) by (auto simp: grows_def prefix_def)
  have "upto_seq 0 (jrnl s) \<le> upto_seq 0 (jrnl s')"
    using head_mono [of "jrnl s" new] jrnl_sorted [of s'] positive [of s'] assms(1) new by (simp add: ok_def)
  then show ?thesis using assms by (fastforce simp: sane_def grows_def)
qed

lemma save_bound:
  assumes "src_SaveWatermark (po_source ops) key q s = (r, s')" "\<forall>w. mark s key = Some w \<longrightarrow> w \<le> b" "q \<le> b"
  shows "\<forall>w. mark s' key = Some w \<longrightarrow> w \<le> b"
  using save_fails [of key q s _ s'] save_mark [of key q s _ s'] assms by (cases r) (auto split: option.splits)

lemma save_sane:
  assumes "src_SaveWatermark (po_source ops) ConsumerKey q s = (r, s')" "sane c p s" "q \<le> is_lastSeq (po_state p)"
  shows "sane c p s'"
proof -
  have "good s'" "jrnl s' = jrnl s" using save_frame [OF assms(1)] assms(2) by (auto simp: sane_def ok_def)
  moreover have "\<forall>w. mark s' ConsumerKey = Some w \<longrightarrow> w \<le> upto_seq 0 (jrnl s)"
    by (rule save_bound [OF assms(1)]) (use assms(2,3) in \<open>auto simp: sane_def ok_def\<close>)
  ultimately show ?thesis using assms(2) by (simp add: sane_def ok_def)
qed

lemma sane_cursor: "cu_watermark c' = cu_watermark c \<Longrightarrow> cu_key c' = cu_key c \<Longrightarrow> sane c' p s = sane c p s"
  by (simp add: sane_def)

lemma read_page:
  assumes "src_Facts (po_source ops) w limit s = Inr facts" "good s"
  shows "\<exists>B. jrnl s = filter (\<lambda>f. Seq f \<le> w) (jrnl s) @ facts @ B"
proof -
  have "prefix facts (filter (\<lambda>f. w < Seq f) (jrnl s))"
    using facts_read [OF assms(1)] AfterSeq_prefix [of "jrnl s" w limit] by simp
  then obtain B where "filter (\<lambda>f. w < Seq f) (jrnl s) = facts @ B" by (auto simp: prefix_def)
  then show ?thesis using split_at [OF jrnl_sorted [OF assms(2)], of w] by (intro exI [of _ B]) simp
qed

lemma sweep_loop_sane:
  assumes "sweep_loop n (with_memory (po_source ops)) (sweep_handler cfg) c (p, s) = Some (e, c', (p', s'), acc)" "sane c p s"
  shows "sane c' p' s'"
  using assms
proof (induction n arbitrary: c p s acc)
  case (Suc n)
  show ?case
  proof (cases "src_Facts (po_source ops) (cu_watermark c) (cu_pageSize c) s")
    case (Inl er)
    then show ?thesis using Suc.prems by (auto simp: with_memory_sel)
  next
    case (Inr facts)
    obtain e1 c1 p1 s1 a where page: "handle_page (sweep_handler cfg) facts c (p, s) = (e1, c1, (p1, s1), a)"
      by (cases "handle_page (sweep_handler cfg) facts c (p, s)") auto
    have good: "good s" and le: "cu_watermark c \<le> is_lastSeq (po_state p)" using Suc.prems(2) by (simp_all add: sane_def ok_def)
    obtain B where B: "jrnl s = filter (\<lambda>f. Seq f \<le> cu_watermark c) (jrnl s) @ facts @ B" using read_page [OF Inr good] by blast
    have "ok p1 s1 \<and> cu_watermark c1 \<le> is_lastSeq (po_state p1) \<and> grows s s1 \<and> cu_key c1 = cu_key c"
      by (rule page_ok [OF page _ B _ le]) (use Suc.prems(2) le in \<open>auto simp: sane_def\<close>)
    then have sane1: "sane c1 p1 s1" using sane_grows [of p1 s1 c1 s] Suc.prems(2) by (simp add: sane_def)
    have continue: "sane c' p' s'"
      if "(if int (length facts) < cu_pageSize c2 then Some (None, c2, (p1, s2), a)
            else map_option (\<lambda>(e, c3, s3, acc'). (e, c3, s3, a @ acc')) (sweep_loop n (with_memory (po_source ops)) (sweep_handler cfg) c2 (p1, s2)))
          = Some (e, c', (p', s'), acc)" "sane c2 p1 s2" for c2 s2
      using that Suc.IH [of c2 p1 s2] by (auto split: if_splits)
    show ?thesis
    proof (cases e1)
      case (Some er)
      then show ?thesis using Suc.prems(1) Inr page sane1 by (auto simp: with_memory_sel)
    next
      case None
      show ?thesis
      proof (cases "facts = []")
        case True
        then show ?thesis using continue [of c1 s1] sane1 Suc.prems(1) Inr page None by (auto simp: with_memory_sel Let_def)
      next
        case False
        obtain r s2 where save: "src_SaveWatermark (po_source ops) (cu_key c1) (cu_watermark c1) s1 = (r, s2)"
          by (cases "src_SaveWatermark (po_source ops) (cu_key c1) (cu_watermark c1) s1")
        have s2: "sane c1 p1 s2" using save_sane [of _ s1 r s2 c1 p1] save sane1 by (simp add: sane_def)
        show ?thesis
        proof (cases r)
          case (Inl er)
          then show ?thesis using Suc.prems(1) Inr page None False save s2 \<open>src_Facts _ _ _ s = _\<close>
            by (auto simp: with_memory_sel Let_def)
        next
          case (Inr u)
          then show ?thesis
            using Suc.prems(1) page None False save s2 \<open>src_Facts _ _ _ s = _\<close>
            by (intro continue [of "c1\<lparr>cu_persisted := cu_watermark c1\<rparr>" s2])
              (auto simp: with_memory_sel Let_def sane_cursor [of "c1\<lparr>cu_persisted := cu_watermark c1\<rparr>" c1])
        qed
      qed
    qed
  qed
qed simp

lemma PolicySweep_sane:
  assumes "PolicySweep fuel ops cfg c p s = Some (e, c', (p', s'), acc)" "sane c p s"
  shows "sane c' p' s'"
proof -
  let ?p = "p\<lparr>po_stats := no_stats\<rparr>"
  have run: "Sweep fuel (with_memory (po_source ops)) (sweep_handler cfg) c (?p, s) = Some (e, c', (p', s'), acc)"
    using assms(1) by (simp add: PolicySweep_def sweep_handler_def)
  have sane: "sane c ?p s" using assms(2) ok_cong [of ?p p s] by (simp add: sane_def)
  show ?thesis
  proof (cases "cu_watermark c > cu_persisted c")
    case False
    then show ?thesis using run sane sweep_loop_sane by (simp add: Sweep_def)
  next
    case True
    obtain r s1 where save: "src_SaveWatermark (po_source ops) (cu_key c) (cu_watermark c) s = (r, s1)"
      by (cases "src_SaveWatermark (po_source ops) (cu_key c) (cu_watermark c) s")
    have s1: "sane c ?p s1" using save_sane [of _ s r s1 c ?p] save sane by (simp add: sane_def)
    show ?thesis
    proof (cases r)
      case (Inl x)
      then show ?thesis using run True save s1 by (auto simp: Sweep_def with_memory_sel)
    next
      case (Inr u)
      then show ?thesis using run True save s1 sane_cursor [of "c\<lparr>cu_persisted := cu_watermark c\<rparr>" c ?p s1]
        by (auto simp: Sweep_def with_memory_sel intro: sweep_loop_sane)
    qed
  qed
qed

text \<open>A policy starts, or starts again, over any store whose links are in order.\<close>

definition startable :: "'s \<Rightarrow> bool" where
  "startable s \<longleftrightarrow> good s \<and> well_minted (jrnl s) \<and> same_source (jrnl s) \<and> named (jrnl s)
     \<and> (\<forall>w. mark s ConsumerKey = Some w \<longrightarrow> w \<le> upto_seq 0 (jrnl s))"

lemma sane_startable: "sane c p s \<Longrightarrow> startable s"
  by (auto simp: sane_def startable_def ok_def storm_ok_def)

lemma NewPolicy_sane:
  assumes run: "NewPolicy fuel ops cfg0 s = Some (Inr (cfg, c, p), s')" and st: "startable s"
  shows "sane c p s'"
proof -
  let ?src = "po_source ops"
  let ?first = "case src_Watermark ?src ConsumerKey s of Inr None \<Rightarrow> src_SaveWatermark ?src ConsumerKey 0 s | _ \<Rightarrow> (Inr (), s)"
  obtain r1 s1 where first: "?first = (r1, s1)" by (cases ?first)
  have good: "good s" using st by (simp add: startable_def)
  have pos: "0 \<le> upto_seq 0 (jrnl s)"
    using positive [OF good, of "last (jrnl s)"] by (cases "jrnl s = []") (simp_all add: upto_seq_def)
  have s1: "good s1 \<and> jrnl s1 = jrnl s \<and> (\<forall>w. mark s1 ConsumerKey = Some w \<longrightarrow> w \<le> upto_seq 0 (jrnl s))"
  proof (cases "src_Watermark ?src ConsumerKey s = Inr None")
    case True
    then have save: "src_SaveWatermark ?src ConsumerKey 0 s = (r1, s1)" using first by simp
    have "\<forall>w. mark s ConsumerKey = Some w \<longrightarrow> w \<le> upto_seq 0 (jrnl s)" using st by (simp add: startable_def)
    from save_bound [OF save this pos] save_frame [OF save good] show ?thesis by blast
  next
    case False
    then have "s1 = s" using first by (auto split: sum.splits option.splits)
    then show ?thesis using st by (simp add: startable_def)
  qed
  obtain u s2 st' where r1: "r1 = Inr u" and new: "New ?src ConsumerKey ''incident sweep'' (pc_PageSize (policy_defaults cfg0)) s1 = (Inr c, s2)"
      and pages: "fold_pages fuel ?src s2 NewState = Some (Inr st')"
      and p: "p = \<lparr>po_state = st', po_pending = (\<lambda>_. None), po_stats = no_stats\<rparr>" "s' = s2"
    using run first by (auto simp: NewPolicy_def Let_def split: sum.splits prod.splits option.splits)
  have good1: "good s1" using s1 by simp
  note n = New_synced [OF new good1]
  have J: "good s2" "jrnl s2 = jrnl s" "mark s2 ConsumerKey = Some (cu_persisted c)" "cu_persisted c \<le> cu_watermark c"
    using n s1 by (auto simp: synced_def)
  have wm: "cu_watermark c \<le> upto_seq 0 (jrnl s)" using n s1 by (auto split: option.splits)
  have srt: "seq_sorted (jrnl s)" "\<forall>f\<in>set (jrnl s). 0 < Seq f" using jrnl_sorted [OF good] positive [OF good] by auto
  have st': "st' = fold apply_fact (jrnl s) NewState"
    by (rule fold_pages_all [of ?src s2 "jrnl s" "[]", OF _ srt _ _ pages]) (use facts_read [where s = s2] J(2) in simp_all)
  have "folded NewState [] (jrnl s)" using srt(2) by (simp add: folded_def NewState_def mints_of_def)
  then have fold: "folded st' (jrnl s) []" using folded_list [of NewState "[]" "jrnl s" "[]"] srt(1) st' by simp
  have last: "is_lastSeq st' = upto_seq 0 (jrnl s)"
    using lastSeq_fold [of "[]" "jrnl s" NewState] srt st' by (simp add: NewState_def)
  have "filed NewState" by (simp add: filed_def NewState_def)
  then have "filed st'" unfolding st' by (rule fold_invariant [where P = filed and Q = "\<lambda>_. True", rotated]) (simp_all add: filed_apply)
  moreover have "storm_ok p (jrnl s)"
    using storm_okI [of "jrnl s" "[]" p] st fold p(1) by (simp add: startable_def guarded_def)
  ultimately show ?thesis using J wm last n p by (simp add: sane_def ok_def)
qed

end

section \<open>The policy over the SQL-backed store\<close>

text \<open>The pool hands the policy the store itself; \<open>tm\<close> prints a time.\<close>

definition adapter_policy :: "engine_ops \<Rightarrow> (go_time \<Rightarrow> string) \<Rightarrow> go_time \<Rightarrow> sql_store policy_ops" where
  "adapter_policy e tm now =
     \<lparr>po_source =
        \<lparr>src_Facts = Facts e,
         src_HeadSeq = (\<lambda>s. Inr (HeadSeq (s_db s))),
         src_Watermark = (\<lambda>key s. Inr (Watermark (s_db s) key)),
         src_SaveWatermark = (\<lambda>key q s. (Inr (), s\<lparr>s_db := SaveWatermark key q now (s_db s)\<rparr>))\<rparr>,
      po_Enqueue = Enqueue e,
      po_AppendFact = (\<lambda>f s. case AppendFact e f s of (r, s') \<Rightarrow> (raw_err r, s')),
      po_time = tm\<rparr>"

definition task_for_key :: "db \<Rightarrow> string \<Rightarrow> task_id option" where
  "task_for_key d k = map_option r_id (find (\<lambda>r. r_dedup_key r = k) (db_tasks d))"

text \<open>Tables with a numbered journal whose links name the task filed under their key.\<close>

definition links_ok :: "db \<Rightarrow> bool" where
  "links_ok d \<longleftrightarrow> facts_ok d \<and> (\<forall>f\<in>set (db_facts d). 0 < Seq f)
     \<and> (\<forall>f\<in>set (db_facts d). \<forall>fp m. mint_of fp f = Some m \<longrightarrow> task_for_key d (TaskDedupKey fp (mi_SourceSeq m)) = Some (mi_TaskID m))"

text \<open>
  What the policy expects of the engine: \<open>Facts\<close> pages through the facts table; \<open>Enqueue\<close> files one task per
  dedup key, for good, and journals no link; \<open>Append\<close> numbers and stores its fact; neither touches the cursors.
\<close>

definition dedup_engine :: "engine_ops \<Rightarrow> bool" where
  "dedup_engine e \<longleftrightarrow>
     (\<forall>after limit d fs. eng_Facts e after limit d = Inr fs \<longrightarrow> fs = AfterSeq (db_facts d) after limit)
   \<and> (\<forall>n d r d'. eng_Enqueue e n d = (r, d') \<longrightarrow> facts_ok d \<longrightarrow>
        facts_ok d' \<and> db_watermarks d' = db_watermarks d
        \<and> (\<exists>new. db_facts d' = db_facts d @ new \<and> no_mints new \<and> (\<forall>f\<in>set new. 0 < Seq f))
        \<and> (\<forall>k i. task_for_key d k = Some i \<longrightarrow> task_for_key d' k = Some i))
   \<and> (\<forall>n d i d'. eng_Enqueue e n d = (Inr i, d') \<longrightarrow> u_DedupKey n \<noteq> [] \<longrightarrow>
        i \<noteq> [] \<and> task_for_key d' (u_DedupKey n) = Some i)
   \<and> (\<forall>f d r d'. eng_Append e f d = (r, d') \<longrightarrow> facts_ok d \<longrightarrow>
        facts_ok d' \<and> db_watermarks d' = db_watermarks d \<and> db_tasks d' = db_tasks d
        \<and> (\<exists>new. no_mints new \<and> (\<forall>f\<in>set new. 0 < Seq f)
             \<and> (case r of Inl _ \<Rightarrow> db_facts d' = db_facts d @ new
                | Inr _ \<Rightarrow> \<exists>sq tm. 0 < sq \<and> db_facts d' = db_facts d @ new @ [f\<lparr>Seq := sq, Time := tm\<rparr>])))"

lemma JournalFacts_simps [simp]: "JournalFacts (a @ b) = JournalFacts a @ JournalFacts b" "JournalFacts [] = []"
  by (simp_all add: JournalFacts_def)

lemma JournalFacts_seq: "map Seq (JournalFacts fs) = map Seq fs"
  by (simp add: JournalFacts_def)

lemma AfterSeq_JournalFacts: "AfterSeq (JournalFacts fs) after limit = JournalFacts (AfterSeq fs after limit)"
proof -
  have "filter (\<lambda>f. after < Seq f) (JournalFacts fs) = JournalFacts (filter (\<lambda>f. after < Seq f) fs)"
    by (induction fs) (simp_all add: JournalFacts_def)
  then show ?thesis by (simp add: AfterSeq_def Let_def JournalFacts_def take_map)
qed

lemma seq_sorted_JournalFacts [simp]: "seq_sorted (JournalFacts fs) = seq_sorted fs"
  by (simp add: seq_sorted_def JournalFacts_def sorted_wrt_map cong: if_cong) (simp add: if_distrib cong: if_cong)

lemma no_mints_JournalFacts [simp]: "no_mints (JournalFacts fs) = no_mints fs"
  by (induction fs) (simp_all add: no_mints_def JournalFacts_def)

lemma mint_of_JournalFacts: "f \<in> set (JournalFacts fs) \<Longrightarrow> mint_of fp f = Some m \<Longrightarrow> f \<in> set fs"
  by (auto simp: JournalFacts_def mint_of_def dec_mint_def empty_text_def split: if_splits)

text \<open>The contract of the policy follows from the engine's.\<close>

locale engine_dedup =
  fixes e :: engine_ops
  assumes honest: "dedup_engine e"
begin

lemma facts_law: "eng_Facts e after limit d = Inr fs \<Longrightarrow> fs = AfterSeq (db_facts d) after limit"
  using honest unfolding dedup_engine_def by blast

lemma enqueue_law:
  assumes "eng_Enqueue e n d = (r, d')" "links_ok d"
  shows "links_ok d' \<and> db_watermarks d' = db_watermarks d \<and> (\<exists>new. db_facts d' = db_facts d @ new \<and> no_mints new)"
proof -
  have law: "facts_ok d'" "db_watermarks d' = db_watermarks d" "\<forall>k i. task_for_key d k = Some i \<longrightarrow> task_for_key d' k = Some i"
      "\<exists>new. db_facts d' = db_facts d @ new \<and> no_mints new \<and> (\<forall>f\<in>set new. 0 < Seq f)"
    using honest assms unfolding dedup_engine_def links_ok_def by blast+
  then obtain new where new: "db_facts d' = db_facts d @ new" "no_mints new" "\<forall>f\<in>set new. 0 < Seq f" by blast
  have "mint_of fp f = None" if "f \<in> set new" for fp f using no_mints_mint_of [OF new(2) that] .
  then have "links_ok d'" using assms(2) law(1,3) new unfolding links_ok_def by (auto simp: ball_Un)
  then show ?thesis using law(2) new by blast
qed

lemma append_law:
  assumes "eng_Append e f d = (r, d')" "links_ok d"
    and "\<And>fp m. \<not> isl r \<Longrightarrow> mint_of fp f = Some m \<Longrightarrow> task_for_key d (TaskDedupKey fp (mi_SourceSeq m)) = Some (mi_TaskID m)"
  shows "db_watermarks d' = db_watermarks d \<and> links_ok d' \<and> (\<exists>new. no_mints new
     \<and> (case r of Inl _ \<Rightarrow> db_facts d' = db_facts d @ new | Inr _ \<Rightarrow> \<exists>sq tm. db_facts d' = db_facts d @ new @ [f\<lparr>Seq := sq, Time := tm\<rparr>]))"
proof -
  have law: "facts_ok d'" "db_watermarks d' = db_watermarks d" "db_tasks d' = db_tasks d"
      "\<exists>new. no_mints new \<and> (\<forall>f\<in>set new. 0 < Seq f)
         \<and> (case r of Inl _ \<Rightarrow> db_facts d' = db_facts d @ new
            | Inr _ \<Rightarrow> \<exists>sq tm. 0 < sq \<and> db_facts d' = db_facts d @ new @ [f\<lparr>Seq := sq, Time := tm\<rparr>])"
    using honest assms(1,2) unfolding dedup_engine_def links_ok_def by blast+
  then obtain new where new: "no_mints new" "\<forall>f\<in>set new. 0 < Seq f"
      "case r of Inl _ \<Rightarrow> db_facts d' = db_facts d @ new
            | Inr _ \<Rightarrow> \<exists>sq tm. 0 < sq \<and> db_facts d' = db_facts d @ new @ [f\<lparr>Seq := sq, Time := tm\<rparr>]" by blast
  have t: "task_for_key d' = task_for_key d" using law(3) by (simp add: task_for_key_def fun_eq_iff)
  have none: "mint_of fp g = None" if "g \<in> set new" for fp g using no_mints_mint_of [OF new(1) that] .
  have same: "mint_of fp (f\<lparr>Seq := sq, Time := tm\<rparr>) = mint_of fp f" for fp sq tm by (simp add: mint_of_def)
  have "links_ok d'" using assms(2,3) law(1) new none t unfolding links_ok_def
    by (cases r) (auto simp: ball_Un same)
  moreover have "\<exists>new. no_mints new \<and> (case r of Inl _ \<Rightarrow> db_facts d' = db_facts d @ new | Inr _ \<Rightarrow> \<exists>sq tm. db_facts d' = db_facts d @ new @ [f\<lparr>Seq := sq, Time := tm\<rparr>])"
    using new by (cases r) auto
  ultimately show ?thesis using law(2) by blast
qed

end

abbreviation store_journal :: "sql_store \<Rightarrow> fact list" where "store_journal s \<equiv> JournalFacts (db_facts (s_db s))"
abbreviation store_marks :: "sql_store \<Rightarrow> string \<Rightarrow> int option" where "store_marks s \<equiv> Watermark (s_db s)"
abbreviation store_ok :: "sql_store \<Rightarrow> bool" where "store_ok s \<equiv> links_ok (s_db s)"
abbreviation store_tasks :: "sql_store \<Rightarrow> string \<Rightarrow> task_id option" where "store_tasks s \<equiv> task_for_key (s_db s)"

lemma upto_seq_JournalFacts [simp]: "upto_seq w (JournalFacts fs) = upto_seq w fs"
  by (cases fs rule: rev_cases) (simp_all add: upto_seq_def JournalFacts_def)

lemma Watermark_rows: "db_watermarks d' = db_watermarks d \<Longrightarrow> Watermark d' = Watermark d"
  by (simp add: Watermark_def fun_eq_iff)

lemma JournalFacts_pos: "\<forall>f\<in>set fs. 0 < Seq f \<Longrightarrow> f \<in> set (JournalFacts fs) \<Longrightarrow> 0 < Seq f"
  by (auto simp: JournalFacts_def)

lemma links_ok_SaveWatermark [simp]: "links_ok (SaveWatermark key q now d) = links_ok d"
  by (simp add: links_ok_def SaveWatermark_def facts_ok_def task_for_key_def)

lemma task_for_SaveWatermark [simp]: "task_for_key (SaveWatermark key q now d) = task_for_key d"
  by (simp add: SaveWatermark_def task_for_key_def fun_eq_iff)

lemma loadTask_ID: "loadTask d i = Inr t \<Longrightarrow> ID t = i"
  by (auto simp: loadTask_def scanTaskRow_def dest: row_of_mem split: option.splits sum.splits)

context engine_dedup
begin

lemma Enqueue_law:
  assumes "Enqueue e n s = (r, s')" "store_ok s"
  shows "store_ok s'" "\<exists>new. store_journal s' = store_journal s @ new \<and> no_mints new" "store_marks s' = store_marks s"
    and "r = Inr t \<Longrightarrow> n_DedupKey n \<noteq> [] \<Longrightarrow> ID t \<noteq> [] \<and> store_tasks s' (n_DedupKey n) = Some (ID t)"
proof -
  have "store_ok s' \<and> (\<exists>new. store_journal s' = store_journal s @ new \<and> no_mints new) \<and> store_marks s' = store_marks s
     \<and> (r = Inr t \<longrightarrow> n_DedupKey n \<noteq> [] \<longrightarrow> ID t \<noteq> [] \<and> store_tasks s' (n_DedupKey n) = Some (ID t))"
  proof (cases "n_Type n = []")
    case True
    then have "r = Inl ErrEmptyType" "s' = s" using assms(1) by (simp_all add: Enqueue_def)
    then show ?thesis using assms(2) by (simp add: no_mints_def)
  next
    case False
    let ?u = "\<lparr>u_Project = n_Project n, u_Type = n_Type n, u_Payload = n_Payload n,
               u_Deps = n_Deps n, u_Priority = n_Priority n, u_MaxAttempts = n_MaxAttempts n,
               u_NotBefore = (if is_zero (n_NotBefore n) then from_milli 0 else n_NotBefore n), u_DedupKey = n_DedupKey n\<rparr>"
    obtain r1 d1 where en: "eng_Enqueue e ?u (s_db s) = (r1, d1)" by (cases "eng_Enqueue e ?u (s_db s)")
    have res: "s_db s' = d1" "r = (case r1 of Inl er \<Rightarrow> Inl (MapErr er) | Inr i \<Rightarrow> loadTask d1 i)"
      using assms(1) False en by (auto simp: Enqueue_def Let_def fireWake_def split: sum.splits)
    obtain new where new: "db_facts d1 = db_facts (s_db s) @ new" "no_mints new" using enqueue_law [OF en assms(2)] by blast
    have frame: "links_ok d1" "Watermark d1 = Watermark (s_db s)"
      using enqueue_law [OF en assms(2)] Watermark_rows by blast+
    have "ID t \<noteq> [] \<and> task_for_key d1 (n_DedupKey n) = Some (ID t)" if t: "r = Inr t" and key: "n_DedupKey n \<noteq> []"
    proof -
      obtain i where i: "r1 = Inr i" "loadTask d1 i = Inr t" using res(2) t by (cases r1) auto
      then have "i \<noteq> [] \<and> task_for_key d1 (u_DedupKey ?u) = Some i"
        using honest en key unfolding dedup_engine_def by (metis upstream_new.select_convs(8))
      then show ?thesis using loadTask_ID [OF i(2)] by simp
    qed
    then show ?thesis using frame new res(1) by auto
  qed
  then show "store_ok s'" "\<exists>new. store_journal s' = store_journal s @ new \<and> no_mints new" "store_marks s' = store_marks s"
    "r = Inr t \<Longrightarrow> n_DedupKey n \<noteq> [] \<Longrightarrow> ID t \<noteq> [] \<and> store_tasks s' (n_DedupKey n) = Some (ID t)" by blast+
qed

lemma AppendFact_law:
  assumes "AppendFact e f s = (r, s')" "store_ok s" "\<not> isl r \<Longrightarrow> jt_text (Detail f) \<noteq> []"
    and "\<And>fp m. \<not> isl r \<Longrightarrow> mint_of fp f = Some m \<Longrightarrow> store_tasks s (TaskDedupKey fp (mi_SourceSeq m)) = Some (mi_TaskID m)"
  shows "store_ok s' \<and> store_marks s' = store_marks s \<and> (\<exists>new. no_mints new
     \<and> (case r of Inl _ \<Rightarrow> store_journal s' = store_journal s @ new
        | Inr _ \<Rightarrow> \<exists>sq tm. store_journal s' = store_journal s @ new @ [f\<lparr>Seq := sq, Time := tm\<rparr>]))"
proof -
  have ap: "eng_Append e (f\<lparr>Seq := 0\<rparr>) (s_db s) = (r, s_db s')"
    using assms(1) by (auto simp: AppendFact_def UpstreamFact_def split: prod.splits)
  have pre: "task_for_key (s_db s) (TaskDedupKey fp (mi_SourceSeq m)) = Some (mi_TaskID m)" 
    if "\<not> isl r" "mint_of fp (f\<lparr>Seq := 0\<rparr>) = Some m" for fp m
  proof -
    have "mint_of fp (f\<lparr>Seq := 0\<rparr>) = mint_of fp f" by (simp add: mint_of_def)
    then show ?thesis using assms(4) [of fp m] that by simp
  qed
  obtain new where law: "db_watermarks (s_db s') = db_watermarks (s_db s)" "links_ok (s_db s')" "no_mints new"
      "case r of Inl _ \<Rightarrow> db_facts (s_db s') = db_facts (s_db s) @ new
       | Inr _ \<Rightarrow> \<exists>sq tm. db_facts (s_db s') = db_facts (s_db s) @ new @ [f\<lparr>Seq := 0, Seq := sq, Time := tm\<rparr>]"
    using append_law [OF ap assms(2) pre] by blast
  have "case r of Inl _ \<Rightarrow> store_journal s' = store_journal s @ JournalFacts new
        | Inr _ \<Rightarrow> \<exists>sq tm. store_journal s' = store_journal s @ JournalFacts new @ [f\<lparr>Seq := sq, Time := tm\<rparr>]"
    using law(4) assms(3) by (cases r) (fastforce simp: JournalFacts_def)+
  moreover have "no_mints (JournalFacts new)" using law(3) by simp
  ultimately show ?thesis using law(2) Watermark_rows [OF law(1)] by blast
qed

end

sublocale engine_dedup \<subseteq> pol: fix_store "adapter_policy e tm now" store_journal store_marks store_ok store_tasks
  for tm :: "go_time \<Rightarrow> string" and now :: go_time
proof
  fix after limit s fs assume "src_Facts (po_source (adapter_policy e tm now)) after limit s = Inr fs"
  then show "fs = AfterSeq (store_journal s) after limit"
    using facts_law by (auto simp: adapter_policy_def Facts_def raw_err_def AfterSeq_JournalFacts split: sum.splits uerr.splits)
next
  fix s :: sql_store and hd_seq assume "src_HeadSeq (po_source (adapter_policy e tm now)) s = Inr hd_seq" "store_ok s"
  then show "hd_seq = upto_seq 0 (store_journal s)"
    unfolding upto_seq_JournalFacts by (simp add: adapter_policy_def upto_seq_def HeadSeq_last links_ok_def)
next
  fix n s r s' assume "po_Enqueue (adapter_policy e tm now) n s = (r, s')" "store_ok s"
  then show "store_ok s' \<and> (\<exists>new. store_journal s' = store_journal s @ new \<and> no_mints new) \<and> store_marks s' ConsumerKey = store_marks s ConsumerKey"
    using Enqueue_law(1-3) [of n s r s'] by (simp add: adapter_policy_def)
next
  fix n s t s' assume "po_Enqueue (adapter_policy e tm now) n s = (Inr t, s')" "store_ok s" "n_DedupKey n \<noteq> []"
  then show "ID t \<noteq> [] \<and> store_tasks s' (n_DedupKey n) = Some (ID t)"
    using Enqueue_law(4) [of n s "Inr t" s' t] by (simp add: adapter_policy_def)
next
  fix f s u s' assume a: "po_AppendFact (adapter_policy e tm now) f s = (Inr u, s')" "store_ok s" "jt_text (Detail f) \<noteq> []"
    "\<And>fp d. mint_of fp f = Some d \<Longrightarrow> store_tasks s (TaskDedupKey fp (mi_SourceSeq d)) = Some (mi_TaskID d)"
  obtain r s1 where r: "AppendFact e f s = (r, s1)" by (cases "AppendFact e f s")
  then have "raw_err r = Inr u" "s1 = s'" using a(1) by (simp_all add: adapter_policy_def)
  then show "store_ok s' \<and> store_marks s' ConsumerKey = store_marks s ConsumerKey
      \<and> (\<exists>new sq tm. store_journal s' = store_journal s @ new @ [f\<lparr>Seq := sq, Time := tm\<rparr>] \<and> no_mints new)"
    using AppendFact_law [OF r a(2-4)] by (cases r) (auto simp: raw_err_def split: uerr.splits)
next
  fix f s er s' assume a: "po_AppendFact (adapter_policy e tm now) f s = (Inl er, s')" "store_ok s"
  obtain r s1 where r: "AppendFact e f s = (r, s1)" by (cases "AppendFact e f s")
  then have "isl r" "s1 = s'" using a(1) by (auto simp: adapter_policy_def raw_err_def split: sum.splits uerr.splits)
  then show "store_ok s' \<and> store_marks s' ConsumerKey = store_marks s ConsumerKey \<and> (\<exists>new. store_journal s' = store_journal s @ new \<and> no_mints new)"
    using AppendFact_law [OF r a(2)] by (cases r) auto
qed (auto simp: adapter_policy_def links_ok_def facts_ok_def Watermark_Save dest: mint_of_JournalFacts JournalFacts_pos)

section \<open>A policy among other processes\<close>

text \<open>
  A step is one sweep, a restart of the policy, or anything others do to the store: they append facts that
  link no fix, and may even set the policy's checkpoint back.
\<close>

inductive policy_step :: "engine_ops \<Rightarrow> (go_time \<Rightarrow> string) \<Rightarrow> policy_config \<Rightarrow> cursor \<times> policy \<times> sql_store \<Rightarrow> cursor \<times> policy \<times> sql_store \<Rightarrow> bool"
  for e :: engine_ops and tm :: "go_time \<Rightarrow> string" and cfg :: policy_config where
  swept: "PolicySweep fuel (adapter_policy e tm now) cfg c p s = Some (er, c', (p', s'), acc) \<Longrightarrow> policy_step e tm cfg (c, p, s) (c', p', s')"
| restarted: "NewPolicy fuel (adapter_policy e tm now) cfg0 s = Some (Inr (cfg, c', p'), s') \<Longrightarrow> policy_step e tm cfg (c, p, s) (c', p', s')"
| others: "links_ok (s_db s') \<Longrightarrow> db_facts (s_db s') = db_facts (s_db s) @ new \<Longrightarrow> no_mints new \<Longrightarrow>
    (\<forall>w. Watermark (s_db s') ConsumerKey = Some w \<longrightarrow> w \<le> HeadSeq (s_db s')) \<Longrightarrow> policy_step e tm cfg (c, p, s) (c, p, s')"

inductive_cases policy_stepE [elim!]: "policy_step e tm cfg (c, p, s) (c', p', s')"

lemma head_store: "facts_ok (s_db s) \<Longrightarrow> HeadSeq (s_db s) = upto_seq 0 (store_journal s)"
  unfolding upto_seq_JournalFacts by (simp add: HeadSeq_last upto_seq_def)

context engine_dedup
begin

lemma step_sane:
  assumes "policy_step e tm cfg (c, p, s) (c', p', s')" "pol.sane c p s"
  shows "pol.sane c' p' s'"
  using assms(1)
proof cases
  case (swept fuel now er acc)
  then show ?thesis using pol.PolicySweep_sane assms(2) by blast
next
  case (restarted fuel now cfg0)
  then show ?thesis using pol.NewPolicy_sane pol.sane_startable [OF assms(2)] by blast
next
  case (others new)
  have ok: "facts_ok (s_db s')" using others(3) by (simp add: links_ok_def)
  have "pol.ok p s'"
    using pol.ok_extend [of p s s' "JournalFacts new"] assms(2) others by (simp add: pol.sane_def)
  then show ?thesis using assms(2) others head_store [OF ok] by (simp add: pol.sane_def)
qed

lemma steps_sane: "(policy_step e tm cfg)\<^sup>*\<^sup>* w w' \<Longrightarrow> pol.sane (fst w) (fst (snd w)) (snd (snd w)) \<Longrightarrow>
   pol.sane (fst w') (fst (snd w')) (snd (snd w'))"
proof (induction rule: rtranclp_induct)
  case (step y z)
  obtain a b d where y: "y = (a, b, d)" by (cases y)
  obtain a' b' d' where z: "z = (a', b', d')" by (cases z)
  have "policy_step e tm cfg (a, b, d) (a', b', d')" using step(2) unfolding y z .
  from step_sane [OF this] step show ?case unfolding y z by simp
qed

lemma fresh_startable:
  assumes "links_ok (s_db s)" "no_mints (db_facts (s_db s))"
    and "\<forall>w. Watermark (s_db s) ConsumerKey = Some w \<longrightarrow> w \<le> HeadSeq (s_db s)"
  shows "pol.startable s"
proof -
  have ok: "facts_ok (s_db s)" using assms(1) by (simp add: links_ok_def)
  have "well_minted (store_journal s)" using well_minted_extend [of "[]" "store_journal s"] assms(2) by (simp add: well_minted_def)
  moreover have "same_source (store_journal s)"
    using no_mints_mint_of [of "store_journal s"] assms(2) by (fastforce simp: same_source_def)
  moreover have "named (store_journal s)" using assms(2) by simp
  ultimately show ?thesis using assms(1,3) head_store [OF ok] by (simp add: pol.startable_def)
qed

lemma one_live:
  assumes "pol.startable s0" "NewPolicy fuel (adapter_policy e tm now) cfg0 s0 = Some (Inr (cfg, c, p), s)"
    and "(policy_step e tm cfg)\<^sup>*\<^sup>* (c, p, s) (c', p', s')"
  shows "length (live_fixes fp (store_journal s')) \<le> 1"
proof -
  have "pol.sane c p s" using pol.NewPolicy_sane [OF assms(2,1)] .
  then have "pol.sane c' p' s'" using steps_sane [OF assms(3)] by simp
  then show ?thesis using well_minted_one_live by (simp add: pol.sane_def pol.ok_def storm_ok_def)
qed

end

section \<open>Properties\<close>

text \<open>
  C9: an error storm never has two fixes in flight. Start the policy over a store without fix links and let it
  run: sweeps that succeed, fail or stop half way, restarts that lose the pending map, checkpoints set back,
  other processes reporting errors and finishing tasks in between. At every moment each incident has at most
  one linked fix task that has neither completed nor been dead-lettered.
\<close>

theorem storm_has_one_live_fix:
  assumes "dedup_engine e" "links_ok (s_db s0)" "no_mints (db_facts (s_db s0))"
    and "\<forall>w. Watermark (s_db s0) ConsumerKey = Some w \<longrightarrow> w \<le> HeadSeq (s_db s0)"
    and "NewPolicy fuel (adapter_policy e tm now) cfg0 s0 = Some (Inr (cfg, c, p), s)"
    and "(policy_step e tm cfg)\<^sup>*\<^sup>* (c, p, s) (c', p', s')"
  shows "length (live_fixes fp (JournalFacts (db_facts (s_db s')))) \<le> 1"
proof -
  have en: "engine_dedup e" using assms(1) by (rule engine_dedup.intro)
  show ?thesis
    by (rule engine_dedup.one_live [OF en engine_dedup.fresh_startable [OF en assms(2-4)] assms(5,6)])
qed

text \<open>An engine that files a task per key and numbers its facts, two reports of one error, and a first sweep.\<close>

definition demo_engine :: engine_ops where
  "demo_engine =
     \<lparr>eng_Enqueue = (\<lambda>n d. case task_for_key d (u_DedupKey n) of Some i \<Rightarrow> (if i = [] then Inl UNotFound else Inr i, d)
        | None \<Rightarrow> let i = ''task-'' @ u_DedupKey n in
            (Inr i, d\<lparr>db_tasks := db_tasks d @ [(demo_row i (u_Priority n) Pending)\<lparr>r_dedup_key := u_DedupKey n\<rparr>]\<rparr>)),
      eng_Complete = (\<lambda>_ _ _ d. (Inl UNotFound, d)), eng_Fail = (\<lambda>_ _ _ _ _ d. (Inl UNotFound, d)),
      eng_FailPermanent = (\<lambda>_ _ _ _ d. (Inl UNotFound, d)), eng_Heartbeat = (\<lambda>_ _ _ d. (Inl UNotFound, d)),
      eng_Cancel = (\<lambda>_ _ d. (Inl UNotFound, d)), eng_CancelRunning = (\<lambda>_ _ d. (Inl UNotFound, d)),
      eng_CancelRequested = (\<lambda>_ d. Inr False), eng_CancelOwned = (\<lambda>_ _ d. (Inl UNotFound, d)),
      eng_MarkOrphaned = (\<lambda>_ d. (Inr 0, d)), eng_RescueDead = (\<lambda>_ _ d. (Inl UNotFound, d)),
      eng_DismissDead = (\<lambda>_ _ _ d. (Inl UNotFound, d)), eng_UpdatePendingPriority = (\<lambda>_ _ _ _ d. (Inl UNotFound, d)),
      eng_Append = (\<lambda>f d. let sq = max 1 (db_next_seq d) in
          (Inr (), d\<lparr>db_facts := db_facts d @ [f\<lparr>Seq := sq, Time := 0\<rparr>], db_next_seq := sq + 1\<rparr>)),
      eng_Facts = (\<lambda>after limit d. Inr (AfterSeq (db_facts d) after limit)),
      eng_FactsForTask = (\<lambda>i limit d. Inr (filter (\<lambda>f. TaskID f = i) (db_facts d)))\<rparr>"

definition seen :: "int \<Rightarrow> fact" where
  "seen q = (incident_fact ''ab'' F_ErrorObserved (marshal (report_json (no_report\<lparr>rp_Project := ''p'', rp_Message := ''m''\<rparr>))))\<lparr>Seq := q, Time := 0\<rparr>"

definition storm_store :: "fact list \<Rightarrow> sql_store" where
  "storm_store fs = \<lparr>s_db = (demo_db [])\<lparr>db_facts := fs, db_next_seq := int (length fs) + 1\<rparr>, s_exclusive = False, s_wake = False\<rparr>"

definition storm_config :: policy_config where
  "storm_config = \<lparr>pc_PageSize = 0, pc_FirstPriority = 0, pc_RegressionPriority = 0, pc_MaxAttempts = 0\<rparr>"

abbreviation demo_policy :: "sql_store policy_ops" where "demo_policy \<equiv> adapter_policy demo_engine (\<lambda>_. ''t'') 0"

definition first_sweep :: "fact list \<Rightarrow> (cursor \<times> policy \<times> sql_store \<times> cursor \<times> policy \<times> sql_store) option" where
  "first_sweep fs =
     (case NewPolicy 9 demo_policy storm_config (storm_store fs) of
        Some (Inr (cfg, c, p), s) \<Rightarrow>
          (case PolicySweep 9 demo_policy (policy_defaults storm_config) c p s of
             Some (e, c', (p', s'), acc) \<Rightarrow> Some (c, p, s, c', p', s') | None \<Rightarrow> None)
      | _ \<Rightarrow> None)"

lemma demo_engine_honest: "dedup_engine demo_engine"
proof -
  have "task_for_key (d\<lparr>db_tasks := db_tasks d @ [r]\<rparr>) k = Some i" if "task_for_key d k = Some i" for d r k i
    using that by (auto simp: task_for_key_def find_append)
  moreover have "task_for_key (d\<lparr>db_tasks := db_tasks d @ [r]\<rparr>) k = Some i"
    if "task_for_key d k = None" "r_dedup_key r = k" "r_id r = i" for d r k i
    using that by (auto simp: task_for_key_def find_append split: option.splits)
  moreover have "facts_ok (d\<lparr>db_tasks := ts\<rparr>) = facts_ok d" for d ts by (simp add: facts_ok_def)
  moreover have "facts_ok (d\<lparr>db_facts := db_facts d @ [f\<lparr>Seq := max 1 (db_next_seq d), Time := 0\<rparr>], db_next_seq := max 1 (db_next_seq d) + 1\<rparr>)"
    if "facts_ok d" for d f
    using that by (fastforce simp: facts_ok_def seq_sorted_def sorted_wrt_append)
  moreover have "\<exists>sq tm. 0 < sq \<and> f\<lparr>Seq := max 1 q, Time := 0\<rparr> = f\<lparr>Seq := sq, Time := tm\<rparr>" for f :: fact and q
    by (intro exI [of _ "max 1 q"] exI [of _ 0]) simp
  ultimately show ?thesis
    unfolding dedup_engine_def
    by (intro conjI) (auto simp: demo_engine_def Let_def no_mints_def demo_row_def split: option.splits if_splits intro!: exI [of _ "[]"])
qed

interpretation demo_storm: engine_dedup demo_engine
  by (rule engine_dedup.intro) (rule demo_engine_honest)

lemma first_sweep_links: "map_option (\<lambda>(c, p, s, c', p', s'). live_fixes ''ab'' (JournalFacts (db_facts (s_db s')))) (first_sweep [seen 1, seen 2])
    = Some [''task-err:ab:1'']"
  by code_simp

lemma storm_has_one_live_fix_witness:
  "\<exists>c p s c' p' s'. first_sweep [seen 1, seen 2] = Some (c, p, s, c', p', s')
     \<and> live_fixes ''ab'' (JournalFacts (db_facts (s_db s'))) = [''task-err:ab:1'']
     \<and> length (live_fixes ''ab'' (JournalFacts (db_facts (s_db s')))) \<le> 1"
proof -
  obtain c p s c' p' s' where run: "first_sweep [seen 1, seen 2] = Some (c, p, s, c', p', s')"
      and live: "live_fixes ''ab'' (JournalFacts (db_facts (s_db s'))) = [''task-err:ab:1'']"
    using first_sweep_links by (cases "first_sweep [seen 1, seen 2]") (auto split: prod.splits)
  obtain e acc cfg where new: "NewPolicy 9 demo_policy storm_config (storm_store [seen 1, seen 2]) = Some (Inr (cfg, c, p), s)"
      and sweep: "PolicySweep 9 demo_policy (policy_defaults storm_config) c p s = Some (e, c', (p', s'), acc)"
    using run by (auto simp: first_sweep_def split: option.splits sum.splits prod.splits)
  have cfg: "cfg = policy_defaults storm_config"
    using new by (auto simp: NewPolicy_def Let_def split: option.splits sum.splits prod.splits)
  have no: "no_mints (db_facts (s_db (storm_store [seen 1, seen 2])))"
    by (simp add: no_mints_def storm_store_def seen_def incident_fact_def)
  have ok: "links_ok (s_db (storm_store [seen 1, seen 2]))"
    by (simp add: links_ok_def facts_ok_def storm_store_def seen_def incident_fact_def seq_sorted_def mint_of_def)
  have "length (live_fixes ''ab'' (JournalFacts (db_facts (s_db s')))) \<le> 1"
    by (rule storm_has_one_live_fix [OF demo_engine_honest ok no _ new])
      (use sweep cfg in \<open>auto simp: storm_store_def demo_db_def Watermark_def intro!: r_into_rtranclp swept\<close>)
  with run live show ?thesis by blast
qed

text \<open>
  A restart before the checkpoint delivers old observations again, and \<open>needsFix\<close> compares them with the latest fix
  without looking at when that fix ended: an error seen before the fix completed is taken for a regression. The
  new fix is linked while the incident counts as resolved.
\<close>

definition linked :: "int \<Rightarrow> string \<Rightarrow> int \<Rightarrow> fact" where
  "linked q t src = (incident_fact ''ab'' F_IncidentTaskMinted (marshal (mint_detail
     \<lparr>mi_TaskID = t, mi_SourceSeq = src, mi_Regression = False, mi_Priority = 120, mi_Outcome = [], mi_DoneSeq = 0\<rparr>)))\<lparr>Seq := q, Time := 0\<rparr>"

definition finished :: "int \<Rightarrow> string \<Rightarrow> fact" where
  "finished q t = blank_fact\<lparr>Seq := q, Time := 0, TaskID := t, FType := F_Completed\<rparr>"

theorem replayed_observation_is_taken_for_regression:
  "map_option (\<lambda>(c, p, s, c', p', s'). (live_fixes ''ab'' (db_facts (s_db s')), pt_Regressions (po_stats p'),
       map_option ic_Status (is_byFP (po_state p') ''ab'')))
     (first_sweep [seen 1, seen 2, linked 3 ''t1'' 1, finished 4 ''t1'']) = Some ([''task-err:ab:2''], 1, Some StatusResolved)"
  by code_simp

text \<open>
  A fix task that completes between its enqueue and its link is never seen to end: the fold only looks for
  the completions of linked tasks. The incident stays dispatched and no later observation gets a fix.
\<close>

theorem fix_finished_before_link_blocks_incident:
  "map_option (\<lambda>(c, p, s, c', p', s'). (live_fixes ''ab'' (db_facts (s_db s')), pt_TasksMinted (po_stats p'), pt_Occurrences (po_stats p'),
       map_option ic_Status (is_byFP (po_state p') ''ab'')))
     (first_sweep [seen 1, finished 2 ''t1'', linked 3 ''t1'' 1, seen 4, seen 5]) = Some ([], 0, 3, Some StatusFixDispatched)"
  by code_simp

text \<open>The done-guard the policy counts on is the queue facade's: the store itself never answers with it.\<close>

lemma store_has_no_done_guard: "fst (Enqueue e n s) \<noteq> Inl ErrTaskDone"
proof -
  have "loadTask d i \<noteq> Inl ErrTaskDone" for d i
    by (auto simp: loadTask_def scanTaskRow_def Let_def split: option.splits if_splits)
  moreover have "MapErr er \<noteq> ErrTaskDone" for er by (cases er) (simp_all add: MapErr_def)
  ultimately show ?thesis by (auto simp: Enqueue_def Let_def split: sum.splits prod.splits)
qed

section \<open>The read-only fold\<close>

definition observes :: "string \<Rightarrow> fact \<Rightarrow> bool" where
  "observes fp f \<longleftrightarrow> FType f = F_ErrorObserved \<and> TaskID f = IncidentID fp"

definition occurrences_of :: "istate \<Rightarrow> string \<Rightarrow> int" where
  "occurrences_of s fp = (case is_byFP s fp of None \<Rightarrow> 0 | Some inc \<Rightarrow> ic_Occurrences inc)"

lemma occ_state_incident [simp]:
  "occurrences_of (snd (state_incident fp s)) g = occurrences_of s g" "ic_Occurrences (fst (state_incident fp s)) = occurrences_of s fp"
  by (auto simp: occurrences_of_def state_incident_def fresh_incident_def split: option.splits)

lemma occ_put [simp]: "occurrences_of (put_incident fp inc s) g = (if g = fp then ic_Occurrences inc else occurrences_of s g)"
  by (simp add: occurrences_of_def put_incident_def)

lemma occ_frame [simp]: "occurrences_of (s\<lparr>is_lastSeq := q\<rparr>) = occurrences_of s" "occurrences_of (s\<lparr>is_byTask := b\<rparr>) = occurrences_of s"
  by (simp_all add: occurrences_of_def fun_eq_iff)

lemma occ_observed:
  assumes "FType f = F_ErrorObserved"
  shows "occurrences_of (applyObserved f s) fp = occurrences_of s fp + (if observes fp f then 1 else 0)"
proof (cases "has_prefix (TaskID f) IDPrefix")
  case True
  let ?fp = "FingerprintOfID (TaskID f)"
  obtain inc s1 where i: "state_incident ?fp s = (inc, s1)" by (cases "state_incident ?fp s")
  then show ?thesis
    using occ_state_incident [where fp="?fp" and s=s] True assms
    by (auto simp: applyObserved_def observe_def Let_def observes_def IncidentID_eq)
qed (use assms in \<open>auto simp: applyObserved_def observes_def\<close>)

lemma occ_others [simp]: "occurrences_of (applyMinted f s) fp = occurrences_of s fp" "occurrences_of (applyTaskTerminal f s) fp = occurrences_of s fp"
proof -
  show "occurrences_of (applyMinted f s) fp = occurrences_of s fp"
    using occ_state_incident [where fp="FingerprintOfID (TaskID f)" and s=s]
    by (cases "state_incident (FingerprintOfID (TaskID f)) s") (auto simp: applyMinted_def Let_def split: option.splits)
  show "occurrences_of (applyTaskTerminal f s) fp = occurrences_of s fp"
    by (auto simp: applyTaskTerminal_def Let_def occurrences_of_def put_incident_def split: option.splits)
qed

lemma occ_apply: "is_lastSeq s < Seq f \<Longrightarrow> occurrences_of (apply_fact f s) fp = occurrences_of s fp + (if observes fp f then 1 else 0)"
  by (auto simp: Apply_def Let_def occ_observed) (auto simp: observes_def)

lemma occ_fold:
  assumes "seq_sorted (K @ xs)" "\<forall>f\<in>set (K @ xs). 0 < Seq f" "is_lastSeq st = upto_seq 0 K"
  shows "occurrences_of (fold apply_fact xs st) fp = occurrences_of st fp + int (length (filter (observes fp) xs))"
  using assms
proof (induction xs arbitrary: st K)
  case (Cons f xs)
  have lt: "upto_seq 0 K < Seq f"
    using Cons.prems(1,2) by (cases "K = []") (auto simp: upto_seq_def seq_sorted_def sorted_wrt_append)
  then have "is_lastSeq (apply_fact f st) = upto_seq 0 (K @ [f])" using Cons.prems(3) by (simp add: upto_seq_def)
  then show ?case using Cons.IH [of "K @ [f]" "apply_fact f st"] Cons.prems lt occ_apply [of st f fp] by simp
qed simp

lemma fold_pages_returns:
  assumes "\<forall>after. src_Facts src after 500 s = Inr (AfterSeq J after 500)" and J: "seq_sorted J" "\<forall>f\<in>set J. 0 < Seq f"
  shows "J = K @ U \<Longrightarrow> is_lastSeq st = upto_seq 0 K \<Longrightarrow> length U div 500 < n \<Longrightarrow> \<exists>st'. fold_pages n src s st = Some (Inr st')"
proof (induction n arbitrary: K U st)
  case (Suc n)
  have "filter (\<lambda>f. is_lastSeq st < Seq f) J = U"
  proof -
    have "AfterSeq J 0 0 = J" using J(2) by (auto simp: filter_id_conv)
    then have "J = K @ AfterSeq J (upto_seq 0 K) 0" using consumed_rest [OF J(1), of K 0] Suc.prems(1) by auto
    then show ?thesis using Suc.prems(1,2) by (metis AfterSeq_unlimited order_refl same_append_eq)
  qed
  then have facts: "AfterSeq J (is_lastSeq st) 500 = take 500 U" by (simp add: AfterSeq_take)
  show ?case
  proof (cases "length (take 500 U) < 500")
    case True
    then have "length U < 500" by simp
    then show ?thesis using assms(1) facts by (simp add: Let_def)
  next
    case False
    then have len: "500 \<le> length U" by simp
    have J': "J = (K @ take 500 U) @ drop 500 U" using Suc.prems(1) by simp
    then have "seq_sorted (K @ take 500 U)" "\<forall>f\<in>set (K @ take 500 U). 0 < Seq f"
      using J unfolding seq_sorted_def by (metis sorted_wrt_append, metis Un_iff set_append)
    then have "is_lastSeq (fold apply_fact (take 500 U) st) = upto_seq 0 (K @ take 500 U)" using lastSeq_fold Suc.prems(2) by blast
    moreover have "length (drop 500 U) div 500 < n" using len Suc.prems(3) by (simp add: le_div_geq)
    ultimately have "\<exists>st'. fold_pages n src s (fold apply_fact (take 500 U) st) = Some (Inr st')"
      using Suc.IH [OF J'] by blast
    then show ?thesis using assms(1) facts False by (simp add: Let_def)
  qed
qed simp

text \<open>
  C20: the incident list tells the journal. \<open>FoldAll\<close> returns after one page more than the full pages of the journal;
  what it returns has, for every incident, exactly as many occurrences as there are observations of it in the
  journal and exactly the fix tasks linked to it, in the order of their first link. Delivering any fact of the
  journal once more changes nothing.
\<close>

theorem FoldAll_tells_the_journal:
  assumes "facts_ok d" "\<forall>f\<in>set (db_facts d). 0 < Seq f" "length (db_facts d) div 500 < fuel"
  shows "\<exists>st. FoldAll fuel (tables_source now) d = Some (Inr st)
     \<and> (\<forall>fp. (case is_byFP st fp of None \<Rightarrow> 0 | Some inc \<Rightarrow> ic_Occurrences inc) = int (length (filter (observes fp) (db_facts d)))
          \<and> (case is_byFP st fp of None \<Rightarrow> [] | Some inc \<Rightarrow> map mi_TaskID (ic_Mints inc)) = firsts (minted fp (db_facts d)))
     \<and> (\<forall>f\<in>set (db_facts d). Apply f st = (False, st))"
proof -
  let ?J = "db_facts d" and ?st = "fold apply_fact (db_facts d) NewState"
  have srt: "seq_sorted ?J" using assms(1) by (simp add: facts_ok_def)
  have read: "src_Facts (tables_source now) after limit d = Inr (AfterSeq ?J after limit)" for after limit
    by (simp add: tables_source_def)
  have new: "is_lastSeq NewState = upto_seq 0 []" "occurrences_of NewState fp = 0" for fp
    by (simp_all add: NewState_def occurrences_of_def)
  obtain st where st: "fold_pages fuel (tables_source now) d NewState = Some (Inr st)"
    using fold_pages_returns [of "tables_source now" d ?J "[]" ?J NewState fuel] read srt assms(2,3) new(1) by auto
  have eq: "st = ?st"
    by (rule fold_pages_all [of "tables_source now" d ?J "[]" ?J, OF _ srt assms(2) _ _ st]) (simp_all add: read)
  have "folded NewState [] ?J" using assms(2) by (simp add: folded_def NewState_def mints_of_def)
  then have fold: "folded st ?J []" using folded_list [of NewState "[]" ?J "[]"] srt eq by simp
  have "occurrences_of st fp = int (length (filter (observes fp) ?J))" for fp
    using occ_fold [of "[]" ?J NewState fp] srt assms(2) new eq by simp
  moreover have "map mi_TaskID (mints_of st fp) = firsts (minted fp ?J)" for fp using fold by (simp add: folded_def)
  then have "(case is_byFP st fp of None \<Rightarrow> [] | Some inc \<Rightarrow> map mi_TaskID (ic_Mints inc)) = firsts (minted fp ?J)" for fp
    unfolding mints_of_def by (metis (no_types, lifting) list.simps(8) option.case_eq_if)
  moreover have "Apply f st = (False, st)" if "f \<in> set ?J" for f using fold that by (simp add: folded_def Apply_def)
  ultimately show ?thesis using st by (auto simp: FoldAll_def occurrences_of_def)
qed

lemma FoldAll_tells_the_journal_witness:
  "\<exists>st. FoldAll 1 (tables_source 0) (s_db (storm_store [seen 1, linked 2 ''t1'' 1, seen 3])) = Some (Inr st)
     \<and> (case is_byFP st ''ab'' of None \<Rightarrow> 0 | Some inc \<Rightarrow> ic_Occurrences inc) = 2"
proof -
  let ?d = "s_db (storm_store [seen 1, linked 2 ''t1'' 1, seen 3])"
  have facts: "db_facts ?d = [seen 1, linked 2 ''t1'' 1, seen 3]" by (simp add: storm_store_def)
  have ok: "facts_ok ?d" "\<forall>f\<in>set (db_facts ?d). 0 < Seq f" "length (db_facts ?d) div 500 < 1"
    by (simp_all add: facts_ok_def storm_store_def seen_def linked_def seq_sorted_def)
  have "length (filter (observes ''ab'') (db_facts ?d)) = 2"
    unfolding facts by (simp add: observes_def seen_def linked_def incident_fact_def)
  then show ?thesis using FoldAll_tells_the_journal [OF ok, of 0] by (metis of_nat_numeral)
qed

end
