(* ===== verification/Tq_Readmodel.thy ===== *)
theory Tq_Readmodel
  imports Tq_Store Tq_Watermark "HOL-Library.Word"
begin

text \<open>
  Package \<open>internal/readmodel\<close>, the definitions: the ledger the dashboards read, folded from the journal
  (\<open>events.go\<close>, \<open>queries.go\<close>), its pump and durable cursor (\<open>model.go\<close>) and the statistics over its counters
  (\<open>stats.go\<close>). The collections live in a third-party engine: the record \<open>meta_ops\<close> is what the package calls
  of it. File locks, schema probes and the event stream are not modelled. What follows is shown in
  \<open>Tq_Ledger\<close>; the projection host is in \<open>Tq_Host\<close>.
\<close>

section \<open>Rows and events\<close>

record ledger_row =
  tr_ID :: string
  tr_Project :: string
  tr_Type :: string
  tr_Status :: string
  tr_Priority :: int
  tr_Attempts :: int
  tr_CreatedAt :: int
  tr_UpdatedAt :: int
  tr_DedupKey :: string
  tr_LastError :: string
  tr_NotBefore :: int
  tr_ParkedBy :: string

record row_snapshot =
  sn_Project :: string
  sn_Type :: string
  sn_Priority :: int
  sn_DedupKey :: string
  sn_CreatedAt :: int

text \<open>\<open>RowSource\<close>, and the adapter of a store to it: every error of \<open>Get\<close> is passed on.\<close>

type_synonym row_source = "string \<Rightarrow> qerr + row_snapshot option"

definition StoreRows :: "(task_id \<Rightarrow> qerr + task) \<Rightarrow> row_source" where
  "StoreRows get i =
     (case get i of
        Inl e \<Rightarrow> Inl e
      | Inr t \<Rightarrow> Inr (Some \<lparr>sn_Project = Project t, sn_Type = Type t, sn_Priority = Priority t, sn_DedupKey = DedupKey t,
                         sn_CreatedAt = unix_milli (CreatedAt t)\<rparr>))"

record enqueued_evt =
  ee_Project :: string
  ee_Type :: string
  ee_Priority :: int
  ee_DedupKey :: string
  ee_CreatedAt :: int

text \<open>The fold inputs without the from-side, which \<open>apply\<close> fills in.\<close>

datatype ledger_evt =
    EvtEnqueued enqueued_evt
  | EvtClaimed int
  | EvtCompleted int
  | EvtFailed string int
  | EvtDeadLettered int
  | EvtCancelled int
  | EvtRequeued int int string
  | EvtReprioritized int int

datatype model_err = SideChannel string qerr | CorruptEnqueue string | CorruptRepri string
  | ReadFactsErr int qerr | ApplyErr string | CounterErr string | NotSequence

definition fallbackString :: "string \<Rightarrow> string \<Rightarrow> string" where
  "fallbackString prefer fallback = (if prefer \<noteq> [] then prefer else fallback)"

definition dec_enqueue :: "jtext \<Rightarrow> (string \<times> string) option" where
  "dec_enqueue d = do { j \<leftarrow> jt_parse d; kvs \<leftarrow> jfields j; p \<leftarrow> jstr_field ''project'' kvs; t \<leftarrow> jstr_field ''type'' kvs; Some (p, t) }"

definition dec_requeue :: "jtext \<Rightarrow> (int \<times> string) option" where
  "dec_requeue d = do { j \<leftarrow> jt_parse d; kvs \<leftarrow> jfields j; r \<leftarrow> jint_field ''retry_in_ms'' kvs; c \<leftarrow> jstr_field ''class'' kvs; Some (r, c) }"

definition dec_repri :: "jtext \<Rightarrow> int option" where
  "dec_repri d = do { j \<leftarrow> jt_parse d; kvs \<leftarrow> jfields j; q \<leftarrow> jint_field ''old_priority'' kvs; n \<leftarrow> jint_field ''new_priority'' kvs;
     s \<leftarrow> jstr_field ''source'' kvs; r \<leftarrow> jstr_field ''reason'' kvs; Some n }"

definition enqueuedEvent :: "row_source option \<Rightarrow> fact \<Rightarrow> model_err + ledger_evt option" where
  "enqueuedEvent src f =
     (let blank = \<lparr>ee_Project = [], ee_Type = [], ee_Priority = 0, ee_DedupKey = [], ee_CreatedAt = unix_milli (Time f)\<rparr>;
          seed = (case src of
              None \<Rightarrow> Inr blank
            | Some rs \<Rightarrow>
                (case rs (TaskID f) of
                   Inl e \<Rightarrow> Inl (SideChannel (TaskID f) e)
                 | Inr None \<Rightarrow> Inr blank
                 | Inr (Some n) \<Rightarrow> Inr \<lparr>ee_Project = sn_Project n, ee_Type = sn_Type n, ee_Priority = sn_Priority n,
                     ee_DedupKey = sn_DedupKey n, ee_CreatedAt = sn_CreatedAt n\<rparr>)) in
      case seed of
        Inl e \<Rightarrow> Inl e
      | Inr evt \<Rightarrow>
          if ee_Project evt = [] \<or> ee_Type evt = [] then
            (case dec_enqueue (Detail f) of
               None \<Rightarrow> Inl (CorruptEnqueue (TaskID f))
             | Some (p, t) \<Rightarrow> Inr (Some (EvtEnqueued (evt\<lparr>ee_Project := fallbackString (ee_Project evt) p,
                   ee_Type := fallbackString (ee_Type evt) t\<rparr>))))
          else Inr (Some (EvtEnqueued evt)))"

definition requeuedEvent :: "fact \<Rightarrow> int \<Rightarrow> ledger_evt" where
  "requeuedEvent f atMs =
     (case dec_requeue (Detail f) of
        None \<Rightarrow> EvtRequeued atMs 0 RequeueClassUnknown
      | Some (r, c) \<Rightarrow> EvtRequeued atMs r (if c \<noteq> [] then c else RequeueClassUnknown))"

definition repriEvent :: "fact \<Rightarrow> int \<Rightarrow> model_err + ledger_evt option" where
  "repriEvent f atMs =
     (case dec_repri (Detail f) of None \<Rightarrow> Inl (CorruptRepri (TaskID f)) | Some n \<Rightarrow> Inr (Some (EvtReprioritized n atMs)))"

definition eventFor :: "row_source option \<Rightarrow> fact \<Rightarrow> model_err + ledger_evt option" where
  "eventFor src f =
     (let atMs = unix_milli (Time f) in
      case FType f of
        F_Enqueued \<Rightarrow> enqueuedEvent src f
      | F_Claimed \<Rightarrow> Inr (Some (EvtClaimed atMs))
      | F_Completed \<Rightarrow> Inr (Some (EvtCompleted atMs))
      | F_Failed \<Rightarrow> Inr (Some (EvtFailed (Error f) atMs))
      | F_DeadLettered \<Rightarrow> Inr (Some (EvtDeadLettered atMs))
      | F_Cancelled \<Rightarrow> Inr (Some (EvtCancelled atMs))
      | F_Requeued \<Rightarrow> Inr (Some (requeuedEvent f atMs))
      | F_Reprioritized \<Rightarrow> repriEvent f atMs
      | _ \<Rightarrow> Inr None)"

section \<open>Folds\<close>

text \<open>The handlers of the tasks collection: an enqueue seeds the row, the others rewrite the previous one.\<close>

definition seed_row :: "string \<Rightarrow> enqueued_evt \<Rightarrow> ledger_row" where
  "seed_row i e = \<lparr>tr_ID = i, tr_Project = ee_Project e, tr_Type = ee_Type e, tr_Status = ''pending'', tr_Priority = ee_Priority e,
     tr_Attempts = 0, tr_CreatedAt = ee_CreatedAt e, tr_UpdatedAt = ee_CreatedAt e, tr_DedupKey = ee_DedupKey e,
     tr_LastError = [], tr_NotBefore = 0, tr_ParkedBy = []\<rparr>"

fun fold_row :: "ledger_evt \<Rightarrow> ledger_row \<Rightarrow> ledger_row" where
  "fold_row (EvtEnqueued e) prev = seed_row (tr_ID prev) e"
| "fold_row (EvtClaimed t) prev = prev\<lparr>tr_Status := ''running'', tr_NotBefore := 0, tr_ParkedBy := [], tr_UpdatedAt := t\<rparr>"
| "fold_row (EvtCompleted t) prev = prev\<lparr>tr_Status := ''completed'', tr_UpdatedAt := t\<rparr>"
| "fold_row (EvtFailed er t) prev =
     prev\<lparr>tr_Status := ''pending'', tr_Attempts := tr_Attempts prev + 1, tr_LastError := er, tr_NotBefore := 0, tr_ParkedBy := [], tr_UpdatedAt := t\<rparr>"
| "fold_row (EvtDeadLettered t) prev = prev\<lparr>tr_Status := ''dead'', tr_UpdatedAt := t\<rparr>"
| "fold_row (EvtCancelled t) prev = prev\<lparr>tr_Status := ''cancelled'', tr_UpdatedAt := t\<rparr>"
| "fold_row (EvtRequeued t retry why) prev =
     prev\<lparr>tr_Status := ''pending'', tr_NotBefore := wrap64 (t + retry), tr_ParkedBy := why, tr_UpdatedAt := t\<rparr>"
| "fold_row (EvtReprioritized n t) prev = prev\<lparr>tr_Priority := n, tr_UpdatedAt := t\<rparr>"

text \<open>The counters: what a transition adds to which key.\<close>

type_synonym delta = "(string \<times> int) list"

definition projectStatusKeySep :: char where "projectStatusKeySep = CHR ''_''"

definition projectStatusKey :: "string \<Rightarrow> string \<Rightarrow> string" where
  "projectStatusKey project st = project @ [projectStatusKeySep] @ st"

definition transitionDelta :: "string \<Rightarrow> string \<Rightarrow> delta" where
  "transitionDelta next_st from_st =
     (if from_st = next_st then [] else (next_st, 1) # (if from_st \<noteq> [] then [(from_st, - 1)] else []))"

definition projectTransitionDelta :: "string \<Rightarrow> string \<Rightarrow> string \<Rightarrow> delta" where
  "projectTransitionDelta project next_st from_st =
     (if from_st = next_st then []
      else (projectStatusKey project next_st, 1) # (if from_st \<noteq> [] then [(projectStatusKey project from_st, - 1)] else []))"

fun next_status :: "ledger_evt \<Rightarrow> string option" where
  "next_status (EvtEnqueued e) = Some ''pending''"
| "next_status (EvtClaimed t) = Some ''running''"
| "next_status (EvtCompleted t) = Some ''completed''"
| "next_status (EvtFailed er t) = Some ''pending''"
| "next_status (EvtDeadLettered t) = Some ''dead''"
| "next_status (EvtCancelled t) = Some ''cancelled''"
| "next_status (EvtRequeued t retry why) = Some ''pending''"
| "next_status (EvtReprioritized n t) = None"

text \<open>What one event asks of the three collections, given the from-side.\<close>

record record_update =
  ru_key :: string
  ru_seed :: "ledger_row option"
  ru_row :: "ledger_row \<Rightarrow> ledger_row"
  ru_status :: delta
  ru_project :: delta

definition update_for :: "string \<Rightarrow> ledger_evt \<Rightarrow> string \<times> string \<Rightarrow> record_update" where
  "update_for i evt = (\<lambda>(from_st, from_project).
     let project = (case evt of EvtEnqueued e \<Rightarrow> ee_Project e | _ \<Rightarrow> from_project) in
     \<lparr>ru_key = i, ru_seed = (case evt of EvtEnqueued e \<Rightarrow> Some (seed_row i e) | _ \<Rightarrow> None), ru_row = fold_row evt,
      ru_status = (case next_status evt of None \<Rightarrow> [] | Some st \<Rightarrow> transitionDelta st from_st),
      ru_project = (case next_status evt of None \<Rightarrow> [] | Some st \<Rightarrow> projectTransitionDelta project st from_st)\<rparr>)"

section \<open>The engine of the collections\<close>

text \<open>A keyed read of the tasks collection, its row count, one \<open>ApplyRecord\<close>, and the two counter maps.\<close>

record 's meta_ops =
  me_Get :: "string \<Rightarrow> 's \<Rightarrow> string + ledger_row option"
  me_Count :: "'s \<Rightarrow> string + int"
  me_Apply :: "record_update \<Rightarrow> 's \<Rightarrow> (string + unit) \<times> 's"
  me_StatusCounts :: "'s \<Rightarrow> string + delta"
  me_ProjectCounts :: "'s \<Rightarrow> string + delta"

definition transitionContext :: "'s meta_ops \<Rightarrow> string \<Rightarrow> 's \<Rightarrow> string \<times> string" where
  "transitionContext me i s = (case me_Get me i s of Inr (Some row) \<Rightarrow> (tr_Status row, tr_Project row) | _ \<Rightarrow> ([], []))"

section \<open>The pump\<close>

record 'q model_cfg =
  mc_source :: "'q source_ops"
  mc_rows :: "'q \<Rightarrow> row_source option"
  mc_batch :: int
  mc_durable :: bool
  mc_readOnly :: bool

definition CursorConsumer :: string where "CursorConsumer = ''readmodel''"
definition DefaultBatch :: int where "DefaultBatch = 1000"

definition fold_fact :: "'s meta_ops \<Rightarrow> bool \<Rightarrow> row_source option \<Rightarrow> fact \<Rightarrow> 's \<Rightarrow> (model_err + unit) \<times> 's" where
  "fold_fact me readOnly src f s =
     (if readOnly then (Inr (), s)
      else case eventFor src f of
        Inl e \<Rightarrow> (Inl e, s)
      | Inr None \<Rightarrow> (Inr (), s)
      | Inr (Some evt) \<Rightarrow>
          (case me_Apply me (update_for (TaskID f) evt (transitionContext me (TaskID f) s)) s of
             (Inl m, s') \<Rightarrow> (Inl (ApplyErr m), s')
           | (Inr _, s') \<Rightarrow> (Inr (), s')))"

fun fold_batch :: "'s meta_ops \<Rightarrow> row_source option \<Rightarrow> fact list \<Rightarrow> 's \<Rightarrow> (model_err + unit) \<times> 's" where
  "fold_batch me src [] s = (Inr (), s)"
| "fold_batch me src (f # fs) s =
     (case fold_fact me False src f s of (Inl e, s') \<Rightarrow> (Inl e, s') | (Inr _, s') \<Rightarrow> fold_batch me src fs s')"

text \<open>The state of the pump: the queue's store, the collections and the cursor. A failed checkpoint is only logged.\<close>

record ('q, 's) pump =
  pu_store :: 'q
  pu_meta :: 's
  pu_cursor :: int

definition catchUpOnce :: "'s meta_ops \<Rightarrow> 'q model_cfg \<Rightarrow> ('q, 's) pump \<Rightarrow> (model_err + int) \<times> ('q, 's) pump" where
  "catchUpOnce me cfg p =
     (if mc_readOnly cfg then (Inr 0, p)
      else case src_Facts (mc_source cfg) (pu_cursor p) (mc_batch cfg) (pu_store p) of
        Inl e \<Rightarrow> (Inl (ReadFactsErr (pu_cursor p) e), p)
      | Inr facts \<Rightarrow>
          (case fold_batch me (mc_rows cfg (pu_store p)) facts (pu_meta p) of
             (Inl e, s') \<Rightarrow> (Inl e, p\<lparr>pu_meta := s'\<rparr>)
           | (Inr _, s') \<Rightarrow>
               if facts = [] then (Inr 0, p\<lparr>pu_meta := s'\<rparr>)
               else let last_seq = Seq (last facts);
                        st = (if mc_durable cfg then snd (src_SaveWatermark (mc_source cfg) CursorConsumer last_seq (pu_store p)) else pu_store p) in
                 (Inr (int (length facts)), \<lparr>pu_store = st, pu_meta = s', pu_cursor = last_seq\<rparr>)))"

fun CatchUp :: "nat \<Rightarrow> 's meta_ops \<Rightarrow> 'q model_cfg \<Rightarrow> ('q, 's) pump \<Rightarrow> ((model_err + unit) \<times> ('q, 's) pump) option" where
  "CatchUp 0 me cfg p = None"
| "CatchUp (Suc n) me cfg p =
     (case catchUpOnce me cfg p of
        (Inl e, p') \<Rightarrow> Some (Inl e, p')
      | (Inr applied, p') \<Rightarrow> if applied < mc_batch cfg then Some (Inr (), p') else CatchUp n me cfg p')"

text \<open>\<open>loadCursor\<close>: the checkpoint, or zero over an empty projection or empty counters.\<close>

datatype load_err = LoadWatermark qerr | ProbeRows string | ProbeCounters string

definition loadCursor :: "'s meta_ops \<Rightarrow> 'q model_cfg \<Rightarrow> 'q \<Rightarrow> 's \<Rightarrow> load_err + int" where
  "loadCursor me cfg st s =
     (case src_Watermark (mc_source cfg) CursorConsumer st of
        Inl e \<Rightarrow> Inl (LoadWatermark e)
      | Inr None \<Rightarrow> Inr 0
      | Inr (Some q) \<Rightarrow>
          if q = 0 then Inr 0
          else (case me_Count me s of
            Inl m \<Rightarrow> Inl (ProbeRows m)
          | Inr n \<Rightarrow>
              if n = 0 then Inr 0
              else (case me_StatusCounts me s of
                Inl m \<Rightarrow> Inl (ProbeCounters m)
              | Inr counts \<Rightarrow> if sum_list (map snd counts) = 0 then Inr 0 else Inr q)))"

section \<open>Statistics\<close>

record ledger_filter =
  lf_Status :: "string option"
  lf_Project :: "string option"

definition no_ledger_filter :: ledger_filter where "no_ledger_filter = \<lparr>lf_Status = None, lf_Project = None\<rparr>"

definition matchesFilter :: "ledger_filter \<Rightarrow> string \<Rightarrow> string \<Rightarrow> bool" where
  "matchesFilter flt project st \<longleftrightarrow> (lf_Project flt = None \<or> lf_Project flt = Some project) \<and> (lf_Status flt = None \<or> lf_Status flt = Some st)"

text \<open>The nested map of the per-project counts, as pairs of project and status.\<close>

definition projectMatrix :: "delta \<Rightarrow> ledger_filter \<Rightarrow> ((string \<times> string) \<times> int) list" where
  "projectMatrix raw flt =
     List.map_filter (\<lambda>(key, n). case str_cut projectStatusKeySep key of
        Some (project, st) \<Rightarrow> if n \<noteq> 0 \<and> matchesFilter flt project st then Some ((project, st), n) else None
      | None \<Rightarrow> None) raw"

definition statusCounts :: "delta \<Rightarrow> delta \<Rightarrow> ledger_filter \<Rightarrow> delta" where
  "statusCounts statusRaw projectRaw flt =
     (if lf_Project flt \<noteq> None then map (\<lambda>((project, st), n). (st, n)) (projectMatrix projectRaw flt)
      else filter (\<lambda>(st, n). n \<noteq> 0 \<and> (lf_Status flt = None \<or> lf_Status flt = Some st)) statusRaw)"

definition Stats :: "'s meta_ops \<Rightarrow> ledger_filter \<Rightarrow> 's \<Rightarrow> model_err + delta \<times> ((string \<times> string) \<times> int) list" where
  "Stats me flt s =
     (case me_StatusCounts me s of
        Inl m \<Rightarrow> Inl (CounterErr m)
      | Inr sr \<Rightarrow>
          (case me_ProjectCounts me s of
             Inl m \<Rightarrow> Inl (CounterErr m)
           | Inr pr \<Rightarrow> Inr (statusCounts sr pr flt, projectMatrix pr flt)))"

definition ModelStatusCounts :: "'s meta_ops \<Rightarrow> 's \<Rightarrow> model_err + delta" where
  "ModelStatusCounts me s = (case Stats me no_ledger_filter s of Inl e \<Rightarrow> Inl e | Inr (byStatus, _) \<Rightarrow> Inr byStatus)"

definition ModelProjectCounts :: "'s meta_ops \<Rightarrow> 's \<Rightarrow> model_err + ((string \<times> string) \<times> int) list" where
  "ModelProjectCounts me s = (case Stats me no_ledger_filter s of Inl e \<Rightarrow> Inl e | Inr (_, byProject) \<Rightarrow> Inr byProject)"

end
