(* ===== verification/Tq_Ledger.thy ===== *)
theory Tq_Ledger
  imports Tq_Readmodel "HOL-Library.AList"
begin

text \<open>
  What the ledger of \<open>internal/readmodel\<close> shows. The locale \<open>meta_engine\<close> states what the package relies on
  of the third-party collections; its lemmas give the conservation law of the counters (a fold never changes
  by how much a counter differs from the rows it counts), from which follow that a projection built from empty counts exactly,
  and that one whose counters were lost never recovers. The ledger is then related to the store: the facts a
  store operation journals take a ledger that agrees with the tables to one that agrees with the changed tables.
\<close>

section \<open>Rows and deltas\<close>

definition row_count :: "('r \<Rightarrow> bool) \<Rightarrow> (string \<Rightarrow> 'r option) \<Rightarrow> int" where
  "row_count P m = int (card {i. \<exists>r. m i = Some r \<and> P r})"

lemma row_count_empty [simp]: "row_count P Map.empty = 0"
  by (simp add: row_count_def)

lemma row_count_upd:
  assumes fin: "finite (dom m)"
  shows "row_count P (m(i \<mapsto> r)) = row_count P m + of_bool (P r) - (case m i of None \<Rightarrow> 0 | Some old \<Rightarrow> of_bool (P old))"
proof -
  let ?R = "{j. \<exists>q. m j = Some q \<and> P q}"
  let ?S = "{j. \<exists>q. (m(i \<mapsto> r)) j = Some q \<and> P q}"
  have finR: "finite ?R" by (rule finite_subset [OF _ fin]) auto
  have "card ?S = card (?R - {i}) + of_bool (P r)"
  proof (cases "P r")
    case True
    then have "?S = insert i (?R - {i})" by auto
    moreover have "card (insert i (?R - {i})) = Suc (card (?R - {i}))"
      using finR by (intro card_insert_disjoint) simp_all
    ultimately show ?thesis using True by simp
  next
    case False
    then have "?S = ?R - {i}" by auto
    then show ?thesis using False by simp
  qed
  moreover have "int (card (?R - {i})) = int (card ?R) - (case m i of None \<Rightarrow> 0 | Some old \<Rightarrow> of_bool (P old))"
  proof (cases "i \<in> ?R")
    case True
    then have "0 < card ?R" using finR by (auto simp: card_gt_0_iff)
    then show ?thesis using True finR by (auto simp: card_Diff_singleton of_nat_diff)
  next
    case False
    then show ?thesis by (auto split: option.splits)
  qed
  ultimately show ?thesis by (simp add: row_count_def)
qed

definition delta_at :: "delta \<Rightarrow> string \<Rightarrow> int" where
  "delta_at ds k = sum_list (map snd (filter (\<lambda>e. fst e = k) ds))"

lemma delta_at_simps [simp]:
  "delta_at [] k = 0"
  "delta_at (e # ds) k = (if fst e = k then snd e else 0) + delta_at ds k"
  by (simp_all add: delta_at_def)

lemma counters_sum: "distinct (map fst m) \<Longrightarrow> sum_list (map snd m) = (\<Sum>k\<in>set (map fst m). delta_at m k)"
proof (induction m)
  case (Cons e m)
  have "fst e \<notin> fst ` set m" using Cons.prems by simp
  then have "fst x \<noteq> fst e" if "x \<in> set m" for x using that by (metis imageI)
  then have "filter (\<lambda>x. fst x = fst e) m = []" by (simp add: filter_empty_conv)
  then have "delta_at m (fst e) = 0" by (simp add: delta_at_def)
  moreover have "(\<Sum>k\<in>set (map fst m). delta_at (e # m) k) = (\<Sum>k\<in>set (map fst m). delta_at m k)"
    using Cons.prems by (intro sum.cong) auto
  ultimately show ?case using Cons by simp
qed simp

lemma row_count_pos:
  assumes "finite (dom m)" "m i = Some r" "P r"
  shows "0 < row_count P m"
proof -
  have "finite {i. \<exists>r. m i = Some r \<and> P r}" by (rule finite_subset [OF _ assms(1)]) auto
  then show ?thesis using assms(2,3) by (auto simp: row_count_def card_gt_0_iff)
qed

definition ledger_statuses :: "string list" where
  "ledger_statuses = [''pending'', ''running'', ''completed'', ''dead'', ''cancelled'']"

lemma status_plain: "st \<in> set ledger_statuses \<Longrightarrow> st \<noteq> [] \<and> projectStatusKeySep \<notin> set st"
  by (auto simp: ledger_statuses_def projectStatusKeySep_def)

text \<open>Statuses hold no separator, so the key of a project and a status names both, whatever the project.\<close>

lemma projectStatusKey_inject:
  assumes "st \<in> set ledger_statuses" "st' \<in> set ledger_statuses"
  shows "projectStatusKey p st = projectStatusKey p' st' \<longleftrightarrow> p = p' \<and> st = st'"
proof
  assume eq: "projectStatusKey p st = projectStatusKey p' st'"
  have split: "rev (takeWhile (\<lambda>c. c \<noteq> projectStatusKeySep) (rev (projectStatusKey q s))) = s" if "projectStatusKeySep \<notin> set s" for q s
  proof -
    have "takeWhile (\<lambda>c. c \<noteq> projectStatusKeySep) (rev s @ projectStatusKeySep # rev q) = rev s"
      using that by (induction "rev s" arbitrary: s) (auto simp: takeWhile_append)
    then show ?thesis by (simp add: projectStatusKey_def)
  qed
  have "st = st'" using split [of st p] split [of st' p'] status_plain assms eq by metis
  then show "p = p' \<and> st = st'" using eq by (simp add: projectStatusKey_def)
qed simp

text \<open>What a transition adds to the counter of a status, and of a project and a status.\<close>

lemma transitionDelta_at:
  "k \<noteq> [] \<Longrightarrow> delta_at (transitionDelta next_st from_st) k = of_bool (next_st = k) - of_bool (from_st = k)"
  by (simp add: transitionDelta_def)

lemma projectTransitionDelta_at:
  assumes "st \<in> set ledger_statuses" "next_st \<in> set ledger_statuses" "from_st = [] \<or> from_st \<in> set ledger_statuses"
  shows "delta_at (projectTransitionDelta p next_st from_st) (projectStatusKey q st)
       = of_bool (p = q) * (of_bool (next_st = st) - of_bool (from_st = st))"
  using assms status_plain [OF assms(1)]
  by (auto simp: projectTransitionDelta_def projectStatusKey_inject)

lemma next_status_known: "next_status evt = Some st \<Longrightarrow> st \<in> set ledger_statuses"
  by (cases evt) (auto simp: ledger_statuses_def)

lemma fold_row_status: "tr_Status (fold_row evt prev) = (case next_status evt of Some st \<Rightarrow> st | None \<Rightarrow> tr_Status prev)"
  by (cases evt) (simp_all add: seed_row_def)

lemma fold_row_project:
  "tr_Project (fold_row evt prev) = (case evt of EvtEnqueued e \<Rightarrow> ee_Project e | _ \<Rightarrow> tr_Project prev)"
  by (cases evt) (simp_all add: seed_row_def)

text \<open>The row an update leaves under its key, when it leaves one.\<close>

definition written :: "record_update \<Rightarrow> (string \<Rightarrow> ledger_row option) \<Rightarrow> ledger_row option" where
  "written u m = (case ru_seed u of Some r \<Rightarrow> Some r | None \<Rightarrow> map_option (ru_row u) (m (ru_key u)))"

lemma update_for_sel [simp]:
  "ru_key (update_for i evt ctx) = i"
  "ru_status (update_for i evt ctx) = (case next_status evt of None \<Rightarrow> [] | Some st \<Rightarrow> transitionDelta st (fst ctx))"
  "ru_project (update_for i evt ctx) = (case next_status evt of None \<Rightarrow> []
     | Some st \<Rightarrow> projectTransitionDelta (case evt of EvtEnqueued e \<Rightarrow> ee_Project e | _ \<Rightarrow> snd ctx) st (fst ctx))"
  by (simp_all add: update_for_def Let_def case_prod_beta)

lemma written_update_for:
  "written (update_for i evt ctx) m = (case evt of EvtEnqueued e \<Rightarrow> Some (seed_row i e) | _ \<Rightarrow> map_option (fold_row evt) (m i))"
  by (cases ctx; cases evt) (simp_all add: written_def update_for_def Let_def)

lemma written_status:
  "written (update_for i evt ctx) m = Some r \<Longrightarrow>
     tr_Status r = (case next_status evt of Some st \<Rightarrow> st | None \<Rightarrow> tr_Status (the (m i)))"
  by (cases evt) (auto simp: written_update_for fold_row_status seed_row_def)

lemma written_project:
  "written (update_for i evt ctx) m = Some r \<Longrightarrow>
     tr_Project r = (case evt of EvtEnqueued e \<Rightarrow> ee_Project e | _ \<Rightarrow> tr_Project (the (m i)))"
  by (cases evt) (auto simp: written_update_for fold_row_project seed_row_def)

text \<open>
  The status a fact leads to. An enqueue and a reprioritisation rewrite more than that; the other facts are
  transitions, which never fail to decode.
\<close>

fun fact_status :: "fact_type \<Rightarrow> string \<Rightarrow> string" where
  "fact_status F_Claimed st = ''running''"
| "fact_status F_Completed st = ''completed''"
| "fact_status F_Failed st = ''pending''"
| "fact_status F_DeadLettered st = ''dead''"
| "fact_status F_Cancelled st = ''cancelled''"
| "fact_status F_Requeued st = ''pending''"
| "fact_status _ st = st"

definition identity_types :: "fact_type list" where "identity_types = [F_Enqueued, F_Reprioritized]"

lemma skipped_status: "eventFor src f = Inr None \<Longrightarrow> FType f \<notin> set identity_types \<Longrightarrow> fact_status (FType f) st = st"
  by (cases "FType f") (auto simp: eventFor_def identity_types_def)

lemma transition_event:
  assumes "FType f \<notin> set identity_types"
  shows "eventFor src f = Inr None \<or> (\<exists>evt. eventFor src f = Inr (Some evt) \<and> (\<forall>e. evt \<noteq> EvtEnqueued e)
     \<and> (\<forall>q. tr_Type (fold_row evt q) = tr_Type q) \<and> (\<forall>q. tr_Project (fold_row evt q) = tr_Project q)
     \<and> (\<forall>q. tr_Status (fold_row evt q) = fact_status (FType f) (tr_Status q)))"
  using assms by (cases "FType f") (auto simp: eventFor_def identity_types_def requeuedEvent_def Let_def split: option.split)

section \<open>Feeds\<close>

text \<open>
  A journal the ledger can be folded from: every fact decodes, a transition follows an enqueue of its task,
  and a repeated enqueue names the same project. The known tasks are carried with their projects.
\<close>

definition feed_step :: "row_source option \<Rightarrow> fact \<Rightarrow> (string \<times> string) list \<Rightarrow> (string \<times> string) list option" where
  "feed_step src f kn =
     (case eventFor src f of
        Inl e \<Rightarrow> None
      | Inr None \<Rightarrow> Some kn
      | Inr (Some (EvtEnqueued e)) \<Rightarrow>
          if map_of kn (TaskID f) \<in> {None, Some (ee_Project e)} then Some ((TaskID f, ee_Project e) # kn) else None
      | Inr (Some evt) \<Rightarrow> if map_of kn (TaskID f) = None then None else Some kn)"

fun feed :: "row_source option \<Rightarrow> fact list \<Rightarrow> (string \<times> string) list \<Rightarrow> (string \<times> string) list option" where
  "feed src [] kn = Some kn"
| "feed src (f # fs) kn = (case feed_step src f kn of None \<Rightarrow> None | Some kn' \<Rightarrow> feed src fs kn')"

lemma feed_append: "feed src (xs @ ys) kn = (case feed src xs kn of None \<Rightarrow> None | Some kn' \<Rightarrow> feed src ys kn')"
  by (induction xs arbitrary: kn) (auto split: option.split)

lemma fold_batch_append:
  "fold_batch me src (xs @ ys) s =
     (case fold_batch me src xs s of (Inl e, s') \<Rightarrow> (Inl e, s') | (Inr _, s') \<Rightarrow> fold_batch me src ys s')"
  by (induction xs arbitrary: s) (auto split: prod.split sum.split)

section \<open>What the collections promise\<close>

text \<open>
  A read that succeeds returns the stored row; an update that succeeds writes the row under its key, when it
  has a seed or a previous row to rewrite, and adds its deltas to the counters. Nothing is promised of an update
  that fails, or that finds neither a seed nor a row.
\<close>

locale meta_engine =
  fixes me :: "'s meta_ops"
    and rows :: "'s \<Rightarrow> string \<Rightarrow> ledger_row option"
    and st_count :: "'s \<Rightarrow> string \<Rightarrow> int"
    and pr_count :: "'s \<Rightarrow> string \<Rightarrow> int"
  assumes finite_rows: "finite (dom (rows s))"
    and get_reads: "me_Get me i s = Inr x \<Longrightarrow> x = rows s i"
    and count_reads: "me_Count me s = Inr n \<Longrightarrow> n = int (card (dom (rows s)))"
    and apply_row: "me_Apply me u s = (Inr (), s') \<Longrightarrow> written u (rows s) = Some r \<Longrightarrow> rows s' = (rows s)(ru_key u \<mapsto> r)"
    and apply_status: "me_Apply me u s = (Inr (), s') \<Longrightarrow> written u (rows s) \<noteq> None \<Longrightarrow>
      st_count s' k = st_count s k + delta_at (ru_status u) k"
    and apply_project: "me_Apply me u s = (Inr (), s') \<Longrightarrow> written u (rows s) \<noteq> None \<Longrightarrow>
      pr_count s' k = pr_count s k + delta_at (ru_project u) k"
    and status_reads: "me_StatusCounts me s = Inr cs \<Longrightarrow> distinct (map fst cs) \<and> (\<forall>k. delta_at cs k = st_count s k)"
    and project_reads: "me_ProjectCounts me s = Inr cs \<Longrightarrow> distinct (map fst cs) \<and> (\<forall>k. delta_at cs k = pr_count s k)"
begin

text \<open>By how much a counter is off.\<close>

definition drift :: "'s \<Rightarrow> string \<Rightarrow> int" where
  "drift s st = st_count s st - row_count (\<lambda>r. tr_Status r = st) (rows s)"

definition project_drift :: "'s \<Rightarrow> string \<Rightarrow> string \<Rightarrow> int" where
  "project_drift s p st = pr_count s (projectStatusKey p st) - row_count (\<lambda>r. tr_Project r = p \<and> tr_Status r = st) (rows s)"

definition knows :: "'s \<Rightarrow> (string \<times> string) list \<Rightarrow> bool" where
  "knows s kn \<longleftrightarrow> (\<forall>i. map_option tr_Project (rows s i) = map_of kn i)
     \<and> (\<forall>i r. rows s i = Some r \<longrightarrow> tr_Status r \<in> set ledger_statuses)"

text \<open>One update, as the views see it.\<close>

lemma update_conserves:
  assumes app: "me_Apply me (update_for i evt ctx) s = (Inr (), s')"
    and ctx: "ctx = (case rows s i of Some r \<Rightarrow> (tr_Status r, tr_Project r) | None \<Rightarrow> ([], []))"
    and wr: "written (update_for i evt ctx) (rows s) = Some r"
    and old: "\<And>q. rows s i = Some q \<Longrightarrow> tr_Status q \<in> set ledger_statuses \<and> tr_Project r = tr_Project q"
    and st: "st \<in> set ledger_statuses"
  shows "drift s' st = drift s st" "project_drift s' p st = project_drift s p st"
proof -
  let ?u = "update_for i evt ctx"
  have rows': "rows s' = (rows s)(i \<mapsto> r)" using apply_row [OF app wr] by simp
  have cs: "st_count s' st = st_count s st + delta_at (ru_status ?u) st"
    "pr_count s' (projectStatusKey p st) = pr_count s (projectStatusKey p st) + delta_at (ru_project ?u) (projectStatusKey p st)"
    using apply_status [OF app] apply_project [OF app] wr by simp_all
  have ne: "st \<noteq> []" using status_plain [OF st] by simp
  note upd = row_count_upd [OF finite_rows [of s], of _ i r, folded rows']
  have proj: "(case evt of EvtEnqueued e \<Rightarrow> ee_Project e | _ \<Rightarrow> snd ctx) = tr_Project r"
  proof (cases "rows s i")
    case None then show ?thesis using written_project [OF wr] wr by (cases evt) (auto simp: written_update_for)
  next
    case (Some q) then show ?thesis using written_project [OF wr] old [OF Some] ctx by (cases evt) auto
  qed
  show "drift s' st = drift s st"
  proof (cases "rows s i")
    case None
    then obtain e where "evt = EvtEnqueued e" using wr by (cases evt) (auto simp: written_update_for)
    then show ?thesis using None ctx cs(1) upd ne written_status [OF wr]
      by (simp add: drift_def transitionDelta_at)
  next
    case (Some q)
    then show ?thesis using ctx cs(1) upd ne written_status [OF wr]
      by (auto simp: drift_def transitionDelta_at split: option.splits)
  qed
  show "project_drift s' p st = project_drift s p st"
  proof (cases "next_status evt")
    case None
    then have "rows s i \<noteq> None" using wr by (cases evt) (auto simp: written_update_for)
    then obtain q where q: "rows s i = Some q" by blast
    then show ?thesis using None cs(2) upd old [OF q] written_status [OF wr]
      by (simp add: project_drift_def)
  next
    case (Some nst)
    have nst: "nst \<in> set ledger_statuses" "tr_Status r = nst" using next_status_known [OF Some] written_status [OF wr] Some by simp_all
    have from_st: "fst ctx = [] \<or> fst ctx \<in> set ledger_statuses" using ctx old by (cases "rows s i") auto
    have d: "delta_at (ru_project ?u) (projectStatusKey p st)
        = of_bool (tr_Project r = p) * (of_bool (nst = st) - of_bool (fst ctx = st))"
      using Some proj by (simp add: projectTransitionDelta_at [OF st nst(1) from_st])
    show ?thesis
    proof (cases "rows s i")
      case None then show ?thesis using ctx cs(2) d upd nst(2) ne by (simp add: project_drift_def)
    next
      case (Some q) then show ?thesis using ctx cs(2) d upd nst(2) old [OF Some] by (simp add: project_drift_def)
    qed
  qed
qed

lemma transitionContext_reads:
  assumes "\<And>i s. \<exists>x. me_Get me i s = Inr x"
  shows "transitionContext me i s = (case rows s i of Some r \<Rightarrow> (tr_Status r, tr_Project r) | None \<Rightarrow> ([], []))"
  using assms [of i s] get_reads by (auto simp: transitionContext_def split: option.split)

lemma fold_fact_conserves:
  assumes reads: "\<And>i s. \<exists>x. me_Get me i s = Inr x"
    and kn: "knows s kn" "feed_step src f kn = Some kn'" and run: "fold_fact me False src f s = (Inr (), s')"
    and st: "st \<in> set ledger_statuses"
  shows "knows s' kn'" "drift s' st = drift s st" "project_drift s' p st = project_drift s p st"
proof -
  obtain o' where ev: "eventFor src f = Inr o'" using kn(2) by (auto simp: feed_step_def split: sum.splits)
  have "knows s' kn' \<and> drift s' st = drift s st \<and> project_drift s' p st = project_drift s p st"
  proof (cases o')
    case None
    then have "s' = s" "kn' = kn" using run kn(2) ev by (simp_all add: fold_fact_def feed_step_def)
    then show ?thesis using kn(1) by simp
  next
    case (Some evt)
    let ?i = "TaskID f"
    let ?ctx = "transitionContext me ?i s"
    note ctx = transitionContext_reads [OF reads, of ?i s]
    have app: "me_Apply me (update_for ?i evt ?ctx) s = (Inr (), s')"
      using run ev Some by (auto simp: fold_fact_def split: prod.splits sum.splits)
    have row_known: "rows s ?i \<noteq> None \<longleftrightarrow> map_of kn ?i \<noteq> None" using kn(1) by (metis knows_def option.map_disc_iff)
    have step: "(case evt of EvtEnqueued e \<Rightarrow> map_of kn ?i \<in> {None, Some (ee_Project e)} \<and> kn' = (?i, ee_Project e) # kn
        | _ \<Rightarrow> map_of kn ?i \<noteq> None \<and> kn' = kn)"
      using kn(2) ev Some by (cases evt) (auto simp: feed_step_def split: if_splits)
    obtain r where wr: "written (update_for ?i evt ?ctx) (rows s) = Some r"
      using step row_known by (cases evt) (auto simp: written_update_for)
    have old: "tr_Status q \<in> set ledger_statuses \<and> tr_Project r = tr_Project q" if q: "rows s ?i = Some q" for q
    proof -
      have "map_of kn ?i = Some (tr_Project q)" using kn(1) q by (metis knows_def option.simps(9))
      then have "tr_Project r = tr_Project q" using step written_project [OF wr] q by (cases evt) auto
      then show ?thesis using kn(1) q by (simp add: knows_def)
    qed
    note cons = update_conserves [OF app ctx wr old st]
    have rows': "rows s' = (rows s)(?i \<mapsto> r)" using apply_row [OF app wr] by simp
    have stat: "tr_Status r \<in> set ledger_statuses"
    proof (cases "next_status evt")
      case None
      then obtain q where "rows s ?i = Some q" using wr by (cases evt) (auto simp: written_update_for)
      then show ?thesis using written_status [OF wr] None old by simp
    next
      case (Some nst) then show ?thesis using written_status [OF wr] next_status_known by simp
    qed
    have "map_of kn' i = (if i = ?i then Some (tr_Project r) else map_of kn i)" for i
    proof (cases "\<exists>e. evt = EvtEnqueued e")
      case True
      then show ?thesis using step written_project [OF wr] by auto
    next
      case False
      then have kn': "kn' = kn" "rows s ?i \<noteq> None" using step row_known by (cases evt; auto)+
      then obtain q where q: "rows s ?i = Some q" by blast
      then have "map_of kn ?i = Some (tr_Project q)" using kn(1) by (metis knows_def option.simps(9))
      then show ?thesis using kn' old [OF q] by simp
    qed
    then have "knows s' kn'" using kn(1) stat rows' by (auto simp: knows_def)
    then show ?thesis using cons by simp
  qed
  then show "knows s' kn'" "drift s' st = drift s st" "project_drift s' p st = project_drift s p st" by simp_all
qed

text \<open>A whole batch; when it fails, the failure is the engine's.\<close>

lemma fold_batch_conserves:
  assumes reads: "\<And>i s. \<exists>x. me_Get me i s = Inr x"
    and "knows s kn" "feed src fs kn = Some kn'" "fold_batch me src fs s = (Inr (), s')"
  shows "knows s' kn' \<and> (\<forall>st\<in>set ledger_statuses. drift s' st = drift s st \<and> (\<forall>p. project_drift s' p st = project_drift s p st))"
  using assms(2-)
proof (induction fs arbitrary: s kn)
  case (Cons f fs)
  obtain k1 where k1: "feed_step src f kn = Some k1" "feed src fs k1 = Some kn'"
    using Cons.prems(2) by (auto split: option.splits)
  obtain s1 where s1: "fold_fact me False src f s = (Inr (), s1)" "fold_batch me src fs s1 = (Inr (), s')"
    using Cons.prems(3) by (auto split: prod.splits sum.splits)
  note step = fold_fact_conserves [OF reads Cons.prems(1) k1(1) s1(1)]
  have "knows s1 k1" using step(1) [of "''dead''"] by (simp add: ledger_statuses_def)
  then show ?case using Cons.IH [OF _ k1(2) s1(2)] step(2,3) by auto
qed simp

lemma fold_batch_error:
  "feed src fs kn = Some kn' \<Longrightarrow> fold_batch me src fs s = (Inl e, s') \<Longrightarrow> \<exists>m. e = ApplyErr m"
proof (induction fs arbitrary: s kn)
  case (Cons f fs)
  obtain k1 where k1: "feed_step src f kn = Some k1" "feed src fs k1 = Some kn'"
    using Cons.prems(1) by (auto split: option.splits)
  obtain q s1 where s1: "fold_fact me False src f s = (q, s1)" by (cases "fold_fact me False src f s")
  show ?case
  proof (cases q)
    case (Inl e1)
    then have "e = e1" using Cons.prems(2) s1 by simp
    then show ?thesis using Inl s1 k1(1) by (auto simp: fold_fact_def feed_step_def split: sum.splits option.splits prod.splits)
  next
    case (Inr u)
    then show ?thesis using Cons.IH [OF k1(2)] Cons.prems(2) s1 by simp
  qed
qed simp

text \<open>
  The pump over the companion's journal: enough fuel for one fact per round ends it, only the engine can fail
  it, and a run that does not fail has folded the whole journal and moved no counter against its rows.
\<close>

lemma CatchUp_conserves:
  assumes reads: "\<And>i s. \<exists>x. me_Get me i s = Inr x"
    and cfg: "mc_source cfg = tables_source now" "0 < mc_batch cfg" "\<not> mc_readOnly cfg"
    and keeps: "\<And>q d. mc_rows cfg (SaveWatermark CursorConsumer q now d) = mc_rows cfg d"
    and "facts_ok (pu_store p)" "knows (pu_meta p) kn"
    and "feed (mc_rows cfg (pu_store p)) (AfterSeq (db_facts (pu_store p)) (pu_cursor p) 0) kn = Some kn'"
    and "length (AfterSeq (db_facts (pu_store p)) (pu_cursor p) 0) < n"
  shows "\<exists>r p'. CatchUp n me cfg p = Some (r, p') \<and> (r = Inr () \<or> (\<exists>m. r = Inl (ApplyErr m)))
     \<and> db_facts (pu_store p') = db_facts (pu_store p) \<and> db_tasks (pu_store p') = db_tasks (pu_store p)
     \<and> (r = Inr () \<longrightarrow> knows (pu_meta p') kn' \<and> AfterSeq (db_facts (pu_store p)) (pu_cursor p') 0 = []
         \<and> (\<forall>st\<in>set ledger_statuses. drift (pu_meta p') st = drift (pu_meta p) st
             \<and> (\<forall>q. project_drift (pu_meta p') q st = project_drift (pu_meta p) q st)))"
  using assms(6-)
proof (induction n arbitrary: p kn)
  case (Suc n)
  let ?J = "db_facts (pu_store p)"
  let ?src = "mc_rows cfg (pu_store p)"
  let ?page = "AfterSeq ?J (pu_cursor p) (mc_batch cfg)"
  have srt: "seq_sorted ?J" using Suc.prems(1) by (simp add: facts_ok_def)
  have facts: "src_Facts (mc_source cfg) (pu_cursor p) (mc_batch cfg) (pu_store p) = Inr ?page"
    using cfg(1) by (simp add: tables_source_def)
  obtain q s1 where run: "fold_batch me ?src ?page (pu_meta p) = (q, s1)" by (cases "fold_batch me ?src ?page (pu_meta p)")
  obtain rest where rest: "AfterSeq ?J (pu_cursor p) 0 = ?page @ rest"
    by (metis AfterSeq_take [OF cfg(2)] append_take_drop_id)
  obtain k1 where k1: "feed ?src ?page kn = Some k1" "feed ?src rest k1 = Some kn'"
    using Suc.prems(3) unfolding rest by (auto simp: feed_append split: option.splits)
  show ?case
  proof (cases q)
    case (Inl e)
    then obtain m where "e = ApplyErr m" using fold_batch_error [OF k1(1)] run by blast
    then show ?thesis using Inl run facts cfg(3) by (simp add: catchUpOnce_def)
  next
    case (Inr u)
    note folded = fold_batch_conserves [OF reads Suc.prems(2) k1(1), of s1]
    have ok1: "knows s1 k1" "\<And>st. st \<in> set ledger_statuses \<Longrightarrow> drift s1 st = drift (pu_meta p) st"
      "\<And>st z. st \<in> set ledger_statuses \<Longrightarrow> project_drift s1 z st = project_drift (pu_meta p) z st"
      using folded run Inr by auto
    show ?thesis
    proof (cases "?page = []")
      case True
      have "rest = []" using AfterSeq_take [OF cfg(2), of ?J "pu_cursor p"] True rest cfg(2) by simp
      then show ?thesis using True Inr run facts cfg(2,3) ok1 k1 rest
        by (simp add: catchUpOnce_def)
    next
      case False
      let ?last = "Seq (last ?page)"
      define p1 where "p1 = (\<lparr>pu_store = (if mc_durable cfg then SaveWatermark CursorConsumer ?last now (pu_store p) else pu_store p),
         pu_meta = s1, pu_cursor = ?last\<rparr> :: (db, 's) pump)"
      have once: "catchUpOnce me cfg p = (Inr (int (length ?page)), p1)"
        using False Inr run facts cfg by (simp add: catchUpOnce_def p1_def Let_def tables_source_def)
      have next_page: "AfterSeq ?J ?last 0 = rest"
        using AfterSeq_next_page [OF srt False] rest by simp
      have p1: "db_facts (pu_store p1) = ?J" "db_tasks (pu_store p1) = db_tasks (pu_store p)" "facts_ok (pu_store p1)"
        "mc_rows cfg (pu_store p1) = ?src" "pu_meta p1 = s1" "pu_cursor p1 = ?last"
        using Suc.prems(1) keeps by (simp_all add: p1_def facts_ok_def)
      show ?thesis
      proof (cases "int (length ?page) < mc_batch cfg")
        case True
        have "?page @ rest = ?page @ []" using trans [OF AfterSeq_short_page [OF cfg(2) True] rest] by (simp only: append_Nil2)
        then have "rest = []" by (rule same_append_eq [THEN iffD1])
        then show ?thesis using True once p1 ok1 k1(2) next_page by simp
      next
        case full: False
        have "length rest < n" using Suc.prems(4) False rest by (cases ?page) auto
        then have "\<exists>r p'. CatchUp n me cfg p1 = Some (r, p') \<and> (r = Inr () \<or> (\<exists>m. r = Inl (ApplyErr m)))
           \<and> db_facts (pu_store p') = ?J \<and> db_tasks (pu_store p') = db_tasks (pu_store p)
           \<and> (r = Inr () \<longrightarrow> knows (pu_meta p') kn' \<and> AfterSeq ?J (pu_cursor p') 0 = []
               \<and> (\<forall>st\<in>set ledger_statuses. drift (pu_meta p') st = drift s1 st
                   \<and> (\<forall>q. project_drift (pu_meta p') q st = project_drift s1 q st)))"
          using Suc.IH [of p1 k1] p1 ok1(1) k1(2) next_page by simp
        then show ?thesis using once full ok1(2,3) by simp
      qed
    qed
  qed
qed simp

lemma CatchUp_replays:
  assumes reads: "\<And>i s. \<exists>x. me_Get me i s = Inr x"
    and cfg: "mc_source cfg = tables_source now" "0 < mc_batch cfg" "\<not> mc_readOnly cfg"
      "\<And>q d. mc_rows cfg (SaveWatermark CursorConsumer q now d) = mc_rows cfg d"
    and "facts_ok d" "knows s kn" "feed (mc_rows cfg d) (AfterSeq (db_facts d) 0 0) kn = Some kn'"
  shows "\<exists>r p. CatchUp (Suc (length (db_facts d))) me cfg \<lparr>pu_store = d, pu_meta = s, pu_cursor = 0\<rparr> = Some (r, p)
     \<and> (r = Inr () \<or> (\<exists>m. r = Inl (ApplyErr m)))
     \<and> (r = Inr () \<longrightarrow> knows (pu_meta p) kn' \<and> AfterSeq (db_facts d) (pu_cursor p) 0 = []
         \<and> (\<forall>st\<in>set ledger_statuses. drift (pu_meta p) st = drift s st
             \<and> (\<forall>q. project_drift (pu_meta p) q st = project_drift s q st)))"
proof -
  let ?p = "\<lparr>pu_store = d, pu_meta = s, pu_cursor = 0\<rparr> :: (db, 's) pump"
  have len: "length (AfterSeq (db_facts (pu_store ?p)) (pu_cursor ?p) 0) < Suc (length (db_facts d))"
    by (simp add: le_imp_less_Suc)
  have pre: "facts_ok (pu_store ?p)" "knows (pu_meta ?p) kn"
    "feed (mc_rows cfg (pu_store ?p)) (AfterSeq (db_facts (pu_store ?p)) (pu_cursor ?p) 0) kn = Some kn'"
    using assms(6-) by (simp_all del: AfterSeq_unlimited)
  show ?thesis
    using CatchUp_conserves [OF reads cfg pre len]
    by (simp del: AfterSeq_unlimited CatchUp.simps) blast
qed

definition exact :: "'s \<Rightarrow> bool" where
  "exact s \<longleftrightarrow> (\<forall>st\<in>set ledger_statuses. drift s st = 0 \<and> (\<forall>p. project_drift s p st = 0))"

definition blank :: "'s \<Rightarrow> bool" where
  "blank s \<longleftrightarrow> rows s = Map.empty \<and> (\<forall>k. st_count s k = 0) \<and> (\<forall>k. pr_count s k = 0)"

lemma blank_exact: "blank s \<Longrightarrow> exact s \<and> knows s []"
  by (simp add: blank_def exact_def knows_def drift_def project_drift_def)

text \<open>The statuses of a known ledger are the five, so the rows are the disjoint union of the counted ones.\<close>

lemma rows_by_status:
  assumes "knows s kn"
  shows "int (card (dom (rows s))) = (\<Sum>st\<leftarrow>ledger_statuses. row_count (\<lambda>r. tr_Status r = st) (rows s))"
proof -
  let ?R = "\<lambda>st. {i. \<exists>r. rows s i = Some r \<and> tr_Status r = st}"
  have fin: "finite (?R st)" for st by (rule finite_subset [OF _ finite_rows [of s]]) auto
  have split: "dom (rows s) = (\<Union>st\<in>set ledger_statuses. ?R st)" using assms by (auto simp: knows_def)
  have "int (card (dom (rows s))) = int (\<Sum>st\<in>set ledger_statuses. card (?R st))"
    unfolding split by (subst card_UN_disjoint) (use fin in auto)
  also have "\<dots> = (\<Sum>st\<in>set ledger_statuses. row_count (\<lambda>r. tr_Status r = st) (rows s))"
    by (simp add: row_count_def)
  also have "\<dots> = (\<Sum>st\<leftarrow>ledger_statuses. row_count (\<lambda>r. tr_Status r = st) (rows s))"
    by (rule sum_list_distinct_conv_sum_set [symmetric]) (simp add: ledger_statuses_def)
  finally show ?thesis .
qed

text \<open>The rows alone: a batch of transitions of one task rewrites its row and no other.\<close>

lemma fold_transition:
  assumes "fold_fact me False src f s = (Inr (), s')" "eventFor src f = Inr (Some evt)" "\<And>e. evt \<noteq> EvtEnqueued e"
    and "rows s (TaskID f) = Some w"
  shows "rows s' = (rows s)(TaskID f \<mapsto> fold_row evt w)"
proof -
  let ?u = "update_for (TaskID f) evt (transitionContext me (TaskID f) s)"
  have "me_Apply me ?u s = (Inr (), s')" using assms(1,2) by (auto simp: fold_fact_def split: prod.splits sum.splits)
  moreover have "written ?u (rows s) = Some (fold_row evt w)" using assms(3,4) by (cases evt) (auto simp: written_update_for)
  ultimately show ?thesis using apply_row by fastforce
qed

lemma fold_transitions:
  assumes "fold_batch me src fs s = (Inr (), s')" "\<forall>f\<in>set fs. TaskID f = i \<and> FType f \<notin> set identity_types" "rows s i = Some w"
  shows "\<exists>w'. rows s' = (rows s)(i \<mapsto> w') \<and> tr_Project w' = tr_Project w \<and> tr_Type w' = tr_Type w
     \<and> tr_Status w' = fold fact_status (map FType fs) (tr_Status w)"
  using assms
proof (induction fs arbitrary: s w)
  case Nil then show ?case by (auto intro!: exI [of _ w])
next
  case (Cons f fs)
  obtain s1 where s1: "fold_fact me False src f s = (Inr (), s1)" "fold_batch me src fs s1 = (Inr (), s')"
    using Cons.prems(1) by (auto split: prod.splits sum.splits)
  have f: "TaskID f = i" "FType f \<notin> set identity_types" using Cons.prems(2) by simp_all
  show ?case
  proof (cases "eventFor src f = Inr None")
    case True
    then have "s1 = s" "fact_status (FType f) (tr_Status w) = tr_Status w"
      using s1(1) f(2) by (simp_all add: fold_fact_def skipped_status)
    then show ?thesis using Cons.IH [OF s1(2)] Cons.prems by simp
  next
    case False
    then obtain evt where evt: "eventFor src f = Inr (Some evt)" "\<And>e. evt \<noteq> EvtEnqueued e" "\<And>q. tr_Type (fold_row evt q) = tr_Type q"
      "\<And>q. tr_Project (fold_row evt q) = tr_Project q" "\<And>q. tr_Status (fold_row evt q) = fact_status (FType f) (tr_Status q)"
      using transition_event [OF f(2), of src] by blast
    have r1: "rows s1 = (rows s)(i \<mapsto> fold_row evt w)" using fold_transition [OF s1(1) evt(1,2)] Cons.prems(3) f(1) by simp
    have "\<exists>w'. rows s' = (rows s1)(i \<mapsto> w') \<and> tr_Project w' = tr_Project (fold_row evt w) \<and> tr_Type w' = tr_Type (fold_row evt w)
       \<and> tr_Status w' = fold fact_status (map FType fs) (tr_Status (fold_row evt w))"
      by (rule Cons.IH [OF s1(2)]) (use Cons.prems(2) r1 in simp_all)
    then obtain w' where w': "rows s' = (rows s1)(i \<mapsto> w')" "tr_Project w' = tr_Project (fold_row evt w)"
      "tr_Type w' = tr_Type (fold_row evt w)" "tr_Status w' = fold fact_status (map FType fs) (tr_Status (fold_row evt w))"
      by blast
    then show ?thesis using r1 evt(3-5) by (intro exI [of _ w']) simp
  qed
qed

end

section \<open>The collections as tables\<close>

record tables =
  tb_rows :: "(string \<times> ledger_row) list"
  tb_status :: delta
  tb_project :: delta

definition no_tables :: tables where "no_tables = \<lparr>tb_rows = [], tb_status = [], tb_project = []\<rparr>"

definition entry :: "delta \<Rightarrow> string \<Rightarrow> int" where
  "entry m k = (case map_of m k of None \<Rightarrow> 0 | Some n \<Rightarrow> n)"

definition bump :: "delta \<Rightarrow> delta \<Rightarrow> delta" where
  "bump ds m = fold (\<lambda>(k, n) m. AList.update k (entry m k + n) m) ds m"

definition row_tables :: "tables meta_ops" where
  "row_tables =
     \<lparr>me_Get = (\<lambda>i s. Inr (map_of (tb_rows s) i)),
      me_Count = (\<lambda>s. Inr (int (length (remdups (map fst (tb_rows s)))))),
      me_Apply = (\<lambda>u s. case written u (map_of (tb_rows s)) of
         None \<Rightarrow> (Inl ''no previous row'', s)
       | Some r \<Rightarrow> (Inr (), \<lparr>tb_rows = AList.update (ru_key u) r (tb_rows s), tb_status = bump (ru_status u) (tb_status s),
           tb_project = bump (ru_project u) (tb_project s)\<rparr>)),
      me_StatusCounts = (\<lambda>s. Inr (AList.clearjunk (tb_status s))),
      me_ProjectCounts = (\<lambda>s. Inr (AList.clearjunk (tb_project s)))\<rparr>"

lemma entry_update [simp]: "entry (AList.update k n m) j = (if j = k then n else entry m j)"
  by (simp add: entry_def update_conv')

lemma entry_bump: "entry (bump ds m) k = entry m k + delta_at ds k"
  by (induction ds arbitrary: m) (auto simp: bump_def)

lemma entry_clearjunk [simp]: "entry (AList.clearjunk m) k = entry m k"
  by (simp add: entry_def map_of_clearjunk)

lemma delta_at_entry: "distinct (map fst m) \<Longrightarrow> delta_at m k = entry m k"
proof (induction m)
  case (Cons e m)
  have "entry m (fst e) = 0" using Cons.prems by (simp add: entry_def map_of_eq_None_iff [THEN iffD2])
  then show ?case using Cons by (cases e) (auto simp: entry_def)
qed (simp add: entry_def)

interpretation tab: meta_engine row_tables "\<lambda>s. map_of (tb_rows s)" "\<lambda>s. entry (tb_status s)" "\<lambda>s. entry (tb_project s)"
proof
  show "me_Count row_tables s = Inr n \<Longrightarrow> n = int (card (dom (map_of (tb_rows s))))" for s n
    by (auto simp: row_tables_def dom_map_of_conv_image_fst length_remdups_card_conv)
qed (auto simp: row_tables_def finite_dom_map_of update_conv' entry_bump distinct_clearjunk delta_at_entry split: option.splits)

lemma row_tables_read: "\<exists>x. me_Get row_tables i s = Inr x"
  by (simp add: row_tables_def)

section \<open>The ledger and the store\<close>

text \<open>
  A run of the store whose free observations stay away from the ledger's own fact types. The ledger agrees with
  the tables when every task has a row with its status, project and type.
\<close>

definition ledger_types :: "fact_type list" where
  "ledger_types = [F_Enqueued, F_Claimed, F_Completed, F_Failed, F_DeadLettered, F_Cancelled, F_Requeued, F_Reprioritized]"

definition quiet_step :: "bool \<Rightarrow> db \<Rightarrow> db \<Rightarrow> bool" where
  "quiet_step excl d d' \<longleftrightarrow> companion_step excl d d' \<and> (\<forall>now f. d' = appendFact now f d \<longrightarrow> FType f \<notin> set ledger_types)"

definition agrees :: "(string \<Rightarrow> ledger_row option) \<Rightarrow> db \<Rightarrow> bool" where
  "agrees v d \<longleftrightarrow> (\<forall>t\<in>set (db_tasks d). \<exists>w. v (r_id t) = Some w \<and> tr_Status w = status_string (r_status t)
     \<and> tr_Project w = r_project t \<and> tr_Type w = r_type t)"

text \<open>Every operation that touches a row journals facts that lead the ledger to the new status.\<close>

lemma touched_tells_status:
  assumes step: "companion_step excl d d'" and ok: "sound d"
  obtains (Same) "d' = d"
  | (Noted) now f where "d' = appendFact now f d"
  | (Told) t f new where "touched d t f new d'" "row_change t (f t)"
      "\<forall>g\<in>set new. FType g \<notin> set identity_types"
      "fold fact_status (map FType new) (status_string (r_status t)) = status_string (r_status (f t))"
  using step
proof cases
  have db: "db_ok d" "deps_readable d" using ok by (simp_all add: sound_def)
  have plain: "\<forall>g\<in>set new. FType g \<notin> set identity_types" if "map FType new = tys" "set tys \<inter> set identity_types = {}" for new tys
    using that(2) unfolding that(1) [symmetric] by auto
  case (claim owner lease types now token res)
  have due: "pick excl types (unix_milli now) d = Some t \<Longrightarrow> r_status t \<in> {Pending, Running} \<and> project_free excl d t" for t
    by (auto dest!: pick_SomeD(2) simp: candidate_def due_def)
  from db claim(1) show ?thesis
  proof (cases rule: ClaimDue_cases)
    case Refused then show ?thesis by (intro that(1))
  next
    case (Finalized t new)
    then have "row_change t (cancel_row now t)"
      by (simp add: row_change_def legal_change_def CanTransitionTo_def leased_ok_def)
    then show ?thesis by (rule that(3) [OF Finalized(5)]) (use Finalized(6) plain [OF Finalized(6)] in \<open>simp_all add: identity_types_def\<close>)
  next
    case (Claimed t task new)
    have "row_change t (lease_row owner lease now token t)"
      using due [OF Claimed(1)] claim(2) by (auto simp: row_change_def legal_change_def CanTransitionTo_def leased_ok_def)
    then show ?thesis
      by (rule that(3) [OF Claimed(5)]) (use Claimed(6) plain [OF Claimed(6)] in \<open>simp_all add: identity_types_def split: if_splits\<close>)
  qed
next
  have db: "db_ok d" using ok by (simp add: sound_def)
  case (requeue i claim errText delay resume cls provider now res')
  from db requeue show ?thesis
  proof (cases rule: Requeue_cases)
    case Refused then show ?thesis by (intro that(1))
  next
    case (Requeued t f)
    then have "row_change t (requeue_row errText delay now t)"
      by (simp add: row_change_def legal_change_def CanTransitionTo_def leased_ok_def)
    then show ?thesis by (rule that(3) [OF Requeued(5)]) (use Requeued(6) in \<open>simp_all add: identity_types_def\<close>)
  qed
next
  have db: "db_ok d" using ok by (simp add: sound_def)
  case (park i reason until by_whom now res')
  from db park show ?thesis
  proof (cases rule: Park_cases)
    case (Parked t f)
    then have "row_change t (park_row (max until now) now t)"
      by (simp add: row_change_def legal_change_def leased_ok_def)
    then show ?thesis by (rule that(3) [OF Parked(4)]) (use Parked(2,5) in \<open>simp_all add: identity_types_def\<close>)
  qed (auto intro: that(1))
next
  have db: "db_ok d" using ok by (simp add: sound_def)
  case (answer i ans now res')
  from db answer show ?thesis
  proof (cases rule: RecordAnswer_cases)
    case (Recorded t f)
    then have "row_change t (answer_row ans (answer_question d i ans) now (answer_time ans now) t)"
      by (simp add: row_change_def legal_change_def)
    then show ?thesis by (rule that(3) [OF Recorded(6)]) (use Recorded(7) in \<open>simp_all add: identity_types_def\<close>)
  qed (auto intro: that(1))
next
  case (observe f now res')
  then show ?thesis by (intro that(2) [of now f]) (simp add: AppendFactTx_def WithTx_def)
qed

context meta_engine
begin

lemma step_followed:
  assumes step: "quiet_step excl d d'" and ok: "sound d" and agr: "agrees (rows s) d"
    and new: "db_facts d' = db_facts d @ new" and run: "fold_batch me src new s = (Inr (), s')"
  shows "agrees (rows s') d'"
proof -
  have cs: "companion_step excl d d'" using step by (simp add: quiet_step_def)
  from cs ok show ?thesis
  proof (cases rule: touched_tells_status)
    case Same then show ?thesis using agr new run by simp
  next
    case (Noted now f)
    then have f: "FType f \<notin> set ledger_types" using step by (simp add: quiet_step_def)
    have "new = [fst (append_row now f d)]" using new Noted by (simp add: appendFact_facts)
    moreover have "eventFor src g = Inr None" if "FType g = FType f" for g
      using f that by (cases "FType f") (simp_all add: eventFor_def ledger_types_def)
    ultimately have "s' = s" using run by (simp add: fold_fact_def)
    then show ?thesis using agr Noted by (simp add: agrees_def)
  next
    case (Told t f new')
    have t: "t \<in> set (db_tasks d)" "new' = new" using Told(1) new by (simp_all add: touched_def)
    obtain w where w: "rows s (r_id t) = Some w" "tr_Status w = status_string (r_status t)" "tr_Project w = r_project t"
      "tr_Type w = r_type t" using agr t(1) by (auto simp: agrees_def)
    have tys: "\<forall>g\<in>set new. TaskID g = r_id t \<and> FType g \<notin> set identity_types"
      using Told(1,3) t(2) by (simp add: touched_def)
    obtain w' where w': "rows s' = (rows s)(r_id t \<mapsto> w')" "tr_Project w' = tr_Project w" "tr_Type w' = tr_Type w"
      "tr_Status w' = fold fact_status (map FType new) (tr_Status w)"
      using fold_transitions [OF run tys w(1)] by blast
    have id: "r_id (f t) = r_id t" "r_project (f t) = r_project t" "r_type (f t) = r_type t"
      using Told(2) by (simp_all add: row_change_def legal_change_def same_identity_def)
    have others: "r_id q \<noteq> r_id t" if "q \<in> set (db_tasks d)" "q \<noteq> t" for q
      using db_ok_ids [of d] ok t(1) that by (auto simp: sound_def distinct_map inj_on_def)
    show ?thesis unfolding agrees_def touched_set [OF Told(1)]
    proof (intro ballI)
      fix q assume q: "q \<in> insert (f t) (set (db_tasks d) - {t})"
      show "\<exists>w. rows s' (r_id q) = Some w \<and> tr_Status w = status_string (r_status q)
         \<and> tr_Project w = r_project q \<and> tr_Type w = r_type q"
      proof (cases "q = f t")
        case True
        then show ?thesis using w' w id Told(4) t(2) by simp
      next
        case False
        then have "q \<in> set (db_tasks d)" "r_id q \<noteq> r_id t" using q others by auto
        then show ?thesis using agr w'(1) by (auto simp: agrees_def)
      qed
    qed
  qed
qed

lemma run_followed:
  assumes "(quiet_step excl)\<^sup>*\<^sup>* d d'" "sound d" "agrees (rows s) d" "db_facts d' = db_facts d @ new"
    and "fold_batch me src new s = (Inr (), s')"
  shows "agrees (rows s') d'"
  using assms
proof (induction arbitrary: new s' rule: rtranclp_induct)
  case base then show ?case by simp
next
  case (step d1 d2)
  have comp: "(companion_step excl)\<^sup>*\<^sup>* d d1"
    using step(1) by (rule rtranclp_mono [THEN predicate2D, rotated]) (auto simp: quiet_step_def)
  have snd1: "sound d1" using steps_sound [OF comp step(4)] .
  obtain n1 where n1: "db_facts d1 = db_facts d @ n1"
    using steps_prefix [OF comp step(4)] by (auto simp: prefix_def)
  obtain n2 where n2: "db_facts d2 = db_facts d1 @ n2"
    using step_journaled [of excl d1 d2] step(2) snd1 by (auto simp: journaled_def sound_def quiet_step_def)
  have new: "new = n1 @ n2" using n1 n2 step(6) by simp
  obtain s1 where s1: "fold_batch me src n1 s = (Inr (), s1)" "fold_batch me src n2 s1 = (Inr (), s')"
    using step(7) unfolding new fold_batch_append by (auto split: prod.splits sum.splits)
  have "agrees (rows s1) d1" using step.IH [OF step(4,5) n1 s1(1)] .
  then show ?case by (rule step_followed [OF step(2) snd1 _ n2 s1(2)])
qed

end

section \<open>Properties\<close>


text \<open>A task's row as the ledger would hold it, and the ledger of one task.\<close>

definition demo_ledger_row :: "task_id \<Rightarrow> string \<Rightarrow> string \<Rightarrow> ledger_row" where
  "demo_ledger_row i project st = \<lparr>tr_ID = i, tr_Project = project, tr_Type = ''sh'', tr_Status = st, tr_Priority = 1, tr_Attempts = 0,
     tr_CreatedAt = 0, tr_UpdatedAt = 0, tr_DedupKey = [], tr_LastError = [], tr_NotBefore = 0, tr_ParkedBy = []\<rparr>"



text \<open>The model as \<open>Open\<close> builds it over the companion's tables with a durable cursor, and a short journal.\<close>

definition tables_cfg :: "go_time \<Rightarrow> db model_cfg" where
  "tables_cfg now = \<lparr>mc_source = tables_source now, mc_rows = (\<lambda>d. Some (StoreRows (loadTask d))), mc_batch = DefaultBatch,
     mc_durable = True, mc_readOnly = False\<rparr>"

lemma loadTask_SaveWatermark [simp]: "loadTask (SaveWatermark key q now d) = loadTask d"
  by (rule ext) (simp add: loadTask_def row_of_def)

lemma tables_cfg_sel [simp]:
  "mc_source (tables_cfg now) = tables_source now" "mc_batch (tables_cfg now) = 1000" "mc_durable (tables_cfg now)"
  "\<not> mc_readOnly (tables_cfg now)" "mc_rows (tables_cfg now) d = Some (StoreRows (loadTask d))"
  by (simp_all add: tables_cfg_def DefaultBatch_def)

definition short_journal :: db where
  "short_journal = appendFact second (mk_fact ''a'' F_Claimed ''w'' empty_text)
     (appendFact second (mk_fact ''a'' F_Enqueued [] empty_text) (demo_db [demo_row ''a'' 1 Running]))"

lemma appendFact_next: "db_next_seq (appendFact now f d) = db_next_seq d + 1"
  by (simp add: appendFact_def append_row_def Let_def)

lemma short_journal_ok: "facts_ok short_journal"
  unfolding short_journal_def by (intro appendFact_ok) (simp add: demo_db_def facts_ok_def seq_sorted_def)

lemma short_journal_feed: "feed (mc_rows (tables_cfg now) short_journal) (AfterSeq (db_facts short_journal) 0 0) [] = Some [(''a'', ''demo'')]"
  by (simp add: short_journal_def appendFact_facts appendFact_next demo_defs feed_step_def eventFor_def enqueuedEvent_def mk_fact_def
      Let_def StoreRows_def loadTask_def row_of_def scanTaskRow_def scan_deps_def)


text \<open>
  C23: Lost counters stay lost. A projection whose rows survived while its counters are empty, the case the loader
  replays the whole journal for, never becomes exact by it: every folded transition nets out against the row it finds,
  so after the replay the counters still fall short by the rows that were there, and opening it again
  replays again.
\<close>

theorem lost_counters_never_recover:
  assumes engine: "meta_engine me rows st_count pr_count" "\<And>i s. \<exists>x. me_Get me i s = Inr x"
      "\<And>s. \<exists>n. me_Count me s = Inr n" "\<And>s. \<exists>cs. me_StatusCounts me s = Inr cs"
    and cfg: "mc_source cfg = tables_source now" "0 < mc_batch cfg" "\<not> mc_readOnly cfg"
      "\<And>q d. mc_rows cfg (SaveWatermark CursorConsumer q now d) = mc_rows cfg d"
    and start: "facts_ok d" "rows s i = Some w" "\<And>k. st_count s k = 0"
      "\<And>i. map_option tr_Project (rows s i) = map_of kn i" "\<And>i r. rows s i = Some r \<Longrightarrow> tr_Status r \<in> set ledger_statuses"
    and good: "feed (mc_rows cfg d) (AfterSeq (db_facts d) 0 0) kn \<noteq> None"
  shows "loadCursor me cfg d s = Inr 0
    \<and> (\<exists>r p. CatchUp (Suc (length (db_facts d))) me cfg \<lparr>pu_store = d, pu_meta = s, pu_cursor = 0\<rparr> = Some (r, p)
      \<and> (r = Inr () \<longrightarrow> (\<forall>st\<in>set ledger_statuses. st_count (pu_meta p) st
            = row_count (\<lambda>r. tr_Status r = st) (rows (pu_meta p)) - row_count (\<lambda>r. tr_Status r = st) (rows s))
          \<and> (\<exists>st\<in>set ledger_statuses. st_count (pu_meta p) st < row_count (\<lambda>r. tr_Status r = st) (rows (pu_meta p)))))"
proof -
  obtain kn' where kn': "feed (mc_rows cfg d) (AfterSeq (db_facts d) 0 0) kn = Some kn'" using good by blast
  have known: "meta_engine.knows rows s kn" using start(4,5) by (simp add: meta_engine.knows_def [OF engine(1)])
  obtain n cs where reads: "me_Count me s = Inr n" "me_StatusCounts me s = Inr cs" using engine(3,4) by blast
  have cs: "distinct (map fst cs)" "delta_at cs k = 0" for k
    using meta_engine.status_reads [OF engine(1) reads(2)] start(3) by simp_all
  have "sum_list (map snd cs) = 0" using counters_sum [OF cs(1)] cs(2) by simp
  then have load: "loadCursor me cfg d s = Inr 0"
    using reads cfg(1) by (simp add: loadCursor_def tables_source_def split: option.split)
  obtain r p where run: "CatchUp (Suc (length (db_facts d))) me cfg \<lparr>pu_store = d, pu_meta = s, pu_cursor = 0\<rparr> = Some (r, p)"
    and ends: "r = Inr () \<longrightarrow> meta_engine.knows rows (pu_meta p) kn' \<and> AfterSeq (db_facts d) (pu_cursor p) 0 = []
       \<and> (\<forall>st\<in>set ledger_statuses. meta_engine.drift rows st_count (pu_meta p) st = meta_engine.drift rows st_count s st
           \<and> (\<forall>q. meta_engine.project_drift rows pr_count (pu_meta p) q st = meta_engine.project_drift rows pr_count s q st))"
    using meta_engine.CatchUp_replays [OF engine(1,2) cfg start(1) known kn'] by blast
  have short: "st_count (pu_meta p) st
      = row_count (\<lambda>r. tr_Status r = st) (rows (pu_meta p)) - row_count (\<lambda>r. tr_Status r = st) (rows s)"
    if "r = Inr ()" "st \<in> set ledger_statuses" for st
    using that ends start(3) by (auto simp: meta_engine.drift_def [OF engine(1)])
  have "0 < row_count (\<lambda>r. tr_Status r = tr_Status w) (rows s)"
    by (rule row_count_pos [OF meta_engine.finite_rows [OF engine(1)] start(2)]) simp
  then show ?thesis
    using run short start(5) [OF start(2)] by (intro conjI [OF load] exI [of _ r] exI [of _ p]) auto
qed

lemma lost_counters_never_recover_witness:
  "loadCursor row_tables (tables_cfg hour) short_journal (no_tables\<lparr>tb_rows := [(''a'', demo_ledger_row ''a'' ''demo'' ''running'')]\<rparr>) = Inr 0"
proof -
  let ?s = "no_tables\<lparr>tb_rows := [(''a'', demo_ledger_row ''a'' ''demo'' ''running'')]\<rparr>"
  have feed: "feed (mc_rows (tables_cfg hour) short_journal) (AfterSeq (db_facts short_journal) 0 0) [(''a'', ''demo'')] \<noteq> None"
    by (simp add: short_journal_def appendFact_facts appendFact_next demo_defs feed_step_def eventFor_def enqueuedEvent_def mk_fact_def
      Let_def StoreRows_def loadTask_def row_of_def scanTaskRow_def scan_deps_def)
  show ?thesis
    by (rule lost_counters_never_recover [OF tab.meta_engine_axioms row_tables_read, of _ hour short_journal _ "''a''" _ "[(''a'', ''demo'')]", THEN conjunct1])
      (use feed short_journal_ok in \<open>auto simp: row_tables_def no_tables_def entry_def demo_ledger_row_def ledger_statuses_def split: if_splits\<close>)
qed

text \<open>
  Per-project counts are read back under the project's name only where the name holds no separator; a project
  with an underscore is filed under the part before it, with the rest glued to the status.
\<close>

lemma projectMatrix_reads:
  assumes "distinct (map fst raw)" "projectStatusKeySep \<notin> set p"
  shows "map_of (projectMatrix raw flt) (p, st)
       = (if matchesFilter flt p st \<and> entry raw (projectStatusKey p st) \<noteq> 0 then Some (entry raw (projectStatusKey p st)) else None)"
  using assms(1)
proof (induction raw)
  case Nil then show ?case by (simp add: projectMatrix_def entry_def map_filter_def)
next
  case (Cons e raw)
  obtain k n where e: "e = (k, n)" by (cases e)
  have fresh: "map_of raw k = None" using Cons.prems e by (simp add: map_of_eq_None_iff)
  have key: "k = projectStatusKey p st \<longleftrightarrow> str_cut projectStatusKeySep k = Some (p, st)"
    using str_cut_first [OF assms(2)] str_cut_Some [of projectStatusKeySep k p st] by (auto simp: projectStatusKey_def)
  have step: "projectMatrix (e # raw) flt = (case str_cut projectStatusKeySep k of
      Some (q, s) \<Rightarrow> if n \<noteq> 0 \<and> matchesFilter flt q s then [((q, s), n)] else [] | None \<Rightarrow> []) @ projectMatrix raw flt"
    using e by (auto simp: projectMatrix_def map_filter_def split: option.split)
  show ?case
  proof (cases "k = projectStatusKey p st")
    case True
    then have "entry raw (projectStatusKey p st) = 0" using fresh by (simp add: entry_def)
    then show ?thesis using Cons True key e unfolding step by (simp add: entry_def)
  next
    case False
    then have "entry (e # raw) (projectStatusKey p st) = entry raw (projectStatusKey p st)" using e by (simp add: entry_def)
    moreover have "map_of (projectMatrix (e # raw) flt) (p, st) = map_of (projectMatrix raw flt) (p, st)"
      using False key unfolding step by (auto simp: map_add_def split: option.split)
    ultimately show ?thesis using Cons by simp
  qed
qed

lemma underscore_projects_are_misfiled:
  "projectMatrix [(projectStatusKey ''my_app'' ''pending'', 2)] no_ledger_filter = [((''my'', ''app_pending''), 2)]"
  by (simp add: projectMatrix_def map_filter_def projectStatusKey_def projectStatusKeySep_def no_ledger_filter_def matchesFilter_def)

text \<open>
  A failure folded twice burns two attempts in the ledger, so a page replayed after a missed checkpoint is
  not the same as a page folded once. And an enqueue whose task the store no longer has stops the pump: the error
  of the lookup is passed on where the interface asks for a miss, the cursor stays, and every later round fails alike.
\<close>

lemma replayed_failure_burns_twice:
  assumes "meta_engine me rows st_count pr_count" "FType f = F_Failed" "rows s (TaskID f) = Some w"
    and "fold_fact me False src f s = (Inr (), s1)" "fold_fact me False src f s1 = (Inr (), s2)"
  shows "\<exists>w2. rows s2 (TaskID f) = Some w2 \<and> tr_Attempts w2 = tr_Attempts w + 2"
proof -
  have ev: "eventFor src f = Inr (Some (EvtFailed (Error f) (unix_milli (Time f))))" using assms(2) by (simp add: eventFor_def)
  note one = meta_engine.fold_transition [OF assms(1,4) ev _ assms(3)]
  have "rows s1 (TaskID f) = Some (fold_row (EvtFailed (Error f) (unix_milli (Time f))) w)" using one by simp
  then show ?thesis using meta_engine.fold_transition [OF assms(1,5) ev] by simp
qed

lemma archived_task_stops_the_pump:
  assumes "src_Facts (mc_source cfg) (pu_cursor p) (mc_batch cfg) (pu_store p) = Inr (f # fs)" "\<not> mc_readOnly cfg"
    and "FType f = F_Enqueued" "mc_rows cfg (pu_store p) = Some (StoreRows get)" "get (TaskID f) = Inl (TaskErr ErrNotFound)"
  shows "CatchUp (Suc n) me cfg p = Some (Inl (SideChannel (TaskID f) (TaskErr ErrNotFound)), p)"
  using assms by (simp add: catchUpOnce_def fold_fact_def eventFor_def enqueuedEvent_def StoreRows_def)

end
