(* ===== verification/Tq_Host.thy ===== *)
theory Tq_Host
  imports Tq_Ledger "HOL-Library.List_Lexorder"
begin

text \<open>
  The journal as an event stream and the managed host of the ledger: \<open>internal/journal/cqrs\<close> (facts as events,
  sequence-derived event identities, the seekable read) and \<open>internal/readmodel/host.go\<close> (the identity codec again,
  checkpoints in the watermarks table, the fold as a projection, the polling tail) with the lag report of
  \<open>projectionhealth.go\<close>. The event platform, its identity parsers and its payload codec are third-party:
  the record \<open>platform\<close> is what the code calls of it. Shows that the identities order and name the facts,
  that the host folds exactly what the pump folds, and that the tail hands over every fact once and in order.
\<close>

section \<open>Event identities\<close>

text \<open>The sixteen bytes of a ULID. Six zero bytes, the sequence big-endian in eight, two zero bytes.\<close>

type_synonym event_id = "8 word list"

definition seqEpochLen :: nat where "seqEpochLen = 6"
definition seqBytesLen :: nat where "seqBytesLen = 8"

definition zero_id :: event_id where "zero_id = replicate 16 0"

definition PutUint64 :: "64 word \<Rightarrow> 8 word list" where
  "PutUint64 v = map (\<lambda>k. ucast (drop_bit k v)) [56, 48, 40, 32, 24, 16, 8, 0]"

definition Uint64 :: "8 word list \<Rightarrow> 64 word" where
  "Uint64 bs = foldl (\<lambda>acc b. or (push_bit 8 acc) (ucast b)) 0 bs"

datatype host_err = NotPositive int | EncodeErr int string | NotSequenceDerived | DecodeErr string | WatermarkErr qerr
  | StreamErr int string | BuildErr int string | ReadErr int qerr | FoldErr model_err

text \<open>What the code calls of the platform: identity parsing, and the payload codec of events.\<close>

record fact_payload =
  fp_TaskID :: string
  fp_Type :: fact_type
  fp_Owner :: string
  fp_Attempt :: int
  fp_Error :: string
  fp_Detail :: jtext

record 'b platform =
  pf_ParseEventID :: "event_id \<Rightarrow> string + event_id"
  pf_ParseStreamID :: "string \<Rightarrow> string + string"
  pf_Encode :: "fact_payload \<Rightarrow> string + 'b"
  pf_Decode :: "'b \<Rightarrow> string + fact_payload"

definition raw_id :: "int \<Rightarrow> event_id" where
  "raw_id seq = replicate seqEpochLen 0 @ PutUint64 (word_of_int seq) @ replicate 2 0"

definition SeqToEventID :: "'b platform \<Rightarrow> int \<Rightarrow> host_err + event_id" where
  "SeqToEventID pf seq =
     (if seq \<le> 0 then Inl (NotPositive seq)
      else case pf_ParseEventID pf (raw_id seq) of Inl e \<Rightarrow> Inl (EncodeErr seq e) | Inr i \<Rightarrow> Inr i)"

definition EventIDToSeq :: "event_id \<Rightarrow> int option" where
  "EventIDToSeq raw =
     (if \<exists>b\<in>set (take seqEpochLen raw). b \<noteq> 0 then None
      else if \<exists>b\<in>set (drop (seqEpochLen + seqBytesLen) raw). b \<noteq> 0 then None
      else Some (sint (Uint64 (take seqBytesLen (drop seqEpochLen raw)))))"

text \<open>The journal adapter's own copy of the codec.\<close>

definition seqEventID :: "'b platform \<Rightarrow> int \<Rightarrow> host_err + event_id" where
  "seqEventID pf seq =
     (if seq \<le> 0 then Inl (NotPositive seq)
      else case pf_ParseEventID pf (replicate 6 0 @ PutUint64 (word_of_int seq) @ replicate 2 0) of
        Inl e \<Rightarrow> Inl (EncodeErr seq e) | Inr i \<Rightarrow> Inr i)"

definition seqFromEventID :: "event_id \<Rightarrow> int option" where
  "seqFromEventID raw =
     (if \<exists>b\<in>set (take 6 raw). b \<noteq> 0 then None
      else if \<exists>b\<in>set (drop 14 raw). b \<noteq> 0 then None
      else Some (sint (Uint64 (take 8 (drop 6 raw)))))"

section \<open>Facts as events\<close>

datatype stream_type = StreamTypeTask | StreamTypeSession

record 'b event =
  ev_ID :: event_id
  ev_Type :: fact_type
  ev_Stream :: string
  ev_StreamType :: stream_type
  ev_Version :: "64 word"
  ev_Payload :: 'b
  ev_OccurredAt :: go_time

definition payload_of :: "fact \<Rightarrow> fact_payload" where
  "payload_of f = \<lparr>fp_TaskID = TaskID f, fp_Type = FType f, fp_Owner = Owner f, fp_Attempt = Attempt f, fp_Error = Error f,
     fp_Detail = Detail f\<rparr>"

definition factEvent :: "'b platform \<Rightarrow> fact \<Rightarrow> host_err + 'b event" where
  "factEvent pf f =
     (if Seq f \<le> 0 then Inl (NotPositive (Seq f))
      else case seqEventID pf (Seq f) of
        Inl e \<Rightarrow> Inl e
      | Inr i \<Rightarrow>
          (case pf_ParseStreamID pf (TaskID f) of
             Inl e \<Rightarrow> Inl (StreamErr (Seq f) e)
           | Inr sid \<Rightarrow>
               (case pf_Encode pf (payload_of f) of
                  Inl e \<Rightarrow> Inl (BuildErr (Seq f) e)
                | Inr b \<Rightarrow> Inr \<lparr>ev_ID = i, ev_Type = FType f, ev_Stream = sid,
                    ev_StreamType = (if prefix ''session:'' (TaskID f) then StreamTypeSession else StreamTypeTask),
                    ev_Version = word_of_int (Seq f), ev_Payload = b, ev_OccurredAt = Time f\<rparr>)))"

fun mapFacts :: "'b platform \<Rightarrow> fact list \<Rightarrow> host_err + 'b event list" where
  "mapFacts pf [] = Inr []"
| "mapFacts pf (f # fs) =
     (case factEvent pf f of
        Inl e \<Rightarrow> Inl e
      | Inr ev \<Rightarrow> (case mapFacts pf fs of Inl e \<Rightarrow> Inl e | Inr evs \<Rightarrow> Inr (ev # evs)))"

definition SliceFacts :: "fact list \<Rightarrow> int \<Rightarrow> int \<Rightarrow> qerr + fact list" where
  "SliceFacts fs after limit = Inr (AfterSeq fs after limit)"

definition ReadAll :: "'b platform \<Rightarrow> (int \<Rightarrow> int \<Rightarrow> qerr + fact list) \<Rightarrow> host_err + 'b event list" where
  "ReadAll pf src = (case src 0 0 of Inl e \<Rightarrow> Inl (ReadErr 0 e) | Inr fs \<Rightarrow> mapFacts pf fs)"

definition ReadFrom :: "'b platform \<Rightarrow> (int \<Rightarrow> int \<Rightarrow> qerr + fact list) \<Rightarrow> event_id \<Rightarrow> int \<Rightarrow> host_err + 'b event list" where
  "ReadFrom pf src afterID limit =
     (case seqFromEventID afterID of
        None \<Rightarrow> Inr []
      | Some after \<Rightarrow> (case src after limit of Inl e \<Rightarrow> Inl (ReadErr after e) | Inr fs \<Rightarrow> mapFacts pf fs))"

section \<open>Checkpoints in the watermarks table\<close>

definition CheckpointLoad :: "'b platform \<Rightarrow> 's source_ops \<Rightarrow> string \<Rightarrow> 's \<Rightarrow> host_err + event_id" where
  "CheckpointLoad pf src name s =
     (case src_Watermark src name s of
        Inl e \<Rightarrow> Inl (WatermarkErr e)
      | Inr None \<Rightarrow> Inr zero_id
      | Inr (Some seq) \<Rightarrow> if seq \<le> 0 then Inr zero_id else SeqToEventID pf seq)"

definition CheckpointSave :: "'s source_ops \<Rightarrow> string \<Rightarrow> event_id \<Rightarrow> 's \<Rightarrow> (host_err + unit) \<times> 's" where
  "CheckpointSave src name cp s =
     (case EventIDToSeq cp of
        None \<Rightarrow> (Inl NotSequenceDerived, s)
      | Some seq \<Rightarrow> (case src_SaveWatermark src name seq s of (Inl e, s') \<Rightarrow> (Inl (WatermarkErr e), s') | (Inr _, s') \<Rightarrow> (Inr (), s')))"

section \<open>The fold as a projection\<close>

definition ProjectionName :: string where "ProjectionName = CursorConsumer"

definition EventTypes :: "fact_type list" where
  "EventTypes = [F_Enqueued, F_Claimed, F_Heartbeat, F_Completed, F_Failed, F_DeadLettered, F_Cancelled, F_CancelRequested,
     F_Released, F_Requeued, F_Orphaned, F_Reprioritized, F_SessionOpened, F_SessionClosed, F_QuestionAsked, F_QuestionAnswered]"

definition Handle :: "'b platform \<Rightarrow> 's meta_ops \<Rightarrow> bool \<Rightarrow> row_source option \<Rightarrow> 'b event \<Rightarrow> 's \<Rightarrow> (host_err + unit) \<times> 's" where
  "Handle pf me readOnly src ev s =
     (case pf_Decode pf (ev_Payload ev) of
        Inl e \<Rightarrow> (Inl (DecodeErr e), s)
      | Inr p \<Rightarrow>
          (case EventIDToSeq (ev_ID ev) of
             None \<Rightarrow> (Inl NotSequenceDerived, s)
           | Some seq \<Rightarrow>
               (case fold_fact me readOnly src \<lparr>Seq = seq, Time = ev_OccurredAt ev, TaskID = fp_TaskID p, FType = fp_Type p,
                    Owner = fp_Owner p, Attempt = fp_Attempt p, Error = fp_Error p, Detail = fp_Detail p\<rparr> s of
                  (Inl e, s') \<Rightarrow> (Inl (FoldErr e), s')
                | (Inr _, s') \<Rightarrow> (Inr (), s'))))"

section \<open>The tail\<close>

definition tailAnchor :: "'b platform \<Rightarrow> int \<Rightarrow> host_err + event_id" where
  "tailAnchor pf after = (if after \<le> 0 then Inr zero_id else SeqToEventID pf after)"

text \<open>
  One tick: read after the anchor and hand the events to the worker, moving past each that it takes. The tail
  ends when the anchor has no identity or the worker refuses an event; a failed read waits for the next tick.
  Returned with the events the worker took.
\<close>

datatype tail_end = Ended | Polling int

fun deliver :: "('b event \<Rightarrow> 'w \<Rightarrow> (string + unit) \<times> 'w) \<Rightarrow> 'b event list \<Rightarrow> int \<Rightarrow> 'w \<Rightarrow> tail_end \<times> 'b event list \<times> 'w" where
  "deliver h [] after w = (Polling after, [], w)"
| "deliver h (ev # evs) after w =
     (case h ev w of
        (Inl _, w') \<Rightarrow> (Ended, [], w')
      | (Inr _, w') \<Rightarrow>
          (case deliver h evs (case EventIDToSeq (ev_ID ev) of Some seq \<Rightarrow> seq | None \<Rightarrow> after) w' of
             (e, taken, w'') \<Rightarrow> (e, ev # taken, w'')))"

definition tail_tick :: "'b platform \<Rightarrow> (int \<Rightarrow> int \<Rightarrow> qerr + fact list) \<Rightarrow> ('b event \<Rightarrow> 'w \<Rightarrow> (string + unit) \<times> 'w) \<Rightarrow> int \<Rightarrow> 'w
    \<Rightarrow> tail_end \<times> 'b event list \<times> 'w" where
  "tail_tick pf src h after w =
     (case tailAnchor pf after of
        Inl e \<Rightarrow> (Ended, [], w)
      | Inr eid \<Rightarrow>
          (case ReadFrom pf src eid DefaultBatch of
             Inl e \<Rightarrow> (Polling after, [], w)
           | Inr evs \<Rightarrow> deliver h evs after w))"

definition tail_start :: "'s source_ops \<Rightarrow> 's \<Rightarrow> int" where
  "tail_start src s = (case src_Watermark src CursorConsumer s of Inr (Some seq) \<Rightarrow> seq | _ \<Rightarrow> 0)"

section \<open>Lag\<close>

record projection_health =
  ph_Cursor :: int
  ph_Head :: int
  ph_Lag :: int
  ph_Checkpointed :: bool
  ph_Checkpoint :: int

definition ProjectionHealth :: "'s source_ops \<Rightarrow> int \<Rightarrow> 's \<Rightarrow> projection_health" where
  "ProjectionHealth src cursor s =
     (let r = (case src_HeadSeq src s of
            Inl e \<Rightarrow> \<lparr>ph_Cursor = cursor, ph_Head = 0, ph_Lag = - 1, ph_Checkpointed = False, ph_Checkpoint = 0\<rparr>
          | Inr hd_seq \<Rightarrow> \<lparr>ph_Cursor = cursor, ph_Head = hd_seq, ph_Lag = hd_seq - cursor, ph_Checkpointed = False, ph_Checkpoint = 0\<rparr>) in
      case src_Watermark src CursorConsumer s of
        Inr (Some seq) \<Rightarrow> r\<lparr>ph_Checkpointed := True, ph_Checkpoint := seq\<rparr>
      | _ \<Rightarrow> r)"

section \<open>Bytes\<close>

lemma Uint64_PutUint64: "Uint64 (PutUint64 v) = v"
proof (rule bit_word_eqI)
  fix n :: nat assume "n < LENGTH(64)"
  then consider "n < 8" | "8 \<le> n" "n < 16" | "16 \<le> n" "n < 24" | "24 \<le> n" "n < 32" | "32 \<le> n" "n < 40" | "40 \<le> n" "n < 48"
    | "48 \<le> n" "n < 56" | "56 \<le> n" "n < 64" by force
  then show "bit (Uint64 (PutUint64 v)) n = bit v n"
    by cases (auto simp add: Uint64_def PutUint64_def bit_simps)
qed

fun be_val :: "8 word list \<Rightarrow> nat" where
  "be_val [] = 0"
| "be_val (b # bs) = unat b * 256 ^ length bs + be_val bs"

lemma be_val_bound: "be_val bs < 256 ^ length bs"
proof (induction bs)
  case (Cons b bs)
  have "unat b < 256" using unsigned_less [of b, where 'a=nat] by simp
  then have "(unat b + 1) * 256 ^ length bs \<le> 256 * 256 ^ length bs" by (intro mult_right_mono) auto
  moreover have "unat b * 256 ^ length bs + be_val bs < (unat b + 1) * 256 ^ length bs" using Cons by simp
  ultimately have "unat b * 256 ^ length bs + be_val bs < 256 * 256 ^ length bs" by (rule less_le_trans [rotated])
  then show ?case by simp
qed simp

lemma be_val_less: "length bs = length cs \<Longrightarrow> be_val bs < be_val cs \<longleftrightarrow> bs < cs"
proof (induction bs cs rule: list_induct2)
  case (Cons b bs c cs)
  let ?p = "256 ^ length cs :: nat"
  have bnd: "be_val bs < ?p" "be_val cs < ?p" using be_val_bound [of bs] be_val_bound [of cs] Cons.hyps by simp_all
  have lt: "x * ?p + u < y * ?p + v" if "x < y" "u < ?p" for x y u v :: nat
  proof -
    have "Suc x * ?p \<le> y * ?p" using that(1) by (intro mult_right_mono) auto
    then show ?thesis using that(2) by simp
  qed
  consider "b < c" | "b = c" | "c < b" by force
  then show ?case
  proof cases
    case 1 then show ?thesis using lt [of "unat b" "unat c"] bnd Cons.hyps by (auto simp: word_less_nat_alt)
  next
    case 2 then show ?thesis using Cons by simp
  next
    case 3 then show ?thesis using lt [of "unat c" "unat b" "be_val cs" "be_val bs"] bnd Cons.hyps by (auto simp: word_less_nat_alt)
  qed
qed simp

lemma be_val_PutUint64: "be_val (PutUint64 v) = unat v"
proof -
  let ?x = "unat v"
  have b: "unat (ucast (drop_bit k v) :: 8 word) = ?x div 2 ^ k mod 256" for k
    by (simp add: unsigned_ucast_eq unat_drop_bit_eq drop_bit_eq_div [where 'a = nat] take_bit_eq_mod)
  have "?x < 2 ^ 64" using unsigned_less [of v, where 'a=nat] by simp
  then have top: "?x div 2 ^ 56 mod 256 = ?x div 2 ^ 56" by simp
  define d where "d k = ?x div 2 ^ k" for k
  define m where "m k = d k mod 256" for k
  have digit: "d k = d (k + 8) * 256 + m k" for k
    by (simp add: d_def m_def power_add div_mult2_eq)
  have "be_val (PutUint64 v) = m 56 * 256 ^ 7 + (m 48 * 256 ^ 6 + (m 40 * 256 ^ 5 + (m 32 * 256 ^ 4
      + (m 24 * 256 ^ 3 + (m 16 * 256 ^ 2 + (m 8 * 256 + m 0))))))"
    using b [of 0] by (simp add: PutUint64_def b m_def d_def)
  moreover have "m 56 = d 56" using top by (simp add: m_def d_def)
  ultimately have "be_val (PutUint64 v) = d 0"
    using digit [of 0] digit [of 8] digit [of 16] digit [of 24] digit [of 32] digit [of 40] digit [of 48] by simp
  then show ?thesis by (simp add: d_def)
qed
lemma length_PutUint64 [simp]: "length (PutUint64 v) = 8"
  by (simp add: PutUint64_def)

text \<open>Sequences of the journal fit a signed 64-bit integer.\<close>

definition seq64 :: "int \<Rightarrow> bool" where
  "seq64 q \<longleftrightarrow> 0 < q \<and> q < 2 ^ 63"

lemma sint_seq64: "seq64 q \<Longrightarrow> sint (word_of_int q :: 64 word) = q"
  by (simp add: seq64_def sint_sbintrunc' signed_take_bit_int_eq_self)

lemma unat_seq64: "seq64 q \<Longrightarrow> unat (word_of_int q :: 64 word) = nat q"
  by (simp add: seq64_def unat_eq_nat_uint uint_word_of_int_eq take_bit_int_eq_self)

lemma EventIDToSeq_raw: "seq64 q \<Longrightarrow> EventIDToSeq (raw_id q) = Some q"
  by (simp add: EventIDToSeq_def raw_id_def seqEpochLen_def seqBytesLen_def Uint64_PutUint64 sint_seq64)

lemma seqFromEventID_is_EventIDToSeq: "seqFromEventID = EventIDToSeq"
  by (rule ext) (simp add: seqFromEventID_def EventIDToSeq_def seqEpochLen_def seqBytesLen_def)

lemma seqEventID_is_SeqToEventID: "seqEventID = SeqToEventID"
  by (intro ext) (simp add: seqEventID_def SeqToEventID_def raw_id_def seqEpochLen_def)

lemma zero_id_start [simp]: "EventIDToSeq zero_id = Some 0"
  by (simp add: EventIDToSeq_def zero_id_def seqEpochLen_def seqBytesLen_def Uint64_def numeral_eq_Suc)

lemma append_less_iff: "length a = length b \<Longrightarrow> (a @ c < b @ (c :: 'a :: linorder list)) \<longleftrightarrow> a < b"
  by (induction a b rule: list_induct2) auto

lemma prefix_less_iff [simp]: "(c @ a < c @ (b :: 'a :: linorder list)) \<longleftrightarrow> a < b"
  by (induction c) auto

lemma raw_id_order: "seq64 a \<Longrightarrow> seq64 b \<Longrightarrow> raw_id a < raw_id b \<longleftrightarrow> a < b"
  using be_val_less [of "PutUint64 (word_of_int a)" "PutUint64 (word_of_int b)"]
  by (simp add: raw_id_def append_less_iff be_val_PutUint64 unat_seq64) (auto simp: seq64_def)

section \<open>What the platform promises\<close>

text \<open>
  A canonical identity string parses back to its bytes, and a payload the codec encodes decodes to the same
  payload; the detail may be spaced differently but is the same document.
\<close>

definition same_payload :: "fact_payload \<Rightarrow> fact_payload \<Rightarrow> bool" where
  "same_payload p q \<longleftrightarrow> fp_TaskID p = fp_TaskID q \<and> fp_Type p = fp_Type q \<and> fp_Owner p = fp_Owner q \<and> fp_Attempt p = fp_Attempt q
     \<and> fp_Error p = fp_Error q \<and> jt_parse (fp_Detail p) = jt_parse (fp_Detail q)"

locale event_platform =
  fixes pf :: "'b platform"
  assumes parse_raw: "0 < q \<Longrightarrow> pf_ParseEventID pf (raw_id q) = Inr (raw_id q)"
    and decode_encoded: "pf_Encode pf p = Inr b \<Longrightarrow> \<exists>q. pf_Decode pf b = Inr q \<and> same_payload p q"
begin

lemma minted: "seq64 q \<Longrightarrow> SeqToEventID pf q = Inr (raw_id q)"
  using parse_raw [of q] by (simp add: SeqToEventID_def seq64_def)

lemma factEvent_id: "factEvent pf f = Inr ev \<Longrightarrow> seq64 (Seq f) \<Longrightarrow> ev_ID ev = raw_id (Seq f)"
  using minted [of "Seq f"] by (auto simp: factEvent_def seqEventID_is_SeqToEventID split: sum.splits if_splits)

lemma mapFacts_ids:
  "mapFacts pf fs = Inr evs \<Longrightarrow> \<forall>f\<in>set fs. seq64 (Seq f) \<Longrightarrow> map ev_ID evs = map (\<lambda>f. raw_id (Seq f)) fs"
  by (induction fs arbitrary: evs) (auto split: sum.splits dest: factEvent_id)

lemma ReadFrom_anchor:
  assumes "0 \<le> after" "after < 2 ^ 63"
  shows "\<exists>eid. tailAnchor pf after = Inr eid \<and> ReadFrom pf src eid limit
     = (case src after limit of Inl e \<Rightarrow> Inl (ReadErr after e) | Inr fs \<Rightarrow> mapFacts pf fs)"
proof (cases "after = 0")
  case True
  then show ?thesis by (simp add: tailAnchor_def ReadFrom_def seqFromEventID_is_EventIDToSeq cong: sum.case_cong)
next
  case False
  then have "seq64 after" using assms by (simp add: seq64_def)
  then show ?thesis using False assms(1)
    by (simp add: tailAnchor_def minted ReadFrom_def seqFromEventID_is_EventIDToSeq EventIDToSeq_raw)
qed

text \<open>What the worker took is an initial part of what was read, and the position is the last of it.\<close>

lemma deliver_prefix:
  assumes "deliver h evs after w = (e, taken, w')" "map ev_ID evs = map (\<lambda>f. raw_id (Seq f)) fs" "\<forall>f\<in>set fs. seq64 (Seq f)"
  shows "map ev_ID taken = map (\<lambda>f. raw_id (Seq f)) (take (length taken) fs)
     \<and> (\<forall>a. e = Polling a \<longrightarrow> length taken = length fs \<and> a = (if fs = [] then after else Seq (last fs)))"
  using assms
proof (induction evs arbitrary: fs after w e taken w')
  case (Cons ev evs)
  obtain f fs' where fs: "fs = f # fs'" "ev_ID ev = raw_id (Seq f)" "map ev_ID evs = map (\<lambda>f. raw_id (Seq f)) fs'"
    using Cons.prems(2) by (cases fs) auto
  have seq: "EventIDToSeq (ev_ID ev) = Some (Seq f)" using fs Cons.prems(3) by (simp add: EventIDToSeq_raw)
  obtain r w1 where h: "h ev w = (r, w1)" by (cases "h ev w")
  show ?case
  proof (cases r)
    case (Inl e1)
    then show ?thesis using Cons.prems(1) h by simp
  next
    case (Inr u)
    obtain e2 t2 w2 where rec: "deliver h evs (Seq f) w1 = (e2, t2, w2)" by (cases "deliver h evs (Seq f) w1")
    have eq: "e = e2" "taken = ev # t2" using Cons.prems(1) h Inr rec seq by simp_all
    show ?thesis using Cons.IH [OF rec fs(3)] Cons.prems(3) fs(1,2) eq by auto
  qed
qed simp

lemma tick_step:
  assumes "tail_tick pf (\<lambda>after limit. Inr (AfterSeq J after limit)) h after w = (e, taken, w')"
    and J: "seq_sorted J" "\<forall>f\<in>set J. seq64 (Seq f)" and "0 \<le> after" "after < 2 ^ 63"
  shows "map ev_ID taken = map (\<lambda>f. raw_id (Seq f)) (take (length taken) (AfterSeq J after 0))
     \<and> (\<forall>a. e = Polling a \<longrightarrow> 0 \<le> a \<and> a < 2 ^ 63 \<and> AfterSeq J after 0 = take (length taken) (AfterSeq J after 0) @ AfterSeq J a 0
         \<and> (a = after \<or> (\<exists>f\<in>set J. a = Seq f \<and> after < Seq f)))"
proof -
  let ?page = "AfterSeq J after DefaultBatch"
  have pos: "0 < DefaultBatch" by (simp add: DefaultBatch_def)
  obtain eid where eid: "tailAnchor pf after = Inr eid"
    "ReadFrom pf (\<lambda>after limit. Inr (AfterSeq J after limit)) eid DefaultBatch = mapFacts pf ?page"
    using ReadFrom_anchor [OF assms(4,5), of "\<lambda>after limit. Inr (AfterSeq J after limit)" DefaultBatch] by auto
  have seqs: "\<forall>f\<in>set ?page. seq64 (Seq f)" using J(2) AfterSeq_subset [of J after DefaultBatch] by blast
  obtain rest where rest: "AfterSeq J after 0 = ?page @ rest" by (metis AfterSeq_take [OF pos] append_take_drop_id)
  show ?thesis
  proof (cases "mapFacts pf ?page")
    case (Inl x)
    then show ?thesis using assms(1,4,5) eid by (auto simp: tail_tick_def)
  next
    case (Inr evs)
    have run: "deliver h evs after w = (e, taken, w')" using assms(1) eid Inr by (simp add: tail_tick_def)
    note del = deliver_prefix [OF run mapFacts_ids [OF Inr seqs] seqs]
    have len: "length taken \<le> length ?page"
      using del by (metis length_map length_take min.cobounded1)
    have "0 \<le> a \<and> a < 2 ^ 63 \<and> AfterSeq J after 0 = take (length taken) (AfterSeq J after 0) @ AfterSeq J a 0
        \<and> (a = after \<or> (\<exists>f\<in>set J. a = Seq f \<and> after < Seq f))"
      if e: "e = Polling a" for a
    proof (cases "?page = []")
      case True
      then have "a = after" "taken = []" using del e by auto
      then show ?thesis using assms(4,5) by simp
    next
      case False
      then have a: "a = Seq (last ?page)" "length taken = length ?page" using del e by auto
      have l: "last ?page \<in> set J" "after < Seq (last ?page)" "seq64 (Seq (last ?page))"
        using AfterSeq_subset [of J after DefaultBatch] seqs last_in_set [OF False] by auto
      have "AfterSeq J after 0 = ?page @ AfterSeq J a 0" using AfterSeq_next_page [OF J(1) False] a by simp
      then show ?thesis using a l rest by (auto simp: seq64_def simp del: AfterSeq_unlimited)
    qed
    then show ?thesis using del len rest by (simp del: AfterSeq_unlimited)
  qed
qed

end

text \<open>A platform that keeps payloads as they are and refuses details that are no document.\<close>

definition plain_platform :: "fact_payload platform" where
  "plain_platform = \<lparr>pf_ParseEventID = Inr, pf_ParseStreamID = (\<lambda>s. if s = [] then Inl ''empty'' else Inr s),
     pf_Encode = (\<lambda>p. if jt_text (fp_Detail p) \<noteq> [] \<and> jt_parse (fp_Detail p) = None then Inl ''malformed'' else Inr p),
     pf_Decode = Inr\<rparr>"

interpretation plain: event_platform plain_platform
  by unfold_locales (auto simp: plain_platform_def same_payload_def split: if_splits)

lemma eventFor_same:
  assumes "TaskID f = TaskID g" "FType f = FType g" "Error f = Error g" "Time f = Time g" "jt_parse (Detail f) = jt_parse (Detail g)"
  shows "eventFor src f = eventFor src g"
proof -
  have "enqueuedEvent src f = enqueuedEvent src g"
    using assms by (simp add: enqueuedEvent_def dec_enqueue_def Let_def split: option.split sum.split)
  moreover have "requeuedEvent f m = requeuedEvent g m" "repriEvent f m = repriEvent g m" for m
    using assms by (simp_all add: requeuedEvent_def repriEvent_def dec_requeue_def dec_repri_def split: option.split)
  ultimately show ?thesis using assms by (cases "FType g") (simp_all add: eventFor_def Let_def)
qed

fun tail_run :: "'b platform \<Rightarrow> (int \<Rightarrow> int \<Rightarrow> qerr + fact list) list \<Rightarrow> ('b event \<Rightarrow> 'w \<Rightarrow> (string + unit) \<times> 'w) \<Rightarrow> int \<Rightarrow> 'w
    \<Rightarrow> tail_end \<times> 'b event list \<times> 'w" where
  "tail_run pf [] h after w = (Polling after, [], w)"
| "tail_run pf (src # srcs) h after w =
     (case tail_tick pf src h after w of
        (Ended, taken, w') \<Rightarrow> (Ended, taken, w')
      | (Polling after', taken, w') \<Rightarrow> (case tail_run pf srcs h after' w' of (e, taken', w'') \<Rightarrow> (e, taken @ taken', w'')))"

definition reads :: "fact list \<Rightarrow> int \<Rightarrow> int \<Rightarrow> qerr + fact list" where
  "reads J = (\<lambda>after limit. Inr (AfterSeq J after limit))"

lemma AfterSeq_append: "AfterSeq (J @ K) a 0 = AfterSeq J a 0 @ AfterSeq K a 0"
  by simp

lemma tail_run_in_order:
  assumes "event_platform pf" "seq_sorted J" "\<forall>f\<in>set J. seq64 (Seq f)"
    and "\<forall>K\<in>set Js. prefix K J" "0 \<le> after" "after < 2 ^ 63"
    and "tail_run pf (map reads Js) h after w = (e, taken, w')"
  shows "prefix (map ev_ID taken) (map (\<lambda>f. raw_id (Seq f)) (AfterSeq J after 0))
     \<and> (\<forall>a. e = Polling a \<longrightarrow> map (\<lambda>f. raw_id (Seq f)) (AfterSeq J after 0) = map ev_ID taken @ map (\<lambda>f. raw_id (Seq f)) (AfterSeq J a 0))"
  using assms(4-)
proof (induction Js arbitrary: after w e taken w')
  case (Cons K Js)
  obtain K' where J: "J = K @ K'" using Cons.prems(1) by (auto simp: prefix_def)
  have K: "seq_sorted K" "\<forall>f\<in>set K. seq64 (Seq f)" using assms(2,3) unfolding J by (simp_all add: seq_sorted_append)
  obtain e1 t1 w1 where tick: "tail_tick pf (\<lambda>after limit. Inr (AfterSeq K after limit)) h after w = (e1, t1, w1)"
    by (cases "tail_tick pf (\<lambda>after limit. Inr (AfterSeq K after limit)) h after w")
  note step = event_platform.tick_step [OF assms(1) tick K Cons.prems(2,3)]
  let ?ids = "map (\<lambda>f. raw_id (Seq f))"
  have pre: "prefix (?ids (take (length t1) (AfterSeq K after 0))) (?ids (AfterSeq J after 0))"
    unfolding J AfterSeq_append map_append by (intro prefix_prefix map_mono_prefix take_is_prefix)
  show ?case
  proof (cases e1)
    case Ended
    then have "e = Ended" "taken = t1" using Cons.prems(4) tick by (simp_all add: reads_def)
    then show ?thesis using step pre by simp
  next
    case (Polling a1)
    obtain e2 t2 w2 where rec: "tail_run pf (map reads Js) h a1 w1 = (e2, t2, w2)" by (cases "tail_run pf (map reads Js) h a1 w1")
    have eq: "e = e2" "taken = t1 @ t2" using Cons.prems(4) tick Polling rec by (simp_all add: reads_def [of K])
    have a1: "0 \<le> a1" "a1 < 2 ^ 63" "AfterSeq K after 0 = take (length t1) (AfterSeq K after 0) @ AfterSeq K a1 0"
      "a1 = after \<or> (\<exists>f\<in>set K. a1 = Seq f \<and> after < Seq f)"
      using step Polling by blast+
    note ih = Cons.IH [OF _ a1(1,2) rec]
    have "AfterSeq K' after 0 = AfterSeq K' a1 0"
      using a1(4) assms(2) unfolding J seq_sorted_append by (fastforce intro!: filter_cong)
    then have "AfterSeq J after 0 = take (length t1) (AfterSeq K after 0) @ AfterSeq J a1 0"
      unfolding J AfterSeq_append using a1(3) by (metis append_assoc)
    then show ?thesis using ih Cons.prems(1) step eq by simp
  qed
qed auto

section \<open>Properties\<close>

text \<open>
  Event identities name their facts and keep their order: the identity of a sequence decodes to it, both copies of
  the codec agree, and comparing identities byte by byte compares the sequences.
\<close>

theorem event_ids_name_and_order:
  assumes "\<And>q. 0 < q \<Longrightarrow> pf_ParseEventID pf (raw_id q) = Inr (raw_id q)" "seq64 a" "seq64 b"
  shows "\<exists>i j. SeqToEventID pf a = Inr i \<and> seqEventID pf a = Inr i \<and> EventIDToSeq i = Some a \<and> seqFromEventID i = Some a
     \<and> SeqToEventID pf b = Inr j \<and> (i < j \<longleftrightarrow> a < b)"
  using assms raw_id_order [OF assms(2,3)]
  by (simp add: SeqToEventID_def seqEventID_is_SeqToEventID seqFromEventID_is_EventIDToSeq EventIDToSeq_raw) (simp add: seq64_def)

lemma event_ids_name_and_order_witness:
  "\<exists>i j. SeqToEventID plain_platform 255 = Inr i \<and> seqEventID plain_platform 255 = Inr i \<and> EventIDToSeq i = Some 255
     \<and> seqFromEventID i = Some 255 \<and> SeqToEventID plain_platform 256 = Inr j \<and> (i < j \<longleftrightarrow> (255 :: int) < 256)"
  by (rule event_ids_name_and_order [OF plain.parse_raw]) (simp_all add: seq64_def)

text \<open>
  One fold, two drivers: handed the event of a fact, the projection does to the collections exactly what
  the pump does with the fact, errors included.
\<close>

theorem Handle_is_fold:
  assumes "event_platform pf" "factEvent pf f = Inr ev" "Seq f < 2 ^ 63"
  shows "Handle pf me readOnly src ev s =
     (case fold_fact me readOnly src f s of (Inl e, s') \<Rightarrow> (Inl (FoldErr e), s') | (Inr u, s') \<Rightarrow> (Inr (), s'))"
proof -
  have seq: "seq64 (Seq f)" using assms(2,3) by (auto simp: factEvent_def seq64_def split: if_splits)
  have id: "ev_ID ev = raw_id (Seq f)" using event_platform.factEvent_id [OF assms(1,2) seq] .
  have pay: "pf_Encode pf (payload_of f) = Inr (ev_Payload ev)" "ev_OccurredAt ev = Time f"
    using assms(2) by (auto simp: factEvent_def split: if_splits sum.splits)
  obtain q where q: "pf_Decode pf (ev_Payload ev) = Inr q" "same_payload (payload_of f) q"
    using event_platform.decode_encoded [OF assms(1) pay(1)] by blast
  let ?g = "\<lparr>Seq = Seq f, Time = ev_OccurredAt ev, TaskID = fp_TaskID q, FType = fp_Type q, Owner = fp_Owner q,
     Attempt = fp_Attempt q, Error = fp_Error q, Detail = fp_Detail q\<rparr>"
  have same: "TaskID ?g = TaskID f" "eventFor src ?g = eventFor src f"
    using q(2) pay(2) by (simp add: same_payload_def payload_of_def)
      (rule eventFor_same, use q(2) pay(2) in \<open>simp_all add: same_payload_def payload_of_def\<close>)
  have fold: "fold_fact me readOnly src ?g s = fold_fact me readOnly src f s"
    unfolding fold_fact_def same by (rule refl)
  have "Handle pf me readOnly src ev s = (case fold_fact me readOnly src ?g s of
      (Inl e, s') \<Rightarrow> (Inl (FoldErr e), s') | (Inr u, s') \<Rightarrow> (Inr (), s'))"
    using q(1) id EventIDToSeq_raw [OF seq] by (simp add: Handle_def)
  then show ?thesis unfolding fold .
qed

lemma Handle_is_fold_witness:
  "\<exists>ev. Handle plain_platform row_tables False None ev no_tables =
     (case fold_fact row_tables False None (blank_fact\<lparr>Seq := 1, TaskID := ''a'', FType := F_Claimed\<rparr>) no_tables of
        (Inl e, s') \<Rightarrow> (Inl (FoldErr e), s') | (Inr u, s') \<Rightarrow> (Inr (), s'))"
proof -
  let ?f = "blank_fact\<lparr>Seq := 1, TaskID := ''a'', FType := F_Claimed\<rparr>"
  have "\<exists>ev. factEvent plain_platform ?f = Inr ev"
    using plain.minted [of 1] by (simp add: factEvent_def seqEventID_is_SeqToEventID seq64_def) (simp add: plain_platform_def payload_of_def blank_fact_def empty_text_def)
  then obtain ev where ev: "factEvent plain_platform ?f = Inr ev" ..
  show ?thesis by (intro exI [of _ ev] Handle_is_fold [OF plain.event_platform_axioms ev]) simp
qed

text \<open>
  C16: The tail loses nothing. Whatever initial part of the journal each poll reads, and wherever the worker stops, the
  events it took are the facts after the starting position, from the first, each once and in order; and while the tail
  keeps polling its position is exactly past what was taken.
\<close>

theorem tail_hands_over_in_order:
  assumes "event_platform pf" "seq_sorted J" "\<forall>f\<in>set J. seq64 (Seq f)"
    and "\<forall>K\<in>set Js. prefix K J" "0 \<le> after" "after < 2 ^ 63"
    and "tail_run pf (map reads Js) h after w = (e, taken, w')"
  shows "prefix (map ev_ID taken) (map (\<lambda>f. raw_id (Seq f)) (AfterSeq J after 0))
     \<and> (\<forall>a. e = Polling a \<longrightarrow> map (\<lambda>f. raw_id (Seq f)) (AfterSeq J after 0) = map ev_ID taken @ map (\<lambda>f. raw_id (Seq f)) (AfterSeq J a 0))"
  by (rule tail_run_in_order [OF assms])

lemma tail_hands_over_in_order_witness:
  "prefix (map ev_ID (fst (snd (tail_run plain_platform (map reads [[blank_fact\<lparr>Seq := 1, TaskID := ''a''\<rparr>],
       [blank_fact\<lparr>Seq := 1, TaskID := ''a''\<rparr>, blank_fact\<lparr>Seq := 2, TaskID := ''a''\<rparr>]]) (\<lambda>ev w. (Inr (), w)) 0 ()))))
     (map (\<lambda>f. raw_id (Seq f)) (AfterSeq [blank_fact\<lparr>Seq := 1, TaskID := ''a''\<rparr>, blank_fact\<lparr>Seq := 2, TaskID := ''a''\<rparr>] 0 0))"
  by (rule conjunct1, rule tail_hands_over_in_order [OF plain.event_platform_axioms _ _ _ _ _ surjective_pairing [THEN trans [OF _ arg_cong2 [OF refl surjective_pairing, of Pair]]]])
    (simp_all add: seq_sorted_def seq64_def)

text \<open>A checkpoint saved and loaded again is the later of the two positions.\<close>

lemma checkpoint_keeps_the_later:
  assumes "event_platform pf" "seq64 q" "CheckpointSave (tables_source now) name (raw_id q) d = (Inr (), d')"
    and "\<And>m. Watermark d name = Some m \<Longrightarrow> m < 2 ^ 63"
  shows "CheckpointLoad pf (tables_source now) name d' = Inr (raw_id (case Watermark d name of None \<Rightarrow> q | Some m \<Rightarrow> max m q))"
proof -
  let ?m = "case Watermark d name of None \<Rightarrow> q | Some m \<Rightarrow> max m q"
  have m: "seq64 ?m" using assms(2,4) by (auto simp: seq64_def max_def split: option.split)
  have "d' = SaveWatermark name q now d"
    using assms(3) EventIDToSeq_raw [OF assms(2)] by (simp add: CheckpointSave_def tables_source_def)
  then have "Watermark d' name = Some ?m" by (simp add: Watermark_Save)
  then show ?thesis using m event_platform.minted [OF assms(1) m]
    by (simp add: CheckpointLoad_def tables_source_def) (simp add: seq64_def)
qed

text \<open>
  The decoder takes identities the encoder never mints: the zero identity, and any whose sequence field has its top
  bit set, which decodes to a negative position. And the listed event types leave out families the journal has.
\<close>

lemma unminted_ids_decode:
  "EventIDToSeq (replicate 6 0 @ PutUint64 (word_of_int (- 5)) @ replicate 2 0) = Some (- 5)"
  by (simp add: EventIDToSeq_def seqEpochLen_def seqBytesLen_def Uint64_PutUint64 sint_sbintrunc')

lemma parked_facts_are_not_subscribed: "F_Parked \<notin> set EventTypes \<and> F_ErrorObserved \<notin> set EventTypes"
  by (simp add: EventTypes_def)

end
