(* ===== verification/Tq_Backlog.thy ===== *)
theory Tq_Backlog
  imports Tq_Incident
begin

text \<open>
  The backlog half of \<open>internal/harvest\<close>: the checkbox file of a repository (\<open>harvest.go\<close>: headings,
  fences, checkboxes, their damaged forms, item keys) and the priority ladder (\<open>priority.go\<close>: markers,
  keywords, importance, resolution). What is read from disk and the hash are arguments. Text is ASCII
  apart from the em dash of a marker.
\<close>

section \<open>Strings\<close>

text \<open>\<open>strings.CutPrefix\<close>, \<open>TrimLeft\<close> and \<open>TrimRight\<close> with a cut set, \<open>strconv.Atoi\<close>, \<open>strings.Join\<close> of the fields.\<close>

definition cut_prefix :: "string \<Rightarrow> string \<Rightarrow> string option" where
  "cut_prefix s p = (if has_prefix s p then Some (drop (length p) s) else None)"

definition trim_left :: "string \<Rightarrow> string \<Rightarrow> string" where
  "trim_left s cset = dropWhile (\<lambda>c. c \<in> set cset) s"

definition trim_right :: "string \<Rightarrow> string \<Rightarrow> string" where
  "trim_right s cset = rev (dropWhile (\<lambda>c. c \<in> set cset) (rev s))"

definition digits_value :: "string \<Rightarrow> int" where
  "digits_value ds = foldl (\<lambda>a c. a * 10 + (int (of_char c) - 48)) 0 ds"

definition atoi :: "string \<Rightarrow> int option" where
  "atoi s =
     (let neg = has_prefix s ''-''; ds = (if has_prefix s ''-'' \<or> has_prefix s ''+'' then drop 1 s else s);
          v = (if neg then - digits_value ds else digits_value ds) in
      if ds = [] \<or> \<not> list_all digit ds \<or> \<not> int64 v then None else Some v)"

section \<open>The priority ladder\<close>

definition DefaultImportance :: int where "DefaultImportance = 50"
definition MaxMarkerLevel :: int where "MaxMarkerLevel = 4"

definition MarkerPriority :: "int \<Rightarrow> int" where
  "MarkerPriority level =
     (if level = 1 then 90 else if level = 2 then 70 else if level = 3 then 50 else if level = MaxMarkerLevel then 30 else 0)"

definition emdash :: string where "emdash = [CHR 0xE2, CHR 0x80, CHR 0x94]"

text \<open>The text is one line, so the end of the line is the end of the text.\<close>

definition markerLevel :: re where
  "markerLevel = Grp (Chr (\<lambda>c. c \<in> {CHR ''1'', CHR ''2'', CHR ''3'', CHR ''4''}))"

definition markerRemark :: re where
  "markerRemark = opt (cats [lit '':'', star (Chr (\<lambda>c. c \<noteq> CHR 0x0A))])"

definition markerPattern :: re where
  "markerPattern = cats [plus1 blank, lit emdash, star blank, lit ''P'', markerLevel,
     markerRemark, LineEnd]"

definition SplitMarker :: "string \<Rightarrow> int \<times> string \<times> bool" where
  "SplitMarker txt =
     (case find_match markerPattern txt of
        Some (k, n, Some (a, b)) \<Rightarrow>
          (case atoi (take (b - a) (drop (k + a) txt)) of
             None \<Rightarrow> (0, txt, False)
           | Some level \<Rightarrow>
               if level < 1 \<or> level > MaxMarkerLevel then (0, txt, False)
               else let stripped = trim_right (take k txt) [CHR '' '', CHR 0x09] in
                 if trim_space stripped = [] then (0, txt, False) else (level, stripped, True))
      | _ \<Rightarrow> (0, txt, False))"

definition containsAny :: "string \<Rightarrow> string list \<Rightarrow> bool" where
  "containsAny s subs \<longleftrightarrow> list_ex (str_contains s) subs"

definition KeywordBump :: "string \<Rightarrow> int" where
  "KeywordBump txt =
     (let low = to_lower txt in
      if containsAny low [''security'', ''vulnerab'', ''cve''] then 30
      else if containsAny low [''critical'', ''urgent'', ''asap''] then 25
      else if containsAny low [''production'', ''breaking'', ''outage''] then 20
      else 0)"

text \<open>The metadata file.\<close>

datatype read_result = Missing string | Unreadable string | Contents string

datatype import_error = MetadataUnreadable string | NotAnInteger string | OutOfRange int

definition isNestedOrIgnorable :: "string \<Rightarrow> bool" where
  "isNestedOrIgnorable line \<longleftrightarrow> line = [] \<or> hd line \<in> {CHR '' '', CHR 0x09, CHR ''#''}"

fun scalar_in :: "string list \<Rightarrow> string \<Rightarrow> string option" where
  "scalar_in [] key = None"
| "scalar_in (line # ls) key =
     (if isNestedOrIgnorable line then scalar_in ls key
      else case str_cut (CHR '':'') line of
        None \<Rightarrow> scalar_in ls key
      | Some (name, v) \<Rightarrow> if trim_space name \<noteq> key then scalar_in ls key else Some v)"

definition topLevelScalar :: "string \<Rightarrow> string \<Rightarrow> string option" where
  "topLevelScalar data key = scalar_in (lines_of data) key"

definition unquoted :: "string \<Rightarrow> string" where
  "unquoted s = (if length s \<ge> 2 \<and> hd s \<in> {CHR 0x22, CHR 0x27} \<and> last s = hd s then butlast (tl s) else s)"

definition parseImportanceValue :: "string \<Rightarrow> import_error + int" where
  "parseImportanceValue v =
     (case atoi (unquoted (trim_space v)) of
        None \<Rightarrow> Inl (NotAnInteger v)
      | Some n \<Rightarrow> if n < 0 \<or> n > 100 then Inl (OutOfRange n) else Inr n)"

definition ReadImportance :: "read_result \<Rightarrow> import_error + int" where
  "ReadImportance file =
     (case file of
        Missing _ \<Rightarrow> Inr DefaultImportance
      | Unreadable e \<Rightarrow> Inl (MetadataUnreadable e)
      | Contents data \<Rightarrow>
          (case topLevelScalar data ''importance'' of Some v \<Rightarrow> parseImportanceValue v | None \<Rightarrow> Inr DefaultImportance))"

definition unstated :: string where
  "unstated = ''(unstated '' @ emdash @ '' see the repo'' @ [CHR 0x27] @ ''s README)''"

definition RepoPurpose :: "read_result \<Rightarrow> string" where
  "RepoPurpose file =
     (case file of
        Contents data \<Rightarrow>
          (case topLevelScalar data ''purpose'' of
             None \<Rightarrow> unstated
           | Some v \<Rightarrow> (let p = unquoted (trim_space v) in if p = [] then unstated else p))
      | _ \<Rightarrow> unstated)"

datatype priority_source = SrcHot | SrcMarker | SrcAI | SrcKeyword | SrcImportance | SrcDefault

fun source_string :: "priority_source \<Rightarrow> string" where
  "source_string SrcHot = ''hot''"
| "source_string SrcMarker = ''marker''"
| "source_string SrcAI = ''ai''"
| "source_string SrcKeyword = ''keyword''"
| "source_string SrcImportance = ''importance''"
| "source_string SrcDefault = ''default''"

record resolve_input =
  ri_Text :: string
  ri_MarkerLevel :: int
  ri_HotPriority :: int
  ri_FlatPriority :: int
  ri_Importance :: int
  ri_ImportanceEnabled :: bool
  ri_AIScore :: "int option"

definition sameSession :: "string \<Rightarrow> bool" where
  "sameSession txt \<longleftrightarrow> str_contains txt ''/tmp''"

definition ResolvePriority :: "resolve_input \<Rightarrow> int \<times> priority_source" where
  "ResolvePriority i =
     (if ri_HotPriority i > 0 \<and> sameSession (ri_Text i) then (ri_HotPriority i, SrcHot)
      else if ri_MarkerLevel i \<ge> 1 \<and> ri_MarkerLevel i \<le> MaxMarkerLevel then (MarkerPriority (ri_MarkerLevel i), SrcMarker)
      else case ri_AIScore i of
        Some sc \<Rightarrow> (ClampBacklog sc, SrcAI)
      | None \<Rightarrow>
          if ri_ImportanceEnabled i then
            (let bump = KeywordBump (ri_Text i) in
             if bump > 0 then (ClampBacklog (ri_Importance i + bump), SrcKeyword)
             else (ClampBacklog (ri_Importance i), SrcImportance))
          else (ri_FlatPriority i, SrcDefault))"

definition RepriMutable :: "int \<Rightarrow> bool" where
  "RepriMutable current \<longleftrightarrow> BandOf current = BandBacklog"

section \<open>The checkbox file\<close>

record item =
  it_Repo :: string
  it_RepoName :: string
  it_Heading :: string
  it_Text :: string
  it_Key :: string
  it_Done :: bool
  it_MarkerLevel :: int

definition headingOf :: "string \<Rightarrow> string option" where
  "headingOf line =
     (if \<not> has_prefix line ''#'' then None
      else let txt = trim_space (trim_left line ''#'') in if txt = [] then None else Some txt)"

definition checkboxOf :: "string \<Rightarrow> (string \<times> bool) option" where
  "checkboxOf line =
     (let bullet = (case cut_prefix line ''-'' of Some r \<Rightarrow> Some r | None \<Rightarrow> cut_prefix line ''*'') in
      case bullet of
        None \<Rightarrow> None
      | Some r \<Rightarrow>
          let rest = trim_space r in
          (case cut_prefix rest ''[ ]'' of
             Some unticked \<Rightarrow> Some (unticked, False)
           | None \<Rightarrow>
               (case cut_prefix rest ''['' of
                  None \<Rightarrow> None
                | Some inner \<Rightarrow>
                    if inner \<noteq> [] \<and> hd inner \<in> {CHR ''x'', CHR ''X''}
                    then map_option (\<lambda>ticked. (ticked, True)) (cut_prefix (tl inner) '']'') else None)))"

text \<open>\<open>[ ]\<close>, \<open>[x]\<close> or \<open>[X]\<close> at the start of a text.\<close>

definition bracket_at :: "string \<Rightarrow> bool" where
  "bracket_at s \<longleftrightarrow> length s \<ge> 3 \<and> s ! 0 = CHR ''['' \<and> s ! 1 \<in> {CHR '' '', CHR ''x'', CHR ''X''} \<and> s ! 2 = CHR '']''"

text \<open>The loop that strips the bullet run reaches its fixed point in the first round.\<close>

definition damagedCheckbox :: "string \<Rightarrow> string" where
  "damagedCheckbox line =
     (if line \<noteq> [] \<and> hd line \<in> {CHR ''-'', CHR ''*''}
         \<and> (let rest = trim_left (tl line) [CHR '' '', CHR 0x09] in rest \<noteq> [] \<and> hd rest = CHR ''['')
      then []
      else if bracket_at (trim_left line [CHR ''-'', CHR ''*'', CHR '' '', CHR 0x09])
      then ''checkbox line has a malformed bullet: '' @ go_quote line else [])"

definition strayCheckbox :: "string \<Rightarrow> string" where
  "strayCheckbox txt = (if bracket_at txt then ''double checkbox: '' @ go_quote txt else [])"

definition ItemKey :: "(string \<Rightarrow> string) \<Rightarrow> string \<Rightarrow> string \<Rightarrow> string" where
  "ItemKey digest repoName txt = ''todo:'' @ take 16 (digest (repoName @ [CHR 0x00] @ str_join '' '' (fields_of txt)))"

definition bad_line :: "string \<Rightarrow> string \<Rightarrow> string \<Rightarrow> string" where
  "bad_line todoFile reason rule = todoFile @ '': '' @ reason @ ''; a checkbox line must '' @ rule"

text \<open>The loop over the lines, with the heading in force and whether a code fence is open.\<close>

fun parse_lines :: "(string \<Rightarrow> string) \<Rightarrow> string \<Rightarrow> string \<Rightarrow> string \<Rightarrow> string \<Rightarrow> bool \<Rightarrow> string list \<Rightarrow> string + item list" where
  "parse_lines digest repo repoName todoFile heading inFence [] = Inr []"
| "parse_lines digest repo repoName todoFile heading inFence (line # ls) =
     (let trimmed = trim_space line; more = (\<lambda>h b. parse_lines digest repo repoName todoFile h b ls) in
      if has_prefix trimmed ''```'' then more heading (\<not> inFence)
      else if inFence then more heading inFence
      else case headingOf trimmed of
        Some h \<Rightarrow> more h inFence
      | None \<Rightarrow>
          (case checkboxOf trimmed of
             Some (raw, tick) \<Rightarrow>
               let txt = trim_space raw in
               if txt = [] then more heading inFence
               else if strayCheckbox txt \<noteq> []
               then Inl (bad_line todoFile (strayCheckbox txt) ''carry exactly ONE checkbox bracket after the prefix'')
               else (case SplitMarker txt of
                  (l, stripped, ok) \<Rightarrow>
                    let level = (if ok then l else 0); t = (if ok then trim_space stripped else txt) in
                    map_sum id (\<lambda>its. \<lparr>it_Repo = repo, it_RepoName = repoName, it_Heading = heading, it_Text = t,
                        it_Key = ItemKey digest repoName t, it_Done = tick, it_MarkerLevel = level\<rparr> # its) (more heading inFence))
           | None \<Rightarrow>
               if damagedCheckbox trimmed \<noteq> []
               then Inl (bad_line todoFile (damagedCheckbox trimmed) ''start with exactly `- [ ] ` or `- [x] `'')
               else more heading inFence))"

text \<open>\<open>filepath.Base\<close>: the last element of a path.\<close>

definition path_base :: "string \<Rightarrow> string" where
  "path_base p =
     (if p = [] then ''.''
      else let q = rev (dropWhile (\<lambda>c. c = CHR ''/'') (rev p)) in
        if q = [] then ''/'' else last (split_on (CHR ''/'') q))"

text \<open>
  What the package asks of its surroundings: the files of a directory, absolute paths, the hash in
  hexadecimal, git (exit status, if the process ran to an end, output and error output), globs,
  directories and modification times.
\<close>

record surroundings =
  su_read :: "string \<Rightarrow> string \<Rightarrow> read_result"
  su_abs :: "string \<Rightarrow> string + string"
  su_digest :: "string \<Rightarrow> string"
  su_git :: "string \<Rightarrow> string list \<Rightarrow> int option \<times> string \<times> string"
  su_glob :: "string \<Rightarrow> string list \<Rightarrow> bool"
  su_isdir :: "string \<Rightarrow> bool"
  su_mtime :: "string \<Rightarrow> string list \<Rightarrow> go_time option"

definition ParseRepoAll :: "surroundings \<Rightarrow> string \<Rightarrow> string \<Rightarrow> string + item list" where
  "ParseRepoAll su repo todoFile =
     (case su_abs su repo of
        Inl e \<Rightarrow> Inl (''resolve repo path '' @ repo @ '': '' @ e)
      | Inr dir \<Rightarrow>
          (case su_read su dir todoFile of
             Contents data \<Rightarrow> parse_lines (su_digest su) dir (path_base dir) todoFile [] False (lines_of data)
           | Missing e \<Rightarrow> Inl (''read todo file '' @ todoFile @ '': '' @ e)
           | Unreadable e \<Rightarrow> Inl (''read todo file '' @ todoFile @ '': '' @ e)))"

definition ParseRepo :: "surroundings \<Rightarrow> string \<Rightarrow> string \<Rightarrow> string + item list" where
  "ParseRepo su repo todoFile = map_sum id (filter (\<lambda>it. \<not> it_Done it)) (ParseRepoAll su repo todoFile)"

section \<open>Markers\<close>

lemma rep_chr_step:
  "rep (matches (Chr f)) lo None (Suc k) p (c # cs) =
     (if f c then map (behind 1 None) (rep (matches (Chr f)) (lo - 1) None k (Some c) cs) else []) @ (if lo = 0 then [(0, None)] else [])"
  "rep (matches (Chr f)) lo None (Suc k) p [] = (if lo = 0 then [(0, None)] else [])"
  "rep (matches (Chr f)) lo None 0 p s = (if lo = 0 then [(0, None)] else [])"
  by (simp_all add: left_of_def)

lemma rep_chr:
  "(n, x) \<in> set (rep (matches (Chr f)) lo None k p s) \<Longrightarrow> n \<le> length s \<and> list_all f (take n s) \<and> lo \<le> n"
proof (induction k arbitrary: lo p s n x)
  case (Suc k)
  show ?case
  proof (cases s)
    case Nil
    then show ?thesis using Suc.prems by (auto split: if_splits)
  next
    case (Cons c cs)
    consider (step) m y where "f c" "n = Suc m" "(m, y) \<in> set (rep (matches (Chr f)) (lo - 1) None k (Some c) cs)"
      | (stop) "n = 0" "lo = 0"
      using Suc.prems Cons by (auto simp: rep_chr_step behind_def simp del: rep.simps matches.simps split: if_splits)
    then show ?thesis
    proof cases
      case step
      then show ?thesis using Suc.IH [OF step(3)] Cons by auto
    qed (simp add: Cons)
  qed
qed (auto split: if_splits)

lemma blanks_matches: "(n, x) \<in> set (matches (plus1 blank) p s) \<Longrightarrow> 0 < n \<and> n \<le> length s \<and> list_all re_space (take n s)"
  using rep_chr [of n x re_space 1] by (force simp: plus1_def blank_def simp del: rep.simps)

definition marker_rest :: re where
  "marker_rest = cats [lit emdash, star blank, lit ''P'', markerLevel,
     markerRemark, LineEnd]"

lemma markerPattern_parts: "markerPattern = Cat (plus1 blank) marker_rest"
  by (simp add: markerPattern_def marker_rest_def)

lemma marker_rest_head: "s = [] \<or> hd s \<noteq> CHR 0xE2 \<Longrightarrow> matches marker_rest p s = []"
  by (cases s) (simp_all add: marker_rest_def lit_matches emdash_def)

text \<open>No marker starts within a text without a dash that ends in a visible character.\<close>

lemma no_marker_at:
  assumes "CHR 0xE2 \<notin> set t" "t \<noteq> []" "\<not> re_space (last t)"
  shows "matches markerPattern p (t @ w) = []"
proof -
  have "matches marker_rest q (drop n (t @ w)) = []" if "(n, x) \<in> set (matches (plus1 blank) p (t @ w))" for n x q
  proof (cases "n < length t")
    case True
    then have "hd (drop n (t @ w)) = t ! n" by (simp add: hd_drop_conv_nth nth_append)
    then show ?thesis using assms(1) nth_mem [OF True] by (intro marker_rest_head) metis
  next
    case False
    then have "last t \<in> set (take n (t @ w))" using assms(2) by simp
    then show ?thesis using blanks_matches [OF that] assms(3) by (auto simp: list_all_iff)
  qed
  then show ?thesis by (auto simp: markerPattern_parts)
qed

lemma no_marker: "CHR 0xE2 \<notin> set t \<Longrightarrow> find_from markerPattern k p t = None"
proof (induction t arbitrary: k p)
  case Nil
  have "matches markerPattern p [] = []" by (simp add: markerPattern_parts plus1_def blank_def)
  then show ?case by simp
next
  case (Cons c t)
  have "matches marker_rest q (drop n (c # t)) = []" for n q
  proof (rule marker_rest_head)
    show "drop n (c # t) = [] \<or> hd (drop n (c # t)) \<noteq> CHR 0xE2"
      using Cons.prems by (metis hd_in_set in_set_dropD)
  qed
  then have "matches markerPattern p (c # t) = []" by (auto simp: markerPattern_parts)
  then show ?case using Cons by simp
qed

lemma find_after:
  "CHR 0xE2 \<notin> set t \<Longrightarrow> t \<noteq> [] \<Longrightarrow> \<not> re_space (last t) \<Longrightarrow>
   find_from markerPattern k p (t @ w) = find_from markerPattern (k + length t) (Some (last t)) w"
proof (induction t arbitrary: k p)
  case (Cons c t)
  have "matches markerPattern p ((c # t) @ w) = []" by (rule no_marker_at) (use Cons.prems in auto)
  then show ?case using Cons by (cases "t = []") auto
qed simp

definition marker_text :: "int \<Rightarrow> string" where
  "marker_text level = (if level = 0 then [] else '' '' @ emdash @ '' P'' @ show_int level)"

lemma marker_levels: "1 \<le> level \<Longrightarrow> level \<le> MaxMarkerLevel \<Longrightarrow> level \<in> {1, 2, 3, 4}"
  by (auto simp: MaxMarkerLevel_def)

lemma show_level: "level \<in> {1, 2, 3, 4} \<Longrightarrow> show_int level = [digit_char (nat level)] \<and> atoi (show_int level) = Some level"
  by (elim insertE emptyE; simp add: show_int_def show_nat.simps digit_char_def; code_simp)

lemma cat_one: "matches a p s = [(n, x)] \<Longrightarrow> matches (Cat a b) p s = map (behind n x) (matches b (left_of p s n) (drop n s))"
  by simp

lemma cat_two:
  "matches a p s = [(n, x), (m, y)] \<Longrightarrow> matches b (left_of p s m) (drop m s) = [] \<Longrightarrow>
   matches (Cat a b) p s = map (behind n x) (matches b (left_of p s n) (drop n s))"
  by simp

lemma marker_match:
  assumes "d \<in> {CHR ''1'', CHR ''2'', CHR ''3'', CHR ''4''}"
  shows "matches markerPattern p [CHR '' '', CHR 0xE2, CHR 0x80, CHR 0x94, CHR '' '', CHR ''P'', d] = [(7, Some (6, 7))]"
proof -
  have remark: "matches (Cat markerRemark LineEnd) q [] = [(0, None)]" for q
    by (simp add: markerRemark_def opt_def behind_def)
  have lvl: "matches (Cat markerLevel (Cat markerRemark LineEnd)) q [d] = [(1, Some (0, 1))]" for q
    by (subst cat_one [where n = 1 and x = "Some (0, 1)"]) (use assms remark in \<open>auto simp: markerLevel_def behind_def simp del: matches.simps(2,4)\<close>)
  have p: "matches (Cat (lit ''P'') (Cat markerLevel (Cat markerRemark LineEnd))) q [CHR ''P'', d] = [(2, Some (1, 2))]" for q
    by (subst cat_one [where n = 1 and x = None]) (simp_all add: lit_matches lvl behind_def del: matches.simps)
  have sp: "matches (star blank) q [CHR '' '', CHR ''P'', d] = [(1, None), (0, None)]" for q
    by (simp add: star_def blank_def rep_chr_step re_space_def behind_def del: rep.simps)
  have no_p: "matches (Cat (lit ''P'') b) q [CHR '' '', CHR ''P'', d] = []" for q b
    by (simp add: lit_matches)
  have sp_p: "matches (Cat (star blank) (Cat (lit ''P'') (Cat markerLevel (Cat markerRemark LineEnd)))) q [CHR '' '', CHR ''P'', d] = [(3, Some (2, 3))]" for q
    by (subst cat_two [OF sp]) (simp_all add: no_p p behind_def del: matches.simps)
  have dash: "matches (Cat (lit emdash) (Cat (star blank) (Cat (lit ''P'') (Cat markerLevel (Cat markerRemark LineEnd))))) q
      [CHR 0xE2, CHR 0x80, CHR 0x94, CHR '' '', CHR ''P'', d] = [(6, Some (5, 6))]" for q
    by (subst cat_one [where n = 3 and x = None]) (simp_all add: lit_matches emdash_def sp_p behind_def del: matches.simps)
  have lead: "matches (plus1 blank) p [CHR '' '', CHR 0xE2, CHR 0x80, CHR 0x94, CHR '' '', CHR ''P'', d] = [(1, None)]"
    by (simp add: plus1_def blank_def rep_chr_step re_space_def behind_def del: rep.simps)
  show ?thesis
    unfolding markerPattern_def cats.simps by (subst cat_one [OF lead]) (simp add: dash behind_def del: matches.simps)
qed

text \<open>A text of an item: it is not empty, has no blanks at its ends, no line break, no dash and no bracket in front.\<close>

definition plain_text :: "string \<Rightarrow> bool" where
  "plain_text t \<longleftrightarrow> t \<noteq> [] \<and> \<not> ascii_space (hd t) \<and> \<not> ascii_space (last t) \<and> CHR 0x0A \<notin> set t \<and> CHR 0xE2 \<notin> set t \<and> \<not> bracket_at t"

lemma trim_space_id: "s \<noteq> [] \<Longrightarrow> \<not> ascii_space (hd s) \<Longrightarrow> \<not> ascii_space (last s) \<Longrightarrow> trim_space s = s"
proof -
  assume s: "s \<noteq> []" "\<not> ascii_space (hd s)" "\<not> ascii_space (last s)"
  have "dropWhile ascii_space u = u" if "u \<noteq> []" "\<not> ascii_space (hd u)" for u using that by (cases u) auto
  then show ?thesis using s by (simp add: trim_space_def hd_rev)
qed

lemma trim_space_blank [simp]: "trim_space (CHR '' '' # s) = trim_space s"
  by (simp add: trim_space_def ascii_space_def)

lemma re_space_ascii: "\<not> ascii_space c \<Longrightarrow> \<not> re_space c"
  by (auto simp: re_space_def ascii_space_def)

lemma SplitMarker_plain: "plain_text t \<Longrightarrow> SplitMarker t = (0, t, False)"
  using no_marker [of t 0 None] by (simp add: SplitMarker_def find_match_def plain_text_def)

lemma marker_text_Some:
  assumes "1 \<le> level" "level \<le> MaxMarkerLevel"
  shows "\<exists>d. d \<in> {CHR ''1'', CHR ''2'', CHR ''3'', CHR ''4''} \<and> atoi [d] = Some level
    \<and> marker_text level = [CHR '' '', CHR 0xE2, CHR 0x80, CHR 0x94, CHR '' '', CHR ''P'', d]"
proof -
  have l: "level \<in> {1, 2, 3, 4}" using marker_levels [OF assms] .
  have d: "digit_char (nat level) \<in> {CHR ''1'', CHR ''2'', CHR ''3'', CHR ''4''}"
    using l by (elim insertE emptyE; simp; code_simp)
  show ?thesis using show_level [OF l] d l by (intro exI [of _ "digit_char (nat level)"]) (auto simp: marker_text_def emdash_def)
qed

lemma SplitMarker_level:
  assumes "plain_text t" "1 \<le> level" "level \<le> MaxMarkerLevel"
  shows "SplitMarker (t @ marker_text level) = (level, t, True)"
proof -
  obtain d where d: "d \<in> {CHR ''1'', CHR ''2'', CHR ''3'', CHR ''4''}" "atoi [d] = Some level"
    "marker_text level = [CHR '' '', CHR 0xE2, CHR 0x80, CHR 0x94, CHR '' '', CHR ''P'', d]"
    using marker_text_Some [OF assms(2,3)] by blast
  have t: "t \<noteq> []" "\<not> ascii_space (last t)" "\<not> ascii_space (hd t)" "CHR 0xE2 \<notin> set t" using assms(1) by (auto simp: plain_text_def)
  have find: "find_match markerPattern (t @ marker_text level) = Some (length t, 7, Some (6, 7))"
    using find_after [OF t(4,1) re_space_ascii [OF t(2)], of 0 None "marker_text level"] marker_match [OF d(1)]
    by (simp add: find_match_def d(3))
  have right: "trim_right t [CHR '' '', CHR 0x09] = t"
    using t(1,2) by (cases t rule: rev_cases) (auto simp: trim_right_def ascii_space_def)
  show ?thesis
    using find d(2) assms(2,3) right trim_space_id [OF t(1,3,2)] t(1) by (simp add: SplitMarker_def d(3) numeral_eq_Suc)
qed

section \<open>A file of items\<close>

definition item_line :: "bool \<Rightarrow> string \<Rightarrow> int \<Rightarrow> string" where
  "item_line tick t level = ''- ['' @ (if tick then ''x'' else '' '') @ ''] '' @ t @ marker_text level"

definition heading_line :: "string \<Rightarrow> string" where
  "heading_line h = ''## '' @ h"

definition plain_heading :: "string \<Rightarrow> bool" where
  "plain_heading h \<longleftrightarrow> h \<noteq> [] \<and> \<not> ascii_space (hd h) \<and> \<not> ascii_space (last h) \<and> CHR 0x0A \<notin> set h"

definition todo_lines :: "(string \<times> (bool \<times> string \<times> int) list) list \<Rightarrow> string list" where
  "todo_lines secs = concat (map (\<lambda>(h, its). heading_line h # map (\<lambda>(tick, t, level). item_line tick t level) its) secs)"

definition todo_file :: "(string \<times> (bool \<times> string \<times> int) list) list \<Rightarrow> string" where
  "todo_file secs = str_join [CHR 0x0A] (todo_lines secs)"

definition item_of :: "(string \<Rightarrow> string) \<Rightarrow> string \<Rightarrow> string \<Rightarrow> bool \<times> string \<times> int \<Rightarrow> item" where
  "item_of digest dir h x = (case x of (tick, t, level) \<Rightarrow>
     \<lparr>it_Repo = dir, it_RepoName = path_base dir, it_Heading = h, it_Text = t, it_Key = ItemKey digest (path_base dir) t,
      it_Done = tick, it_MarkerLevel = level\<rparr>)"

definition plain_sections :: "(string \<times> (bool \<times> string \<times> int) list) list \<Rightarrow> bool" where
  "plain_sections secs \<longleftrightarrow>
     list_all (\<lambda>(h, its). plain_heading h \<and> list_all (\<lambda>(tick, t, level). plain_text t \<and> 0 \<le> level \<and> level \<le> MaxMarkerLevel) its) secs"

lemma marker_text_0 [simp]: "marker_text 0 = []"
  by (simp add: marker_text_def)

lemma marker_text_cases:
  assumes "0 \<le> level" "level \<le> MaxMarkerLevel"
  obtains "level = 0" "marker_text level = []"
  | d where "d \<in> {CHR ''1'', CHR ''2'', CHR ''3'', CHR ''4''}"
      "marker_text level = [CHR '' '', CHR 0xE2, CHR 0x80, CHR 0x94, CHR '' '', CHR ''P'', d]"
proof (cases "level = 0")
  case False
  then have "1 \<le> level" using assms(1) by simp
  then show ?thesis using marker_text_Some [of level] assms(2) that(2) by blast
qed (use that(1) in simp)

lemma last_marker: "0 \<le> level \<Longrightarrow> level \<le> MaxMarkerLevel \<Longrightarrow> marker_text level = [] \<or> \<not> ascii_space (last (marker_text level))"
  by (erule (1) marker_text_cases) (auto simp: ascii_space_def)

lemma marked_text:
  assumes "plain_text t" "0 \<le> level" "level \<le> MaxMarkerLevel"
  shows "t @ marker_text level \<noteq> []" "trim_space (t @ marker_text level) = t @ marker_text level"
    "strayCheckbox (t @ marker_text level) = []" "\<not> ascii_space (last (t @ marker_text level))" "CHR 0x0A \<notin> set (t @ marker_text level)"
    "(case SplitMarker (t @ marker_text level) of (l, stripped, ok) \<Rightarrow> ((if ok then l else 0), (if ok then trim_space stripped else t @ marker_text level))) = (level, t)"
proof -
  have t: "t \<noteq> []" "\<not> ascii_space (hd t)" "\<not> ascii_space (last t)" "CHR 0x0A \<notin> set t" "\<not> bracket_at t" using assms(1) by (auto simp: plain_text_def)
  show "t @ marker_text level \<noteq> []" using t by simp
  show l: "\<not> ascii_space (last (t @ marker_text level))" using last_marker [OF assms(2,3)] t by (auto simp: last_append)
  show "trim_space (t @ marker_text level) = t @ marker_text level" using t l by (intro trim_space_id) auto
  show "CHR 0x0A \<notin> set (t @ marker_text level)" using assms(2,3) by (rule marker_text_cases) (use t in auto)
  have "\<not> bracket_at (t @ marker_text level)"
  proof (cases "length t \<ge> 3")
    case True
    then have "(t @ marker_text level) ! i = t ! i" if "i < 3" for i using that by (simp add: nth_append)
    then show ?thesis using t(5) True by (simp add: bracket_at_def)
  next
    case False
    then consider (one) c where "t = [c]" | (two) c d where "t = [c, d]"
      using t(1) by (cases t; cases "tl t"; cases "tl (tl t)") auto
    then show ?thesis
    proof cases
      case one
      show ?thesis using assms(2,3) by (rule marker_text_cases) (auto simp: bracket_at_def one)
    next
      case two
      show ?thesis using assms(2,3) by (rule marker_text_cases) (auto simp: bracket_at_def two)
    qed
  qed
  then show "strayCheckbox (t @ marker_text level) = []" by (simp add: strayCheckbox_def)
  show "(case SplitMarker (t @ marker_text level) of (l, stripped, ok) \<Rightarrow> ((if ok then l else 0), (if ok then trim_space stripped else t @ marker_text level))) = (level, t)"
    using SplitMarker_plain [OF assms(1)] SplitMarker_level [OF assms(1)] assms(2,3) trim_space_id [OF t(1,2,3)]
    by (cases "level = 0") simp_all
qed

lemma parse_item:
  assumes "plain_text t" "0 \<le> level" "level \<le> MaxMarkerLevel"
  shows "parse_lines digest dir (path_base dir) todoFile h False (item_line tick t level # ls)
    = map_sum id ((#) (item_of digest dir h (tick, t, level))) (parse_lines digest dir (path_base dir) todoFile h False ls)"
proof -
  let ?u = "t @ marker_text level" and ?box = "''['' @ (if tick then ''x'' else '' '') @ '']''"
  note m = marked_text [OF assms]
  have box: "trim_space (?box @ '' '' @ ?u) = ?box @ '' '' @ ?u"
    by (rule trim_space_id) (use m(1,4) in \<open>auto simp: ascii_space_def last_append\<close>)
  have line: "item_line tick t level = ''- '' @ ?box @ '' '' @ ?u" by (simp add: item_line_def)
  have trimmed: "trim_space (item_line tick t level) = item_line tick t level"
    unfolding line by (rule trim_space_id) (use m(1,4) in \<open>auto simp: ascii_space_def last_append\<close>)
  have "cut_prefix (item_line tick t level) ''-'' = Some ('' '' @ ?box @ '' '' @ ?u)"
    by (simp add: cut_prefix_def has_prefix_def line)
  moreover have "cut_prefix (?box @ '' '' @ ?u) ''[ ]'' = (if tick then None else Some ('' '' @ ?u))"
    "tick \<Longrightarrow> cut_prefix (?box @ '' '' @ ?u) ''['' = Some (''x] '' @ ?u)" "cut_prefix ('']'' @ '' '' @ ?u) '']'' = Some ('' '' @ ?u)"
    by (simp_all add: cut_prefix_def has_prefix_def)
  ultimately have check: "checkboxOf (item_line tick t level) = Some ('' '' @ ?u, tick)"
    using box by (cases tick) (simp_all add: checkboxOf_def)
  have "headingOf (item_line tick t level) = None" "\<not> has_prefix (item_line tick t level) ''```''"
    by (simp_all add: headingOf_def has_prefix_def line)
  then show ?thesis using trimmed check m(1,2,3,6)
    by (auto simp: Let_def item_of_def split: prod.splits)
qed

lemma parse_heading:
  assumes "plain_heading g"
  shows "parse_lines digest dir base todoFile h False (heading_line g # ls) = parse_lines digest dir base todoFile g False ls"
proof -
  have g: "g \<noteq> []" "\<not> ascii_space (hd g)" "\<not> ascii_space (last g)" using assms by (auto simp: plain_heading_def)
  have "trim_space (heading_line g) = heading_line g"
    unfolding heading_line_def by (rule trim_space_id) (use g in \<open>auto simp: ascii_space_def last_append\<close>)
  moreover have "headingOf (heading_line g) = Some g" "\<not> has_prefix (heading_line g) ''```''"
    using trim_space_id [OF g] g(1) by (simp_all add: headingOf_def heading_line_def has_prefix_def trim_left_def)
  ultimately show ?thesis by simp
qed

lemma parse_items:
  "list_all (\<lambda>(tick, t, level). plain_text t \<and> 0 \<le> level \<and> level \<le> MaxMarkerLevel) its \<Longrightarrow>
   parse_lines digest dir (path_base dir) todoFile h False (map (\<lambda>(tick, t, level). item_line tick t level) its @ ls)
     = map_sum id ((@) (map (item_of digest dir h) its)) (parse_lines digest dir (path_base dir) todoFile h False ls)"
proof (induction its)
  case Nil
  show ?case by (cases "parse_lines digest dir (path_base dir) todoFile h False ls") simp_all
next
  case (Cons x its)
  obtain tick t level where x: "x = (tick, t, level)" by (cases x)
  show ?case using Cons parse_item [of t level] unfolding x
    by (cases "parse_lines digest dir (path_base dir) todoFile h False ls") simp_all
qed

lemma parse_sections:
  "plain_sections secs \<Longrightarrow>
   parse_lines digest dir (path_base dir) todoFile h False (todo_lines secs)
     = Inr (concat (map (\<lambda>(g, its). map (item_of digest dir g) its) secs))"
proof (induction secs arbitrary: h)
  case (Cons sec secs)
  obtain g its where x: "sec = (g, its)" by (cases sec)
  have "plain_heading g" "plain_sections secs"
    "list_all (\<lambda>(tick, t, level). plain_text t \<and> 0 \<le> level \<and> level \<le> MaxMarkerLevel) its"
    using Cons.prems by (simp_all add: plain_sections_def x)
  then show ?case using Cons.IH [of g] parse_items [of its digest dir todoFile g "todo_lines secs"]
    by (simp add: todo_lines_def x parse_heading del: parse_lines.simps(2))
qed (simp add: todo_lines_def)

lemma split_join: "sep \<notin> set l \<Longrightarrow> split_on sep (l @ sep # u) = l # split_on sep u" "sep \<notin> set l \<Longrightarrow> split_on sep l = [l]"
  by (induction l) auto

lemma lines_of_join: "ls \<noteq> [] \<Longrightarrow> \<forall>l\<in>set ls. CHR 0x0A \<notin> set l \<Longrightarrow> lines_of (str_join [CHR 0x0A] ls) = ls"
  by (induction "[CHR 0x0A]" ls rule: str_join.induct) (simp_all add: lines_of_def split_join)

lemma todo_lines_whole:
  assumes "plain_sections secs" "l \<in> set (todo_lines secs)"
  shows "CHR 0x0A \<notin> set l"
proof -
  obtain g its where sec: "(g, its) \<in> set secs" and l: "l = heading_line g \<or> (\<exists>tick t level. (tick, t, level) \<in> set its \<and> l = item_line tick t level)"
    using assms(2) by (fastforce simp: todo_lines_def)
  have ok: "plain_heading g" "\<And>tick t level. (tick, t, level) \<in> set its \<Longrightarrow> plain_text t \<and> 0 \<le> level \<and> level \<le> MaxMarkerLevel"
    using assms(1) sec by (fastforce simp: plain_sections_def list_all_iff)+
  show ?thesis
  proof (cases "l = heading_line g")
    case True
    then show ?thesis using ok(1) by (simp add: heading_line_def plain_heading_def)
  next
    case False
    then obtain tick t level where x: "(tick, t, level) \<in> set its" "l = item_line tick t level" using l by blast
    then show ?thesis using marked_text(5) [of t level] ok(2) [OF x(1)] by (auto simp: item_line_def)
  qed
qed

text \<open>
  C32: the backlog file reads back as it was written. A file of sections, each a heading and checkbox
  lines (open or ticked, with or without a priority marker), is parsed into exactly the items that were
  written, in order, under their headings. The text and the dedup key of an item do not depend on its
  marker, so editing a marker never turns an item into new work.
\<close>

theorem todo_file_roundtrip:
  assumes "plain_sections secs" "secs \<noteq> []" "su_abs su repo = Inr dir" "su_read su dir todoFile = Contents (todo_file secs)"
  shows "ParseRepoAll su repo todoFile = Inr (concat (map (\<lambda>(h, its). map (item_of (su_digest su) dir h) its) secs))"
proof -
  have "todo_lines secs \<noteq> []" using assms(2) by (cases secs) (auto simp: todo_lines_def)
  then have "lines_of (todo_file secs) = todo_lines secs"
    using todo_lines_whole [OF assms(1)] by (simp add: todo_file_def lines_of_join)
  then show ?thesis using parse_sections [OF assms(1)] assms(3,4) by (simp add: ParseRepoAll_def)
qed

definition demo_surroundings :: "string \<Rightarrow> surroundings" where
  "demo_surroundings data = \<lparr>su_read = (\<lambda>_ file. if file = ''TODO_LIST.md'' then Contents data else Missing ''no such file''),
     su_abs = Inr, su_digest = (\<lambda>s. s @ replicate 16 (CHR ''0'')), su_git = (\<lambda>_ _. (None, [], [])), su_glob = (\<lambda>_ _. False),
     su_isdir = (\<lambda>_. True), su_mtime = (\<lambda>_ _. None)\<rparr>"

definition demo_sections :: "(string \<times> (bool \<times> string \<times> int) list) list" where
  "demo_sections = [(''Now'', [(False, ''fix a'', 1), (True, ''do b'', 0)]), (''Later'', [(False, ''fix c'', 4)])]"

lemma todo_file_roundtrip_witness:
  "\<exists>its. ParseRepoAll (demo_surroundings (todo_file demo_sections)) ''/p/app'' ''TODO_LIST.md'' = Inr its
     \<and> map it_Text its = [''fix a'', ''do b'', ''fix c''] \<and> map it_MarkerLevel its = [1, 0, 4] \<and> map it_Done its = [False, True, False]"
proof -
  have "plain_sections demo_sections" by code_simp
  moreover have "demo_sections \<noteq> []" by (simp add: demo_sections_def)
  ultimately show ?thesis
    using todo_file_roundtrip [of demo_sections "demo_surroundings (todo_file demo_sections)" "''/p/app''" "''/p/app''" "''TODO_LIST.md''"]
    by (simp add: demo_surroundings_def) (simp add: demo_sections_def item_of_def)
qed

section \<open>The ladder\<close>

lemma KeywordBump_cases: "KeywordBump txt \<in> {0, 20, 25, 30}"
  by (simp add: KeywordBump_def Let_def)

text \<open>
  The ladder stays in its band. Whatever the signals of an item, the priority it resolves to lies in
  the backlog band, unless it is the configured priority of hot work (which needs a hint of \<open>/tmp\<close> in the
  text) or the configured flat one; and the signal named as the source is the strongest one present.
\<close>

theorem ladder_stays_in_band:
  "case ResolvePriority i of (p, src) \<Rightarrow>
     (src = SrcHot \<longleftrightarrow> ri_HotPriority i > 0 \<and> sameSession (ri_Text i))
   \<and> (src = SrcMarker \<longleftrightarrow> src \<noteq> SrcHot \<and> ri_MarkerLevel i \<in> {1..MaxMarkerLevel})
   \<and> (src = SrcAI \<longleftrightarrow> src \<notin> {SrcHot, SrcMarker} \<and> ri_AIScore i \<noteq> None)
   \<and> (src = SrcDefault \<longleftrightarrow> src \<notin> {SrcHot, SrcMarker, SrcAI} \<and> \<not> ri_ImportanceEnabled i)
   \<and> (src = SrcHot \<and> p = ri_HotPriority i \<or> src = SrcDefault \<and> p = ri_FlatPriority i
      \<or> src \<notin> {SrcHot, SrcDefault} \<and> RepriMutable p \<and> 0 \<le> p \<and> p \<le> BacklogMax)"
  by (auto simp: ResolvePriority_def MarkerPriority_def MaxMarkerLevel_def RepriMutable_def BandOf_def ClampBacklog_def
      band_consts Let_def split: option.splits)

end
