(* ===== verification/Tq_Gitscan.thy ===== *)
theory Tq_Gitscan
  imports Tq_Backlog
begin

text \<open>
  \<open>internal/executor/gitscan.go\<close>: which commits carry a footer. Git itself is an argument (the field
  \<open>su_git\<close>); the version check, the command line and the reading of the log are the code's.
\<close>

section \<open>Reading the log\<close>

record commit =
  SHA :: string
  Subject :: string

datatype scan_error = EmptyRepo | GitTooOld int int | GitLogFailed string

text \<open>\<open>strings.SplitN\<close> at a character.\<close>

fun split_n :: "nat \<Rightarrow> char \<Rightarrow> string \<Rightarrow> string list" where
  "split_n 0 sep s = []"
| "split_n (Suc 0) sep s = [s]"
| "split_n (Suc (Suc n)) sep s = (case str_cut sep s of None \<Rightarrow> [s] | Some (a, b) \<Rightarrow> a # split_n (Suc n) sep b)"

fun version_in :: "string list \<Rightarrow> (int \<times> int) option" where
  "version_in (f # v # fs) =
     (if f \<noteq> ''version'' then version_in (v # fs)
      else case split_n 3 (CHR ''.'') v of
        a # b # _ \<Rightarrow> (case atoi a of None \<Rightarrow> None | Some major \<Rightarrow> map_option (\<lambda>minor. (major, minor)) (atoi b))
      | _ \<Rightarrow> None)"
| "version_in _ = None"

definition parseGitVersion :: "string \<Rightarrow> (int \<times> int) option" where
  "parseGitVersion out = version_in (fields_of out)"

definition checkGitVersion :: "surroundings \<Rightarrow> string \<Rightarrow> scan_error option" where
  "checkGitVersion su repo =
     (case su_git su repo [''--version''] of
        (st, out, err) \<Rightarrow>
          if st \<noteq> Some 0 then None
          else case parseGitVersion out of
            None \<Rightarrow> None
          | Some (major, minor) \<Rightarrow> if major < 2 \<or> major = 2 \<and> minor < 15 then Some (GitTooOld major minor) else None)"

definition isHexSHA :: "string \<Rightarrow> bool" where
  "isHexSHA s \<longleftrightarrow> (length s = 40 \<or> length s = 64)
     \<and> list_all (\<lambda>c. let n = of_char c :: nat in 48 \<le> n \<and> n \<le> 57 \<or> 97 \<le> n \<and> n \<le> 102) s"

record log_record =
  lr_commit :: commit
  lr_trailers :: "string list"
  lr_body :: "string list"

abbreviation US :: char where "US \<equiv> CHR 0x1F"

definition new_record :: "string list \<Rightarrow> log_record" where
  "new_record parts =
     \<lparr>lr_commit = \<lparr>SHA = parts ! 0, Subject = parts ! 1\<rparr>,
      lr_trailers = filter (\<lambda>t. t \<noteq> []) (map trim_space (lines_of (parts ! 2))),
      lr_body = (if length parts = 4 then [parts ! 3] else [])\<rparr>"

definition more_lines :: "string \<Rightarrow> log_record \<Rightarrow> log_record" where
  "more_lines line r = r\<lparr>lr_trailers := lr_trailers r @ filter (\<lambda>t. t \<noteq> []) [trim_space line], lr_body := lr_body r @ [line]\<rparr>"

text \<open>The loop over the lines: the current record, and whether its body is still to begin.\<close>

fun scan_log :: "log_record option \<Rightarrow> bool \<Rightarrow> string list \<Rightarrow> log_record list" where
  "scan_log current bodyStart [] = (case current of None \<Rightarrow> [] | Some r \<Rightarrow> [r])"
| "scan_log current bodyStart (line # ls) =
     (if bodyStart \<and> has_prefix line [US]
      then scan_log (map_option (\<lambda>r. r\<lparr>lr_body := lr_body r @ [tl line]\<rparr>) current) False ls
      else let parts = split_n 4 US line in
        if length parts \<ge> 3 \<and> isHexSHA (parts ! 0)
        then (case current of None \<Rightarrow> [] | Some r \<Rightarrow> [r])
          @ scan_log (Some (new_record parts)) (if length parts = 4 then bodyStart else True) ls
        else scan_log (map_option (more_lines line) current) bodyStart ls)"

definition parseTrailerCommits :: "string \<Rightarrow> string \<Rightarrow> string \<Rightarrow> commit list" where
  "parseTrailerCommits out key v =
     rev (map lr_commit (filter (\<lambda>r. v \<in> set (lr_trailers r) \<or> key @ '': '' @ v \<in> set (lr_body r))
       (scan_log None False (lines_of out))))"

definition TaskTrailer :: string where "TaskTrailer = ''Task-Queue-ID''"

definition log_format :: "string \<Rightarrow> string" where
  "log_format key = ''--format=%H%x1f%s%x1f%(trailers:key='' @ key @ '',valueonly)%x1f%B''"

definition CommitsByTrailer :: "surroundings \<Rightarrow> string \<Rightarrow> string \<Rightarrow> string \<Rightarrow> scan_error + commit list" where
  "CommitsByTrailer su repo key v =
     (if repo = [] then Inl EmptyRepo
      else case checkGitVersion su repo of
        Some e \<Rightarrow> Inl e
      | None \<Rightarrow>
          (case su_git su repo [''log'', log_format key] of
             (st, out, err) \<Rightarrow>
               if st = Some 0 then Inr (parseTrailerCommits out key v)
               else if st \<noteq> None \<and> str_contains err ''does not have any commits yet'' then Inr []
               else Inl (GitLogFailed repo)))"

section \<open>What git prints\<close>

text \<open>A commit with the values of its trailers and the lines of its message, and its lines in the log.\<close>

record logged =
  lg_commit :: commit
  lg_trailers :: "string list"
  lg_first :: string
  lg_rest :: "string list"

definition log_lines :: "logged \<Rightarrow> string list" where
  "log_lines c =
     (let h = SHA (lg_commit c) @ US # Subject (lg_commit c) @ [US] in
      case lg_trailers c of
        [] \<Rightarrow> (h @ US # lg_first c) # lg_rest c
      | t # ts \<Rightarrow> (h @ t) # ts @ (US # lg_first c) # lg_rest c)"

definition free_of :: "char \<Rightarrow> string \<Rightarrow> bool" where
  "free_of c s \<longleftrightarrow> c \<notin> set s"

definition clean_text :: "string \<Rightarrow> bool" where
  "clean_text s \<longleftrightarrow> US \<notin> set s \<and> CHR 0x0A \<notin> set s"

definition well_logged :: "logged \<Rightarrow> bool" where
  "well_logged c \<longleftrightarrow> isHexSHA (SHA (lg_commit c)) \<and> clean_text (SHA (lg_commit c)) \<and> clean_text (Subject (lg_commit c))
     \<and> list_all clean_text (lg_trailers c) \<and> clean_text (lg_first c) \<and> list_all clean_text (lg_rest c)"

text \<open>
  What attributes a commit: a trailer value, a line of the message (or a further trailer value) that is
  the footer, or a further line of the message that is the bare value.
\<close>

definition attributed :: "string \<Rightarrow> string \<Rightarrow> logged \<Rightarrow> bool" where
  "attributed key v c \<longleftrightarrow>
     v \<in> trim_space ` set (lg_trailers c) \<or> key @ '': '' @ v \<in> set (tl (lg_trailers c) @ lg_first c # lg_rest c) \<or> v \<in> trim_space ` set (lg_rest c)"

lemma split_n_clean: "US \<notin> set s \<Longrightarrow> split_n (Suc n) US s = [s]"
  by (cases n) (simp_all add: str_cut_None [THEN iffD2])

lemma str_cut_clean: "sep \<notin> set a \<Longrightarrow> str_cut sep (a @ sep # b) = Some (a, b)"
  by (rule str_cut_first)

lemma isHexSHA_clean: "isHexSHA s \<Longrightarrow> US \<notin> set s"
  by (auto simp: isHexSHA_def list_all_iff Let_def dest!: bspec)

lemma scan_plain:
  "list_all clean_text ls \<Longrightarrow>
   scan_log (Some r) b (ls @ after) = scan_log (Some (r\<lparr>lr_trailers := lr_trailers r @ filter (\<lambda>t. t \<noteq> []) (map trim_space ls), lr_body := lr_body r @ ls\<rparr>)) b after"
proof (induction ls arbitrary: r)
  case (Cons l ls)
  have "\<not> has_prefix l [US]" using Cons.prems by (cases l) (auto simp: has_prefix_def clean_text_def)
  then show ?case using Cons split_n_clean [of l 3] by (simp add: clean_text_def more_lines_def numeral_eq_Suc)
qed simp

definition record_of :: "logged \<Rightarrow> log_record" where
  "record_of c = \<lparr>lr_commit = lg_commit c,
     lr_trailers = filter (\<lambda>t. t \<noteq> []) (map trim_space (lg_trailers c @ lg_rest c)),
     lr_body = tl (lg_trailers c) @ lg_first c # lg_rest c\<rparr>"

lemma trim_space_Nil [simp]: "trim_space [] = []"
  by (simp add: trim_space_def)

lemma commit_eta [simp]: "\<lparr>SHA = SHA x, Subject = Subject x\<rparr> = x"
  by simp

lemma scan_start:
  assumes "isHexSHA (SHA (lg_commit c))" "clean_text (Subject (lg_commit c))" "clean_text t"
  shows "scan_log cur False ((SHA (lg_commit c) @ US # Subject (lg_commit c) @ US # t) # ls)
       = (case cur of None \<Rightarrow> [] | Some r \<Rightarrow> [r]) @
         scan_log (Some \<lparr>lr_commit = lg_commit c, lr_trailers = filter (\<lambda>t. t \<noteq> []) [trim_space t], lr_body = []\<rparr>) True ls"
    "scan_log cur False ((SHA (lg_commit c) @ US # Subject (lg_commit c) @ US # US # b) # ls)
       = (case cur of None \<Rightarrow> [] | Some r \<Rightarrow> [r]) @
         scan_log (Some \<lparr>lr_commit = lg_commit c, lr_trailers = [], lr_body = [b]\<rparr>) False ls"
proof -
  have sha: "US \<notin> set (SHA (lg_commit c))" using assms(1) by (rule isHexSHA_clean)
  have lines: "lines_of t = [t]" "lines_of [] = [[]]" using assms(3) split_join(2) [of "CHR 0x0A" t] by (simp_all add: lines_of_def clean_text_def)
  show "scan_log cur False ((SHA (lg_commit c) @ US # Subject (lg_commit c) @ US # t) # ls)
       = (case cur of None \<Rightarrow> [] | Some r \<Rightarrow> [r]) @
         scan_log (Some \<lparr>lr_commit = lg_commit c, lr_trailers = filter (\<lambda>t. t \<noteq> []) [trim_space t], lr_body = []\<rparr>) True ls"
    using assms sha split_n_clean [of t 1] lines
    by (simp add: clean_text_def str_cut_clean new_record_def numeral_eq_Suc)
  show "scan_log cur False ((SHA (lg_commit c) @ US # Subject (lg_commit c) @ US # US # b) # ls)
       = (case cur of None \<Rightarrow> [] | Some r \<Rightarrow> [r]) @
         scan_log (Some \<lparr>lr_commit = lg_commit c, lr_trailers = [], lr_body = [b]\<rparr>) False ls"
    using assms sha lines
    by (simp add: clean_text_def str_cut_clean str_cut_clean [of US "[]", simplified] new_record_def numeral_eq_Suc)
qed

lemma scan_commit:
  assumes "well_logged c"
  shows "scan_log cur False (log_lines c @ after) = (case cur of None \<Rightarrow> [] | Some r \<Rightarrow> [r]) @ scan_log (Some (record_of c)) False after"
proof (cases "lg_trailers c")
  case Nil
  then show ?thesis using assms scan_start(2) [of c "[]" cur "lg_first c" "lg_rest c @ after"]
    by (simp add: well_logged_def log_lines_def Let_def scan_plain record_of_def clean_text_def del: scan_log.simps)
next
  case (Cons t ts)
  have ok: "isHexSHA (SHA (lg_commit c))" "clean_text (Subject (lg_commit c))" "clean_text t" "list_all clean_text ts" "list_all clean_text (lg_rest c)"
    using assms Cons by (auto simp: well_logged_def)
  have first: "scan_log (Some r) True ((US # lg_first c) # ls) = scan_log (Some (r\<lparr>lr_body := lr_body r @ [lg_first c]\<rparr>)) False ls" for r ls
    by (simp add: has_prefix_def)
  show ?thesis using scan_start(1) [OF ok(1-3), of cur "ts @ (US # lg_first c) # lg_rest c @ after"] Cons
    by (simp add: log_lines_def Let_def scan_plain [OF ok(4)] scan_plain [OF ok(5)] first record_of_def del: scan_log.simps)
qed

definition log_text :: "logged list \<Rightarrow> string" where
  "log_text cs = str_join [CHR 0x0A] (concat (map log_lines cs) @ [[]])"

lemma scan_commits:
  "list_all well_logged cs \<Longrightarrow>
   map (\<lambda>r. (lr_commit r, set (lr_trailers r), set (lr_body r) - {[]})) (scan_log cur False (concat (map log_lines cs) @ [[]]))
     = map (\<lambda>r. (lr_commit r, set (lr_trailers r), set (lr_body r) - {[]})) ((case cur of None \<Rightarrow> [] | Some r \<Rightarrow> [r]) @ map record_of cs)"
proof (induction cs arbitrary: cur)
  case Nil
  then show ?case by (cases cur) (simp_all add: has_prefix_def more_lines_def numeral_eq_Suc)
next
  case (Cons c cs)
  then show ?case using Cons.IH [of "Some (record_of c)"] scan_commit [of c cur "concat (map log_lines cs) @ [[]]"]
    by (cases cur) (simp_all del: scan_log.simps)
qed

lemma log_lines_whole:
  assumes "well_logged c" "l \<in> set (log_lines c)"
  shows "CHR 0x0A \<notin> set l"
  using assms by (auto simp: well_logged_def log_lines_def clean_text_def list_all_iff Let_def split: list.splits)

lemma filter_map_pairs:
  "map f xs = map f ys \<Longrightarrow> (\<And>x. g x = g' (f x)) \<Longrightarrow> (\<And>x. p x = p' (f x)) \<Longrightarrow> map g (filter p xs) = map g (filter p ys)"
proof (induction xs arbitrary: ys)
  case (Cons x xs)
  then obtain y zs where "ys = y # zs" "f x = f y" "map f xs = map f zs" by (cases ys) auto
  then show ?case using Cons by auto
qed simp

text \<open>
  Attribution reads the log back. On what \<open>git log\<close> prints for a list of commits, the scanner returns,
  oldest first, exactly the commits that carry the footer: as a trailer value, as a line of the message of
  its own, or, beyond what its comment promises, as a bare value on a later line of the message.
\<close>

theorem attribution_reads_log:
  assumes "list_all well_logged cs" "v \<noteq> []" "trim_space v = v"
  shows "parseTrailerCommits (log_text cs) key v = rev (map lg_commit (filter (attributed key v) cs))"
proof -
  let ?sig = "\<lambda>r. (lr_commit r, set (lr_trailers r), set (lr_body r) - {[]})"
  let ?hit = "\<lambda>r. v \<in> set (lr_trailers r) \<or> key @ '': '' @ v \<in> set (lr_body r)"
  have "\<forall>l\<in>set (concat (map log_lines cs) @ [[]]). CHR 0x0A \<notin> set l"
    using assms(1) log_lines_whole by (fastforce simp: list_all_iff)
  then have ls: "lines_of (log_text cs) = concat (map log_lines cs) @ [[]]"
    by (simp add: log_text_def lines_of_join)
  have "map ?sig (scan_log None False (concat (map log_lines cs) @ [[]])) = map ?sig (map record_of cs)"
    using scan_commits [OF assms(1), of None] by simp
  then have "map lr_commit (filter ?hit (scan_log None False (concat (map log_lines cs) @ [[]])))
    = map lr_commit (filter ?hit (map record_of cs))"
    by (rule filter_map_pairs [where g' = fst and p' = "\<lambda>(c, t, b). v \<in> t \<or> key @ '': '' @ v \<in> b"]) simp_all
  also have "\<dots> = map lg_commit (filter (attributed key v) cs)"
  proof -
    have "?hit (record_of c) = attributed key v c" for c
      using assms(2) by (auto simp: record_of_def attributed_def)
    then show ?thesis by (simp add: filter_map o_def) (simp add: record_of_def)
  qed
  finally show ?thesis by (simp add: parseTrailerCommits_def ls)
qed

definition demo_logged :: "string \<Rightarrow> string list \<Rightarrow> string \<Rightarrow> string list \<Rightarrow> logged" where
  "demo_logged subj ts b bs = \<lparr>lg_commit = \<lparr>SHA = replicate 40 (CHR ''a''), Subject = subj\<rparr>, lg_trailers = ts, lg_first = b, lg_rest = bs\<rparr>"

lemma attribution_reads_log_witness:
  "map Subject (parseTrailerCommits (log_text [demo_logged ''later'' [] ''later'' [[], ''Task-Queue-ID: t1''],
       demo_logged ''other'' [''t2''] ''other'' [[], ''Task-Queue-ID: t2''], demo_logged ''early'' [''t1''] ''early'' [[], ''Task-Queue-ID: t1'']])
     TaskTrailer ''t1'') = [''early'', ''later'']"
proof -
  let ?cs = "[demo_logged ''later'' [] ''later'' [[], ''Task-Queue-ID: t1''],
       demo_logged ''other'' [''t2''] ''other'' [[], ''Task-Queue-ID: t2''], demo_logged ''early'' [''t1''] ''early'' [[], ''Task-Queue-ID: t1'']]"
  have "list_all well_logged ?cs" "trim_space ''t1'' = ''t1''" by code_simp+
  then have reads: "parseTrailerCommits (log_text ?cs) TaskTrailer ''t1'' = rev (map lg_commit (filter (attributed TaskTrailer ''t1'') ?cs))"
    by (intro attribution_reads_log) simp_all
  have "map Subject (rev (map lg_commit (filter (attributed TaskTrailer ''t1'') ?cs))) = [''early'', ''later'']" by code_simp
  then show ?thesis by (simp only: reads)
qed

text \<open>A commit that merely has the identifier on a line of its message is attributed to the task.\<close>

lemma bare_id_is_attributed:
  "map Subject (parseTrailerCommits (log_text [demo_logged ''notes'' [] ''notes'' [[], ''Looked at:'', ''  t1'']]) TaskTrailer ''t1'') = [''notes'']"
  by code_simp

end
