(* ===== verification/Tq_Mintgate.thy ===== *)
theory Tq_Mintgate
  imports Tq_Gitscan
begin

text \<open>
  The payloads the harvester mints and the two gates that keep finished work from being paid for again:
  the agent payload (\<open>executor/agent.go\<close>), the harvester's configuration (\<open>harvest.go\<close>), citations
  (\<open>citation.go\<close>), coordination markers (\<open>verdicts.go\<close>), the gate at the mint (\<open>redispatch.go\<close>) and the one
  at the claim (\<open>donepreflight.go\<close>). JSON names are matched exactly; joined paths are clean.
\<close>

section \<open>Payloads\<close>

record agent_payload =
  ap_Repo :: string
  ap_Prompt :: string
  ap_Model :: string
  ap_V :: int
  ap_Session :: string
  ap_Item :: string
  ap_Items :: "string list"
  ap_Verify :: string
  ap_RequireClean :: "bool option"
  ap_TimeoutMinutes :: int
  ap_Yolo :: bool
  ap_Answered :: "json list"
  ap_RejectedSHA :: string
  ap_Anchor :: string

definition no_agent :: agent_payload where
  "no_agent = \<lparr>ap_Repo = [], ap_Prompt = [], ap_Model = [], ap_V = 0, ap_Session = [], ap_Item = [], ap_Items = [], ap_Verify = [],
     ap_RequireClean = None, ap_TimeoutMinutes = 0, ap_Yolo = False, ap_Answered = [], ap_RejectedSHA = [], ap_Anchor = []\<rparr>"

definition jbool :: "json \<Rightarrow> bool option" where
  "jbool j = (case j of JBool b \<Rightarrow> Some b | _ \<Rightarrow> None)"

text \<open>An element of \<open>answered\<close> must decode; it is kept as it is.\<close>

definition dec_answer :: "json \<Rightarrow> json option" where
  "dec_answer j =
     do { kvs \<leftarrow> jfields j; r \<leftarrow> jstr_field ''ref'' kvs; q \<leftarrow> jstr_field ''question'' kvs; a \<leftarrow> jstr_field ''answer'' kvs;
          p \<leftarrow> jstr_field ''pap_id'' kvs; t \<leftarrow> jint_field ''answered_at'' kvs; Some j }"

definition jlist_field :: "(json \<Rightarrow> 'a option) \<Rightarrow> string \<Rightarrow> (string \<times> json) list \<Rightarrow> 'a list option" where
  "jlist_field dec k kvs =
     (case map_of kvs k of None \<Rightarrow> Some [] | Some JNull \<Rightarrow> Some [] | Some (JArr js) \<Rightarrow> those (map dec js) | Some _ \<Rightarrow> None)"

definition dec_int :: "json \<Rightarrow> int option" where
  "dec_int j = jint_field [] [([], j)]"

definition dec_agent :: "(string \<times> json) list \<Rightarrow> agent_payload option" where
  "dec_agent kvs =
     do { r \<leftarrow> jstr_field ''repo'' kvs; p \<leftarrow> jstr_field ''prompt'' kvs; m \<leftarrow> jstr_field ''model'' kvs; v \<leftarrow> jint_field ''v'' kvs;
          se \<leftarrow> jstr_field ''session'' kvs; i \<leftarrow> jstr_field ''item'' kvs; its \<leftarrow> jstrs_field ''items'' kvs;
          ver \<leftarrow> jstr_field ''verify'' kvs; rc \<leftarrow> jptr_field jbool ''require_clean'' kvs; tm \<leftarrow> jint_field ''timeout_minutes'' kvs;
          y \<leftarrow> jbool_field ''yolo'' kvs; an \<leftarrow> jlist_field dec_answer ''answered'' kvs; rs \<leftarrow> jstr_field ''rejected_sha'' kvs;
          ac \<leftarrow> jstr_field ''anchor'' kvs;
          Some \<lparr>ap_Repo = r, ap_Prompt = p, ap_Model = m, ap_V = v, ap_Session = se, ap_Item = i, ap_Items = its, ap_Verify = ver,
                ap_RequireClean = rc, ap_TimeoutMinutes = tm, ap_Yolo = y, ap_Answered = an, ap_RejectedSHA = rs, ap_Anchor = ac\<rparr> }"

definition omit_int :: "string \<Rightarrow> int \<Rightarrow> (string \<times> json) list" where
  "omit_int k i = (if i = 0 then [] else [(k, jint i)])"

definition omit_false :: "string \<Rightarrow> bool \<Rightarrow> (string \<times> json) list" where
  "omit_false k b = (if b then [(k, JBool True)] else [])"

definition omit_arr :: "string \<Rightarrow> json list \<Rightarrow> (string \<times> json) list" where
  "omit_arr k js = (if js = [] then [] else [(k, JArr js)])"

definition agent_fields :: "agent_payload \<Rightarrow> (string \<times> json) list" where
  "agent_fields a =
     [(''repo'', JStr (ap_Repo a)), (''prompt'', JStr (ap_Prompt a))] @ omit_empty ''model'' (ap_Model a) @ omit_int ''v'' (ap_V a)
     @ omit_empty ''session'' (ap_Session a) @ omit_empty ''item'' (ap_Item a) @ omit_strs ''items'' (ap_Items a)
     @ omit_empty ''verify'' (ap_Verify a) @ omit_none ''require_clean'' (map_option JBool (ap_RequireClean a))
     @ omit_int ''timeout_minutes'' (ap_TimeoutMinutes a) @ omit_false ''yolo'' (ap_Yolo a)
     @ omit_arr ''answered'' (ap_Answered a)
     @ omit_empty ''rejected_sha'' (ap_RejectedSHA a) @ omit_empty ''anchor'' (ap_Anchor a)"

text \<open>The harvester's own fields; its \<open>dedup\<close> shadows the one of the agent payload.\<close>

record harvest_payload =
  hp_agent :: agent_payload
  hp_Dedup :: string
  hp_EffortMinutes :: "int list"
  hp_MarkerLevel :: int
  hp_ItemKeys :: "string list"

definition payload_fields :: "harvest_payload \<Rightarrow> (string \<times> json) list" where
  "payload_fields p = agent_fields (hp_agent p) @ omit_empty ''dedup'' (hp_Dedup p)
     @ omit_arr ''effortMinutes'' (map jint (hp_EffortMinutes p))
     @ omit_int ''markerLevel'' (hp_MarkerLevel p) @ omit_strs ''itemKeys'' (hp_ItemKeys p)"

definition payload_json :: "harvest_payload \<Rightarrow> json" where
  "payload_json p = JObj (payload_fields p)"

definition dec_payload :: "jtext \<Rightarrow> harvest_payload option" where
  "dec_payload d =
     do { j \<leftarrow> jt_parse d; kvs \<leftarrow> jfields j; a \<leftarrow> dec_agent kvs; k \<leftarrow> jstr_field ''dedup'' kvs;
          ef \<leftarrow> jlist_field dec_int ''effortMinutes'' kvs; ml \<leftarrow> jint_field ''markerLevel'' kvs; ks \<leftarrow> jstrs_field ''itemKeys'' kvs;
          Some \<lparr>hp_agent = a, hp_Dedup = k, hp_EffortMinutes = ef, hp_MarkerLevel = ml, hp_ItemKeys = ks\<rparr> }"

record payload_item =
  pi_Repo :: string
  pi_Text :: string
  pi_Key :: string
  pi_MarkerLevel :: int

definition PayloadItemOf :: "task \<Rightarrow> payload_item option" where
  "PayloadItemOf t =
     (if jt_text (Payload t) = [] then None
      else case dec_payload (Payload t) of
        None \<Rightarrow> None
      | Some p \<Rightarrow>
          if hp_Dedup p = [] \<or> ap_Item (hp_agent p) = [] \<or> ap_Repo (hp_agent p) = [] then None
          else Some \<lparr>pi_Repo = ap_Repo (hp_agent p), pi_Text = ap_Item (hp_agent p), pi_Key = hp_Dedup p, pi_MarkerLevel = hp_MarkerLevel p\<rparr>)"

definition payloadItemKeys :: "task \<Rightarrow> string list" where
  "payloadItemKeys t =
     (if jt_text (Payload t) = [] then []
      else case dec_payload (Payload t) of None \<Rightarrow> [] | Some p \<Rightarrow> hp_ItemKeys p)"

definition payloadDedup :: "task \<Rightarrow> string" where
  "payloadDedup t =
     (if jt_text (Payload t) = [] then []
      else case do { j \<leftarrow> jt_parse (Payload t); kvs \<leftarrow> jfields j; jstr_field ''dedup'' kvs } of None \<Rightarrow> [] | Some k \<Rightarrow> k)"

definition decodeHarvestPayload :: "jtext \<Rightarrow> harvest_payload option" where
  "decodeHarvestPayload d =
     (if jt_text d = [] then None
      else case dec_payload d of
        None \<Rightarrow> None
      | Some p \<Rightarrow> if ap_Repo (hp_agent p) = [] \<or> ap_Prompt (hp_agent p) = [] then None else Some p)"

section \<open>Configuration\<close>

definition DefaultType :: string where "DefaultType = ''agent''"
definition DefaultTodoFile :: string where "DefaultTodoFile = ''TODO_LIST.md''"
definition DefaultMaxPerTick :: int where "DefaultMaxPerTick = 10"
definition DefaultBatchTimeoutMinutes :: int where "DefaultBatchTimeoutMinutes = 30"
definition BatchKeyPrefix :: string where "BatchKeyPrefix = ''batch:''"
definition CatchupKeyPrefix :: string where "CatchupKeyPrefix = ''catchup:''"

definition DefaultPromptTemplate :: string where
  "DefaultPromptTemplate =
     ''You are an autonomous agent working from a shared task queue, unsupervised.'' @ nl
     @ ''Your repo'' @ [CHR 0x27] @ ''s AGENTS.md is already in your context '' @ emdash @ '' follow it.'' @ nl @ nl
     @ ''Repository: {{REPO_ABS}}'' @ nl
     @ ''Repo purpose: {{REPO_PURPOSE}}'' @ nl
     @ ''Work item from TODO_LIST.md, section '' @ [CHR 0x22] @ ''{{HEADING}}'' @ [CHR 0x22] @ '':'' @ nl
     @ [CHR 0x22] @ ''{{ITEM}}'' @ [CHR 0x22] @ nl @ nl
     @ ''Outcome: the item landed, verified, committed.'' @ nl
     @ ''1. Re-dispatch check first: run'' @ nl
     @ ''   git log --format=%B --grep '' @ [CHR 0x27] @ ''Task-Queue-ID: {{TASK_ID}}'' @ [CHR 0x27] @ nl
     @ ''   and read the item'' @ [CHR 0x27] @ ''s checkbox in TODO_LIST.md '' @ emdash @ '' if either proves the work'' @ nl
     @ ''   already landed, close out as a no-op (state the evidence, tick the item if'' @ nl
     @ ''   unticked, commit nothing else).'' @ nl
     @ ''2. Land the item. Run the project'' @ [CHR 0x27] @ ''s build and tests; leave the repo green.'' @ nl
     @ ''3. Close the loop in TODO_LIST.md: tick the item [x] when done; if you could'' @ nl
     @ ''   NOT finish, leave it unchecked and append '' @ [CHR 0x22] @ '' '' @ emdash @ '' BLOCKED: <one-line reason>'' @ [CHR 0x22] @ ''.'' @ nl
     @ ''4. Commit with a clear message ending in this exact footer line:'' @ nl @ nl
     @ ''   Task-Queue-ID: {{TASK_ID}}'' @ nl @ nl
     @ ''   The footer must be the FINAL line of the message: if your tooling appends'' @ nl
     @ ''   an attribution block (e.g. '' @ [CHR 0x22] @ ''Generated with Crush'' @ [CHR 0x22] @ '' / '' @ [CHR 0x22] @ ''Assisted-by'' @ [CHR 0x22] @ ''), put'' @ nl
     @ ''   the footer AFTER that block '' @ emdash @ '' a footer stranded above attribution is'' @ nl
     @ ''   invisible to git trailers and the pre-commit hook rejects the commit.'' @ nl
     @ ''   Never push. Never edit .crushrc, crush.json, or .tq-verify.'' @ nl
     @ ''5. Follow-ups you discover go to the backlog: append NEW unchecked TODO_LIST'' @ nl
     @ ''   items (one per line, agent-executable) '' @ emdash @ '' no item describing THIS task'' @ [CHR 0x27] @ ''s work.'' @ nl @ nl
     @ ''The queue derives what you did '' @ emdash @ '' commits via the footer, files via git.''"

definition DefaultBatchPromptTemplate :: string where
  "DefaultBatchPromptTemplate =
     ''You are an autonomous agent working from a shared task queue, unsupervised.'' @ nl
     @ ''Your repo'' @ [CHR 0x27] @ ''s AGENTS.md is already in your context '' @ emdash @ '' follow it.'' @ nl @ nl
     @ ''Repository: {{REPO_ABS}}'' @ nl
     @ ''Repo purpose: {{REPO_PURPOSE}}'' @ nl
     @ ''Work batch from TODO_LIST.md, section '' @ [CHR 0x22] @ ''{{HEADING}}'' @ [CHR 0x22] @ '' '' @ emdash @ '' {{COUNT}} related items, ONE session:'' @ nl @ nl
     @ ''{{ITEMS}}'' @ nl @ nl
     @ ''Outcome: every item landed, verified, committed '' @ emdash @ '' one commit per item.'' @ nl
     @ ''1. Re-dispatch check first: run'' @ nl
     @ ''   git log --format=%B --grep '' @ [CHR 0x27] @ ''Task-Queue-ID: {{TASK_ID}}'' @ [CHR 0x27] @ nl
     @ ''   Footer commits already present '' @ [CHR 0xE2, CHR 0x86, CHR 0x92] @ '' finish only what is genuinely open; an'' @ nl
     @ ''   already-ticked item is done '' @ emdash @ '' skip it.'' @ nl
     @ ''2. Work the items in order, one commit each, carrying the session'' @ [CHR 0x27] @ ''s context'' @ nl
     @ ''   forward. Verify as you go: run the project'' @ [CHR 0x27] @ ''s build and tests; leave the'' @ nl
     @ ''   repo green. Partial completion with a green verify gate is a SUCCESS.'' @ nl
     @ ''3. Close the loop per item in TODO_LIST.md: tick each finished item [x]; an'' @ nl
     @ ''   item you could NOT finish stays unchecked with'' @ nl
     @ ''   '' @ [CHR 0x22] @ '' '' @ emdash @ '' BLOCKED: <one-line reason>'' @ [CHR 0x22] @ '' appended '' @ emdash @ '' finish the rest anyway.'' @ nl
     @ ''4. Commit each item separately with a clear message ending in this exact'' @ nl
     @ ''   footer line:'' @ nl @ nl
     @ ''   Task-Queue-ID: {{TASK_ID}}'' @ nl @ nl
     @ ''   The footer must be the FINAL line of the message: if your tooling appends'' @ nl
     @ ''   an attribution block (e.g. '' @ [CHR 0x22] @ ''Generated with Crush'' @ [CHR 0x22] @ '' / '' @ [CHR 0x22] @ ''Assisted-by'' @ [CHR 0x22] @ ''), put'' @ nl
     @ ''   the footer AFTER that block '' @ emdash @ '' a footer stranded above attribution is'' @ nl
     @ ''   invisible to git trailers and the pre-commit hook rejects the commit.'' @ nl
     @ ''   Never push. Never edit .crushrc, crush.json, or .tq-verify.'' @ nl
     @ ''5. Follow-ups you discover go to the backlog: append NEW unchecked TODO_LIST'' @ nl
     @ ''   items (one per line, agent-executable) '' @ emdash @ '' no item describing THIS batch'' @ [CHR 0x27] @ ''s work.'' @ nl @ nl
     @ ''The queue derives what you did '' @ emdash @ '' commits via the footer, files via git.''"

definition DefaultCatchupPrompt :: string where
  "DefaultCatchupPrompt =
     ''Repository: {{REPO_ABS}}'' @ nl @ nl
     @ ''An earlier agent already finished this TODO_LIST.md item and its work was'' @ nl
     @ ''verified (tests pass, tree committed), but the checkbox was never ticked:'' @ nl @ nl
     @ ''Section '' @ [CHR 0x22] @ ''{{HEADING}}'' @ [CHR 0x22] @ '': '' @ [CHR 0x22] @ ''{{ITEM}}'' @ [CHR 0x22] @ nl @ nl
     @ ''Contract:'' @ nl
     @ ''1. Verify the item is genuinely done (do NOT redo the work). If it is NOT'' @ nl
     @ ''   done after all, stop and leave the file unchanged.'' @ nl
     @ ''2. Tick exactly this one checkbox in TODO_LIST.md (or remove the line if the'' @ nl
     @ ''   file'' @ [CHR 0x27] @ ''s conventions prefer that). Change nothing else '' @ emdash @ '' in particular never'' @ nl
     @ ''   touch .crushrc, crush.json, or .tq-verify (they define your autonomy and'' @ nl
     @ ''   your verify gate).'' @ nl
     @ ''3. Commit with a clear message ending in the exact footer line'' @ nl
     @ ''   Task-Queue-ID: {{TASK_ID}}'' @ nl
     @ ''   (you have explicit permission to commit for'' @ nl
     @ ''   this task). The footer must be the FINAL line of the message: if your'' @ nl
     @ ''   tooling appends an attribution block (e.g. '' @ [CHR 0x22] @ ''Generated with Crush'' @ [CHR 0x22] @ '' /'' @ nl
     @ ''   '' @ [CHR 0x22] @ ''Assisted-by'' @ [CHR 0x22] @ ''), put the footer AFTER that block '' @ emdash @ '' a footer stranded'' @ nl
     @ ''   above attribution is invisible to git trailers and the pre-commit hook'' @ nl
     @ ''   rejects the commit. Never push.'' @ nl @ nl
     @ ''The queue derives your commit via the footer '' @ emdash @ '' you do not report anything yourself.''"

record config =
  c_ProjectsDir :: string
  c_Repos :: "string list"
  c_Type :: string
  c_TodoFile :: string
  c_MaxPerTick :: int
  c_MaxAttempts :: int
  c_Priority :: int
  c_SameSessionPriority :: int
  c_UseImportance :: bool
  c_MaxPendingPerRepo :: int
  c_PromptTemplate :: string
  c_BatchPromptTemplate :: string
  c_BatchItems :: int
  c_BatchEffortMinutes :: int
  c_EffortEstimator :: "(item list \<Rightarrow> string \<Rightarrow> int option) option"
  c_Model :: string
  c_RepoIntervals :: "string \<Rightarrow> duration option"
  c_RepoTimeouts :: "string \<Rightarrow> duration option"
  c_DLQBackoff :: duration
  c_RequireClean :: "bool option"
  c_DryRun :: bool
  c_ForceRedispatch :: bool
  c_RedispatchCooldown :: duration

definition withDefaults :: "config \<Rightarrow> config" where
  "withDefaults c =
     (let items = (if c_BatchItems c < 1 then 1 else c_BatchItems c) in
      c\<lparr>c_Type := (if c_Type c = [] then DefaultType else c_Type c),
        c_TodoFile := (if c_TodoFile c = [] then DefaultTodoFile else c_TodoFile c),
        c_MaxPerTick := (if c_MaxPerTick c \<le> 0 then DefaultMaxPerTick else c_MaxPerTick c),
        c_PromptTemplate := (if c_PromptTemplate c = [] then DefaultPromptTemplate else c_PromptTemplate c),
        c_BatchPromptTemplate := (if c_BatchPromptTemplate c = [] then DefaultBatchPromptTemplate else c_BatchPromptTemplate c),
        c_BatchItems := items,
        c_BatchEffortMinutes := (if c_BatchEffortMinutes c \<le> 0 then items * DefaultBatchTimeoutMinutes else c_BatchEffortMinutes c)\<rparr>)"

section \<open>Citations\<close>

definition uniq :: "'a list \<Rightarrow> 'a list" where
  "uniq xs = fold (\<lambda>x acc. if x \<in> set acc then acc else acc @ [x]) xs []"

definition hex_lower :: "char \<Rightarrow> bool" where
  "hex_lower c \<longleftrightarrow> (let n = of_char c :: nat in 48 \<le> n \<and> n \<le> 57 \<or> 97 \<le> n \<and> n \<le> 102)"

definition shaRe :: re where
  "shaRe = cats [WordB, Rep 7 (Some 40) (Chr hex_lower), WordB]"

definition found_texts :: "re \<Rightarrow> string \<Rightarrow> string list" where
  "found_texts r s = map (\<lambda>(a, b). take (b - a) (drop a s)) (find_all r s)"

definition isDangling :: "surroundings \<Rightarrow> string \<Rightarrow> string \<Rightarrow> bool" where
  "isDangling su repo cand \<longleftrightarrow> fst (su_git su repo [''merge-base'', ''--is-ancestor'', cand, ''HEAD'']) = Some 1"

definition danglingSHAs :: "surroundings \<Rightarrow> string \<Rightarrow> string \<Rightarrow> string list" where
  "danglingSHAs su repo txt = filter (isDangling su repo) (uniq (found_texts shaRe txt))"

definition citationBlock :: "string list \<Rightarrow> string" where
  "citationBlock dangles =
     ''CITATION CHECK: this task text cites git SHA(s) '' @ str_join '', '' dangles
     @ '' that are NOT reachable on the repo'' @ [CHR 0x27] @ ''s current HEAD (pre-rebase dangles). Re-resolve each to its reachable counterpart (git log --all, reflog, or the item'' @ [CHR 0x27]
     @ ''s own source report) before relying on it, and fix the source item to cite reachable SHAs only.''"

section \<open>Signals\<close>

definition gitSucceeds :: "surroundings \<Rightarrow> string \<Rightarrow> string list \<Rightarrow> bool" where
  "gitSucceeds su dir args \<longleftrightarrow> fst (su_git su dir args) = Some 0"

definition gitOutputs :: "surroundings \<Rightarrow> string \<Rightarrow> string list \<Rightarrow> bool" where
  "gitOutputs su dir args \<longleftrightarrow> fst (su_git su dir args) = Some 0 \<and> trim_space (fst (snd (su_git su dir args))) \<noteq> []"

definition shortSHA :: "string \<Rightarrow> string" where
  "shortSHA sha = (if length sha > 8 then take 8 sha else sha)"

definition truncateItem :: "string \<Rightarrow> string" where
  "truncateItem txt = (let l = first_line txt in if length l > 120 then take 120 l @ ellipsis else l)"

definition doneReasonFooter :: string where "doneReasonFooter = ''done preflight: commit(s) already carry this task'' @ [CHR 0x27] @ ''s Task-Queue-ID footer''"
definition doneReasonFixCure :: string where "doneReasonFixCure = ''done preflight: fix ticket cured (''"
definition doneReasonTicked :: string where "doneReasonTicked = ''done preflight: TODO_LIST item is now [x]: ''"
definition doneReasonAbsent :: string where "doneReasonAbsent = ''done preflight: TODO_LIST item no longer present (key ''"
definition doneReasonReport :: string where "doneReasonReport = ''done preflight: closeout report already exists (docs/status)''"
definition doneReasonVerdict :: string where "doneReasonVerdict = ''verdict marker reads already_done (task ''"
definition doneReasonClaim :: string where "doneReasonClaim = ''live claim marker held by another session (task ''"
definition doneReasonBlocked :: string where "doneReasonBlocked = ''verdict marker reads blocked_needs_root (task ''"

definition path_join :: "string \<Rightarrow> string \<Rightarrow> string" where
  "path_join a b = a @ ''/'' @ b"

definition donePreflightRepoDir :: "surroundings \<Rightarrow> config \<Rightarrow> string \<Rightarrow> string option" where
  "donePreflightRepoDir su c repo =
     (if has_prefix repo ''/'' then (if su_isdir su repo then Some repo else None)
      else if c_ProjectsDir c = [] then None
      else let dir = path_join (c_ProjectsDir c) repo in if su_isdir su dir then Some dir else None)"

text \<open>A signal: \<open>None\<close> when it is silent, otherwise its reason.\<close>

definition footerCommitExists :: "surroundings \<Rightarrow> string \<Rightarrow> task \<Rightarrow> string option" where
  "footerCommitExists su dir t =
     (case CommitsByTrailer su dir TaskTrailer (ID t) of
        Inl _ \<Rightarrow> None
      | Inr commits \<Rightarrow> if commits = [] then None else Some doneReasonFooter)"

definition fixTicketCured :: "surroundings \<Rightarrow> string \<Rightarrow> harvest_payload \<Rightarrow> string option" where
  "fixTicketCured su dir p =
     (let sha = trim_space (ap_RejectedSHA (hp_agent p)) in
      if sha = [] then None
      else let present = gitSucceeds su dir [''cat-file'', ''-e'', sha];
               cited = gitOutputs su dir [''log'', ''--all'', ''--format=%H'', ''--grep'', sha];
               anchor = trim_space (ap_Anchor (hp_agent p));
               anchorGone = (anchor \<noteq> [] \<and> \<not> gitOutputs su dir [''grep'', ''-F'', ''--'', ap_Anchor (hp_agent p)]) in
        if present \<and> cited then Some (doneReasonFixCure @ ''superseding commit cites '' @ shortSHA sha @ '')'')
        else if \<not> present \<and> anchorGone then Some (doneReasonFixCure @ ''rejected SHA gone and anchor text absent)'')
        else if present \<and> \<not> cited \<and> anchorGone
        then Some (doneReasonFixCure @ ''SHA '' @ shortSHA sha @ '' unreferenced and anchor text absent at HEAD)'')
        else None)"

definition candidateItemKeys :: "harvest_payload \<Rightarrow> string list" where
  "candidateItemKeys p =
     (if hp_ItemKeys p \<noteq> [] then hp_ItemKeys p
      else let key = trim_space (hp_Dedup p) in
        if key = [] \<or> has_prefix key BatchKeyPrefix then [] else [trim_prefix key CatchupKeyPrefix])"

definition itemKeysFor :: "task \<Rightarrow> harvest_payload \<Rightarrow> string list" where
  "itemKeysFor t p =
     (if payloadItemKeys t \<noteq> [] then payloadItemKeys t
      else let key = trim_space (hp_Dedup p) in
        if key = [] \<or> has_prefix key BatchKeyPrefix then [] else [trim_prefix key CatchupKeyPrefix])"

definition firstKeyText :: "string list \<Rightarrow> harvest_payload \<Rightarrow> string" where
  "firstKeyText keys p = (let txt = trim_space (ap_Item (hp_agent p)) in if txt \<noteq> [] then truncateItem txt else hd keys)"

definition todoFileOf :: "config \<Rightarrow> string" where
  "todoFileOf c = (if c_TodoFile c = [] then DefaultTodoFile else c_TodoFile c)"

text \<open>The state of the rows by key, the last row of a key deciding.\<close>

definition rows_of :: "item list \<Rightarrow> string \<Rightarrow> bool option" where
  "rows_of its = fold (\<lambda>it m. m(it_Key it \<mapsto> it_Done it)) its Map.empty"

definition todoState :: "surroundings \<Rightarrow> config \<Rightarrow> string \<Rightarrow> string + (string \<Rightarrow> bool option)" where
  "todoState su c base = map_sum id rows_of (ParseRepoAll su base (todoFileOf c))"

definition allTicked :: "(string \<Rightarrow> bool option) \<Rightarrow> string list \<Rightarrow> bool" where
  "allTicked rows keys \<longleftrightarrow> list_all (\<lambda>k. rows k = Some True) keys"

definition allAbsent :: "(string \<Rightarrow> bool option) \<Rightarrow> string list \<Rightarrow> bool" where
  "allAbsent rows keys \<longleftrightarrow> list_all (\<lambda>k. rows k = None) keys"

definition rowClosed :: "(string \<Rightarrow> bool option) \<Rightarrow> string list \<Rightarrow> bool" where
  "rowClosed rows keys \<longleftrightarrow> allTicked rows keys \<or> allAbsent rows keys"

definition closed_reason :: "surroundings \<Rightarrow> config \<Rightarrow> string \<Rightarrow> string list \<Rightarrow> harvest_payload \<Rightarrow> string option" where
  "closed_reason su c dir keys p =
     (if keys = [] then None
      else case todoState su c dir of
        Inl _ \<Rightarrow> None
      | Inr rows \<Rightarrow>
          if allAbsent rows keys then Some (doneReasonAbsent @ hd keys @ '')'')
          else if allTicked rows keys then Some (doneReasonTicked @ firstKeyText keys p)
          else None)"

definition mintItemClosed :: "surroundings \<Rightarrow> config \<Rightarrow> string \<Rightarrow> harvest_payload \<Rightarrow> string option" where
  "mintItemClosed su c dir p = closed_reason su c dir (candidateItemKeys p) p"

definition itemStale :: "surroundings \<Rightarrow> config \<Rightarrow> string \<Rightarrow> task \<Rightarrow> harvest_payload \<Rightarrow> string option" where
  "itemStale su c dir t p = closed_reason su c dir (itemKeysFor t p) p"

definition batchHasOpenMembers :: "surroundings \<Rightarrow> config \<Rightarrow> string \<Rightarrow> task \<Rightarrow> harvest_payload \<Rightarrow> bool" where
  "batchHasOpenMembers su c dir t p \<longleftrightarrow> length (itemKeysFor t p) > 1 \<and> itemStale su c dir t p = None"

definition closeoutReportExists :: "surroundings \<Rightarrow> string \<Rightarrow> string \<Rightarrow> bool" where
  "closeoutReportExists su dir i \<longleftrightarrow>
     list_ex (\<lambda>sub. su_glob su dir [''docs'', ''status'', sub, ''*_task-'' @ i @ ''*'']) [''tasks'', ''.'']"

definition hexRunRe :: re where "hexRunRe = plus1 (Chr hex_lower)"

definition cited_ids :: "string \<Rightarrow> string list" where
  "cited_ids prompt = filter (\<lambda>u. length u = 36) (found_texts hexRunRe prompt)"

definition closeoutCited :: "surroundings \<Rightarrow> string \<Rightarrow> string \<Rightarrow> string option" where
  "closeoutCited su dir prompt =
     map_option (\<lambda>i. doneReasonReport @ '' for cited task '' @ take 8 i @ '')'') (find (closeoutReportExists su dir) (cited_ids prompt))"

definition defaultClaimLiveWindow :: duration where "defaultClaimLiveWindow = 6 * hour"

definition claimWindow :: "config \<Rightarrow> duration" where
  "claimWindow c = (if c_RedispatchCooldown c > 0 then c_RedispatchCooldown c else defaultClaimLiveWindow)"

text \<open>The two terminal verdicts are tried in a fixed order; the code leaves the order to its map.\<close>

definition verdictBlock :: "surroundings \<Rightarrow> string \<Rightarrow> string \<Rightarrow> string option" where
  "verdictBlock su dir i =
     (case su_read su dir (''.tq/verdicts/'' @ i) of
        Contents raw \<Rightarrow>
          if str_contains raw ''verdict: already_done'' then Some doneReasonVerdict
          else if str_contains raw ''verdict: blocked_needs_root'' then Some doneReasonBlocked
          else None
      | _ \<Rightarrow> None)"

definition claimLive :: "surroundings \<Rightarrow> go_time \<Rightarrow> string \<Rightarrow> string \<Rightarrow> duration \<Rightarrow> bool" where
  "claimLive su now dir i window =
     (case su_mtime su dir [''.tq'', ''claimed'', i] of None \<Rightarrow> False | Some m \<Rightarrow> time_sub now m < window)"

definition markerRefusal :: "surroundings \<Rightarrow> go_time \<Rightarrow> string \<Rightarrow> string \<Rightarrow> duration \<Rightarrow> string option" where
  "markerRefusal su now dir i window =
     (case verdictBlock su dir i of
        Some reason \<Rightarrow> Some (reason @ shortSHA i @ '')'')
      | None \<Rightarrow> if claimLive su now dir i window then Some (doneReasonClaim @ shortSHA i @ '')'') else None)"

definition keysIntersect :: "string list \<Rightarrow> string list \<Rightarrow> bool" where
  "keysIntersect cand prior \<longleftrightarrow> list_ex (\<lambda>k. k \<in> set cand) prior"

fun first_reason :: "('a \<Rightarrow> string option) \<Rightarrow> 'a list \<Rightarrow> string option" where
  "first_reason f [] = None"
| "first_reason f (x # xs) = (case f x of Some r \<Rightarrow> Some r | None \<Rightarrow> first_reason f xs)"

text \<open>\<open>lister\<close> is the queue's \<open>List\<close>, absent when the harvester has no queue.\<close>

type_synonym lister = "(task_filter \<Rightarrow> qerr + task list) option"

definition repo_filter :: "config \<Rightarrow> string \<Rightarrow> task_filter" where
  "repo_filter c repoName = no_filter\<lparr>fl_Project := Some repoName, fl_Type := Some (c_Type c)\<rparr>"

definition prior_refusal :: "surroundings \<Rightarrow> config \<Rightarrow> go_time \<Rightarrow> string \<Rightarrow> string list \<Rightarrow> task \<Rightarrow> string option" where
  "prior_refusal su c now dir keys t =
     (case decodeHarvestPayload (Payload t) of
        None \<Rightarrow> None
      | Some tp \<Rightarrow> if keysIntersect keys (itemKeysFor t tp) then markerRefusal su now dir (ID t) (claimWindow c) else None)"

definition markerBlocked :: "surroundings \<Rightarrow> config \<Rightarrow> lister \<Rightarrow> go_time \<Rightarrow> string \<Rightarrow> harvest_payload \<Rightarrow> string option" where
  "markerBlocked su c q now dir p =
     (case first_reason (\<lambda>i. markerRefusal su now dir i (claimWindow c)) (cited_ids (ap_Prompt (hp_agent p))) of
        Some reason \<Rightarrow> Some reason
      | None \<Rightarrow>
          let keys = candidateItemKeys p in
          (case q of
             None \<Rightarrow> None
           | Some list_tasks \<Rightarrow>
               if keys = [] then None
               else case list_tasks (repo_filter c (path_base dir)) of
                 Inl _ \<Rightarrow> None
               | Inr ts \<Rightarrow> first_reason (prior_refusal su c now dir keys) ts))"

section \<open>The gates\<close>

definition or_else :: "'a option \<Rightarrow> 'a option \<Rightarrow> 'a option" where
  "or_else a b = (case a of Some x \<Rightarrow> Some x | None \<Rightarrow> b)"

definition RedispatchCheck :: "surroundings \<Rightarrow> config \<Rightarrow> lister \<Rightarrow> go_time \<Rightarrow> new_task \<Rightarrow> string option" where
  "RedispatchCheck su c q now n =
     (case decodeHarvestPayload (n_Payload n) of
        None \<Rightarrow> None
      | Some p \<Rightarrow>
          (case donePreflightRepoDir su c (ap_Repo (hp_agent p)) of
             None \<Rightarrow> None
           | Some dir \<Rightarrow>
               or_else (fixTicketCured su dir p) (or_else (mintItemClosed su c dir p)
                 (or_else (closeoutCited su dir (ap_Prompt (hp_agent p))) (markerBlocked su c q now dir p)))))"

definition refuseUnlessForced :: "surroundings \<Rightarrow> config \<Rightarrow> lister \<Rightarrow> go_time \<Rightarrow> new_task \<Rightarrow> string option" where
  "refuseUnlessForced su c q now n = (if c_ForceRedispatch c then None else RedispatchCheck su c q now n)"

definition DonePreflight :: "surroundings \<Rightarrow> config \<Rightarrow> task \<Rightarrow> string option" where
  "DonePreflight su c t =
     (case decodeHarvestPayload (Payload t) of
        None \<Rightarrow> None
      | Some p \<Rightarrow>
          (case donePreflightRepoDir su c (ap_Repo (hp_agent p)) of
             None \<Rightarrow> None
           | Some dir \<Rightarrow>
               (let footer = footerCommitExists su dir t in
                if footer \<noteq> None \<and> \<not> batchHasOpenMembers su c dir t p then footer
                else or_else (fixTicketCured su dir p) (or_else (itemStale su c dir t p)
                  (if closeoutReportExists su dir (ID t) then Some doneReasonReport else None)))))"

section \<open>Payloads read back\<close>

definition payload_in_range :: "harvest_payload \<Rightarrow> bool" where
  "payload_in_range p \<longleftrightarrow> int64 (ap_V (hp_agent p)) \<and> int64 (ap_TimeoutMinutes (hp_agent p)) \<and> int64 (hp_MarkerLevel p)
     \<and> list_all int64 (hp_EffortMinutes p) \<and> list_all (\<lambda>j. dec_answer j = Some j) (ap_Answered (hp_agent p))"

lemma omit_lookup:
  "map_of (omit_empty k v @ r) x = (if k = x \<and> v \<noteq> [] then Some (JStr v) else map_of r x)"
  "map_of (omit_int k i @ r) x = (if k = x \<and> i \<noteq> 0 then Some (jint i) else map_of r x)"
  "map_of (omit_false k b @ r) x = (if k = x \<and> b then Some (JBool True) else map_of r x)"
  "map_of (omit_strs k vs @ r) x = (if k = x \<and> vs \<noteq> [] then Some (jstrs vs) else map_of r x)"
  "map_of (omit_strs k vs) x = (if k = x \<and> vs \<noteq> [] then Some (jstrs vs) else None)"
  "map_of (omit_arr k js @ r) x = (if k = x \<and> js \<noteq> [] then Some (JArr js) else map_of r x)"
  "map_of (omit_none k jo @ r) x = (if k = x \<and> jo \<noteq> None then jo else map_of r x)"
  by (auto simp: omit_empty_def omit_int_def omit_false_def omit_strs_def omit_arr_def omit_none_def split: option.splits)

lemma field_hits:
  "map_of kvs k = (if v \<noteq> [] then Some (JStr v) else None) \<Longrightarrow> jstr_field k kvs = Some v"
  "map_of kvs k = (if i \<noteq> 0 then Some (jint i) else None) \<Longrightarrow> int64 i \<Longrightarrow> jint_field k kvs = Some i"
  "map_of kvs k = (if b then Some (JBool True) else None) \<Longrightarrow> jbool_field k kvs = Some b"
  "map_of kvs k = (if vs \<noteq> [] then Some (jstrs vs) else None) \<Longrightarrow> jstrs_field k kvs = Some vs"
  "map_of kvs k = (if js \<noteq> [] then Some (JArr js) else None) \<Longrightarrow> those (map dec js) = Some ys \<Longrightarrow> jlist_field dec k kvs = Some ys"
  "map_of kvs k = map_option JBool c \<Longrightarrow> jptr_field jbool k kvs = Some c"
  by (auto simp: jstr_field_def jint_field_def jbool_field_def jstrs_field_def jstrs_def jlist_field_def jptr_field_def jbool_def
      split: if_splits option.splits)

lemma those_map_id: "list_all (\<lambda>x. f x = Some x) xs \<Longrightarrow> those (map f xs) = Some xs"
  by (induction xs) auto

lemma those_ints: "list_all int64 is \<Longrightarrow> those (map dec_int (map jint is)) = Some is"
  by (induction "is") (auto simp: dec_int_def jint_field_def)

lemma dec_agent_fields:
  assumes "payload_in_range p"
  shows "dec_agent (payload_fields p) = Some (hp_agent p)"
proof -
  let ?a = "hp_agent p" and ?k = "payload_fields p"
  note look = payload_fields_def agent_fields_def omit_lookup append_assoc append_Cons append_Nil
  have r: "int64 (ap_V ?a)" "int64 (ap_TimeoutMinutes ?a)" "those (map dec_answer (ap_Answered ?a)) = Some (ap_Answered ?a)"
    using assms by (simp_all add: payload_in_range_def those_map_id)
  have s: "jstr_field ''model'' ?k = Some (ap_Model ?a)" "jstr_field ''session'' ?k = Some (ap_Session ?a)"
    "jstr_field ''item'' ?k = Some (ap_Item ?a)" "jstr_field ''verify'' ?k = Some (ap_Verify ?a)"
    "jstr_field ''rejected_sha'' ?k = Some (ap_RejectedSHA ?a)" "jstr_field ''anchor'' ?k = Some (ap_Anchor ?a)"
    by (rule field_hits(1); simp add: look del: map_of_append)+
  have q: "jstr_field ''repo'' ?k = Some (ap_Repo ?a)" "jstr_field ''prompt'' ?k = Some (ap_Prompt ?a)"
    by (simp_all add: jstr_field_def look del: map_of_append)
  have i: "jint_field ''v'' ?k = Some (ap_V ?a)" "jint_field ''timeout_minutes'' ?k = Some (ap_TimeoutMinutes ?a)"
    by (rule field_hits(2); simp add: look r del: map_of_append)+
  have b: "jbool_field ''yolo'' ?k = Some (ap_Yolo ?a)" by (rule field_hits(3)) (simp add: look del: map_of_append)
  have l: "jstrs_field ''items'' ?k = Some (ap_Items ?a)" by (rule field_hits(4)) (simp add: look del: map_of_append)
  have an: "jlist_field dec_answer ''answered'' ?k = Some (ap_Answered ?a)" by (rule field_hits(5) [OF _ r(3)]) (simp add: look del: map_of_append)
  have rc: "jptr_field jbool ''require_clean'' ?k = Some (ap_RequireClean ?a)"
    by (rule field_hits(6)) (cases "ap_RequireClean ?a"; simp add: look del: map_of_append)
  show ?thesis by (simp add: dec_agent_def s q i b l an rc)
qed

lemma dec_payload_json:
  assumes "payload_in_range p"
  shows "dec_payload (marshal (payload_json p)) = Some p"
proof -
  let ?k = "payload_fields p"
  note look = payload_fields_def agent_fields_def omit_lookup append_assoc append_Cons append_Nil
  have r: "int64 (hp_MarkerLevel p)" "those (map dec_int (map jint (hp_EffortMinutes p))) = Some (hp_EffortMinutes p)"
    using assms by (simp_all add: payload_in_range_def those_ints del: map_map)
  have "jstr_field ''dedup'' ?k = Some (hp_Dedup p)" by (rule field_hits(1)) (simp add: look del: map_of_append)
  moreover have "jlist_field dec_int ''effortMinutes'' ?k = Some (hp_EffortMinutes p)"
    by (rule field_hits(5) [OF _ r(2)]) (simp add: look del: map_of_append)
  moreover have "jint_field ''markerLevel'' ?k = Some (hp_MarkerLevel p)" by (rule field_hits(2) [OF _ r(1)]) (simp add: look del: map_of_append)
  moreover have "jstrs_field ''itemKeys'' ?k = Some (hp_ItemKeys p)" by (rule field_hits(4)) (simp add: look del: map_of_append)
  ultimately show ?thesis using dec_agent_fields [OF assms] by (simp add: dec_payload_def payload_json_def jfields_def)
qed

lemma payload_text [simp]: "jt_text (marshal (payload_json p)) \<noteq> []"
  by (simp add: marshal_def payload_json_def)

lemma payloadDedup_json:
  assumes "payload_in_range p" "Payload t = marshal (payload_json p)"
  shows "payloadDedup t = hp_Dedup p" "payloadItemKeys t = hp_ItemKeys p"
proof -
  have "jstr_field ''dedup'' (payload_fields p) = Some (hp_Dedup p)"
    by (rule field_hits(1)) (simp add: payload_fields_def agent_fields_def omit_lookup del: map_of_append)
  then show "payloadDedup t = hp_Dedup p" using assms(2) by (simp add: payloadDedup_def payload_json_def jfields_def) (simp add: marshal_def)
  show "payloadItemKeys t = hp_ItemKeys p" using assms dec_payload_json [OF assms(1)] by (simp add: payloadItemKeys_def)
qed

end
