(* ===== verification/Tq_Harvest.thy ===== *)
theory Tq_Harvest
  imports Tq_Mintgate Tq_Adapter
begin

text \<open>
  Package \<open>internal/harvest\<close>, admission (\<open>harvest.go\<close>): what a repository's open items are denied for, how
  a section's items are grouped into batches, what a mint carries, and one pass over all repositories.
  The queue is the record \<open>harvest_ops\<close>, polymorphic in the store; \<open>adapter_harvest\<close> is its instance on the
  SQL-backed store. Log lines are left out; the clock is read once per pass.
\<close>

section \<open>The queue\<close>

record 's harvest_ops =
  ho_Enqueue :: "new_task \<Rightarrow> 's \<Rightarrow> (task option \<times> qerr option) \<times> 's"
  ho_List :: "task_filter \<Rightarrow> 's \<Rightarrow> qerr + task list"
  ho_PriorityScore :: "string \<Rightarrow> 's \<Rightarrow> qerr + priority_score option"
  ho_Cancel :: "task_id \<Rightarrow> string \<Rightarrow> 's \<Rightarrow> (qerr + unit) \<times> 's"
  ho_UpdatePendingPriority :: "task_id \<Rightarrow> int \<Rightarrow> string \<Rightarrow> string \<Rightarrow> 's \<Rightarrow> (qerr + unit) \<times> 's"

definition adapter_harvest :: "engine_ops \<Rightarrow> go_time \<Rightarrow> sql_store harvest_ops" where
  "adapter_harvest e now =
     \<lparr>ho_Enqueue = Queue_Enqueue (adapter_ops e now), ho_List = StoreList now,
      ho_PriorityScore = (\<lambda>k s. Inr (PriorityScore (s_db s) k)), ho_Cancel = Cancel e,
      ho_UpdatePendingPriority = UpdatePendingPriority e\<rparr>"

definition lister_of :: "'s harvest_ops \<Rightarrow> 's \<Rightarrow> lister" where
  "lister_of ops s = Some (\<lambda>f. ho_List ops f s)"

section \<open>Reasons\<close>

datatype skip_reason =
    Blocked string
  | InDLQ
  | WasCancelled
  | Tracked status
  | PausedImportance
  | Poisoned duration
  | PacedInterval duration duration
  | RepoBusy
  | PendingCap int int
  | PacedOneNew
  | TickCap
  | ListFailed qerr
  | MetadataFailed import_error
  | ScanFailed string
  | AlreadyDone
  | RedispatchRefused string
  | EnqueueFailed qerr

datatype mint_error = QueueError qerr | Refusal string

definition enqueueSkipReason :: "mint_error \<Rightarrow> skip_reason" where
  "enqueueSkipReason e =
     (case e of QueueError q \<Rightarrow> if q = ErrTaskDone then AlreadyDone else EnqueueFailed q | Refusal r \<Rightarrow> RedispatchRefused r)"

definition trackedItemDenial :: "status \<Rightarrow> skip_reason" where
  "trackedItemDenial st = (if st = Dead then InDLQ else if st = Cancelled then WasCancelled else Tracked st)"

text \<open>The part of a text behind the first \<open>BLOCKED:\<close>.\<close>

fun cut_after :: "string \<Rightarrow> string \<Rightarrow> string option" where
  "cut_after sep [] = (if sep = [] then Some [] else None)"
| "cut_after sep (c # cs) = (if has_prefix (c # cs) sep then Some (drop (length sep) (c # cs)) else cut_after sep cs)"

definition blockedReason :: "string \<Rightarrow> string option" where
  "blockedReason txt =
     map_option (\<lambda>rest. let r = trim_space rest in if r = [] then ''no reason given'' else r) (cut_after ''BLOCKED:'' txt)"

section \<open>A repository in the queue\<close>

record repo_state =
  st_busy :: bool
  st_anyRunning :: bool
  st_pendingCount :: int
  st_known :: "string \<Rightarrow> status option"
  st_poisoned :: bool
  st_interval :: duration
  st_lastCreated :: go_time
  st_importance :: int

definition learn :: "status \<Rightarrow> string \<Rightarrow> (string \<Rightarrow> status option) \<Rightarrow> string \<Rightarrow> status option" where
  "learn st k m = (if m k = None then m(k \<mapsto> st) else m)"

definition observe_task :: "task \<Rightarrow> repo_state \<Rightarrow> repo_state" where
  "observe_task t rs =
     (let rs1 = (case Status t of
          Pending \<Rightarrow> rs\<lparr>st_busy := True, st_pendingCount := st_pendingCount rs + 1\<rparr>
        | Running \<Rightarrow> rs\<lparr>st_busy := True, st_anyRunning := True\<rparr>
        | _ \<Rightarrow> rs);
          rs2 = (if CreatedAt t > st_lastCreated rs1 then rs1\<lparr>st_lastCreated := CreatedAt t\<rparr> else rs1);
          key = payloadDedup t in
      if key = [] then rs2
      else rs2\<lparr>st_known := fold (learn (Status t)) (key # payloadItemKeys t) (st_known rs2)\<rparr>)"

definition poisoned_repo :: "config \<Rightarrow> go_time \<Rightarrow> task list \<Rightarrow> bool" where
  "poisoned_repo c now ts \<longleftrightarrow>
     (let deads = filter (\<lambda>t. Status t = Dead) ts;
          lastDead = fold (\<lambda>t m. if UpdatedAt t > m then UpdatedAt t else m) deads zero_time in
      deads \<noteq> [] \<and> \<not> list_ex (\<lambda>t. Status t = Completed) ts \<and> c_DLQBackoff c > 0 \<and> time_sub now lastDead < c_DLQBackoff c)"

definition fresh_state :: "config \<Rightarrow> string \<Rightarrow> repo_state" where
  "fresh_state c repoName =
     \<lparr>st_busy = False, st_anyRunning = False, st_pendingCount = 0, st_known = Map.empty, st_poisoned = False,
      st_interval = (case c_RepoIntervals c repoName of None \<Rightarrow> 0 | Some d \<Rightarrow> d), st_lastCreated = zero_time, st_importance = DefaultImportance\<rparr>"

definition surveyRepo :: "surroundings \<Rightarrow> config \<Rightarrow> 's harvest_ops \<Rightarrow> go_time \<Rightarrow> string \<Rightarrow> 's \<Rightarrow> skip_reason + repo_state" where
  "surveyRepo su c ops now repo s =
     (case ho_List ops (repo_filter c (path_base repo)) s of
        Inl e \<Rightarrow> Inl (ListFailed e)
      | Inr ts \<Rightarrow>
          let rs = (fold observe_task ts (fresh_state c (path_base repo)))\<lparr>st_poisoned := poisoned_repo c now ts\<rparr> in
          if c_UseImportance c then
            (case ReadImportance (su_read su repo ''.config/metadata.yaml'') of
               Inl e \<Rightarrow> Inl (MetadataFailed e)
             | Inr i \<Rightarrow> Inr (rs\<lparr>st_importance := i\<rparr>))
          else Inr rs)"

text \<open>\<open>time.Duration.Round(time.Second)\<close>: halves are rounded away from zero.\<close>

definition round_second :: "duration \<Rightarrow> duration" where
  "round_second d = sgn d * ((\<bar>d\<bar> + second div 2) div second * second)"

definition stateDenial :: "config \<Rightarrow> go_time \<Rightarrow> repo_state \<Rightarrow> skip_reason option" where
  "stateDenial c now rs =
     (if c_UseImportance c \<and> st_importance rs = 0 then Some PausedImportance
      else if st_poisoned rs then Some (Poisoned (c_DLQBackoff c))
      else if st_interval rs > 0 \<and> \<not> is_zero (st_lastCreated rs) \<and> time_sub now (st_lastCreated rs) < st_interval rs
      then Some (PacedInterval (st_interval rs) (round_second (time_sub now (st_lastCreated rs))))
      else None)"

definition occupancyDenial :: "config \<Rightarrow> repo_state \<Rightarrow> skip_reason option" where
  "occupancyDenial c rs =
     (if c_MaxPendingPerRepo c > 0 then
        if st_anyRunning rs then Some RepoBusy
        else if st_pendingCount rs \<ge> c_MaxPendingPerRepo c then Some (PendingCap (st_pendingCount rs) (c_MaxPendingPerRepo c))
        else None
      else if st_busy rs then Some RepoBusy else None)"

definition itemDenial :: "config \<Rightarrow> go_time \<Rightarrow> repo_state \<Rightarrow> item \<Rightarrow> bool \<Rightarrow> int \<Rightarrow> skip_reason option" where
  "itemDenial c now rs it enqueuedThisRepo enqueuedThisTick =
     (case blockedReason (it_Text it) of
        Some r \<Rightarrow> Some (Blocked r)
      | None \<Rightarrow>
          (case (if it_Key it = [] then None else st_known rs (it_Key it)) of
             Some st \<Rightarrow> if status_string st \<noteq> [] then Some (trackedItemDenial st)
               else or_else (stateDenial c now rs) (or_else (occupancyDenial c rs)
                 (if enqueuedThisRepo then Some PacedOneNew else if enqueuedThisTick \<ge> c_MaxPerTick c then Some TickCap else None))
           | None \<Rightarrow> or_else (stateDenial c now rs) (or_else (occupancyDenial c rs)
                 (if enqueuedThisRepo then Some PacedOneNew else if enqueuedThisTick \<ge> c_MaxPerTick c then Some TickCap else None))))"

section \<open>Mints\<close>

fun replace_go :: "string \<Rightarrow> string \<Rightarrow> nat \<Rightarrow> string \<Rightarrow> string" where
  "replace_go old new k [] = []"
| "replace_go old new (Suc k) (c # cs) = replace_go old new k cs"
| "replace_go old new 0 (c # cs) =
     (if has_prefix (c # cs) old then new @ replace_go old new (length old - 1) cs else c # replace_go old new 0 cs)"

text \<open>\<open>strings.ReplaceAll\<close> of a text that is not empty.\<close>

definition str_replace :: "string \<Rightarrow> string \<Rightarrow> string \<Rightarrow> string" where
  "str_replace s old new = replace_go old new 0 s"

definition substitute :: "(string \<times> string) list \<Rightarrow> string \<Rightarrow> string" where
  "substitute ps s = fold (\<lambda>(old, new) acc. str_replace acc old new) ps s"

definition ReadTQVerify :: "surroundings \<Rightarrow> string \<Rightarrow> string" where
  "ReadTQVerify su dir = (case su_read su dir ''.tq-verify'' of Contents b \<Rightarrow> trim_space b | _ \<Rightarrow> [])"

definition with_citations :: "surroundings \<Rightarrow> string \<Rightarrow> string \<Rightarrow> string \<Rightarrow> string" where
  "with_citations su repo txt prompt =
     (let dangles = danglingSHAs su repo txt in if dangles = [] then prompt else prompt @ nl @ nl @ citationBlock dangles)"

text \<open>Repositories under the projects directory are named relatively.\<close>

definition payload_repo :: "surroundings \<Rightarrow> config \<Rightarrow> item \<Rightarrow> string" where
  "payload_repo su c it =
     (if c_ProjectsDir c = [] then it_Repo it
      else case su_abs su (c_ProjectsDir c) of
        Inl _ \<Rightarrow> it_Repo it
      | Inr dir \<Rightarrow> if has_prefix (it_Repo it) (dir @ ''/'') then it_RepoName it else it_Repo it)"

definition minutes_of :: "duration \<Rightarrow> int" where
  "minutes_of d = quot d minute"

definition buildPayload :: "surroundings \<Rightarrow> config \<Rightarrow> item \<Rightarrow> string \<Rightarrow> string \<Rightarrow> harvest_payload" where
  "buildPayload su c it prompt0 dedupKey =
     (let prompt = with_citations su (it_Repo it) (it_Text it) (substitute
            [(''{{REPO_ABS}}'', it_Repo it), (''{{REPO}}'', it_RepoName it), (''{{HEADING}}'', it_Heading it), (''{{ITEM}}'', it_Text it),
             (''{{REPO_PURPOSE}}'', RepoPurpose (su_read su (it_Repo it) ''.config/metadata.yaml''))] prompt0) in
      \<lparr>hp_agent = no_agent\<lparr>ap_Repo := payload_repo su c it, ap_Prompt := prompt, ap_Item := it_Text it, ap_Model := c_Model c,
         ap_Verify := ReadTQVerify su (it_Repo it), ap_RequireClean := c_RequireClean c,
         ap_TimeoutMinutes := (case c_RepoTimeouts c (it_RepoName it) of Some d \<Rightarrow> if d > 0 then minutes_of d else 0 | None \<Rightarrow> 0)\<rparr>,
       hp_Dedup = dedupKey, hp_EffortMinutes = [], hp_MarkerLevel = it_MarkerLevel it, hp_ItemKeys = []\<rparr>)"

text \<open>The priority of an item, with its cached verdict when there is one.\<close>

definition item_priority :: "config \<Rightarrow> 's harvest_ops \<Rightarrow> item \<Rightarrow> int \<Rightarrow> 's \<Rightarrow> int \<times> priority_source" where
  "item_priority c ops it importance s =
     ResolvePriority \<lparr>ri_Text = it_Text it, ri_MarkerLevel = it_MarkerLevel it, ri_HotPriority = c_SameSessionPriority c,
       ri_FlatPriority = c_Priority c, ri_Importance = importance, ri_ImportanceEnabled = c_UseImportance c,
       ri_AIScore = (case ho_PriorityScore ops (it_Key it) s of Inr (Some sc) \<Rightarrow> Some (ClampBacklog (ps_Score sc)) | _ \<Rightarrow> None)\<rparr>"

definition candidate_task :: "config \<Rightarrow> string \<Rightarrow> harvest_payload \<Rightarrow> int \<Rightarrow> int \<Rightarrow> string \<Rightarrow> new_task" where
  "candidate_task c project p prio maxAttempts key =
     \<lparr>n_Project = project, n_Type = c_Type c, n_Payload = marshal (payload_json p), n_Deps = [], n_Priority = prio,
      n_MaxAttempts = maxAttempts, n_NotBefore = zero_time, n_DedupKey = key\<rparr>"

text \<open>The gate, then the queue. The task the queue hands back with \<open>ErrTaskDone\<close> is not used.\<close>

definition gated_enqueue :: "surroundings \<Rightarrow> config \<Rightarrow> 's harvest_ops \<Rightarrow> go_time \<Rightarrow> new_task \<Rightarrow> 's \<Rightarrow> (mint_error + task) \<times> 's" where
  "gated_enqueue su c ops now n s =
     (case refuseUnlessForced su c (lister_of ops s) now n of
        Some r \<Rightarrow> (Inl (Refusal r), s)
      | None \<Rightarrow>
          (case ho_Enqueue ops n s of
             ((Some t, None), s') \<Rightarrow> (Inr t, s')
           | ((_, Some e), s') \<Rightarrow> (Inl (QueueError e), s')
           | ((None, None), s') \<Rightarrow> (Inl (QueueError (StoreErr [])), s')))"

definition enqueue_item :: "surroundings \<Rightarrow> config \<Rightarrow> 's harvest_ops \<Rightarrow> go_time \<Rightarrow> item \<Rightarrow> int \<Rightarrow> 's \<Rightarrow> (mint_error + task) \<times> 's" where
  "enqueue_item su c ops now it importance s =
     gated_enqueue su c ops now
       (candidate_task c (it_RepoName it) (buildPayload su c it (c_PromptTemplate c) (it_Key it))
          (fst (item_priority c ops it importance s)) (c_MaxAttempts c) (it_Key it)) s"

fun sort_strings :: "string list \<Rightarrow> string list" where
  "sort_strings [] = []"
| "sort_strings (x # xs) = insort x (sort_strings xs)"

definition batchKeyOf :: "surroundings \<Rightarrow> item list \<Rightarrow> string" where
  "batchKeyOf su run = BatchKeyPrefix @ take 16 (su_digest su (str_join nl (sort_strings (map it_Key run))))"

definition numbered :: "string list \<Rightarrow> string" where
  "numbered txts = concat (map (\<lambda>(i, t). show_nat (i + 1) @ ''. '' @ t @ nl) (zip [0..<length txts] txts))"

definition buildBatchPayload :: "surroundings \<Rightarrow> config \<Rightarrow> item list \<Rightarrow> (item \<Rightarrow> int) \<Rightarrow> harvest_payload" where
  "buildBatchPayload su c run effortOf =
     (let f = hd run; txts = map it_Text run;
          prompt = with_citations su (it_Repo f) (str_join nl txts) (substitute
            [(''{{REPO_ABS}}'', it_Repo f), (''{{REPO}}'', it_RepoName f), (''{{HEADING}}'', it_Heading f),
             (''{{COUNT}}'', show_nat (length run)), (''{{ITEMS}}'', trim_right (numbered txts) nl),
             (''{{REPO_PURPOSE}}'', RepoPurpose (su_read su (it_Repo f) ''.config/metadata.yaml''))] (c_BatchPromptTemplate c));
          perItem = (case c_RepoTimeouts c (it_RepoName f) of
             Some d \<Rightarrow> if d > 0 then minutes_of d else DefaultBatchTimeoutMinutes | None \<Rightarrow> DefaultBatchTimeoutMinutes);
          efforts = map effortOf run in
      \<lparr>hp_agent = no_agent\<lparr>ap_Repo := payload_repo su c f, ap_Prompt := prompt, ap_Item := it_Text f, ap_Items := txts, ap_Model := c_Model c,
         ap_Verify := ReadTQVerify su (it_Repo f), ap_RequireClean := c_RequireClean c,
         ap_TimeoutMinutes := max (perItem * int (length run)) (sum_list efforts)\<rparr>,
       hp_Dedup = batchKeyOf su run, hp_EffortMinutes = (if c_EffortEstimator c = None then [] else efforts),
       hp_MarkerLevel = fold max (map it_MarkerLevel run) 0, hp_ItemKeys = map it_Key run\<rparr>)"

definition enqueueBatch :: "surroundings \<Rightarrow> config \<Rightarrow> 's harvest_ops \<Rightarrow> go_time \<Rightarrow> item list \<Rightarrow> (item \<Rightarrow> int) \<Rightarrow> int \<Rightarrow> 's
    \<Rightarrow> (mint_error + task) \<times> 's" where
  "enqueueBatch su c ops now run effortOf importance s =
     gated_enqueue su c ops now
       (candidate_task c (it_RepoName (hd run)) (buildBatchPayload su c run effortOf)
          (fold max (map (\<lambda>it. fst (item_priority c ops it importance s)) run) 0) (c_MaxAttempts c) (batchKeyOf su run)) s"

section \<open>One pass\<close>

record enqueued =
  en_Item :: item
  en_TaskID :: task_id
  en_Fresh :: bool
  en_Hot :: bool

record skipped =
  sk_Item :: "item option"
  sk_Reason :: skip_reason

record harvest_result =
  hr_Repos :: int
  hr_Items :: int
  hr_Enqueued :: "enqueued list"
  hr_Skipped :: "skipped list"

definition empty_result :: harvest_result where
  "empty_result = \<lparr>hr_Repos = 0, hr_Items = 0, hr_Enqueued = [], hr_Skipped = []\<rparr>"

definition enqueue_entry :: "item \<Rightarrow> task_id \<Rightarrow> enqueued" where
  "enqueue_entry it i = \<lparr>en_Item = it, en_TaskID = i, en_Fresh = True, en_Hot = sameSession (it_Text it)\<rparr>"

definition skip_items :: "skip_reason \<Rightarrow> item list \<Rightarrow> harvest_result \<Rightarrow> harvest_result" where
  "skip_items reason its res = res\<lparr>hr_Skipped := hr_Skipped res @ map (\<lambda>it. \<lparr>sk_Item = Some it, sk_Reason = reason\<rparr>) its\<rparr>"

definition admit_items :: "item list \<Rightarrow> task_id \<Rightarrow> harvest_result \<Rightarrow> harvest_result" where
  "admit_items its i res = res\<lparr>hr_Enqueued := hr_Enqueued res @ map (\<lambda>it. enqueue_entry it i) its\<rparr>"

definition enqueued_count :: "harvest_result \<Rightarrow> int" where
  "enqueued_count res = int (length (hr_Enqueued res))"

definition mark_known :: "item list \<Rightarrow> repo_state \<Rightarrow> repo_state" where
  "mark_known its rs = rs\<lparr>st_known := fold (\<lambda>it m. m(it_Key it \<mapsto> Pending)) its (st_known rs)\<rparr>"

text \<open>\<open>admitItem\<close>, and the dry run in its place: whether the item was admitted.\<close>

definition admitItem :: "surroundings \<Rightarrow> config \<Rightarrow> 's harvest_ops \<Rightarrow> go_time \<Rightarrow> item \<Rightarrow> int \<Rightarrow> harvest_result \<Rightarrow> 's
    \<Rightarrow> bool \<times> harvest_result \<times> 's" where
  "admitItem su c ops now it importance res s =
     (if c_DryRun c then (True, admit_items [it] [] res, s)
      else case enqueue_item su c ops now it importance s of
        (Inl e, s') \<Rightarrow> (False, skip_items (enqueueSkipReason e) [it] res, s')
      | (Inr t, s') \<Rightarrow> (True, admit_items [it] (ID t) res, s'))"

definition admitRun :: "surroundings \<Rightarrow> config \<Rightarrow> 's harvest_ops \<Rightarrow> go_time \<Rightarrow> item list \<Rightarrow> (item \<Rightarrow> int) \<Rightarrow> int \<Rightarrow> harvest_result \<Rightarrow> 's
    \<Rightarrow> bool \<times> harvest_result \<times> 's" where
  "admitRun su c ops now run effortOf importance res s =
     (if c_DryRun c then (True, admit_items run [] res, s)
      else case enqueueBatch su c ops now run effortOf importance s of
        (Inl e, s') \<Rightarrow> (False, skip_items (enqueueSkipReason e) run res, s')
      | (Inr t, s') \<Rightarrow> (True, admit_items run (ID t) res, s'))"

fun admit_loop :: "surroundings \<Rightarrow> config \<Rightarrow> 's harvest_ops \<Rightarrow> go_time \<Rightarrow> item list \<Rightarrow> repo_state \<Rightarrow> bool \<Rightarrow> harvest_result \<Rightarrow> 's
    \<Rightarrow> harvest_result \<times> 's" where
  "admit_loop su c ops now [] rs enq res s = (res, s)"
| "admit_loop su c ops now (it # its) rs enq res s =
     (case itemDenial c now rs it enq (enqueued_count res) of
        Some reason \<Rightarrow> admit_loop su c ops now its rs enq (skip_items reason [it] res) s
      | None \<Rightarrow>
          (case admitItem su c ops now it (st_importance rs) res s of
             (True, res', s') \<Rightarrow> admit_loop su c ops now its (mark_known [it] rs) True res' s'
           | (False, res', s') \<Rightarrow> admit_loop su c ops now its rs enq res' s'))"

text \<open>\<open>sectionRuns\<close> over the admissible items: the current run and its effort.\<close>

fun runs_from :: "int \<Rightarrow> int \<Rightarrow> (item \<Rightarrow> int) \<Rightarrow> item list \<Rightarrow> int \<Rightarrow> item list \<Rightarrow> item list list" where
  "runs_from maxItems budget effortOf cur curEffort [] = (if cur = [] then [] else [cur])"
| "runs_from maxItems budget effortOf cur curEffort (it # its) =
     (if cur \<noteq> [] \<and> (it_Heading it \<noteq> it_Heading (hd cur) \<or> int (length cur) \<ge> maxItems \<or> curEffort + effortOf it > budget)
      then cur # runs_from maxItems budget effortOf [it] (effortOf it) its
      else runs_from maxItems budget effortOf (cur @ [it]) (curEffort + effortOf it) its)"

definition sectionRuns :: "item list \<Rightarrow> bool list \<Rightarrow> int \<Rightarrow> int \<Rightarrow> (item \<Rightarrow> int) \<Rightarrow> item list list" where
  "sectionRuns its admissible maxItems budget effortOf = runs_from maxItems budget effortOf [] 0 (map fst (filter snd (zip its admissible)))"

definition effort_of :: "config \<Rightarrow> item list \<Rightarrow> item \<Rightarrow> int" where
  "effort_of c candidates it =
     (let est = (if candidates = [] then Map.empty else case c_EffortEstimator c of None \<Rightarrow> Map.empty | Some f \<Rightarrow> f candidates) in
      case est (it_Key it) of Some m \<Rightarrow> if m > 0 then m else DefaultBatchTimeoutMinutes | None \<Rightarrow> DefaultBatchTimeoutMinutes)"

text \<open>The first phase: the denials, pacing left out; every item is judged against the tick's count so far.\<close>

fun deny_items :: "config \<Rightarrow> go_time \<Rightarrow> repo_state \<Rightarrow> item list \<Rightarrow> harvest_result \<Rightarrow> bool list \<times> harvest_result" where
  "deny_items c now rs [] res = ([], res)"
| "deny_items c now rs (it # its) res =
     (case itemDenial c now rs it False (enqueued_count res) of
        Some reason \<Rightarrow> (case deny_items c now rs its (skip_items reason [it] res) of (adm, res') \<Rightarrow> (False # adm, res'))
      | None \<Rightarrow> (case deny_items c now rs its res of (adm, res') \<Rightarrow> (True # adm, res')))"

fun run_loop :: "surroundings \<Rightarrow> config \<Rightarrow> 's harvest_ops \<Rightarrow> go_time \<Rightarrow> (item \<Rightarrow> int) \<Rightarrow> int \<Rightarrow> item list list \<Rightarrow> bool \<Rightarrow> harvest_result \<Rightarrow> 's
    \<Rightarrow> harvest_result \<times> 's" where
  "run_loop su c ops now effortOf importance [] enq res s = (res, s)"
| "run_loop su c ops now effortOf importance (run # runs) enq res s =
     (if enq then run_loop su c ops now effortOf importance runs enq (skip_items PacedOneNew run res) s
      else if enqueued_count res \<ge> c_MaxPerTick c then run_loop su c ops now effortOf importance runs enq (skip_items TickCap run res) s
      else case admitRun su c ops now run effortOf importance res s of
        (adm, res', s') \<Rightarrow> run_loop su c ops now effortOf importance runs adm res' s')"

definition runRepoBatched :: "surroundings \<Rightarrow> config \<Rightarrow> 's harvest_ops \<Rightarrow> go_time \<Rightarrow> repo_state \<Rightarrow> item list \<Rightarrow> harvest_result \<Rightarrow> 's
    \<Rightarrow> harvest_result \<times> 's" where
  "runRepoBatched su c ops now rs its res s =
     (case deny_items c now rs its res of
        (adm, res') \<Rightarrow>
          let effortOf = effort_of c (map fst (filter snd (zip its adm))) in
          run_loop su c ops now effortOf (st_importance rs)
            (sectionRuns its adm (c_BatchItems c) (c_BatchEffortMinutes c) effortOf) False res' s)"

definition runRepo :: "surroundings \<Rightarrow> config \<Rightarrow> 's harvest_ops \<Rightarrow> go_time \<Rightarrow> string \<Rightarrow> item list \<Rightarrow> harvest_result \<Rightarrow> 's
    \<Rightarrow> harvest_result \<times> 's" where
  "runRepo su c ops now repo its res s =
     (case surveyRepo su c ops now repo s of
        Inl reason \<Rightarrow> (skip_items reason its res, s)
      | Inr rs \<Rightarrow>
          if c_BatchItems c > 1 then runRepoBatched su c ops now rs its res s
          else admit_loop su c ops now its rs False res s)"

fun run_repos :: "surroundings \<Rightarrow> config \<Rightarrow> 's harvest_ops \<Rightarrow> go_time \<Rightarrow> string list \<Rightarrow> harvest_result \<Rightarrow> 's \<Rightarrow> harvest_result \<times> 's" where
  "run_repos su c ops now [] res s = (res, s)"
| "run_repos su c ops now (repo # repos) res s =
     (let res1 = res\<lparr>hr_Repos := hr_Repos res + 1\<rparr> in
      case ParseRepo su repo (c_TodoFile c) of
        Inl e \<Rightarrow> run_repos su c ops now repos
          (res1\<lparr>hr_Skipped := hr_Skipped res1 @ [\<lparr>sk_Item = None, sk_Reason = ScanFailed e\<rparr>]\<rparr>) s
      | Inr its \<Rightarrow>
          (case runRepo su c ops now repo its (res1\<lparr>hr_Items := hr_Items res1 + int (length its)\<rparr>) s of
             (res2, s') \<Rightarrow> run_repos su c ops now repos res2 s'))"

datatype run_error = ErrNoRepos | DiscoverFailed string

text \<open>\<open>Run\<close>; \<open>discovered\<close> is what the discovery of repositories under the projects directory returned.\<close>

definition Run :: "surroundings \<Rightarrow> config \<Rightarrow> 's harvest_ops \<Rightarrow> go_time \<Rightarrow> string + string list \<Rightarrow> 's \<Rightarrow> (run_error + harvest_result) \<times> 's" where
  "Run su c ops now discovered s =
     (let go = (\<lambda>repos. case run_repos su c ops now (sort_strings repos) empty_result s of (res, s') \<Rightarrow> (Inr res, s')) in
      if c_Repos c \<noteq> [] then go (c_Repos c)
      else if c_ProjectsDir c = [] then (Inl ErrNoRepos, s)
      else case discovered of Inl e \<Rightarrow> (Inl (DiscoverFailed e), s) | Inr repos \<Rightarrow> go repos)"

end
