(* ===== verification/Tq_Pacing.thy ===== *)
theory Tq_Pacing
  imports Tq_Harvest "HOL-Library.Multiset"
begin

text \<open>
  What admission keeps: batches partition the admissible items, every item of a repository is either
  admitted or skipped with a reason, a repository gets one new task per pass, work the queue already
  knows is never minted again, and the gates refuse only on proof.
\<close>

section \<open>Batches\<close>

definition run_ok :: "int \<Rightarrow> int \<Rightarrow> (item \<Rightarrow> int) \<Rightarrow> item list \<Rightarrow> bool" where
  "run_ok maxItems budget effortOf r \<longleftrightarrow>
     (\<forall>it\<in>set r. it_Heading it = it_Heading (hd r)) \<and> int (length r) \<le> max 1 maxItems
     \<and> (length r > 1 \<longrightarrow> sum_list (map effortOf r) \<le> budget)"

text \<open>The walls: why a run ends before the next item.\<close>

definition wall :: "int \<Rightarrow> int \<Rightarrow> (item \<Rightarrow> int) \<Rightarrow> item list \<Rightarrow> item list \<Rightarrow> bool" where
  "wall maxItems budget effortOf r1 r2 \<longleftrightarrow>
     it_Heading (hd r2) \<noteq> it_Heading (hd r1) \<or> int (length r1) \<ge> maxItems \<or> sum_list (map effortOf r1) + effortOf (hd r2) > budget"

lemma runs_from_concat: "concat (runs_from m b e cur ce its) = cur @ its"
  by (induction m b e cur ce its rule: runs_from.induct) simp_all

lemma runs_from_head:
  "cur \<noteq> [] \<Longrightarrow> \<exists>r rs. runs_from m b e cur ce its = r # rs \<and> hd r = hd cur"
  by (induction m b e cur ce its rule: runs_from.induct) auto

lemma runs_from_ok:
  assumes "run_ok m b e cur" "ce = sum_list (map e cur)"
  shows "list_all (\<lambda>r. r \<noteq> [] \<and> run_ok m b e r) (runs_from m b e cur ce its)"
  using assms
proof (induction m b e cur ce its rule: runs_from.induct)
  case (2 m b e cur ce it its)
  show ?case
  proof (cases "cur \<noteq> [] \<and> (it_Heading it \<noteq> it_Heading (hd cur) \<or> int (length cur) \<ge> m \<or> ce + e it > b)")
    case True
    have "list_all (\<lambda>r. r \<noteq> [] \<and> run_ok m b e r) (runs_from m b e [it] (e it) its)"
      by (rule 2(1) [OF True]) (simp_all add: run_ok_def)
    then show ?thesis using True 2(3) by auto
  next
    case False
    have "run_ok m b e (cur @ [it])" using False 2(3,4) by (cases cur) (auto simp: run_ok_def)
    then have "list_all (\<lambda>r. r \<noteq> [] \<and> run_ok m b e r) (runs_from m b e (cur @ [it]) (ce + e it) its)"
      by (rule 2(2) [OF False]) (simp add: 2(4))
    then show ?thesis using False by auto
  qed
qed simp

lemma runs_from_walls:
  assumes "ce = sum_list (map e cur)"
  shows "successively (wall m b e) (runs_from m b e cur ce its)"
  using assms
proof (induction m b e cur ce its rule: runs_from.induct)
  case (2 m b e cur ce it its)
  show ?case
  proof (cases "cur \<noteq> [] \<and> (it_Heading it \<noteq> it_Heading (hd cur) \<or> int (length cur) \<ge> m \<or> ce + e it > b)")
    case True
    obtain r rs where r: "runs_from m b e [it] (e it) its = r # rs" "hd r = it"
      using runs_from_head [of "[it]" m b e "e it" its] by auto
    have "successively (wall m b e) (r # rs)" using 2(1) [OF True] r by simp
    then show ?thesis using True 2(3) r by (auto simp: wall_def)
  next
    case False
    then have "runs_from m b e cur ce (it # its) = runs_from m b e (cur @ [it]) (ce + e it) its" by auto
    then show ?thesis using 2(2) [OF False] 2(3) by simp
  qed
qed simp

lemma sectionRuns_partition:
  "concat (sectionRuns its admissible maxItems budget effortOf) = map fst (filter snd (zip its admissible))
   \<and> (\<forall>r\<in>set (sectionRuns its admissible maxItems budget effortOf). r \<noteq> [] \<and> run_ok maxItems budget effortOf r)
   \<and> successively (wall maxItems budget effortOf) (sectionRuns its admissible maxItems budget effortOf)"
proof (intro conjI)
  show "concat (sectionRuns its admissible maxItems budget effortOf) = map fst (filter snd (zip its admissible))"
    by (simp only: sectionRuns_def runs_from_concat append_Nil)
  have "run_ok maxItems budget effortOf []" by (simp add: run_ok_def)
  then show "\<forall>r\<in>set (sectionRuns its admissible maxItems budget effortOf). r \<noteq> [] \<and> run_ok maxItems budget effortOf r"
    using runs_from_ok [of maxItems budget effortOf "[]" 0 "map fst (filter snd (zip its admissible))"]
    by (simp only: sectionRuns_def list_all_iff) simp
  show "successively (wall maxItems budget effortOf) (sectionRuns its admissible maxItems budget effortOf)"
    unfolding sectionRuns_def by (rule runs_from_walls) simp
qed

text \<open>
  C25: batches partition the work. The runs of a repository contain exactly its admissible items, in the
  order of the file and each once; every run stays in one section and within the item cap, a run of
  several items also within the effort budget, and no run ends before one of these walls is reached.
\<close>

theorem batches_partition:
  "concat (sectionRuns its admissible maxItems budget effortOf) = map fst (filter snd (zip its admissible))
   \<and> (\<forall>r\<in>set (sectionRuns its admissible maxItems budget effortOf). r \<noteq> [] \<and> run_ok maxItems budget effortOf r)
   \<and> successively (wall maxItems budget effortOf) (sectionRuns its admissible maxItems budget effortOf)"
  by (rule sectionRuns_partition)

section \<open>Accounting\<close>

definition accounted :: "harvest_result \<Rightarrow> item multiset" where
  "accounted res = mset (map en_Item (hr_Enqueued res)) + mset (List.map_filter sk_Item (hr_Skipped res))"

lemma accounted_simps [simp]:
  "accounted (skip_items reason its res) = accounted res + mset its"
  "accounted (admit_items its i res) = accounted res + mset its"
  "accounted (res\<lparr>hr_Repos := n\<rparr>) = accounted res" "accounted (res\<lparr>hr_Items := n\<rparr>) = accounted res"
  "accounted (res\<lparr>hr_Skipped := hr_Skipped res @ [\<lparr>sk_Item = None, sk_Reason = reason\<rparr>]\<rparr>) = accounted res"
  "accounted empty_result = {#}"
  by (simp_all add: accounted_def skip_items_def admit_items_def map_filter_def o_def enqueue_entry_def empty_result_def)

lemma enqueued_simps [simp]:
  "hr_Enqueued (skip_items reason its res) = hr_Enqueued res"
  "hr_Enqueued (admit_items its i res) = hr_Enqueued res @ map (\<lambda>it. enqueue_entry it i) its"
  "enqueued_count (skip_items reason its res) = enqueued_count res"
  by (simp_all add: skip_items_def admit_items_def enqueued_count_def)

text \<open>What one call of \<open>admitItem\<close> or \<open>admitRun\<close> does; \<open>minted\<close> is where an identifier comes from.\<close>

definition minted_id :: "surroundings \<Rightarrow> config \<Rightarrow> 's harvest_ops \<Rightarrow> go_time \<Rightarrow> task_id \<Rightarrow> bool" where
  "minted_id su c ops now i \<longleftrightarrow>
     (if c_DryRun c then i = [] else \<exists>n s1 t s2. gated_enqueue su c ops now n s1 = (Inr t, s2) \<and> i = ID t)"

lemma minted_idI: "c_DryRun c \<Longrightarrow> minted_id su c ops now []"
  "\<not> c_DryRun c \<Longrightarrow> gated_enqueue su c ops now n s1 = (Inr t, s2) \<Longrightarrow> minted_id su c ops now (ID t)"
  by (auto simp: minted_id_def)

lemma admitRun_cases:
  assumes "admitRun su c ops now run e imp res s = (adm, res', s')"
  obtains (admitted) i where "adm" "res' = admit_items run i res" "minted_id su c ops now i"
    | (refused) r where "\<not> adm" "res' = skip_items r run res"
proof (cases "c_DryRun c")
  case True
  then have "minted_id su c ops now []" by (rule minted_idI)
  then show ?thesis using True assms admitted [of "[]"] by (simp add: admitRun_def)
next
  case False
  obtain r s1 where b: "enqueueBatch su c ops now run e imp s = (r, s1)" by (cases "enqueueBatch su c ops now run e imp s")
  show ?thesis
  proof (cases r)
    case (Inl er)
    then show ?thesis using assms refused b False by (auto simp: admitRun_def)
  next
    case (Inr t)
    then have "minted_id su c ops now (ID t)" using b False minted_idI(2) by (auto simp: enqueueBatch_def)
    then show ?thesis using assms admitted b False Inr by (auto simp: admitRun_def)
  qed
qed

lemma admitItem_cases:
  assumes "admitItem su c ops now it imp res s = (adm, res', s')"
  obtains (admitted) i where "adm" "res' = admit_items [it] i res" "minted_id su c ops now i"
    | (refused) r where "\<not> adm" "res' = skip_items r [it] res"
proof (cases "c_DryRun c")
  case True
  then have "minted_id su c ops now []" by (rule minted_idI)
  then show ?thesis using True assms admitted [of "[]"] by (simp add: admitItem_def)
next
  case False
  obtain r s1 where b: "enqueue_item su c ops now it imp s = (r, s1)" by (cases "enqueue_item su c ops now it imp s")
  show ?thesis
  proof (cases r)
    case (Inl er)
    then show ?thesis using assms refused b False by (auto simp: admitItem_def)
  next
    case (Inr t)
    then have "minted_id su c ops now (ID t)" using b False minted_idI(2) by (auto simp: enqueue_item_def)
    then show ?thesis using assms admitted b False Inr by (auto simp: admitItem_def)
  qed
qed

text \<open>The entries one repository adds.\<close>

definition one_mint :: "surroundings \<Rightarrow> config \<Rightarrow> 's harvest_ops \<Rightarrow> go_time \<Rightarrow> (item list \<Rightarrow> bool) \<Rightarrow> harvest_result \<Rightarrow> harvest_result \<Rightarrow> bool" where
  "one_mint su c ops now P res res' \<longleftrightarrow>
     hr_Enqueued res' = hr_Enqueued res \<or>
     (\<exists>run i. P run \<and> minted_id su c ops now i \<and> enqueued_count res < c_MaxPerTick c
        \<and> hr_Enqueued res' = hr_Enqueued res @ map (\<lambda>it. enqueue_entry it i) run)"

lemma run_loop_spent: "hr_Enqueued (fst (run_loop su c ops now e imp runs True res s)) = hr_Enqueued res"
  by (induction runs arbitrary: res) simp_all

lemma run_loop_accounted:
  "accounted (fst (run_loop su c ops now e imp runs enq res s)) = accounted res + mset (concat runs)"
proof (induction runs arbitrary: enq res s)
  case (Cons run runs)
  obtain adm res1 s1 where run: "admitRun su c ops now run e imp res s = (adm, res1, s1)" by (cases "admitRun su c ops now run e imp res s") auto
  then have "accounted res1 = accounted res + mset run" by (rule admitRun_cases) simp_all
  then show ?case using Cons.IH run by (simp add: ac_simps)
qed simp

lemma run_loop_mints:
  "one_mint su c ops now (\<lambda>run. run \<in> set runs) res (fst (run_loop su c ops now e imp runs enq res s))"
proof (induction runs arbitrary: enq res s)
  case (Cons run runs)
  have skip: "one_mint su c ops now (\<lambda>run'. run' \<in> set (run # runs)) res (fst (run_loop su c ops now e imp runs enq' (skip_items r run res) s'))" for enq' r s'
    using Cons.IH [of "skip_items r run res" enq' s'] by (auto simp: one_mint_def)
  obtain adm res1 s1 where run: "admitRun su c ops now run e imp res s = (adm, res1, s1)" by (cases "admitRun su c ops now run e imp res s") auto
  show ?case
  proof (cases "\<not> enq \<and> enqueued_count res < c_MaxPerTick c")
    case False
    then show ?thesis using skip by auto
  next
    case True
    show ?thesis
    proof (cases rule: admitRun_cases [OF run])
      case (1 i)
      then have "hr_Enqueued (fst (run_loop su c ops now e imp (run # runs) enq res s)) = hr_Enqueued res @ map (\<lambda>it. enqueue_entry it i) run"
        using True run run_loop_spent [of su c ops now e imp runs res1 s1] by simp
      then show ?thesis using 1 True unfolding one_mint_def by (intro disjI2 exI [of _ run] exI [of _ i]) simp
    next
      case (2 r)
      then show ?thesis using True run skip by simp
    qed
  qed
qed (simp add: one_mint_def)

lemma admit_loop_accounted:
  "accounted (fst (admit_loop su c ops now its rs enq res s)) = accounted res + mset its"
proof (induction its arbitrary: rs enq res s)
  case (Cons it its)
  obtain adm res1 s1 where run: "admitItem su c ops now it (st_importance rs) res s = (adm, res1, s1)"
    by (cases "admitItem su c ops now it (st_importance rs) res s") auto
  then have "accounted res1 = accounted res + mset [it]" by (rule admitItem_cases) simp_all
  then show ?case using Cons.IH run by (simp add: ac_simps split: option.splits bool.splits)
qed simp

lemma itemDenial_None:
  assumes "itemDenial c now rs it enq n = None"
  shows "blockedReason (it_Text it) = None \<and> stateDenial c now rs = None \<and> occupancyDenial c rs = None \<and> \<not> enq \<and> n < c_MaxPerTick c
    \<and> (it_Key it = [] \<or> st_known rs (it_Key it) = None \<or> (\<exists>st. st_known rs (it_Key it) = Some st \<and> status_string st = []))"
  using assms by (auto simp: itemDenial_def or_else_def split: option.splits if_splits)

text \<open>The items a repository may mint: not blocked, and the repository neither paused, poisoned, paced nor occupied.\<close>

definition may_mint :: "config \<Rightarrow> go_time \<Rightarrow> repo_state \<Rightarrow> item \<Rightarrow> bool" where
  "may_mint c now rs it \<longleftrightarrow> blockedReason (it_Text it) = None \<and> stateDenial c now rs = None \<and> occupancyDenial c rs = None
     \<and> (it_Key it = [] \<or> st_known rs (it_Key it) = None \<or> (\<exists>st. st_known rs (it_Key it) = Some st \<and> status_string st = []))"

lemma may_mintI: "itemDenial c now rs it enq n = None \<Longrightarrow> may_mint c now rs it"
  using itemDenial_None by (auto simp: may_mint_def)

lemma admit_loop_spent: "hr_Enqueued (fst (admit_loop su c ops now its rs True res s)) = hr_Enqueued res"
proof (induction its arbitrary: rs res s)
  case (Cons it its)
  have "itemDenial c now rs it True (enqueued_count res) \<noteq> None" using itemDenial_None by blast
  then show ?case using Cons.IH by auto
qed simp

lemma admit_loop_mints:
  "one_mint su c ops now (\<lambda>run. \<exists>it\<in>set its. run = [it] \<and> may_mint c now rs it) res (fst (admit_loop su c ops now its rs enq res s))"
proof (induction its arbitrary: enq res s)
  case (Cons it its)
  have skip: "one_mint su c ops now (\<lambda>run. \<exists>u\<in>set (it # its). run = [u] \<and> may_mint c now rs u) res
      (fst (admit_loop su c ops now its rs enq' (skip_items r [it] res) s'))" for enq' r s'
    using Cons.IH [of "skip_items r [it] res" enq' s'] by (auto simp: one_mint_def)
  show ?case
  proof (cases "itemDenial c now rs it enq (enqueued_count res)")
    case (Some r)
    then show ?thesis using skip by simp
  next
    case None
    obtain adm res1 s1 where run: "admitItem su c ops now it (st_importance rs) res s = (adm, res1, s1)"
      by (cases "admitItem su c ops now it (st_importance rs) res s") auto
    show ?thesis
    proof (cases rule: admitItem_cases [OF run])
      case (1 i)
      then have "hr_Enqueued (fst (admit_loop su c ops now (it # its) rs enq res s)) = hr_Enqueued res @ map (\<lambda>it. enqueue_entry it i) [it]"
        using None run admit_loop_spent [of su c ops now its "mark_known [it] rs" res1 s1] by simp
      then show ?thesis using 1 itemDenial_None [OF None] may_mintI [OF None]
        unfolding one_mint_def by (intro disjI2 exI [of _ "[it]"] exI [of _ i]) simp
    next
      case (2 r)
      then show ?thesis using None run skip by simp
    qed
  qed
qed (simp add: one_mint_def)

lemma deny_items_facts:
  "deny_items c now rs its res = (adm, res') \<Longrightarrow>
   accounted res' + mset (map fst (filter snd (zip its adm))) = accounted res + mset its
   \<and> hr_Enqueued res' = hr_Enqueued res \<and> length adm = length its
   \<and> (\<forall>it\<in>set (map fst (filter snd (zip its adm))). it \<in> set its \<and> may_mint c now rs it)"
proof (induction its arbitrary: res adm res')
  case (Cons it its)
  show ?case
  proof (cases "itemDenial c now rs it False (enqueued_count res)")
    case None
    obtain a r where d: "deny_items c now rs its res = (a, r)" by (cases "deny_items c now rs its res")
    have eqs: "adm = True # a" "res' = r" using Cons.prems None d by simp_all
    show ?thesis using Cons.IH [OF d] may_mintI [OF None] unfolding eqs by auto
  next
    case (Some reason)
    obtain a r where d: "deny_items c now rs its (skip_items reason [it] res) = (a, r)" by (cases "deny_items c now rs its (skip_items reason [it] res)")
    have eqs: "adm = False # a" "res' = r" using Cons.prems Some d by simp_all
    show ?thesis using Cons.IH [OF d] unfolding eqs by auto
  qed
qed simp

lemma enqueued_count_cong: "hr_Enqueued a = hr_Enqueued b \<Longrightarrow> enqueued_count a = enqueued_count b"
  by (simp add: enqueued_count_def)

text \<open>What a mint of a repository may consist of.\<close>

definition good_mint :: "config \<Rightarrow> go_time \<Rightarrow> repo_state \<Rightarrow> item list \<Rightarrow> item list \<Rightarrow> bool" where
  "good_mint c now rs its run \<longleftrightarrow> run \<noteq> [] \<and> set run \<subseteq> set its \<and> (\<forall>it\<in>set run. may_mint c now rs it \<and> it_Heading it = it_Heading (hd run))
     \<and> int (length run) \<le> max 1 (c_BatchItems c)"

lemma one_mint_mono:
  "one_mint su c ops now P a b \<Longrightarrow> (\<And>run. P run \<Longrightarrow> Q run) \<Longrightarrow> hr_Enqueued a' = hr_Enqueued a \<Longrightarrow> one_mint su c ops now Q a' b"
  by (auto simp: one_mint_def enqueued_count_def)

lemma batched_facts:
  "accounted (fst (runRepoBatched su c ops now rs its res s)) = accounted res + mset its
   \<and> one_mint su c ops now (good_mint c now rs its) res (fst (runRepoBatched su c ops now rs its res s))"
proof -
  obtain adm res1 where d: "deny_items c now rs its res = (adm, res1)" by (cases "deny_items c now rs its res")
  define left where "left = map fst (filter snd (zip its adm))"
  define e where "e = effort_of c left"
  define runs where "runs = sectionRuns its adm (c_BatchItems c) (c_BatchEffortMinutes c) e"
  note df = deny_items_facts [OF d, folded left_def]
  have run: "runRepoBatched su c ops now rs its res s = run_loop su c ops now e (st_importance rs) runs False res1 s"
    by (simp add: runRepoBatched_def d left_def e_def runs_def Let_def)
  note parts = sectionRuns_partition [of its adm "c_BatchItems c" "c_BatchEffortMinutes c" e, folded runs_def left_def]
  have "good_mint c now rs its r" if "r \<in> set runs" for r
  proof -
    have "set r \<subseteq> set left" using parts that by (metis concat_eq_append_conv set_concat UN_upper)
    then show ?thesis using parts that df unfolding good_mint_def run_ok_def by blast
  qed
  then show ?thesis
    using df parts one_mint_mono [OF run_loop_mints [of su c ops now runs res1 e "st_importance rs" False s]]
    by (simp add: run run_loop_accounted)
qed

lemma observe_occupancy:
  "st_anyRunning (fold observe_task ts rs) \<longleftrightarrow> st_anyRunning rs \<or> (\<exists>t\<in>set ts. Status t = Running)"
  "st_busy (fold observe_task ts rs) \<longleftrightarrow> st_busy rs \<or> (\<exists>t\<in>set ts. Status t = Running \<or> Status t = Pending)"
  "st_pendingCount (fold observe_task ts rs) = st_pendingCount rs + int (length (filter (\<lambda>t. Status t = Pending) ts))"
  by (induction ts arbitrary: rs) (auto simp: observe_task_def Let_def split: status.split)

definition unoccupied :: "config \<Rightarrow> task list \<Rightarrow> bool" where
  "unoccupied c ts \<longleftrightarrow> (\<forall>t\<in>set ts. Status t \<noteq> Running)
     \<and> int (length (filter (\<lambda>t. Status t = Pending) ts)) < max 1 (c_MaxPendingPerRepo c)"

lemma surveyRepo_unoccupied:
  assumes "surveyRepo su c ops now repo s = Inr rs" "occupancyDenial c rs = None"
  shows "\<exists>ts. ho_List ops (repo_filter c (path_base repo)) s = Inr ts \<and> unoccupied c ts"
proof -
  obtain ts where ts: "ho_List ops (repo_filter c (path_base repo)) s = Inr ts"
    "st_anyRunning rs = st_anyRunning (fold observe_task ts (fresh_state c (path_base repo)))"
    "st_busy rs = st_busy (fold observe_task ts (fresh_state c (path_base repo)))"
    "st_pendingCount rs = st_pendingCount (fold observe_task ts (fresh_state c (path_base repo)))"
    using assms(1) by (auto simp: surveyRepo_def Let_def split: sum.splits if_splits)
  have "length (filter (\<lambda>t. Status t = Pending) ts) = 0" if "\<not> st_busy rs"
    using that ts(3) by (auto simp: observe_occupancy filter_empty_conv)
  then have "unoccupied c ts" using assms(2) ts(2-4)
    by (auto simp: occupancyDenial_def unoccupied_def observe_occupancy fresh_state_def split: if_splits)
  then show ?thesis using ts(1) by blast
qed

lemma runRepo_mints:
  assumes "runRepo su c ops now repo its res s = (res', s')" "hr_Enqueued res' \<noteq> hr_Enqueued res"
  shows "\<exists>rs run i. surveyRepo su c ops now repo s = Inr rs \<and> good_mint c now rs its run \<and> minted_id su c ops now i
    \<and> (\<exists>ts. ho_List ops (repo_filter c (path_base repo)) s = Inr ts \<and> unoccupied c ts)
    \<and> enqueued_count res < c_MaxPerTick c \<and> hr_Enqueued res' = hr_Enqueued res @ map (\<lambda>it. enqueue_entry it i) run"
proof (cases "surveyRepo su c ops now repo s")
  case (Inl r)
  then show ?thesis using assms by (auto simp: runRepo_def)
next
  case (Inr rs)
  have "one_mint su c ops now (good_mint c now rs its) res res'"
  proof (cases "c_BatchItems c > 1")
    case True
    then show ?thesis using batched_facts [of su c ops now rs its res s] assms(1) Inr by (simp add: runRepo_def)
  next
    case False
    have "one_mint su c ops now (\<lambda>run. \<exists>it\<in>set its. run = [it] \<and> may_mint c now rs it) res res'"
      using admit_loop_mints [of su c ops now its rs res False s] assms(1) Inr False by (simp add: runRepo_def)
    then show ?thesis by (rule one_mint_mono) (auto simp: good_mint_def)
  qed
  then obtain run i where m: "good_mint c now rs its run" "minted_id su c ops now i" "enqueued_count res < c_MaxPerTick c"
    "hr_Enqueued res' = hr_Enqueued res @ map (\<lambda>it. enqueue_entry it i) run"
    using assms(2) unfolding one_mint_def by blast
  then have "occupancyDenial c rs = None" by (cases run) (auto simp: good_mint_def may_mint_def)
  then show ?thesis using m Inr surveyRepo_unoccupied [OF Inr] by blast
qed


lemma runRepo_accounted: "accounted (fst (runRepo su c ops now repo its res s)) = accounted res + mset its"
  by (simp add: runRepo_def admit_loop_accounted conjunct1 [OF batched_facts] split: sum.splits)

definition parsed_items :: "surroundings \<Rightarrow> config \<Rightarrow> string \<Rightarrow> item list" where
  "parsed_items su c repo = (case ParseRepo su repo (c_TodoFile c) of Inl _ \<Rightarrow> [] | Inr its \<Rightarrow> its)"

lemma run_repos_accounted:
  "accounted (fst (run_repos su c ops now repos res s)) = accounted res + mset (concat (map (parsed_items su c) repos))"
proof (induction repos arbitrary: res s)
  case (Cons repo repos)
  show ?case
  proof (cases "ParseRepo su repo (c_TodoFile c)")
    case (Inl e)
    have "accounted ((res\<lparr>hr_Repos := n\<rparr>)\<lparr>hr_Skipped := hr_Skipped res @ [\<lparr>sk_Item = None, sk_Reason = ScanFailed e\<rparr>]\<rparr>) = accounted res" for n
      by (simp add: accounted_def map_filter_def)
    then show ?thesis using Cons.IH Inl by (simp add: parsed_items_def Let_def)
  next
    case (Inr its)
    obtain res2 s2 where r: "runRepo su c ops now repo its (res\<lparr>hr_Repos := hr_Repos res + 1, hr_Items := hr_Items res + int (length its)\<rparr>) s = (res2, s2)"
      by (cases "runRepo su c ops now repo its (res\<lparr>hr_Repos := hr_Repos res + 1, hr_Items := hr_Items res + int (length its)\<rparr>) s")
    have "accounted res2 = accounted res + mset its"
      using runRepo_accounted [of su c ops now repo its "res\<lparr>hr_Repos := hr_Repos res + 1, hr_Items := hr_Items res + int (length its)\<rparr>" s] r
      by (simp add: accounted_def)
    then show ?thesis using Cons.IH Inr r by (simp add: parsed_items_def Let_def ac_simps)
  qed
qed simp

text \<open>
  C26: no backlog item is lost. After a pass over any repositories, every open item of every file that
  could be read is reported exactly once, as admitted or as skipped with a reason.
\<close>

theorem every_item_is_reported:
  assumes "Run su c ops now discovered s = (Inr res, s')"
  shows "\<exists>repos. (repos = c_Repos c \<or> c_Repos c = [] \<and> discovered = Inr repos)
    \<and> accounted res = mset (concat (map (parsed_items su c) (sort_strings repos)))"
proof -
  have "\<exists>repos. (repos = c_Repos c \<or> c_Repos c = [] \<and> discovered = Inr repos)
      \<and> fst (run_repos su c ops now (sort_strings repos) empty_result s) = res"
  proof (cases "c_Repos c = []")
    case True
    then show ?thesis using assms by (auto simp: Run_def Let_def split: if_splits sum.splits prod.splits)
  next
    case False
    then show ?thesis using assms by (auto simp: Run_def Let_def split: prod.splits intro!: exI [of _ "c_Repos c"])
  qed
  then show ?thesis using run_repos_accounted [of su c ops now _ empty_result s] by auto
qed

section \<open>Known work\<close>

definition knows_key :: "string \<Rightarrow> task \<Rightarrow> bool" where
  "knows_key k t \<longleftrightarrow> payloadDedup t \<noteq> [] \<and> k \<in> set (payloadDedup t # payloadItemKeys t)"

lemma learn_fold: "fold (learn st) ks m k = (if m k = None \<and> k \<in> set ks then Some st else m k)"
  by (induction ks arbitrary: m) (auto simp: learn_def)

lemma observe_known:
  "st_known (observe_task t rs) k = (if st_known rs k = None \<and> knows_key k t then Some (Status t) else st_known rs k)"
proof -
  have "fold (learn (Status t)) (payloadDedup t # payloadItemKeys t) m k = (if m k = None \<and> k \<in> set (payloadDedup t # payloadItemKeys t) then Some (Status t) else m k)" for m
    by (rule learn_fold)
  then show ?thesis by (simp add: observe_task_def knows_key_def Let_def del: fold.simps split: status.split)
qed

lemma survey_known:
  "st_known (fold observe_task ts rs) k = (case st_known rs k of Some st \<Rightarrow> Some st | None \<Rightarrow> map_option Status (find (knows_key k) ts))"
  by (induction ts arbitrary: rs) (auto simp: observe_known split: option.splits)

lemma surveyRepo_known:
  assumes "surveyRepo su c ops now repo s = Inr rs" "ho_List ops (repo_filter c (path_base repo)) s = Inr ts"
  shows "st_known rs k = map_option Status (find (knows_key k) ts)"
  using assms by (auto simp: surveyRepo_def survey_known fresh_state_def Let_def split: if_splits sum.splits)

text \<open>
  C27: work the queue knows is not minted again. While the queue lists a task the harvester minted for an
  item, alone or in a batch and whatever has become of it since, the item is denied in every later pass,
  for a reason that names the status of a task that carries it.
\<close>

theorem known_work_is_denied:
  assumes "surveyRepo su c ops now repo s = Inr rs" "ho_List ops (repo_filter c (path_base repo)) s = Inr ts"
    and "t \<in> set ts" "Payload t = marshal (payload_json p)" "payload_in_range p" "hp_Dedup p \<noteq> []"
    and "it_Key it \<in> set (hp_Dedup p # hp_ItemKeys p)" "it_Key it \<noteq> []" "blockedReason (it_Text it) = None"
    and "\<forall>u\<in>set ts. status_string (Status u) \<noteq> []"
  shows "\<exists>u\<in>set ts. knows_key (it_Key it) u \<and> itemDenial c now rs it enq n = Some (trackedItemDenial (Status u))"
proof -
  have "knows_key (it_Key it) t" using payloadDedup_json [OF assms(5,4)] assms(6,7) by (simp add: knows_key_def)
  then obtain u where u: "find (knows_key (it_Key it)) ts = Some u"
    using assms(3) by (cases "find (knows_key (it_Key it)) ts") (auto simp: find_None_iff)
  then have "u \<in> set ts" "knows_key (it_Key it) u" by (auto simp: find_Some_iff)
  then show ?thesis using u surveyRepo_known [OF assms(1,2), of "it_Key it"] assms(8-10) by (auto simp: itemDenial_def)
qed

section \<open>The gates\<close>

text \<open>Nothing can be found out: no file, no directory entry, no git, no queue.\<close>

definition blind :: "surroundings \<Rightarrow> lister \<Rightarrow> bool" where
  "blind su q \<longleftrightarrow> (\<forall>d f. (\<exists>e. su_read su d f = Missing e \<or> su_read su d f = Unreadable e)) \<and> (\<forall>d args. fst (su_git su d args) = None)
     \<and> (\<forall>d p. \<not> su_glob su d p) \<and> (\<forall>d p. su_mtime su d p = None)
     \<and> (case q of None \<Rightarrow> True | Some f \<Rightarrow> \<forall>flt. isl (f flt))"

lemma blind_read: "blind su q \<Longrightarrow> su_read su d f \<noteq> Contents data"
  unfolding blind_def by (metis read_result.distinct(3,5))

lemma first_reason_None: "first_reason f xs = None \<longleftrightarrow> (\<forall>x\<in>set xs. f x = None)"
  by (induction xs) (auto split: option.splits)

lemma blind_todo: "blind su q \<Longrightarrow> isl (todoState su c dir)"
  using blind_read [of su q] by (auto simp: todoState_def ParseRepoAll_def split: sum.splits read_result.splits)

text \<open>An anchor that a failing search cannot find counts as gone, so a rejected commit needs a reading of git.\<close>

lemma blind_signals:
  assumes "blind su q"
  shows "closed_reason su c dir keys p = None" "closeoutCited su dir prompt = None" "markerRefusal su now dir i w = None"
    "footerCommitExists su dir t = None" "closeoutReportExists su dir i = False"
proof -
  show "closed_reason su c dir keys p = None" using blind_todo [OF assms, of c dir] by (auto simp: closed_reason_def split: sum.splits)
  have g: "\<not> su_glob su d x" "su_mtime su d x = None" "fst (su_git su d args) = None" for d x args using assms by (auto simp: blind_def)
  show r: "closeoutReportExists su dir i = False" for dir i using g by (simp add: closeoutReportExists_def)
  show "closeoutCited su dir prompt = None" using r by (simp add: closeoutCited_def find_None_iff)
  have "verdictBlock su dir i = None" using blind_read [OF assms] by (auto simp: verdictBlock_def split: read_result.splits)
  then show "markerRefusal su now dir i w = None" using g by (simp add: markerRefusal_def claimLive_def)
  show "footerCommitExists su dir t = None" using g(3) [of dir "[''--version'']"] g(3) [of dir "[''log'', log_format TaskTrailer]"]
    by (auto simp: footerCommitExists_def CommitsByTrailer_def checkGitVersion_def split: prod.splits sum.splits)
qed

definition cited_anchor :: "surroundings \<Rightarrow> config \<Rightarrow> jtext \<Rightarrow> bool" where
  "cited_anchor su c d \<longleftrightarrow> (\<exists>p dir. decodeHarvestPayload d = Some p \<and> donePreflightRepoDir su c (ap_Repo (hp_agent p)) = Some dir
     \<and> trim_space (ap_RejectedSHA (hp_agent p)) \<noteq> [] \<and> trim_space (ap_Anchor (hp_agent p)) \<noteq> [])"

lemma blind_cure:
  assumes "blind su q"
  shows "fixTicketCured su dir p =
    (if trim_space (ap_RejectedSHA (hp_agent p)) \<noteq> [] \<and> trim_space (ap_Anchor (hp_agent p)) \<noteq> []
     then Some (doneReasonFixCure @ ''rejected SHA gone and anchor text absent)'') else None)"
proof -
  have "\<not> gitSucceeds su dir args" "\<not> gitOutputs su dir args" for args
    using assms by (simp_all add: blind_def gitSucceeds_def gitOutputs_def)
  then show ?thesis by (simp add: fixTicketCured_def Let_def)
qed

text \<open>
  C28: the gates fail open, except on fix tickets. When nothing about the repository can be found out, no
  claim is completed without a run and no mint is refused, save for one kind of payload: a fix ticket
  with a rejected commit and an anchor, whose failed searches are taken for the finding having been cured.
\<close>

theorem gates_fail_open:
  assumes "blind su q"
  shows "(DonePreflight su c t \<noteq> None \<longleftrightarrow> cited_anchor su c (Payload t))
   \<and> (RedispatchCheck su c q now n \<noteq> None \<longleftrightarrow> cited_anchor su c (n_Payload n))"
proof -
  note b = blind_signals [OF assms]
  have prior: "prior_refusal su c now dir keys t = None" for dir keys t
    using b(3) by (simp add: prior_refusal_def split: option.splits)
  have "isl (f flt)" if "q = Some f" for f flt using assms that by (simp add: blind_def)
  then have marks: "markerBlocked su c q now dir p = None" for dir p
    using b(3) prior by (auto simp: markerBlocked_def first_reason_None Let_def split: option.splits sum.splits)
  show ?thesis using blind_cure [OF assms] b marks
    by (auto simp: DonePreflight_def RedispatchCheck_def or_else_def itemStale_def mintItemClosed_def cited_anchor_def Let_def
        split: option.splits)
qed

text \<open>
  A batch none of whose rows is open, some of them ticked and the others gone, is claimed to have open
  members: its footer commits do not complete it.
\<close>

lemma mixed_batch_is_rerun:
  assumes "decodeHarvestPayload (Payload t) = Some p" "donePreflightRepoDir su c (ap_Repo (hp_agent p)) = Some dir"
    and "todoState su c dir = Inr rows" "a \<in> set (itemKeysFor t p)" "rows a = Some True" "b \<in> set (itemKeysFor t p)" "rows b = None"
    and "trim_space (ap_RejectedSHA (hp_agent p)) = []" "\<not> closeoutReportExists su dir (ID t)"
  shows "DonePreflight su c t = None"
proof -
  have "\<not> allTicked rows (itemKeysFor t p)" "\<not> allAbsent rows (itemKeysFor t p)"
    using assms(4-7) by (auto simp: allTicked_def allAbsent_def list_all_iff intro: bexI [of _ a] bexI [of _ b])
  then have stale: "itemStale su c dir t p = None" using assms(3) by (simp add: itemStale_def closed_reason_def)
  have "a \<noteq> b" using assms(5,7) by auto
  then have "length (itemKeysFor t p) > 1" using assms(4,6) by (cases "itemKeysFor t p"; cases "tl (itemKeysFor t p)") auto
  then have "batchHasOpenMembers su c dir t p" using stale by (simp add: batchHasOpenMembers_def)
  then show ?thesis using assms(1,2,8,9) stale by (simp add: DonePreflight_def fixTicketCured_def or_else_def Let_def)
qed

text \<open>The members of a batch, not the batch, fill the tick: behind one full batch no repository mints anything.\<close>

lemma members_fill_the_tick:
  assumes "c_MaxPerTick c \<le> enqueued_count res + int (length run)"
  shows "hr_Enqueued (fst (runRepo su c ops now repo its (admit_items run i res) s)) = hr_Enqueued (admit_items run i res)"
proof (rule ccontr)
  assume n: "hr_Enqueued (fst (runRepo su c ops now repo its (admit_items run i res) s)) \<noteq> hr_Enqueued (admit_items run i res)"
  obtain res' s' where r: "runRepo su c ops now repo its (admit_items run i res) s = (res', s')"
    by (cases "runRepo su c ops now repo its (admit_items run i res) s")
  have "enqueued_count (admit_items run i res) < c_MaxPerTick c" using runRepo_mints [OF r] n r by auto
  then show False using assms by (simp add: enqueued_count_def)
qed

section \<open>Examples\<close>

definition demo_config :: config where
  "demo_config = withDefaults
     \<lparr>c_ProjectsDir = [], c_Repos = [''/p/app''], c_Type = [], c_TodoFile = [], c_MaxPerTick = 0, c_MaxAttempts = 0, c_Priority = 5,
      c_SameSessionPriority = 0, c_UseImportance = False, c_MaxPendingPerRepo = 0, c_PromptTemplate = ''do {{ITEM}}'',
      c_BatchPromptTemplate = ''do {{ITEMS}}'', c_BatchItems = 2, c_BatchEffortMinutes = 0, c_EffortEstimator = None, c_Model = [],
      c_RepoIntervals = Map.empty, c_RepoTimeouts = Map.empty, c_DLQBackoff = 0, c_RequireClean = None, c_DryRun = False,
      c_ForceRedispatch = True, c_RedispatchCooldown = 0\<rparr>"

definition demo_item :: "string \<Rightarrow> item" where
  "demo_item k = \<lparr>it_Repo = ''/p/app'', it_RepoName = ''app'', it_Heading = ''Now'', it_Text = ''fix '' @ k, it_Key = k, it_Done = False, it_MarkerLevel = 0\<rparr>"

definition task_of :: "string \<Rightarrow> new_task \<Rightarrow> task" where
  "task_of i n = \<lparr>ID = i, Project = n_Project n, Type = n_Type n, Payload = n_Payload n, Deps = n_Deps n, Priority = n_Priority n,
     Attempts = 0, MaxAttempts = n_MaxAttempts n, NotBefore = n_NotBefore n, Status = Pending, LeaseOwner = [], LeaseExpires = None,
     LastError = [], DedupKey = n_DedupKey n, CreatedAt = 0, UpdatedAt = 0, CompletedAt = None\<rparr>"

text \<open>A queue that is a list of tasks.\<close>

definition list_ops :: "task list harvest_ops" where
  "list_ops = \<lparr>ho_Enqueue = (\<lambda>n s. let t = task_of (''t'' @ show_nat (length s)) n in ((Some t, None), s @ [t])), ho_List = (\<lambda>f s. Inr s),
     ho_PriorityScore = (\<lambda>_ _. Inr None), ho_Cancel = (\<lambda>_ _ s. (Inr (), s)), ho_UpdatePendingPriority = (\<lambda>_ _ _ _ s. (Inr (), s))\<rparr>"

definition elsewhere :: item where
  "elsewhere = (demo_item ''d'')\<lparr>it_Heading := ''Later''\<rparr>"

lemma batches_partition_witness:
  "\<exists>r1 r2. sectionRuns [demo_item ''a'', demo_item ''b'', demo_item ''c'', elsewhere] [True, False, True, True] 3 90 (\<lambda>_. 30) = [r1, r2]
     \<and> r1 @ r2 = [demo_item ''a'', demo_item ''c'', elsewhere] \<and> r1 \<noteq> [] \<and> r2 \<noteq> [] \<and> run_ok 3 90 (\<lambda>_. 30) r1"
proof -
  let ?its = "[demo_item ''a'', demo_item ''b'', demo_item ''c'', elsewhere]"
  obtain r1 r2 where r: "sectionRuns ?its [True, False, True, True] 3 90 (\<lambda>_. 30) = [r1, r2]"
    by (simp add: sectionRuns_def demo_item_def elsewhere_def)
  have "concat [r1, r2] = [demo_item ''a'', demo_item ''c'', elsewhere]" "\<forall>r\<in>set [r1, r2]. r \<noteq> [] \<and> run_ok 3 90 (\<lambda>_. 30) r"
    using batches_partition [of ?its "[True, False, True, True]" 3 90 "\<lambda>_. 30"] unfolding r by simp_all
  then show ?thesis using r by simp
qed

definition demo_run :: "harvest_result \<times> task list" where
  "demo_run = runRepo (demo_surroundings []) demo_config list_ops 0 ''/p/app'' [demo_item ''a'', demo_item ''b'', demo_item ''c''] empty_result []"

lemma demo_run_mints: "map en_TaskID (hr_Enqueued (fst demo_run)) = [''t0'', ''t0''] \<and> length (hr_Skipped (fst demo_run)) = 1"
  by code_simp


lemma demo_config_simps [simp]: "c_Repos demo_config = [''/p/app'']" "c_Type demo_config = DefaultType" "c_UseImportance demo_config = False"
  by (simp_all add: demo_config_def withDefaults_def Let_def)

lemma every_item_is_reported_witness:
  "\<exists>res s'. Run (demo_surroundings (todo_file demo_sections)) demo_config list_ops 0 (Inl []) [] = (Inr res, s')
     \<and> size (accounted res) = 2"
proof -
  let ?su = "demo_surroundings (todo_file demo_sections)"
  obtain res s' where r: "Run ?su demo_config list_ops 0 (Inl []) [] = (Inr res, s')"
    by (cases "run_repos ?su demo_config list_ops 0 (sort_strings [''/p/app'']) empty_result []")
      (simp add: Run_def Let_def del: run_repos.simps)
  have "accounted res = mset (parsed_items ?su demo_config ''/p/app'')"
    using every_item_is_reported [OF r] by auto
  moreover have "length (parsed_items ?su demo_config ''/p/app'') = 2" by code_simp
  ultimately show ?thesis using r by auto
qed

definition demo_payload :: harvest_payload where
  "demo_payload = \<lparr>hp_agent = no_agent\<lparr>ap_Repo := ''app'', ap_Prompt := ''do it'', ap_Item := ''fix a''\<rparr>, hp_Dedup = ''batch:0'',
     hp_EffortMinutes = [], hp_MarkerLevel = 0, hp_ItemKeys = [''a'', ''b'']\<rparr>"

definition demo_harvested :: "status \<Rightarrow> task" where
  "demo_harvested st = (task_of ''t0'' (candidate_task demo_config ''app'' demo_payload 5 3 ''batch:0''))\<lparr>Status := st\<rparr>"

lemma known_work_is_denied_witness:
  "\<exists>rs. surveyRepo (demo_surroundings []) demo_config list_ops 0 ''/p/app'' [demo_harvested Dead] = Inr rs
     \<and> itemDenial demo_config 0 rs (demo_item ''b'') False 0 = Some InDLQ"
proof -
  obtain rs where rs: "surveyRepo (demo_surroundings []) demo_config list_ops 0 ''/p/app'' [demo_harvested Dead] = Inr rs"
    by (simp add: surveyRepo_def list_ops_def Let_def)
  have "payload_in_range demo_payload" by (simp add: payload_in_range_def demo_payload_def no_agent_def int64_def)
  moreover have "blockedReason (it_Text (demo_item ''b'')) = None" by code_simp
  ultimately have "itemDenial demo_config 0 rs (demo_item ''b'') False 0 = Some (trackedItemDenial Dead)"
    using known_work_is_denied [OF rs, of "[demo_harvested Dead]" "demo_harvested Dead" demo_payload "demo_item ''b''" False 0]
    by (simp add: list_ops_def demo_harvested_def task_of_def candidate_task_def demo_item_def) (simp add: demo_payload_def)
  then show ?thesis using rs by (simp add: trackedItemDenial_def)
qed

definition dark :: surroundings where
  "dark = \<lparr>su_read = (\<lambda>_ _. Unreadable []), su_abs = Inr, su_digest = id, su_git = (\<lambda>_ _. (None, [], [])), su_glob = (\<lambda>_ _. False),
     su_isdir = (\<lambda>_. True), su_mtime = (\<lambda>_ _. None)\<rparr>"

definition fix_ticket :: harvest_payload where
  "fix_ticket = \<lparr>hp_agent = no_agent\<lparr>ap_Repo := ''/p/app'', ap_Prompt := ''fix the finding'', ap_RejectedSHA := ''abc1234'', ap_Anchor := ''x = 1''\<rparr>,
     hp_Dedup = [], hp_EffortMinutes = [], hp_MarkerLevel = 0, hp_ItemKeys = []\<rparr>"

lemma gates_fail_open_witness:
  "DonePreflight dark demo_config (demo_harvested Pending) = None
   \<and> DonePreflight dark demo_config (task_of ''t1'' (candidate_task demo_config ''app'' fix_ticket 5 3 [])) \<noteq> None"
proof -
  have b: "blind dark None" by (simp add: blind_def dark_def)
  have in_range: "payload_in_range demo_payload" "payload_in_range fix_ticket"
    by (simp_all add: payload_in_range_def demo_payload_def fix_ticket_def no_agent_def int64_def)
  have "decodeHarvestPayload (marshal (payload_json demo_payload)) = Some demo_payload"
    "decodeHarvestPayload (marshal (payload_json fix_ticket)) = Some fix_ticket"
    using dec_payload_json [OF in_range(1)] dec_payload_json [OF in_range(2)]
    by (simp_all add: decodeHarvestPayload_def) (simp_all add: demo_payload_def fix_ticket_def)
  moreover have "trim_space ''abc1234'' \<noteq> []" "trim_space ''x = 1'' \<noteq> []" "trim_space [] = []" by code_simp+
  ultimately have "\<not> cited_anchor dark demo_config (Payload (demo_harvested Pending))"
    "cited_anchor dark demo_config (Payload (task_of ''t1'' (candidate_task demo_config ''app'' fix_ticket 5 3 [])))"
    by (simp_all add: cited_anchor_def demo_harvested_def task_of_def candidate_task_def)
      (simp_all add: demo_payload_def fix_ticket_def no_agent_def donePreflightRepoDir_def has_prefix_def dark_def)
  then show ?thesis using gates_fail_open [OF b] by blast
qed

end
