(* ===== verification/Tq_Prune.thy ===== *)
theory Tq_Prune
  imports Tq_Pacing
begin

text \<open>
  Package \<open>internal/harvest\<close>, the passes that compare the backlog files with the queue: the drift audit
  (\<open>drift.go\<close>), the withdrawal of stale tasks (\<open>prune.go\<close>), the audit of re-dispatched work
  (\<open>redispatch.go\<close>), the re-resolution of priorities (\<open>reprioritize.go\<close>) and the priority story of a task
  (\<open>provenance.go\<close>).
\<close>

section \<open>The tasks of a repository\<close>

datatype scan_reason = ParseFailed string | ListErr qerr | CancelFailed task_id qerr

record scan_failure =
  sf_Repo :: string
  sf_Reason :: scan_reason

definition index_tasks :: "task list \<Rightarrow> string \<Rightarrow> task option" where
  "index_tasks ts = fold (\<lambda>t m. let k = payloadDedup t in if k = [] \<or> m k \<noteq> None then m else m(k \<mapsto> t)) ts Map.empty"

definition index_members :: "task list \<Rightarrow> string \<Rightarrow> task option" where
  "index_members batches = fold (\<lambda>b m. fold (\<lambda>k m. if m k \<noteq> None then m else m(k \<mapsto> b)) (payloadItemKeys b) m) batches Map.empty"

definition index_items :: "item list \<Rightarrow> string \<Rightarrow> item option" where
  "index_items its = fold (\<lambda>it m. m(it_Key it \<mapsto> it)) its Map.empty"

record task_index =
  ti_items :: "item list"
  ti_tasks :: "task list"
  ti_byDedup :: "string \<Rightarrow> task option"
  ti_batches :: "task list"

definition projectTaskIndex :: "surroundings \<Rightarrow> config \<Rightarrow> 's harvest_ops \<Rightarrow> string \<Rightarrow> 's \<Rightarrow> scan_reason + task_index" where
  "projectTaskIndex su c ops repo s =
     (case ParseRepoAll su repo (c_TodoFile c) of
        Inl e \<Rightarrow> Inl (ParseFailed e)
      | Inr its \<Rightarrow>
          (case ho_List ops (repo_filter c (path_base repo)) s of
             Inl e \<Rightarrow> Inl (ListErr e)
           | Inr ts \<Rightarrow> Inr \<lparr>ti_items = its, ti_tasks = ts, ti_byDedup = index_tasks ts,
               ti_batches = filter (\<lambda>t. payloadItemKeys t \<noteq> []) ts\<rparr>))"

text \<open>\<open>resolveRepos\<close>; \<open>discovered\<close> is the outcome of the scan of the projects directory.\<close>

definition resolveRepos :: "config \<Rightarrow> string + string list \<Rightarrow> run_error + string list" where
  "resolveRepos c discovered =
     (if c_Repos c \<noteq> [] then Inr (sort_strings (c_Repos c))
      else if c_ProjectsDir c = [] then Inl ErrNoRepos
      else case discovered of Inl e \<Rightarrow> Inl (DiscoverFailed e) | Inr repos \<Rightarrow> Inr (sort_strings repos))"

section \<open>Drift\<close>

datatype drift_kind = DriftStaleOpen | DriftStaleDone

record drift =
  dr_Kind :: drift_kind
  dr_Item :: item
  dr_TaskID :: task_id
  dr_TaskStatus :: status

record drift_result =
  dt_Repos :: int
  dt_StaleOpen :: "drift list"
  dt_StaleDone :: "drift list"
  dt_Enqueued :: "enqueued list"
  dt_Failures :: "scan_failure list"

definition drift_of :: "drift_kind \<Rightarrow> item \<Rightarrow> task \<Rightarrow> drift" where
  "drift_of k it t = \<lparr>dr_Kind = k, dr_Item = it, dr_TaskID = ID t, dr_TaskStatus = Status t\<rparr>"

definition enqueueCatchup :: "surroundings \<Rightarrow> config \<Rightarrow> 's harvest_ops \<Rightarrow> go_time \<Rightarrow> item \<Rightarrow> string \<Rightarrow> 's \<Rightarrow> (mint_error + task) \<times> 's" where
  "enqueueCatchup su c ops now it catchupKey =
     gated_enqueue su c ops now (candidate_task c (it_RepoName it) (buildPayload su c it DefaultCatchupPrompt catchupKey)
       (c_Priority c) (if c_MaxAttempts c \<le> 0 then 2 else c_MaxAttempts c) catchupKey)"

definition tracked_task :: "task_index \<Rightarrow> string \<Rightarrow> task option" where
  "tracked_task ix k = or_else (ti_byDedup ix k) (index_members (ti_batches ix) k)"

fun audit_items :: "surroundings \<Rightarrow> config \<Rightarrow> 's harvest_ops \<Rightarrow> go_time \<Rightarrow> task_index \<Rightarrow> item list \<Rightarrow> drift_result \<Rightarrow> 's \<Rightarrow> drift_result \<times> 's" where
  "audit_items su c ops now ix [] res s = (res, s)"
| "audit_items su c ops now ix (it # its) res s =
     (case tracked_task ix (it_Key it) of
        None \<Rightarrow> audit_items su c ops now ix its res s
      | Some t \<Rightarrow>
          if \<not> it_Done it \<and> Status t = Completed then
            (let res1 = res\<lparr>dt_StaleOpen := dt_StaleOpen res @ [drift_of DriftStaleOpen it t]\<rparr>; key = CatchupKeyPrefix @ it_Key it in
             if c_DryRun c \<or> ti_byDedup ix key \<noteq> None then audit_items su c ops now ix its res1 s
             else case enqueueCatchup su c ops now it key s of
               (Inl e, s') \<Rightarrow> audit_items su c ops now ix its res1 s'
             | (Inr u, s') \<Rightarrow> audit_items su c ops now ix its
                 (res1\<lparr>dt_Enqueued := dt_Enqueued res1 @ [\<lparr>en_Item = it, en_TaskID = ID u, en_Fresh = True, en_Hot = False\<rparr>]\<rparr>) s')
          else if it_Done it \<and> Status t \<noteq> Completed then
            audit_items su c ops now ix its (res\<lparr>dt_StaleDone := dt_StaleDone res @ [drift_of DriftStaleDone it t]\<rparr>) s
          else audit_items su c ops now ix its res s)"

definition auditRepo :: "surroundings \<Rightarrow> config \<Rightarrow> 's harvest_ops \<Rightarrow> go_time \<Rightarrow> string \<Rightarrow> drift_result \<Rightarrow> 's \<Rightarrow> drift_result \<times> 's" where
  "auditRepo su c ops now repo res s =
     (let res1 = res\<lparr>dt_Repos := dt_Repos res + 1\<rparr> in
      case projectTaskIndex su c ops repo s of
        Inl e \<Rightarrow> (res1\<lparr>dt_Failures := dt_Failures res1 @ [\<lparr>sf_Repo = repo, sf_Reason = e\<rparr>]\<rparr>, s)
      | Inr ix \<Rightarrow> audit_items su c ops now ix (ti_items ix) res1 s)"

definition Audit :: "surroundings \<Rightarrow> config \<Rightarrow> 's harvest_ops \<Rightarrow> go_time \<Rightarrow> string + string list \<Rightarrow> 's \<Rightarrow> (run_error + drift_result) \<times> 's" where
  "Audit su c ops now discovered s =
     (case resolveRepos c discovered of
        Inl e \<Rightarrow> (Inl e, s)
      | Inr repos \<Rightarrow>
          (case fold (\<lambda>repo (res, s). auditRepo su c ops now repo res s) repos
             (\<lparr>dt_Repos = 0, dt_StaleOpen = [], dt_StaleDone = [], dt_Enqueued = [], dt_Failures = []\<rparr>, s) of
             (res, s') \<Rightarrow> (Inr res, s')))"

section \<open>Stale tasks\<close>

datatype prune_why = PruneTicked | PruneAbsent

record pruned_task =
  pk_Item :: item
  pk_TaskID :: task_id
  pk_Why :: prune_why

record prune_result =
  pr_Repos :: int
  pr_Cancelled :: "pruned_task list"
  pr_Running :: "pruned_task list"
  pr_Dead :: "pruned_task list"
  pr_Failures :: "scan_failure list"

definition pruneReasonHead :: string where "pruneReasonHead = ''harvest --prune-stale: TODO_LIST item ''"

definition ticked_reason :: "string \<Rightarrow> string" where
  "ticked_reason txt = pruneReasonHead @ ''is now [x]: '' @ truncateItem txt"

definition absent_reason :: "string \<Rightarrow> string" where
  "absent_reason key = pruneReasonHead @ ''no longer present (key '' @ key @ ''): item withdrawn or reworded''"

definition key_item :: "string \<Rightarrow> string \<Rightarrow> item" where
  "key_item repo key = \<lparr>it_Repo = repo, it_RepoName = path_base repo, it_Heading = [], it_Text = [], it_Key = key, it_Done = False, it_MarkerLevel = 0\<rparr>"

text \<open>The switch on the status the three rules share.\<close>

definition withdraw :: "config \<Rightarrow> 's harvest_ops \<Rightarrow> string \<Rightarrow> item \<Rightarrow> task \<Rightarrow> prune_why \<Rightarrow> string \<Rightarrow> prune_result \<Rightarrow> 's \<Rightarrow> prune_result \<times> 's" where
  "withdraw c ops repo it t why reason res s =
     (let entry = \<lparr>pk_Item = it, pk_TaskID = ID t, pk_Why = why\<rparr> in
      case Status t of
        Pending \<Rightarrow>
          if c_DryRun c then (res\<lparr>pr_Cancelled := pr_Cancelled res @ [entry]\<rparr>, s)
          else (case ho_Cancel ops (ID t) reason s of
            (Inl e, s') \<Rightarrow> (res\<lparr>pr_Failures := pr_Failures res @ [\<lparr>sf_Repo = repo, sf_Reason = CancelFailed (ID t) e\<rparr>]\<rparr>, s')
          | (Inr _, s') \<Rightarrow> (res\<lparr>pr_Cancelled := pr_Cancelled res @ [entry]\<rparr>, s'))
      | Running \<Rightarrow> (res\<lparr>pr_Running := pr_Running res @ [entry]\<rparr>, s)
      | Dead \<Rightarrow> (res\<lparr>pr_Dead := pr_Dead res @ [entry]\<rparr>, s)
      | _ \<Rightarrow> (res, s))"

definition pruneTickedTask :: "config \<Rightarrow> 's harvest_ops \<Rightarrow> string \<Rightarrow> item \<Rightarrow> task \<Rightarrow> prune_result \<Rightarrow> 's \<Rightarrow> prune_result \<times> 's" where
  "pruneTickedTask c ops repo it t = withdraw c ops repo it t PruneTicked (ticked_reason (it_Text it))"

definition pruneAbsentTask :: "config \<Rightarrow> 's harvest_ops \<Rightarrow> string \<Rightarrow> string \<Rightarrow> task \<Rightarrow> string set \<Rightarrow> prune_result \<Rightarrow> 's \<Rightarrow> prune_result \<times> 's" where
  "pruneAbsentTask c ops repo key t present res s =
     (let itemKey = trim_prefix key CatchupKeyPrefix in
      if itemKey \<in> present then (res, s)
      else withdraw c ops repo (key_item repo itemKey) t PruneAbsent (absent_reason itemKey) res s)"

definition batch_display :: "(string \<Rightarrow> item option) \<Rightarrow> string list \<Rightarrow> item \<Rightarrow> item" where
  "batch_display byKey members it0 =
     fold (\<lambda>k d. case byKey k of Some it \<Rightarrow> if it_Done it then it else d | None \<Rightarrow> d) members it0"

definition prune_batch :: "config \<Rightarrow> 's harvest_ops \<Rightarrow> string \<Rightarrow> item list \<Rightarrow> task \<Rightarrow> prune_result \<Rightarrow> 's \<Rightarrow> prune_result \<times> 's" where
  "prune_batch c ops repo its t res s =
     (let members = payloadItemKeys t; byKey = index_items its; rows = rows_of its;
          display = batch_display byKey members (key_item repo (payloadDedup t)) in
      if members = [] \<or> \<not> allTicked rows members \<and> \<not> allAbsent rows members then (res, s)
      else if allAbsent rows members then withdraw c ops repo display t PruneAbsent (absent_reason (payloadDedup t)) res s
      else withdraw c ops repo display t PruneTicked (ticked_reason (it_Text display)) res s)"

definition prune_ticked_pass :: "config \<Rightarrow> 's harvest_ops \<Rightarrow> string \<Rightarrow> task_index \<Rightarrow> prune_result \<Rightarrow> 's \<Rightarrow> prune_result \<times> 's" where
  "prune_ticked_pass c ops repo ix res s =
     fold (\<lambda>it (res, s). if \<not> it_Done it then (res, s)
        else case ti_byDedup ix (it_Key it) of None \<Rightarrow> (res, s) | Some t \<Rightarrow> pruneTickedTask c ops repo it t res s) (ti_items ix) (res, s)"

definition dedup_keys :: "task_index \<Rightarrow> string list" where
  "dedup_keys ix = sort_strings (uniq (filter (\<lambda>k. k \<noteq> [] \<and> \<not> has_prefix k BatchKeyPrefix) (map payloadDedup (ti_tasks ix))))"

definition prune_absent_pass :: "config \<Rightarrow> 's harvest_ops \<Rightarrow> string \<Rightarrow> task_index \<Rightarrow> prune_result \<Rightarrow> 's \<Rightarrow> prune_result \<times> 's" where
  "prune_absent_pass c ops repo ix res s =
     fold (\<lambda>k (res, s). case ti_byDedup ix k of None \<Rightarrow> (res, s)
        | Some t \<Rightarrow> pruneAbsentTask c ops repo k t (it_Key ` set (ti_items ix)) res s) (dedup_keys ix) (res, s)"

definition pruneBatchTasks :: "config \<Rightarrow> 's harvest_ops \<Rightarrow> string \<Rightarrow> task_index \<Rightarrow> prune_result \<Rightarrow> 's \<Rightarrow> prune_result \<times> 's" where
  "pruneBatchTasks c ops repo ix res s = fold (\<lambda>t (res, s). prune_batch c ops repo (ti_items ix) t res s) (ti_batches ix) (res, s)"

definition pruneRepo :: "surroundings \<Rightarrow> config \<Rightarrow> 's harvest_ops \<Rightarrow> string \<Rightarrow> prune_result \<Rightarrow> 's \<Rightarrow> prune_result \<times> 's" where
  "pruneRepo su c ops repo res s =
     (let res0 = res\<lparr>pr_Repos := pr_Repos res + 1\<rparr> in
      case projectTaskIndex su c ops repo s of
        Inl e \<Rightarrow> (res0\<lparr>pr_Failures := pr_Failures res0 @ [\<lparr>sf_Repo = repo, sf_Reason = e\<rparr>]\<rparr>, s)
      | Inr ix \<Rightarrow>
          (case prune_ticked_pass c ops repo ix res0 s of (res1, s1) \<Rightarrow>
           case prune_absent_pass c ops repo ix res1 s1 of (res2, s2) \<Rightarrow>
             pruneBatchTasks c ops repo ix res2 s2))"

definition PruneStale :: "surroundings \<Rightarrow> config \<Rightarrow> 's harvest_ops \<Rightarrow> string + string list \<Rightarrow> 's \<Rightarrow> (run_error + prune_result) \<times> 's" where
  "PruneStale su c ops discovered s =
     (case resolveRepos c discovered of
        Inl e \<Rightarrow> (Inl e, s)
      | Inr repos \<Rightarrow>
          (case fold (\<lambda>repo (res, s). pruneRepo su c ops repo res s) repos
             (\<lparr>pr_Repos = 0, pr_Cancelled = [], pr_Running = [], pr_Dead = [], pr_Failures = []\<rparr>, s) of
             (res, s') \<Rightarrow> (Inr res, s')))"

section \<open>Re-dispatched work\<close>

datatype redispatch_class = LiveTaskOnClosedRow | SpendAfterClose

record redispatch_finding =
  rf_Repo :: string
  rf_TaskID :: task_id
  rf_Status :: status
  rf_Attempts :: int
  rf_ItemKey :: string
  rf_ItemText :: string
  rf_Class :: redispatch_class

definition redispatch_class_of :: "task \<Rightarrow> redispatch_class option" where
  "redispatch_class_of t =
     (case Status t of
        Pending \<Rightarrow> Some LiveTaskOnClosedRow
      | Running \<Rightarrow> Some LiveTaskOnClosedRow
      | OtherStatus _ \<Rightarrow> None
      | _ \<Rightarrow> if Attempts t > 1 then Some SpendAfterClose else None)"

definition redispatch_finding_of :: "(string \<Rightarrow> bool option) \<Rightarrow> string \<Rightarrow> task \<Rightarrow> redispatch_finding option" where
  "redispatch_finding_of rows repoName t =
     (case decodeHarvestPayload (Payload t) of
        None \<Rightarrow> None
      | Some p \<Rightarrow>
          let keys = itemKeysFor t p in
          if keys = [] \<or> \<not> rowClosed rows keys then None
          else map_option (\<lambda>cl. \<lparr>rf_Repo = repoName, rf_TaskID = ID t, rf_Status = Status t, rf_Attempts = Attempts t,
                 rf_ItemKey = hd keys, rf_ItemText = truncateItem (ap_Item (hp_agent p)), rf_Class = cl\<rparr>) (redispatch_class_of t))"

definition redispatchAuditRepo :: "surroundings \<Rightarrow> config \<Rightarrow> 's harvest_ops \<Rightarrow> string \<Rightarrow> 's \<Rightarrow> scan_reason + redispatch_finding list" where
  "redispatchAuditRepo su c ops repo s =
     (case todoState su c repo of
        Inl e \<Rightarrow> Inl (ParseFailed e)
      | Inr rows \<Rightarrow>
          (case ho_List ops (repo_filter c (path_base repo)) s of
             Inl e \<Rightarrow> Inl (ListErr e)
           | Inr ts \<Rightarrow> Inr (List.map_filter (redispatch_finding_of rows (path_base repo)) ts)))"

record redispatch_result =
  rr_Repos :: int
  rr_Findings :: "redispatch_finding list"
  rr_Failures :: "scan_failure list"

definition RedispatchAudit :: "surroundings \<Rightarrow> config \<Rightarrow> 's harvest_ops \<Rightarrow> string + string list \<Rightarrow> 's \<Rightarrow> run_error + redispatch_result" where
  "RedispatchAudit su c ops discovered s =
     (case resolveRepos c discovered of
        Inl e \<Rightarrow> Inl e
      | Inr repos \<Rightarrow> Inr (fold (\<lambda>repo res.
          let res1 = res\<lparr>rr_Repos := rr_Repos res + 1\<rparr> in
          case redispatchAuditRepo su c ops repo s of
            Inl e \<Rightarrow> res1\<lparr>rr_Failures := rr_Failures res1 @ [\<lparr>sf_Repo = repo, sf_Reason = e\<rparr>]\<rparr>
          | Inr found \<Rightarrow> res1\<lparr>rr_Findings := rr_Findings res1 @ found\<rparr>) repos
          \<lparr>rr_Repos = 0, rr_Findings = [], rr_Failures = []\<rparr>))"

section \<open>Priorities\<close>

record repri_change =
  rc_TaskID :: task_id
  rc_ItemText :: string
  rc_OldPriority :: int
  rc_NewPriority :: int
  rc_Source :: priority_source

datatype repri_failure = RepriParse string string | RepriMetadata string import_error | RepriUpdate string task_id qerr

definition repriReason :: "item \<Rightarrow> priority_source \<Rightarrow> string" where
  "repriReason it src =
     (if it_MarkerLevel it > 0 then ''marker P'' @ show_int (it_MarkerLevel it) else ''re-resolved from '' @ source_string src)"

definition pendingByKey :: "config \<Rightarrow> 's harvest_ops \<Rightarrow> string \<Rightarrow> 's \<Rightarrow> string \<Rightarrow> task option" where
  "pendingByKey c ops repoName s =
     (case ho_List ops (repo_filter c repoName) s of
        Inl _ \<Rightarrow> Map.empty
      | Inr ts \<Rightarrow> fold (\<lambda>t m. if Status t = Pending \<and> payloadDedup t \<noteq> [] then m(payloadDedup t \<mapsto> t) else m) ts Map.empty)"

fun repri_items :: "config \<Rightarrow> 's harvest_ops \<Rightarrow> bool \<Rightarrow> string \<Rightarrow> int \<Rightarrow> (string \<Rightarrow> task option) \<Rightarrow> item list \<Rightarrow> 's
    \<Rightarrow> (repri_change list \<times> repri_failure list) \<times> 's" where
  "repri_items c ops dryRun repoName importance pending [] s = (([], []), s)"
| "repri_items c ops dryRun repoName importance pending (it # its) s =
     (case pending (it_Key it) of
        None \<Rightarrow> repri_items c ops dryRun repoName importance pending its s
      | Some t \<Rightarrow>
          if \<not> RepriMutable (Priority t) then repri_items c ops dryRun repoName importance pending its s
          else case item_priority c ops it importance s of (prio, src) \<Rightarrow>
            if prio = Priority t then repri_items c ops dryRun repoName importance pending its s
            else
              let change = \<lparr>rc_TaskID = ID t, rc_ItemText = it_Text it, rc_OldPriority = Priority t, rc_NewPriority = prio, rc_Source = src\<rparr>;
                  go_on = (\<lambda>s'. case repri_items c ops dryRun repoName importance pending its s' of ((cs, fs), s2) \<Rightarrow> ((change # cs, fs), s2)) in
              if dryRun then go_on s
              else (case ho_UpdatePendingPriority ops (ID t) prio (source_string src) (repriReason it src) s of
                (Inr _, s') \<Rightarrow> go_on s'
              | (Inl e, s') \<Rightarrow>
                  (case repri_items c ops dryRun repoName importance pending its s' of
                     ((cs, fs), s2) \<Rightarrow> ((cs, RepriUpdate repoName (ID t) e # fs), s2))))"

definition repriRepo :: "surroundings \<Rightarrow> config \<Rightarrow> 's harvest_ops \<Rightarrow> bool \<Rightarrow> string \<Rightarrow> 's \<Rightarrow> (repri_change list \<times> repri_failure list) \<times> 's" where
  "repriRepo su c ops dryRun repo s =
     (let repoName = path_base repo in
      case ParseRepo su repo (c_TodoFile c) of
        Inl e \<Rightarrow> (([], [RepriParse repoName e]), s)
      | Inr its \<Rightarrow>
          (case (if c_UseImportance c then ReadImportance (su_read su repo ''.config/metadata.yaml'') else Inr DefaultImportance) of
             Inl e \<Rightarrow> (([], [RepriMetadata repoName e]), s)
           | Inr importance \<Rightarrow> repri_items c ops dryRun repoName importance (pendingByKey c ops repoName s) its s))"

text \<open>\<open>Reprioritize\<close> over the resolved repositories.\<close>

definition Reprioritize :: "surroundings \<Rightarrow> config \<Rightarrow> 's harvest_ops \<Rightarrow> bool \<Rightarrow> string list \<Rightarrow> 's \<Rightarrow> (repri_change list \<times> repri_failure list) \<times> 's" where
  "Reprioritize su c ops dryRun repos s =
     fold (\<lambda>repo ((cs, fs), s). case repriRepo su c ops dryRun repo s of ((cs', fs'), s') \<Rightarrow> ((cs @ cs', fs @ fs'), s'))
       (sort_strings repos) (([], []), s)"

record provenance_event =
  pe_At :: go_time
  pe_Old :: int
  pe_New :: int
  pe_Source :: string
  pe_Reason :: string

record provenance =
  pv_Current :: int
  pv_Band :: band
  pv_ItemKey :: string
  pv_MarkerLevel :: int
  pv_Score :: "priority_score option"
  pv_History :: "provenance_event list"

definition BuildProvenance :: "(string \<Rightarrow> qerr + priority_score option) \<Rightarrow> task \<Rightarrow> fact list \<Rightarrow> provenance" where
  "BuildProvenance scorer t trail =
     (let item = PayloadItemOf t in
      \<lparr>pv_Current = Priority t, pv_Band = BandOf (Priority t),
       pv_ItemKey = (case item of None \<Rightarrow> [] | Some i \<Rightarrow> pi_Key i), pv_MarkerLevel = (case item of None \<Rightarrow> 0 | Some i \<Rightarrow> pi_MarkerLevel i),
       pv_Score = (case item of None \<Rightarrow> None | Some i \<Rightarrow> (case scorer (pi_Key i) of Inr (Some sc) \<Rightarrow> Some sc | _ \<Rightarrow> None)),
       pv_History = List.map_filter (\<lambda>f. if FType f = F_Reprioritized
          then map_option (\<lambda>e. \<lparr>pe_At = Time f, pe_Old = re_OldPriority e, pe_New = re_NewPriority e, pe_Source = re_Source e, pe_Reason = re_Reason e\<rparr>)
                 (ParseReprioritizeEvidence (Detail f)) else None) trail\<rparr>)"

section \<open>Withdrawals\<close>

text \<open>A relation between results: the later one lists more withdrawals, all of a kind.\<close>

definition grew :: "(pruned_task \<Rightarrow> bool) \<Rightarrow> prune_result \<Rightarrow> prune_result \<Rightarrow> bool" where
  "grew Q a b \<longleftrightarrow> (\<exists>new. pr_Cancelled b = pr_Cancelled a @ new \<and> (\<forall>x\<in>set new. Q x))"

lemma grew_refl [simp]: "grew Q a a"
  by (simp add: grew_def)

lemma grew_trans: "grew Q a b \<Longrightarrow> grew Q b c \<Longrightarrow> grew Q a c"
  by (auto simp: grew_def)

lemma grew_fold:
  assumes "\<And>x r s. x \<in> set xs \<Longrightarrow> grew Q r (fst (f x (r, s)))"
  shows "grew Q r (fst (fold f xs (r, s)))"
  using assms
proof (induction xs arbitrary: r s)
  case (Cons x xs)
  obtain r1 s1 where f: "f x (r, s) = (r1, s1)" by (cases "f x (r, s)")
  have "grew Q r r1" using Cons.prems [of x r s] f by simp
  moreover have "grew Q r1 (fst (fold f xs (r1, s1)))" using Cons.IH Cons.prems by simp
  ultimately show ?case using f grew_trans by auto
qed simp

lemma withdraw_grew:
  "Status t = Pending \<Longrightarrow> Q \<lparr>pk_Item = it, pk_TaskID = ID t, pk_Why = why\<rparr> \<Longrightarrow> grew Q r (fst (withdraw c ops repo it t why reason r s))"
  "Status t \<noteq> Pending \<Longrightarrow> grew Q r (fst (withdraw c ops repo it t why reason r s))"
  by (auto simp: withdraw_def grew_def Let_def split: status.split prod.splits sum.splits)

lemma index_tasks_from:
  "fold (\<lambda>t m. let k = payloadDedup t in if k = [] \<or> m k \<noteq> None then m else m(k \<mapsto> t)) ts m k = Some t \<Longrightarrow>
   m k = Some t \<or> t \<in> set ts \<and> payloadDedup t = k \<and> k \<noteq> []"
proof (induction ts arbitrary: m)
  case (Cons u ts)
  have "fold (\<lambda>t m. let k = payloadDedup t in if k = [] \<or> m k \<noteq> None then m else m(k \<mapsto> t)) ts
      (if payloadDedup u = [] \<or> m (payloadDedup u) \<noteq> None then m else m(payloadDedup u \<mapsto> u)) k = Some t"
    using Cons.prems by (simp add: Let_def)
  from Cons.IH [OF this] show ?case by (auto split: if_splits)
qed simp

lemma index_tasks_Some: "index_tasks ts k = Some t \<Longrightarrow> t \<in> set ts \<and> payloadDedup t = k \<and> k \<noteq> []"
  unfolding index_tasks_def by (drule index_tasks_from) simp

definition withdrawable :: "item list \<Rightarrow> task \<Rightarrow> bool" where
  "withdrawable its t \<longleftrightarrow> Status t = Pending \<and>
     ((payloadDedup t \<noteq> [] \<and> ((\<exists>it\<in>set its. it_Key it = payloadDedup t \<and> it_Done it)
        \<or> trim_prefix (payloadDedup t) CatchupKeyPrefix \<notin> it_Key ` set its))
      \<or> (payloadItemKeys t \<noteq> [] \<and> rowClosed (rows_of its) (payloadItemKeys t)))"

lemma projectTaskIndex_Inr:
  assumes "projectTaskIndex su c ops repo s = Inr ix"
  shows "ti_byDedup ix = index_tasks (ti_tasks ix)" "ti_batches ix = filter (\<lambda>t. payloadItemKeys t \<noteq> []) (ti_tasks ix)"
  using assms by (auto simp: projectTaskIndex_def split: sum.splits)


section \<open>Re-resolution\<close>

lemma pendingByKey_from:
  "fold (\<lambda>t m. if Status t = Pending \<and> payloadDedup t \<noteq> [] then m(payloadDedup t \<mapsto> t) else m) ts m k = Some t \<Longrightarrow>
   m k = Some t \<or> t \<in> set ts \<and> Status t = Pending \<and> payloadDedup t = k"
proof (induction ts arbitrary: m)
  case (Cons u ts)
  have "fold (\<lambda>t m. if Status t = Pending \<and> payloadDedup t \<noteq> [] then m(payloadDedup t \<mapsto> t) else m) ts
      (if Status u = Pending \<and> payloadDedup u \<noteq> [] then m(payloadDedup u \<mapsto> u) else m) k = Some t"
    using Cons.prems by simp
  from Cons.IH [OF this] show ?case by (auto split: if_splits)
qed simp

lemma pendingByKey_Some:
  "ho_List ops (repo_filter c repoName) s = Inr ts \<Longrightarrow> pendingByKey c ops repoName s k = Some t \<Longrightarrow>
   t \<in> set ts \<and> Status t = Pending \<and> payloadDedup t = k"
  unfolding pendingByKey_def by (auto dest: pendingByKey_from)

definition lawful_change :: "config \<Rightarrow> 's harvest_ops \<Rightarrow> int \<Rightarrow> (string \<Rightarrow> task option) \<Rightarrow> item list \<Rightarrow> repri_change \<Rightarrow> bool" where
  "lawful_change c ops importance pending its ch \<longleftrightarrow>
     (\<exists>it\<in>set its. \<exists>t s. pending (it_Key it) = Some t \<and> rc_TaskID ch = ID t \<and> rc_OldPriority ch = Priority t \<and> RepriMutable (Priority t)
        \<and> (rc_NewPriority ch, rc_Source ch) = item_priority c ops it importance s \<and> rc_NewPriority ch \<noteq> Priority t)"

lemma repri_items_lawful:
  "repri_items c ops dryRun repoName importance pending its s = ((cs, fs), s') \<Longrightarrow>
   (\<forall>ch\<in>set cs. lawful_change c ops importance pending its ch) \<and> (dryRun \<longrightarrow> s' = s \<and> fs = [])"
proof (induction its arbitrary: s cs fs s')
  case (Cons it its)
  have mono: "lawful_change c ops importance pending its ch \<Longrightarrow> lawful_change c ops importance pending (it # its) ch" for ch
    unfolding lawful_change_def by (meson list.set_intros(2))
  show ?case
  proof (cases "pending (it_Key it)")
    case None
    then have "repri_items c ops dryRun repoName importance pending its s = ((cs, fs), s')" using Cons.prems by simp
    then show ?thesis using Cons.IH mono by blast
  next
    case (Some t)
    obtain prio src where ip: "item_priority c ops it importance s = (prio, src)" by (cases "item_priority c ops it importance s")
    show ?thesis
    proof (cases "RepriMutable (Priority t) \<and> prio \<noteq> Priority t")
      case False
      then have "repri_items c ops dryRun repoName importance pending its s = ((cs, fs), s')" using Cons.prems Some ip by (auto split: if_splits)
      then show ?thesis using Cons.IH mono by blast
    next
      case True
      let ?ch = "\<lparr>rc_TaskID = ID t, rc_ItemText = it_Text it, rc_OldPriority = Priority t, rc_NewPriority = prio, rc_Source = src\<rparr>"
      have new: "lawful_change c ops importance pending (it # its) ?ch"
        unfolding lawful_change_def by (rule bexI [of _ it], rule exI [of _ t], rule exI [of _ s]) (use Some True ip in auto)
      obtain r s1 where up: "ho_UpdatePendingPriority ops (ID t) prio (source_string src) (repriReason it src) s = (r, s1)"
        by (cases "ho_UpdatePendingPriority ops (ID t) prio (source_string src) (repriReason it src) s")
      obtain cs1 fs1 s2 where rest: "repri_items c ops dryRun repoName importance pending its (if dryRun then s else s1) = ((cs1, fs1), s2)"
        by (metis prod.exhaust)
      have "(cs = ?ch # cs1 \<or> cs = cs1) \<and> (dryRun \<longrightarrow> s' = s2 \<and> fs = fs1)"
        using Cons.prems Some ip True up rest by (cases r) (auto simp: Let_def split: if_splits)
      then show ?thesis using Cons.IH [OF rest] new mono by auto
    qed
  qed
qed simp

lemma ItemKey_prefix [simp]: "has_prefix (ItemKey digest r t) ''todo:''"
  by (simp add: ItemKey_def has_prefix_def)

lemma parse_keys:
  "parse_lines digest dir base file h b ls = Inr its \<Longrightarrow> it \<in> set its \<Longrightarrow> has_prefix (it_Key it) ''todo:''"
proof (induction ls arbitrary: h b its)
  case (Cons l ls)
  let ?line = "trim_space l"
  have more: "has_prefix (it_Key it) ''todo:''" if "parse_lines digest dir base file h' b' ls = Inr its" for h' b'
    using Cons.IH [OF that] Cons.prems(2) .
  show ?case
  proof (cases "has_prefix ?line ''```'' \<or> b \<or> headingOf ?line \<noteq> None \<or> checkboxOf ?line = None")
    case True
    then show ?thesis using Cons.prems(1) more by (auto simp: Let_def split: if_splits option.splits)
  next
    case False
    then obtain raw tick where box: "checkboxOf ?line = Some (raw, tick)" by auto
    obtain l' st ok where m: "SplitMarker (trim_space raw) = (l', st, ok)" by (cases "SplitMarker (trim_space raw)")
    show ?thesis
    proof (cases "trim_space raw = [] \<or> strayCheckbox (trim_space raw) \<noteq> []")
      case True
      then show ?thesis using Cons.prems(1) more False box by (auto simp: Let_def split: if_splits)
    next
      case plain: False
      then obtain its' u where "parse_lines digest dir base file h False ls = Inr its'" "its = u # its'" "has_prefix (it_Key u) ''todo:''"
        using Cons.prems(1) False box m by (cases "parse_lines digest dir base file h False ls") (auto simp: Let_def)
      then show ?thesis using Cons.IH [of h False its'] Cons.prems(2) by auto
    qed
  qed
qed simp

lemma repri_changes:
  assumes "repriRepo su c ops dryRun repo s = ((cs, fs), s')" "ch \<in> set cs"
    and "ho_List ops (repo_filter c (path_base repo)) s = Inr ts" "ParseRepo su repo (c_TodoFile c) = Inr its"
  shows "\<exists>it\<in>set its. \<exists>t\<in>set ts. payloadDedup t = it_Key it \<and> Status t = Pending \<and> rc_TaskID ch = ID t
      \<and> rc_OldPriority ch = Priority t \<and> RepriMutable (Priority t) \<and> rc_NewPriority ch \<noteq> Priority t
      \<and> (\<exists>importance s1. (rc_NewPriority ch, rc_Source ch) = item_priority c ops it importance s1)
      \<and> has_prefix (payloadDedup t) ''todo:'' \<and> (dryRun \<longrightarrow> s' = s)"
proof -
  obtain importance where run: "repri_items c ops dryRun (path_base repo) importance (pendingByKey c ops (path_base repo) s) its s = ((cs, fs), s')"
    using assms(1,2,4) by (auto simp: repriRepo_def Let_def split: sum.splits if_splits)
  then have law: "lawful_change c ops importance (pendingByKey c ops (path_base repo) s) its ch" and dry: "dryRun \<longrightarrow> s' = s"
    using repri_items_lawful [OF run] assms(2) by auto
  then obtain it t s1 where it: "it \<in> set its" "pendingByKey c ops (path_base repo) s (it_Key it) = Some t" "rc_TaskID ch = ID t"
    "rc_OldPriority ch = Priority t" "RepriMutable (Priority t)" "rc_NewPriority ch \<noteq> Priority t"
    "(rc_NewPriority ch, rc_Source ch) = item_priority c ops it importance s1"
    unfolding lawful_change_def by blast
  have t: "t \<in> set ts" "Status t = Pending" "payloadDedup t = it_Key it" using pendingByKey_Some [OF assms(3) it(2)] by auto
  have "has_prefix (it_Key it) ''todo:''"
    using assms(4) it(1) parse_keys by (fastforce simp: ParseRepo_def ParseRepoAll_def map_sum_def split: sum.splits read_result.splits)
  then show ?thesis using it t dry by metis
qed


text \<open>A batch, whose key is not that of an item, keeps its priority whatever its rows say.\<close>

lemma batches_keep_their_priority:
  assumes "repriRepo su c ops dryRun repo s = ((cs, fs), s')" "ch \<in> set cs"
    and "ho_List ops (repo_filter c (path_base repo)) s = Inr ts" "ParseRepo su repo (c_TodoFile c) = Inr its"
    and "distinct (map ID ts)" "t \<in> set ts" "has_prefix (payloadDedup t) BatchKeyPrefix"
  shows "rc_TaskID ch \<noteq> ID t"
proof
  assume "rc_TaskID ch = ID t"
  moreover obtain u where "u \<in> set ts" "rc_TaskID ch = ID u" "has_prefix (payloadDedup u) ''todo:''"
    using repri_changes [OF assms(1-4)] by blast
  ultimately have "has_prefix (payloadDedup t) ''todo:''" using assms(5,6) by (metis distinct_map inj_on_eq_iff)
  then show False using assms(7) by (cases "payloadDedup t") (auto simp: has_prefix_def BatchKeyPrefix_def)
qed

section \<open>The drift audit\<close>

definition drifts :: "(item \<Rightarrow> task \<Rightarrow> bool) \<Rightarrow> drift_kind \<Rightarrow> task_index \<Rightarrow> item list \<Rightarrow> drift list" where
  "drifts bad k ix its = List.map_filter (\<lambda>it. case tracked_task ix (it_Key it) of
     None \<Rightarrow> None | Some t \<Rightarrow> if bad it t then Some (drift_of k it t) else None) its"

lemma audit_items_lists:
  "audit_items su c ops now ix its res s = (res', s') \<Longrightarrow>
     dt_StaleOpen res' = dt_StaleOpen res @ drifts (\<lambda>it t. \<not> it_Done it \<and> Status t = Completed) DriftStaleOpen ix its
   \<and> dt_StaleDone res' = dt_StaleDone res @ drifts (\<lambda>it t. it_Done it \<and> Status t \<noteq> Completed) DriftStaleDone ix its
   \<and> (c_DryRun c \<longrightarrow> s' = s \<and> dt_Enqueued res' = dt_Enqueued res)"
proof (induction its arbitrary: res s)
  case (Cons it its)
  show ?case
  proof (cases "tracked_task ix (it_Key it)")
    case None
    then show ?thesis using Cons by (simp add: drifts_def map_filter_simps)
  next
    case t: (Some t)
    show ?thesis
    proof (cases "\<not> it_Done it \<and> Status t = Completed")
      case False
      then show ?thesis using Cons.prems Cons.IH t by (auto simp: drifts_def map_filter_simps dest!: Cons.IH split: if_splits)
    next
      case True
      define res1 where "res1 = res\<lparr>dt_StaleOpen := dt_StaleOpen res @ [drift_of DriftStaleOpen it t]\<rparr>"
      obtain res2 s2 where go: "audit_items su c ops now ix its res2 s2 = (res', s')"
        "dt_StaleOpen res2 = dt_StaleOpen res1" "dt_StaleDone res2 = dt_StaleDone res1"
        "c_DryRun c \<longrightarrow> s2 = s \<and> dt_Enqueued res2 = dt_Enqueued res1"
        using Cons.prems t True unfolding res1_def [symmetric]
        by (auto simp: Let_def res1_def [symmetric] split: if_splits prod.splits sum.splits)
      then show ?thesis using Cons.IH [OF go(1)] t True by (simp add: drifts_def map_filter_simps res1_def)
    qed
  qed
qed (simp add: drifts_def map_filter_simps)


section \<open>Examples\<close>

definition demo_key :: "string \<Rightarrow> string" where
  "demo_key t = ItemKey (su_digest (demo_surroundings [])) ''app'' t"

definition single_payload :: "string \<Rightarrow> harvest_payload" where
  "single_payload k = demo_payload\<lparr>hp_Dedup := k, hp_ItemKeys := []\<rparr>"

definition demo_single :: "string \<Rightarrow> status \<Rightarrow> task" where
  "demo_single k st = (task_of k (candidate_task demo_config ''app'' (single_payload k) 5 3 k))\<lparr>Status := st\<rparr>"

definition demo_tasks :: "task list" where
  "demo_tasks = [demo_single (demo_key ''fix a'') Pending, demo_single (demo_key ''do b'') Pending, demo_single (demo_key ''gone'') Dead,
     demo_single (demo_key ''fix c'') Completed]"

definition demo_files :: surroundings where
  "demo_files = demo_surroundings (todo_file demo_sections)"

definition no_prunes :: prune_result where
  "no_prunes = \<lparr>pr_Repos = 0, pr_Cancelled = [], pr_Running = [], pr_Dead = [], pr_Failures = []\<rparr>"

lemma demo_prune:
  "map pk_TaskID (pr_Cancelled (fst (pruneRepo demo_files demo_config list_ops ''/p/app'' no_prunes demo_tasks))) = [demo_key ''do b'']"
  by code_simp

lemma demo_repri:
  "map rc_TaskID (fst (fst (repriRepo demo_files demo_config list_ops True ''/p/app'' demo_tasks))) = [demo_key ''fix a'']"
  by code_simp

definition no_drift :: drift_result where
  "no_drift = \<lparr>dt_Repos = 0, dt_StaleOpen = [], dt_StaleDone = [], dt_Enqueued = [], dt_Failures = []\<rparr>"

definition demo_dry :: config where
  "demo_dry = demo_config\<lparr>c_DryRun := True\<rparr>"

lemma demo_audit:
  "map dr_TaskID (dt_StaleOpen (fst (auditRepo demo_files demo_dry list_ops 0 ''/p/app'' no_drift demo_tasks))) = [demo_key ''fix c'']
   \<and> map dr_TaskID (dt_StaleDone (fst (auditRepo demo_files demo_dry list_ops 0 ''/p/app'' no_drift demo_tasks))) = [demo_key ''do b'']"
  by code_simp

lemma not_isl_Inr: "\<not> isl x \<Longrightarrow> \<exists>y. x = Inr y"
  by (cases x) auto

lemma demo_index: "\<exists>ix. projectTaskIndex demo_files demo_config list_ops ''/p/app'' demo_tasks = Inr ix"
  "\<exists>ix. projectTaskIndex demo_files demo_dry list_ops ''/p/app'' demo_tasks = Inr ix"
  "\<exists>its. ParseRepo demo_files ''/p/app'' (c_TodoFile demo_config) = Inr its"
proof -
  have "\<not> isl (projectTaskIndex demo_files demo_config list_ops ''/p/app'' demo_tasks)"
    "\<not> isl (projectTaskIndex demo_files demo_dry list_ops ''/p/app'' demo_tasks)"
    "\<not> isl (ParseRepo demo_files ''/p/app'' (c_TodoFile demo_config))" by code_simp+
  then show "\<exists>ix. projectTaskIndex demo_files demo_config list_ops ''/p/app'' demo_tasks = Inr ix"
    "\<exists>ix. projectTaskIndex demo_files demo_dry list_ops ''/p/app'' demo_tasks = Inr ix"
    "\<exists>its. ParseRepo demo_files ''/p/app'' (c_TodoFile demo_config) = Inr its"
    by (blast intro: not_isl_Inr)+
qed




end
