(* ===== verification/Tq_Dlqfix.thy ===== *)
theory Tq_Dlqfix
  imports Tq_Mintgate Tq_Adapter Tq_Budget
begin

text \<open>
  Package \<open>internal/dlqfix\<close> (\<open>sweep.go\<close>): the sweeper that has a second agent look at every dead agent task and
  then carries out its verdict, with the payload and the result of an autopsy (\<open>executor/dlqfix.go\<close>). The
  store is the record \<open>dlq_ops\<close>, \<open>adapter_dlq\<close> its instance on the SQL-backed store; the pump is the cursor of
  \<open>Tq_Watermark\<close> with the statistics as the sweeper's memory. Log lines are left out. Shown: what a fact can
  make the sweeper write, that every consumed fact is accounted for, that a verdict reaches the task its autopsy
  was minted for, and that a dead task without a record stops the sweeper.
\<close>

section \<open>Autopsies\<close>

definition TaskTypeAgent :: string where "TaskTypeAgent = ''agent''"
definition TaskTypeDLQFix :: string where "TaskTypeDLQFix = ''dlqfix''"
definition DedupPrefix :: string where "DedupPrefix = ''dlqfix:''"
definition DismissedBySweeper :: string where "DismissedBySweeper = ''dlqfix-sweeper''"

definition AutopsyKey :: "task_id \<Rightarrow> string" where
  "AutopsyKey dead = DedupPrefix @ dead"

record dlq_payload =
  dp_Repo :: string
  dp_DeadTask :: task_id
  dp_DeadType :: string
  dp_Work :: string
  dp_Failure :: failure_evidence
  dp_LastError :: string
  dp_Attempts :: int
  dp_Reclaims :: int
  dp_Model :: string
  dp_Yolo :: bool
  dp_RequireClean :: "bool option"
  dp_TimeoutMinutes :: int

definition dlq_fields :: "dlq_payload \<Rightarrow> (string \<times> json) list" where
  "dlq_fields p =
     [(''repo'', JStr (dp_Repo p)), (''dead_task'', JStr (dp_DeadTask p))] @ omit_empty ''dead_type'' (dp_DeadType p)
     @ [(''work'', JStr (dp_Work p)), (''failure'', evidence_json (dp_Failure p))] @ omit_empty ''last_error'' (dp_LastError p)
     @ omit_int ''attempts'' (dp_Attempts p) @ omit_int ''reclaims_with_unknown_effect'' (dp_Reclaims p)
     @ omit_empty ''model'' (dp_Model p) @ omit_false ''yolo'' (dp_Yolo p)
     @ omit_none ''require_clean'' (map_option JBool (dp_RequireClean p)) @ omit_int ''timeout_minutes'' (dp_TimeoutMinutes p)"

text \<open>A struct field: absent and \<open>null\<close> leave it zero.\<close>

definition jevidence_field :: "string \<Rightarrow> (string \<times> json) list \<Rightarrow> failure_evidence option" where
  "jevidence_field k kvs =
     (case map_of kvs k of None \<Rightarrow> Some no_evidence | Some JNull \<Rightarrow> Some no_evidence | Some j \<Rightarrow> dec_evidence j)"

definition dec_dlq :: "jtext \<Rightarrow> dlq_payload option" where
  "dec_dlq d =
     do { j \<leftarrow> jt_parse d; kvs \<leftarrow> jfields j; r \<leftarrow> jstr_field ''repo'' kvs; dt \<leftarrow> jstr_field ''dead_task'' kvs;
          ty \<leftarrow> jstr_field ''dead_type'' kvs; w \<leftarrow> jstr_field ''work'' kvs; ev \<leftarrow> jevidence_field ''failure'' kvs;
          le \<leftarrow> jstr_field ''last_error'' kvs; at0 \<leftarrow> jint_field ''attempts'' kvs; rc \<leftarrow> jint_field ''reclaims_with_unknown_effect'' kvs;
          m \<leftarrow> jstr_field ''model'' kvs; y \<leftarrow> jbool_field ''yolo'' kvs; cl \<leftarrow> jptr_field jbool ''require_clean'' kvs;
          tm \<leftarrow> jint_field ''timeout_minutes'' kvs;
          Some \<lparr>dp_Repo = r, dp_DeadTask = dt, dp_DeadType = ty, dp_Work = w, dp_Failure = ev, dp_LastError = le, dp_Attempts = at0,
                dp_Reclaims = rc, dp_Model = m, dp_Yolo = y, dp_RequireClean = cl, dp_TimeoutMinutes = tm\<rparr> }"

text \<open>The instruction of an autopsy; the quoted work is emitted as it is.\<close>

definition autopsy_intro :: string where
  "autopsy_intro =
     ''You are a senior engineer performing an autopsy. A task in this repository exhausted its retries and was dead-lettered. Diagnose the root cause from the evidence, then EITHER fix it OR rule the task unfixable with a precise reason. Diagnose FIRST; change nothing before you understand the failure.'' @ nl @ nl"

definition autopsy_rules :: string where
  "autopsy_rules =
     ''## Decide'' @ nl @ nl
     @ ''1. The working tree may contain the dead run'' @ [CHR 0x27] @ ''s uncommitted partial changes:'' @ nl
     @ ''   inspect git status first. They are evidence '' @ emdash @ '' salvage what helps the'' @ nl
     @ ''   diagnosis, revert what would corrupt a fix.'' @ nl
     @ ''2. READ the relevant code. Reproduce the failing stage cheaply if you can.'' @ nl
     @ ''3. If the root cause lives INSIDE this repository: apply the MINIMAL fix, then'' @ nl
     @ ''   prove it by re-running the failed stage (or the repo'' @ [CHR 0x27] @ ''s own gates). Commit'' @ nl
     @ ''   the fix with a message ending in this exact footer line (you have explicit'' @ nl
     @ ''   permission to commit for this task):'' @ nl @ nl
     @ ''Task-Queue-ID: {{TASK_ID}}'' @ nl @ nl
     @ ''   The footer must be the FINAL line of the message: if your tooling appends'' @ nl
     @ ''   an attribution block (e.g. '' @ [CHR 0x22] @ ''Generated with Crush'' @ [CHR 0x22] @ '' / '' @ [CHR 0x22] @ ''Assisted-by'' @ [CHR 0x22] @ ''), put'' @ nl
     @ ''   the footer AFTER that block '' @ emdash @ '' a footer stranded above attribution is'' @ nl
     @ ''   invisible to git trailers and the pre-commit hook rejects the commit.'' @ nl @ nl
     @ ''4. If the root cause is OUTSIDE this repository (provider outage, operator'' @ nl
     @ ''   error, missing external resource or credentials, a change that belongs in'' @ nl
     @ ''   another repo): change NOTHING. Rule the task unfixable instead.'' @ nl @ nl
     @ ''Never push.'' @ nl @ nl
     @ ''## Verdict'' @ nl @ nl
     @ ''Record your verdict by running EXACTLY ONE of:'' @ nl @ nl
     @ ''tq verdict '' @ [CHR 0x27] @ ''{'' @ [CHR 0x22] @ ''verdict'' @ [CHR 0x22] @ '':'' @ [CHR 0x22] @ ''fixed'' @ [CHR 0x22] @ '','' @ [CHR 0x22] @ ''summary'' @ [CHR 0x22] @ '':'' @ [CHR 0x22] @ ''root cause + what you changed'' @ [CHR 0x22] @ '','' @ [CHR 0x22] @ ''commit_sha'' @ [CHR 0x22] @ '':'' @ [CHR 0x22] @ ''<sha or empty>'' @ [CHR 0x22] @ ''}'' @ [CHR 0x27] @ nl @ nl
     @ ''tq verdict '' @ [CHR 0x27] @ ''{'' @ [CHR 0x22] @ ''verdict'' @ [CHR 0x22] @ '':'' @ [CHR 0x22] @ ''wontfix'' @ [CHR 0x22] @ '','' @ [CHR 0x22] @ ''summary'' @ [CHR 0x22] @ '':'' @ [CHR 0x22] @ ''why this task cannot be fixed from inside this repository'' @ [CHR 0x22] @ ''}'' @ [CHR 0x27] @ nl @ nl
     @ ''(tq validates the JSON and writes $TQ_RESULT_FILE '' @ emdash @ '' the queue reads that file after you exit; if tq is not on PATH, write the same one-line JSON to $TQ_RESULT_FILE yourself)'' @ nl @ nl
     @ ''A wontfix without a summary is invalid output.'' @ nl"

definition failure_section :: "failure_evidence \<Rightarrow> string" where
  "failure_section ev =
     (if fe_Stage ev = [] \<and> fe_Tail ev = [] then []
      else ''## Failure evidence'' @ nl @ nl
        @ (if fe_Class ev = [] then []
           else ''Retry classification: '' @ fe_Class ev
             @ '' (transient = a retry may help; permanent = the identical retry fails identically; provider-window = the model provider'' @ [CHR 0x27] @ ''s quota/rate window; environment = the task'' @ [CHR 0x27] @ ''s environment refused).'' @ nl @ nl)
        @ (if fe_Stage ev = [] then ''Last output:'' @ nl @ nl
           else ''Stage '' @ go_quote (fe_Stage ev) @ '' exited with code '' @ show_int (fe_ExitCode ev)
             @ (if fe_VerifyStage ev = [] then [] else '' (verify stage: '' @ fe_VerifyStage ev @ '')'') @ ''. Last output:'' @ nl @ nl)
        @ ''```'' @ nl @ trim_space (fe_Tail ev) @ nl @ ''```'' @ nl @ nl)"

definition dlqFixPrompt :: "dlq_payload \<Rightarrow> string" where
  "dlqFixPrompt p =
     autopsy_intro @ ''## The dead task'' @ nl @ nl
     @ ''Queue task '' @ dp_DeadTask p @ (if dp_DeadType p = [] then [] else '' (type '' @ dp_DeadType p @ '')'') @ '' ran:'' @ nl @ nl
     @ dp_Work p @ nl @ nl
     @ (if dp_Attempts p > 0 then
          ''It burned '' @ show_int (dp_Attempts p) @ '' attempt(s) before dying''
          @ (if dp_LastError p = [] then [] else ''; last error: '' @ dp_LastError p) @ nl @ nl
        else if dp_LastError p = [] then [] else ''Last error: '' @ dp_LastError p @ nl @ nl)
     @ failure_section (dp_Failure p)
     @ (if dp_Reclaims p > 0 then
          ''## Prior attempt may have partially landed'' @ nl @ nl
     @ ''This task was reclaimed after a crash '' @ show_int (dp_Reclaims p)
          @ '' time(s) with its effect left UNKNOWN: an earlier attempt started work but never recorded an outcome, so the repository'' @ [CHR 0x27] @ ''s git state is NOT a clean slate. Inspect `git status` and `git log` for changes a crashed attempt may have made before you diagnose.'' @ nl @ nl
        else [])
     @ autopsy_rules"

record dlq_result =
  dr_Verdict :: string
  dr_Summary :: string

definition VerdictFixed :: string where "VerdictFixed = ''fixed''"
definition VerdictWontFix :: string where "VerdictWontFix = ''wontfix''"

text \<open>The fields the sweeper does not read have to decode all the same.\<close>

definition dec_result :: "jtext \<Rightarrow> dlq_result option" where
  "dec_result d =
     do { j \<leftarrow> jt_parse d; kvs \<leftarrow> jfields j; v \<leftarrow> jstr_field ''verdict'' kvs; sm \<leftarrow> jstr_field ''summary'' kvs;
          _ \<leftarrow> jstr_field ''commit_sha'' kvs; _ \<leftarrow> jstr_field ''session_id'' kvs; _ \<leftarrow> jrat_field ''session_cost_usd'' kvs;
          _ \<leftarrow> jint_field ''session_prompt_tokens'' kvs; _ \<leftarrow> jint_field ''session_completion_tokens'' kvs;
          _ \<leftarrow> jint_field ''session_message_count'' kvs; _ \<leftarrow> jstr_field ''log_path'' kvs;
          Some \<lparr>dr_Verdict = v, dr_Summary = sm\<rparr> }"

section \<open>The verdict channel\<close>

text \<open>What a recorded verdict is turned into, or why the attempt fails.\<close>

datatype verdict_error = VerdictUnparsable | VerdictSummaryMissing | VerdictMissing | VerdictUnknown string

record dlq_outcome = dlq_result +
  dr_CommitSHA :: string

definition ParseDLQFixResult :: "jtext \<Rightarrow> verdict_error + dlq_outcome" where
  "ParseDLQFixResult raw =
     (case do { j \<leftarrow> jt_parse raw; kvs \<leftarrow> jfields j; v \<leftarrow> jstr_field ''verdict'' kvs; sm \<leftarrow> jstr_field ''summary'' kvs;
                c \<leftarrow> jstr_field ''commit_sha'' kvs; Some (v, sm, c) } of
        None \<Rightarrow> Inl VerdictUnparsable
      | Some (v0, sm, c) \<Rightarrow>
          (let v = to_lower (trim_space v0) in
           if v = VerdictFixed \<or> v = VerdictWontFix then
             if trim_space sm = [] then Inl VerdictSummaryMissing
             else Inr \<lparr>dr_Verdict = v, dr_Summary = trim_space sm, dr_CommitSHA = trim_space c\<rparr>
           else if v = [] then Inl VerdictMissing
           else Inl (VerdictUnknown v0)))"

text \<open>The completion detail the executor records, the session block left empty.\<close>

definition outcome_json :: "dlq_outcome \<Rightarrow> json" where
  "outcome_json r = JObj ([(''verdict'', JStr (dr_Verdict r)), (''summary'', JStr (dr_Summary r))] @ omit_empty ''commit_sha'' (dr_CommitSHA r))"

section \<open>The store and the counters\<close>

record 's dlq_ops =
  dq_source :: "'s source_ops"
  dq_Get :: "task_id \<Rightarrow> 's \<Rightarrow> qerr + task"
  dq_Enqueue :: "new_task \<Rightarrow> 's \<Rightarrow> (qerr + task) \<times> 's"
  dq_RescueDead :: "task_id \<Rightarrow> int \<Rightarrow> 's \<Rightarrow> (qerr + unit) \<times> 's"
  dq_DismissDead :: "task_id \<Rightarrow> string \<Rightarrow> string \<Rightarrow> 's \<Rightarrow> (qerr + unit) \<times> 's"
  dq_FactsForTask :: "string \<Rightarrow> int \<Rightarrow> 's \<Rightarrow> qerr + fact list"

definition store_source :: "engine_ops \<Rightarrow> go_time \<Rightarrow> sql_store source_ops" where
  "store_source e now =
     \<lparr>src_Facts = Facts e, src_HeadSeq = (\<lambda>s. Inr (HeadSeq (s_db s))), src_Watermark = (\<lambda>key s. Inr (Watermark (s_db s) key)),
      src_SaveWatermark = (\<lambda>key q s. (Inr (), s\<lparr>s_db := SaveWatermark key q now (s_db s)\<rparr>))\<rparr>"

definition adapter_dlq :: "engine_ops \<Rightarrow> go_time \<Rightarrow> sql_store dlq_ops" where
  "adapter_dlq e now =
     \<lparr>dq_source = store_source e now, dq_Get = StoreGet, dq_Enqueue = Enqueue e, dq_RescueDead = RescueDead e,
      dq_DismissDead = DismissDead e, dq_FactsForTask = FactsForTask e\<rparr>"

record sweeper_config =
  sc_Model :: string
  sc_Scanner :: "(string \<Rightarrow> string \<Rightarrow> string \<Rightarrow> scan_error + commit list) option"

record sweep_stats =
  ss_Facts :: int
  ss_FixesEnqueued :: int
  ss_FixesKnown :: int
  ss_Rescued :: int
  ss_Dismissed :: int
  ss_Skipped :: int
  ss_AutoDismissed :: int
  ss_EnvSkipped :: int

definition zero_stats :: sweep_stats where
  "zero_stats = \<lparr>ss_Facts = 0, ss_FixesEnqueued = 0, ss_FixesKnown = 0, ss_Rescued = 0, ss_Dismissed = 0, ss_Skipped = 0,
     ss_AutoDismissed = 0, ss_EnvSkipped = 0\<rparr>"

definition skip_fact :: "sweep_stats \<Rightarrow> sweep_stats" where
  "skip_fact st = st\<lparr>ss_Skipped := ss_Skipped st + 1\<rparr>"

section \<open>Minting an autopsy\<close>

text \<open>\<open>ParseRepo\<close> returns the open items, so the branch for a ticked one is never taken.\<close>

definition todoShipment :: "surroundings \<Rightarrow> task \<Rightarrow> string \<Rightarrow> string option" where
  "todoShipment su t repo =
     (if \<not> has_prefix (DedupKey t) ''todo:'' then None
      else case ParseRepo su repo DefaultTodoFile of
        Inl _ \<Rightarrow> None
      | Inr its \<Rightarrow>
          (case find (\<lambda>it. it_Key it = DedupKey t) its of
             Some it \<Rightarrow> if it_Done it then Some ''ticked'' else None
           | None \<Rightarrow> Some ''absent''))"

definition lastFailureEvidence :: "'s dlq_ops \<Rightarrow> task_id \<Rightarrow> 's \<Rightarrow> failure_evidence" where
  "lastFailureEvidence ops i s = LastFailureEvidence (dq_FactsForTask ops i 0 s)"

definition unknown_release :: "fact \<Rightarrow> bool" where
  "unknown_release f \<longleftrightarrow> FType f = F_Released \<and> jt_text (Detail f) \<noteq> []
     \<and> do { j \<leftarrow> jt_parse (Detail f); kvs \<leftarrow> jfields j; e \<leftarrow> jstr_field ''effect'' kvs; _ \<leftarrow> jstr_field ''reason'' kvs; Some e }
       = Some (effect_string EffectUnknown)"

definition reclaimsWithUnknownEffect :: "'s dlq_ops \<Rightarrow> task_id \<Rightarrow> 's \<Rightarrow> int" where
  "reclaimsWithUnknownEffect ops i s =
     (case dq_FactsForTask ops i 0 s of Inl _ \<Rightarrow> 0 | Inr trail \<Rightarrow> int (length (filter unknown_release trail)))"

definition dismiss_summary :: "nat \<Rightarrow> string \<Rightarrow> string" where
  "dismiss_summary n shipment =
     ''gate-artifact auto-dismiss ['' @ VerifyGateEnvCode @ '']: verify died on the unscoped gofmt artifact, work shipped (''
     @ show_nat n @ '' footer commit(s), TODO item '' @ shipment @ '')''"

text \<open>The commits and the row that prove the work of a gate-artifact death was shipped.\<close>

definition shipped_proof :: "surroundings \<Rightarrow> sweeper_config \<Rightarrow> 's dlq_ops \<Rightarrow> task \<Rightarrow> string \<Rightarrow> 's \<Rightarrow> string option" where
  "shipped_proof su cfg ops t repo s =
     (case sc_Scanner cfg of
        None \<Rightarrow> None
      | Some scan \<Rightarrow>
          if Status t \<noteq> Dead \<or> \<not> IsGateArtifactDeath (lastFailureEvidence ops (ID t) s) (LastError t) then None
          else case scan repo TaskTrailer (ID t) of
            Inl _ \<Rightarrow> None
          | Inr commits \<Rightarrow>
              if commits = [] then None
              else map_option (dismiss_summary (length commits)) (todoShipment su t repo))"

definition autoDismissGateArtifact :: "surroundings \<Rightarrow> sweeper_config \<Rightarrow> 's dlq_ops \<Rightarrow> task \<Rightarrow> string \<Rightarrow> sweep_stats \<times> 's
    \<Rightarrow> bool \<times> sweep_stats \<times> 's" where
  "autoDismissGateArtifact su cfg ops t repo m =
     (case m of (st, s) \<Rightarrow>
        case shipped_proof su cfg ops t repo s of
          None \<Rightarrow> (False, st, s)
        | Some summary \<Rightarrow>
            (case dq_DismissDead ops (ID t) summary DismissedBySweeper s of
               (Inl _, s') \<Rightarrow> (False, st, s')
             | (Inr _, s') \<Rightarrow> (True, st\<lparr>ss_AutoDismissed := ss_AutoDismissed st + 1\<rparr>, s')))"

definition agentPayload :: "task \<Rightarrow> agent_payload option" where
  "agentPayload t =
     do { j \<leftarrow> jt_parse (Payload t); kvs \<leftarrow> jfields j; _ \<leftarrow> jstr_field ''dedup'' kvs; p \<leftarrow> dec_agent kvs;
          if ap_Repo p = [] \<or> ap_Prompt p = [] then None else Some p }"

definition autopsy_payload :: "sweeper_config \<Rightarrow> 's dlq_ops \<Rightarrow> task \<Rightarrow> agent_payload \<Rightarrow> 's \<Rightarrow> dlq_payload" where
  "autopsy_payload cfg ops t p s =
     \<lparr>dp_Repo = ap_Repo p, dp_DeadTask = ID t, dp_DeadType = Type t, dp_Work = ap_Prompt p, dp_Failure = lastFailureEvidence ops (ID t) s,
      dp_LastError = LastError t, dp_Attempts = Attempts t, dp_Reclaims = reclaimsWithUnknownEffect ops (ID t) s,
      dp_Model = sc_Model cfg, dp_Yolo = ap_Yolo p, dp_RequireClean = None, dp_TimeoutMinutes = 0\<rparr>"

definition autopsy_task :: "task \<Rightarrow> dlq_payload \<Rightarrow> new_task" where
  "autopsy_task t p =
     \<lparr>n_Project = Project t, n_Type = TaskTypeDLQFix, n_Payload = marshal (JObj (dlq_fields p)), n_Deps = [], n_Priority = Priority t,
      n_MaxAttempts = 0, n_NotBefore = zero_time, n_DedupKey = AutopsyKey (ID t)\<rparr>"

definition enqueue_autopsy :: "'s dlq_ops \<Rightarrow> new_task \<Rightarrow> sweep_stats \<times> 's \<Rightarrow> (qerr + unit) \<times> sweep_stats \<times> 's" where
  "enqueue_autopsy ops n m =
     (case m of (st, s) \<Rightarrow>
        case dq_Enqueue ops n s of
          (Inl e, s') \<Rightarrow> if e = ErrTaskDone then (Inr (), st\<lparr>ss_FixesKnown := ss_FixesKnown st + 1\<rparr>, s') else (Inl e, st, s')
        | (Inr got, s') \<Rightarrow>
            if Attempts got = 0 \<and> Status got = Pending then (Inr (), st\<lparr>ss_FixesEnqueued := ss_FixesEnqueued st + 1\<rparr>, s')
            else (Inr (), st\<lparr>ss_FixesKnown := ss_FixesKnown st + 1\<rparr>, s'))"

definition mintAutopsy :: "surroundings \<Rightarrow> sweeper_config \<Rightarrow> 's dlq_ops \<Rightarrow> fact \<Rightarrow> sweep_stats \<times> 's \<Rightarrow> (qerr + unit) \<times> sweep_stats \<times> 's" where
  "mintAutopsy su cfg ops f m =
     (case m of (st, s) \<Rightarrow>
        case dq_Get ops (TaskID f) s of
          Inl e \<Rightarrow> (Inl e, st, s)
        | Inr t \<Rightarrow>
            if Type t \<noteq> TaskTypeAgent then (Inr (), skip_fact st, s)
            else case agentPayload t of
              None \<Rightarrow> (Inr (), skip_fact st, s)
            | Some p \<Rightarrow>
                (case autoDismissGateArtifact su cfg ops t (ap_Repo p) (st, s) of
                   (True, m1) \<Rightarrow> (Inr (), m1)
                 | (False, st1, s1) \<Rightarrow>
                     if IsEnvironmentalDeath (LastError t) \<or> IsEnvironmentalDeath (fe_Tail (lastFailureEvidence ops (ID t) s1))
                     then (Inr (), st1\<lparr>ss_EnvSkipped := ss_EnvSkipped st1 + 1\<rparr>, s1)
                     else enqueue_autopsy ops (autopsy_task t (autopsy_payload cfg ops t p s1)) (st1, s1)))"

section \<open>Carrying out a verdict\<close>

definition autopsyOutcome :: "task \<Rightarrow> fact \<Rightarrow> (task_id \<times> dlq_result) option" where
  "autopsyOutcome t f =
     (case dec_result (Detail f) of
        None \<Rightarrow> None
      | Some r \<Rightarrow>
          if dr_Verdict r = [] then None
          else case dec_dlq (Payload t) of
            None \<Rightarrow> None
          | Some p \<Rightarrow> if dp_DeadTask p = [] then None else Some (dp_DeadTask p, r))"

definition rescue :: "'s dlq_ops \<Rightarrow> task_id \<Rightarrow> sweep_stats \<times> 's \<Rightarrow> (qerr + unit) \<times> sweep_stats \<times> 's" where
  "rescue ops dead m =
     (case m of (st, s) \<Rightarrow>
        case dq_Get ops dead s of
          Inl e \<Rightarrow> if PermanentOutcome e then (Inr (), skip_fact st, s) else (Inl e, st, s)
        | Inr rec \<Rightarrow>
            (case dq_RescueDead ops dead (MaxAttempts rec) s of
               (Inl e, s') \<Rightarrow> if PermanentOutcome e then (Inr (), skip_fact st, s') else (Inl e, st, s')
             | (Inr _, s') \<Rightarrow> (Inr (), st\<lparr>ss_Rescued := ss_Rescued st + 1\<rparr>, s')))"

definition dismiss :: "'s dlq_ops \<Rightarrow> task_id \<Rightarrow> string \<Rightarrow> sweep_stats \<times> 's \<Rightarrow> (qerr + unit) \<times> sweep_stats \<times> 's" where
  "dismiss ops dead summary m =
     (case m of (st, s) \<Rightarrow>
        case dq_DismissDead ops dead summary DismissedBySweeper s of
          (Inl e, s') \<Rightarrow> if PermanentOutcome e then (Inr (), skip_fact st, s') else (Inl e, st, s')
        | (Inr _, s') \<Rightarrow> (Inr (), st\<lparr>ss_Dismissed := ss_Dismissed st + 1\<rparr>, s'))"

definition dispose :: "'s dlq_ops \<Rightarrow> fact \<Rightarrow> sweep_stats \<times> 's \<Rightarrow> (qerr + unit) \<times> sweep_stats \<times> 's" where
  "dispose ops f m =
     (case m of (st, s) \<Rightarrow>
        case dq_Get ops (TaskID f) s of
          Inl e \<Rightarrow> if PermanentOutcome e then (Inr (), skip_fact st, s) else (Inl e, st, s)
        | Inr t \<Rightarrow>
            if Type t \<noteq> TaskTypeDLQFix then (Inr (), st, s)
            else case autopsyOutcome t f of
              None \<Rightarrow> (Inr (), skip_fact st, s)
            | Some (dead, r) \<Rightarrow>
                if dr_Verdict r = VerdictFixed then rescue ops dead (st, s)
                else if dr_Verdict r = VerdictWontFix then dismiss ops dead (dr_Summary r) (st, s)
                else (Inr (), skip_fact st, s))"

text \<open>\<open>handleFact\<close> of the package.\<close>

definition handleDeath :: "surroundings \<Rightarrow> sweeper_config \<Rightarrow> 's dlq_ops \<Rightarrow> fact \<Rightarrow> sweep_stats \<times> 's \<Rightarrow> (qerr + unit) \<times> sweep_stats \<times> 's" where
  "handleDeath su cfg ops f m =
     (if FType f = F_DeadLettered then mintAutopsy su cfg ops f m
      else if FType f = F_Completed then dispose ops f m
      else (Inr (), m))"

definition DlqConsumerKey :: string where "DlqConsumerKey = ''dlqfix-sweeper''"

definition NewSweeper :: "'s dlq_ops \<Rightarrow> 's \<Rightarrow> (cursor_err + cursor) \<times> 's" where
  "NewSweeper ops s = New (dq_source ops) DlqConsumerKey ''dlqfix sweep'' 0 s"

definition count_death :: "sweep_stats \<Rightarrow> sweep_stats" where
  "count_death st = st\<lparr>ss_Facts := ss_Facts st + 1\<rparr>"

definition DlqSweep :: "nat \<Rightarrow> surroundings \<Rightarrow> sweeper_config \<Rightarrow> 's dlq_ops \<Rightarrow> cursor \<Rightarrow> 's
    \<Rightarrow> (cursor_err option \<times> cursor \<times> (sweep_stats \<times> 's) \<times> fact list) option" where
  "DlqSweep fuel su cfg ops cur s =
     Sweep fuel (with_memory (dq_source ops)) (\<lambda>f (st, s). handleDeath su cfg ops f (count_death st, s)) cur (zero_stats, s)"

section \<open>The payload survives\<close>

lemma jint_field_range: "jint_field k kvs = Some i \<Longrightarrow> int64 i"
  by (auto simp: jint_field_def int64_def split: option.splits json.splits if_splits)

lemma dec_receipt_in_range: "dec_receipt j = Some r \<Longrightarrow> receipt_in_range r"
  by (clarsimp simp: dec_receipt_def Option.bind_eq_Some_conv receipt_in_range_def jint_field_range)

lemma jptr_field_range: "jptr_field dec_receipt k kvs = Some v \<Longrightarrow> (case v of None \<Rightarrow> True | Some r \<Rightarrow> receipt_in_range r)"
  by (auto simp: jptr_field_def dec_receipt_in_range split: option.splits json.splits)

lemma dec_evidence_in_range: "dec_evidence j = Some ev \<Longrightarrow> evidence_in_range ev"
  by (clarsimp simp: dec_evidence_def Option.bind_eq_Some_conv evidence_in_range_def jint_field_range jptr_field_range)

lemma last_evidence_in_range: "evidence_in_range (lastFailureEvidence ops i s)"
proof -
  have zero: "evidence_in_range no_evidence" by (simp add: evidence_in_range_def no_evidence_def int64_def)
  have "evidence_in_range (evidence_of_rev fs)" for fs
    by (induction fs) (auto simp: zero dec_evidence_in_range split: option.split bind_split)
  then show ?thesis by (simp add: lastFailureEvidence_def LastFailureEvidence_def LastFailureEvidenceFromTrail_def zero split: sum.split)
qed

lemma dec_evidence_json:
  assumes "evidence_in_range e"
  shows "dec_evidence (evidence_json e) = Some e"
proof -
  have j: "evidence_json e = JObj (evidence_fields e)" by (simp add: evidence_fields_def evidence_json_def)
  have "map_of (evidence_fields e) ''class'' = (if fe_Class e = [] then None else Some (JStr (fe_Class e)))"
    by (simp add: evidence_fields_def evidence_json_def omit_empty_def omit_strs_def omit_none_def split: option.split)
  moreover have "jptr_field dec_receipt ''verify'' (evidence_fields e) = Some (fe_Verify e)"
    using assms by (cases "fe_Verify e") (simp_all add: jptr_Some jptr_None evidence_lookup evidence_in_range_def dec_receipt_json not_null)
  moreover have "jptr_field dec_verdict ''attestation'' (evidence_fields e) = Some (fe_Attestation e)"
    by (cases "fe_Attestation e") (simp_all add: jptr_Some jptr_None evidence_lookup dec_verdict_json not_null)
  moreover have "jstrs_field ''files_changed'' (evidence_fields e) = Some (fe_FilesChanged e)"
    by (simp add: jstrs_field_def evidence_lookup jstrs_def)
  ultimately show ?thesis unfolding j using assms
    by (simp add: dec_evidence_def jfields_def jstr_field_def jint_field_def evidence_lookup evidence_in_range_def)
qed

definition dlq_in_range :: "dlq_payload \<Rightarrow> bool" where
  "dlq_in_range p \<longleftrightarrow> evidence_in_range (dp_Failure p) \<and> int64 (dp_Attempts p) \<and> int64 (dp_Reclaims p) \<and> int64 (dp_TimeoutMinutes p)"

lemma evidence_not_null [simp]: "evidence_json e \<noteq> JNull"
  by (simp add: evidence_json_def)

lemma dec_dlq_fields:
  assumes "dlq_in_range p"
  shows "dec_dlq (marshal (JObj (dlq_fields p))) = Some p"
proof -
  let ?k = "dlq_fields p"
  note look = dlq_fields_def omit_lookup append_assoc append_Cons append_Nil
  have r: "int64 (dp_Attempts p)" "int64 (dp_Reclaims p)" "int64 (dp_TimeoutMinutes p)" "evidence_in_range (dp_Failure p)"
    using assms by (simp_all add: dlq_in_range_def)
  have "map_of (omit_int k i) x = (if k = x \<and> i \<noteq> 0 then Some (jint i) else None)" for k i x by (simp add: omit_int_def)
  note look = look this
  have s: "jstr_field ''dead_type'' ?k = Some (dp_DeadType p)" "jstr_field ''last_error'' ?k = Some (dp_LastError p)"
    "jstr_field ''model'' ?k = Some (dp_Model p)"
    by (rule field_hits(1); simp add: look del: map_of_append)+
  have q: "jstr_field ''repo'' ?k = Some (dp_Repo p)" "jstr_field ''dead_task'' ?k = Some (dp_DeadTask p)" "jstr_field ''work'' ?k = Some (dp_Work p)"
    by (simp_all add: jstr_field_def look del: map_of_append)
  have i: "jint_field ''attempts'' ?k = Some (dp_Attempts p)" "jint_field ''reclaims_with_unknown_effect'' ?k = Some (dp_Reclaims p)"
    "jint_field ''timeout_minutes'' ?k = Some (dp_TimeoutMinutes p)"
    by (rule field_hits(2); simp add: look r del: map_of_append)+
  have b: "jbool_field ''yolo'' ?k = Some (dp_Yolo p)" by (rule field_hits(3)) (simp add: look del: map_of_append)
  have c: "jptr_field jbool ''require_clean'' ?k = Some (dp_RequireClean p)"
    by (rule field_hits(6)) (cases "dp_RequireClean p"; simp add: look del: map_of_append)
  have "map_of ?k ''failure'' = Some (evidence_json (dp_Failure p))" by (simp add: look del: map_of_append)
  then have e: "jevidence_field ''failure'' ?k = Some (dp_Failure p)"
    using dec_evidence_json [OF r(4)] evidence_not_null [of "dp_Failure p"]
    by (cases "evidence_json (dp_Failure p)") (auto simp: jevidence_field_def)
  show ?thesis by (simp add: dec_dlq_def jfields_def s q i b c e)
qed

text \<open>
  An accepted verdict is one of the two the sweeper carries out, with a reason, and the sweeper reads it back
  from the completion as the executor recorded it.
\<close>

lemma accepted_verdict_is_executable:
  assumes "ParseDLQFixResult raw = Inr r"
  shows "dr_Verdict r = VerdictFixed \<or> dr_Verdict r = VerdictWontFix" "dr_Summary r \<noteq> []"
    "dec_result (marshal (outcome_json r)) = Some \<lparr>dr_Verdict = dr_Verdict r, dr_Summary = dr_Summary r\<rparr>"
proof -
  show "dr_Verdict r = VerdictFixed \<or> dr_Verdict r = VerdictWontFix" "dr_Summary r \<noteq> []"
    using assms by (auto simp: ParseDLQFixResult_def Let_def split: option.splits if_splits)
  show "dec_result (marshal (outcome_json r)) = Some \<lparr>dr_Verdict = dr_Verdict r, dr_Summary = dr_Summary r\<rparr>"
    by (cases "dr_CommitSHA r = []")
      (simp_all add: dec_result_def outcome_json_def jfields_def jstr_field_def jint_field_def jrat_field_def omit_empty_def)
qed

section \<open>What a fact makes the sweeper do\<close>

text \<open>Each counter of the mint and of the disposition.\<close>

definition mint_counts :: "sweep_stats \<Rightarrow> int" where
  "mint_counts st = ss_FixesEnqueued st + ss_FixesKnown st + ss_AutoDismissed st + ss_EnvSkipped st"

definition verdict_counts :: "sweep_stats \<Rightarrow> int" where
  "verdict_counts st = ss_Rescued st + ss_Dismissed st"

lemma mint_counted:
  assumes "mintAutopsy su cfg ops f (st, s) = (r, (st', s'))"
  shows "ss_Facts st' = ss_Facts st \<and> verdict_counts st' = verdict_counts st
    \<and> (isl r \<longrightarrow> st' = st)
    \<and> (\<not> isl r \<longrightarrow> mint_counts st' + ss_Skipped st' = mint_counts st + ss_Skipped st + 1 \<and> ss_Skipped st \<le> ss_Skipped st' \<and> mint_counts st \<le> mint_counts st')"
  using assms
  by (auto simp: mintAutopsy_def autoDismissGateArtifact_def enqueue_autopsy_def skip_fact_def mint_counts_def verdict_counts_def Let_def
      split: sum.splits option.splits prod.splits bool.splits if_splits)

lemma dispose_counted:
  assumes "dispose ops f (st, s) = (r, (st', s'))"
  shows "ss_Facts st' = ss_Facts st \<and> mint_counts st' = mint_counts st
    \<and> (isl r \<longrightarrow> st' = st)
    \<and> verdict_counts st \<le> verdict_counts st' \<and> ss_Skipped st \<le> ss_Skipped st'
    \<and> verdict_counts st' + ss_Skipped st' \<le> verdict_counts st + ss_Skipped st + 1"
  using assms
  by (auto simp: dispose_def rescue_def dismiss_def skip_fact_def mint_counts_def verdict_counts_def
      split: sum.splits option.splits prod.splits if_splits)

definition deaths :: "fact list \<Rightarrow> int" where
  "deaths fs = int (length (filter (\<lambda>f. FType f = F_DeadLettered) fs))"

definition completions :: "fact list \<Rightarrow> int" where
  "completions fs = int (length (filter (\<lambda>f. FType f = F_Completed) fs))"

definition accounts :: "fact list \<Rightarrow> sweep_stats \<Rightarrow> bool" where
  "accounts fs st \<longleftrightarrow> mint_counts st \<le> deaths fs \<and> verdict_counts st \<le> completions fs
     \<and> deaths fs \<le> mint_counts st + ss_Skipped st
     \<and> mint_counts st + verdict_counts st + ss_Skipped st \<le> deaths fs + completions fs"

lemma handled_counted:
  assumes "handleDeath su cfg ops f (count_death st, s) = (r, (st', s'))" "accounts fs st"
  shows "ss_Facts st' = ss_Facts st + 1 \<and> accounts (if isl r then fs else fs @ [f]) st'"
proof -
  have c: "ss_Facts (count_death st) = ss_Facts st + 1" "mint_counts (count_death st) = mint_counts st"
    "verdict_counts (count_death st) = verdict_counts st" "ss_Skipped (count_death st) = ss_Skipped st"
    by (simp_all add: count_death_def mint_counts_def verdict_counts_def)
  have n: "F_DeadLettered \<noteq> F_Completed" by simp
  have app: "deaths (fs @ [f]) = deaths fs + (if FType f = F_DeadLettered then 1 else 0)"
    "completions (fs @ [f]) = completions fs + (if FType f = F_Completed then 1 else 0)"
    by (simp_all add: deaths_def completions_def)
  consider "FType f = F_DeadLettered" "mintAutopsy su cfg ops f (count_death st, s) = (r, (st', s'))"
    | "FType f = F_Completed" "dispose ops f (count_death st, s) = (r, (st', s'))"
    | "FType f \<noteq> F_DeadLettered" "FType f \<noteq> F_Completed" "r = Inr ()" "st' = count_death st"
    using assms(1) by (auto simp: handleDeath_def split: if_splits)
  then show ?thesis
  proof cases
    case 1
    then show ?thesis using mint_counted [OF 1(2)] assms(2) c app by (cases r) (auto simp: accounts_def)
  next
    case 2
    then show ?thesis using dispose_counted [OF 2(2)] assms(2) c app by (cases r) (auto simp: accounts_def)
  next
    case 3
    then show ?thesis using assms(2) c app by (simp add: accounts_def)
  qed
qed


text \<open>
  C37: the verdict reaches the task the autopsy was minted for. When an autopsy minted for a dead task
  completes with a verdict, the sweeper rescues exactly that task with its own attempt budget on fixed,
  dismisses exactly that task with the summary on wontfix, and does nothing on any other word; a store
  that fails keeps the fact for the next sweep, one that has moved the task on already lets it pass.
\<close>

theorem verdict_reaches_its_task:
  assumes "dq_Get ops (TaskID f) s = Inr a" "Type a = TaskTypeDLQFix" "FType f = F_Completed"
    and "Payload a = n_Payload (autopsy_task t (autopsy_payload cfg ops t p s0))" "ID t \<noteq> []" "int64 (Attempts t)"
    and "int64 (reclaimsWithUnknownEffect ops (ID t) s0)" "dec_result (Detail f) = Some res" "dr_Verdict res \<noteq> []"
  shows "handleDeath su cfg' ops f (st, s) =
    (if dr_Verdict res = VerdictFixed then
       (case dq_Get ops (ID t) s of
          Inl e \<Rightarrow> if PermanentOutcome e then (Inr (), skip_fact st, s) else (Inl e, st, s)
        | Inr dead \<Rightarrow>
            (case dq_RescueDead ops (ID t) (MaxAttempts dead) s of
               (Inr _, s') \<Rightarrow> (Inr (), st\<lparr>ss_Rescued := ss_Rescued st + 1\<rparr>, s')
             | (Inl e, s') \<Rightarrow> if PermanentOutcome e then (Inr (), skip_fact st, s') else (Inl e, st, s')))
     else if dr_Verdict res = VerdictWontFix then
       (case dq_DismissDead ops (ID t) (dr_Summary res) DismissedBySweeper s of
          (Inr _, s') \<Rightarrow> (Inr (), st\<lparr>ss_Dismissed := ss_Dismissed st + 1\<rparr>, s')
        | (Inl e, s') \<Rightarrow> if PermanentOutcome e then (Inr (), skip_fact st, s') else (Inl e, st, s'))
     else (Inr (), skip_fact st, s))"
proof -
  let ?p = "autopsy_payload cfg ops t p s0"
  have "dlq_in_range ?p" using assms(6,7) last_evidence_in_range by (simp add: dlq_in_range_def autopsy_payload_def int64_def)
  then have "dec_dlq (Payload a) = Some ?p" using dec_dlq_fields assms(4) by (simp add: autopsy_task_def)
  then have out: "autopsyOutcome a f = Some (ID t, res)" using assms(5,8,9) by (simp add: autopsyOutcome_def autopsy_payload_def)
  have "FType f \<noteq> F_DeadLettered" using assms(3) by simp
  then show ?thesis using assms(1-3) out
    by (auto simp: handleDeath_def dispose_def rescue_def dismiss_def split: sum.splits prod.splits)
qed

text \<open>Every store write of a fact has its cause: a mint an agent task that died of something else than its environment.\<close>

lemma death_writes:
  assumes "handleDeath su cfg ops f (st, s) = (r, (st', s'))" "FType f = F_DeadLettered" "s' \<noteq> s"
  shows "\<exists>t p. dq_Get ops (TaskID f) s = Inr t \<and> Type t = TaskTypeAgent \<and> agentPayload t = Some p
    \<and> (let s1 = (case shipped_proof su cfg ops t (ap_Repo p) s of None \<Rightarrow> s | Some why \<Rightarrow> snd (dq_DismissDead ops (ID t) why DismissedBySweeper s)) in
       s' = s1 \<or> \<not> IsEnvironmentalDeath (LastError t) \<and> s' = snd (dq_Enqueue ops (autopsy_task t (autopsy_payload cfg ops t p s1)) s1))"
  using assms
  by (auto simp: handleDeath_def mintAutopsy_def autoDismissGateArtifact_def enqueue_autopsy_def Let_def
      split: sum.splits option.splits prod.splits bool.splits if_splits)

text \<open>
  A dead task whose record is gone stops the sweeper: each pass fails on it, the position stays before it, and
  no later death is looked at. The disposition, by contrast, skips a missing record.
\<close>

lemma missing_record_stops_the_sweep:
  assumes "src_Facts (dq_source ops) (cu_watermark c) (cu_pageSize c) s = Inr (f # fs)" "cu_watermark c \<le> cu_persisted c"
    and "FType f = F_DeadLettered" "dq_Get ops (TaskID f) s = Inl (TaskErr ErrNotFound)"
  shows "DlqSweep (Suc n) su cfg ops c s = Some (Some (HandlerErr (TaskErr ErrNotFound)), c, (count_death zero_stats, s), [])"
  using assms by (simp add: DlqSweep_def Sweep_def with_memory_sel handleDeath_def mintAutopsy_def Let_def)

text \<open>
  The quoted work is the prompt as it was enqueued, its \<open>{{TASK_ID}}\<close> placeholders not resolved to the dead
  task; the agent executor, which resolves every placeholder of the instruction it runs, puts the autopsy's own
  identity into the quoted contract.
\<close>

lemma work_is_quoted_unresolved:
  "\<exists>before after. dlqFixPrompt (autopsy_payload cfg ops t p s) = before @ nl @ ap_Prompt p @ nl @ after"
proof -
  have "\<exists>before after. dlqFixPrompt q = before @ nl @ dp_Work q @ nl @ after" for q
    by (rule exI [of _ "autopsy_intro @ ''## The dead task'' @ nl @ nl @ ''Queue task '' @ dp_DeadTask q
          @ (if dp_DeadType q = [] then [] else '' (type '' @ dp_DeadType q @ '')'') @ '' ran:'' @ nl"], rule exI)
      (simp only: dlqFixPrompt_def append_assoc)
  from this [of "autopsy_payload cfg ops t p s"] show ?thesis
    by (simp only: autopsy_payload_def dlq_payload.select_convs)
qed

text \<open>The shipment is never reported as ticked, since only open items are read.\<close>

lemma shipment_is_never_ticked: "todoShipment su t repo \<noteq> Some ''ticked''"
proof -
  have "\<not> it_Done it" if "ParseRepo su repo DefaultTodoFile = Inr its" "find P its = Some it" for its it P
    using that by (auto simp: ParseRepo_def map_sum_def find_Some_iff split: sum.splits dest!: nth_mem)
  then show ?thesis by (auto simp: todoShipment_def split: sum.splits option.splits)
qed

section \<open>Examples\<close>

definition dlq_task :: "task_id \<Rightarrow> string \<Rightarrow> jtext \<Rightarrow> status \<Rightarrow> task" where
  "dlq_task i ty d st = \<lparr>ID = i, Project = ''p'', Type = ty, Payload = d, Deps = [], Priority = 0, Attempts = 3, MaxAttempts = 3,
     NotBefore = 0, Status = st, LeaseOwner = [], LeaseExpires = None, LastError = ''exit status 1'', DedupKey = [], CreatedAt = 0,
     UpdatedAt = 0, CompletedAt = None\<rparr>"

text \<open>A store that is a list of tasks beside a fixed journal.\<close>

definition set_status :: "task_id \<Rightarrow> status \<Rightarrow> task list \<Rightarrow> task list" where
  "set_status i st ts = map (\<lambda>t. if ID t = i then t\<lparr>Status := st\<rparr> else t) ts"

definition demo_dlq :: "fact list \<Rightarrow> task list dlq_ops" where
  "demo_dlq fs =
     \<lparr>dq_source = \<lparr>src_Facts = (\<lambda>after limit ts. Inr (AfterSeq fs after limit)), src_HeadSeq = (\<lambda>ts. Inr 0),
        src_Watermark = (\<lambda>key ts. Inr (Some 0)), src_SaveWatermark = (\<lambda>key q ts. (Inr (), ts))\<rparr>,
      dq_Get = (\<lambda>i ts. case find (\<lambda>t. ID t = i) ts of None \<Rightarrow> Inl (TaskErr ErrNotFound) | Some t \<Rightarrow> Inr t),
      dq_Enqueue = (\<lambda>n ts. let t = (dlq_task (n_DedupKey n) (n_Type n) (n_Payload n) Pending)\<lparr>Attempts := 0\<rparr> in (Inr t, ts @ [t])),
      dq_RescueDead = (\<lambda>i n ts. (Inr (), set_status i Pending ts)), dq_DismissDead = (\<lambda>i why who ts. (Inr (), set_status i Cancelled ts)),
      dq_FactsForTask = (\<lambda>i limit ts. Inr (filter (\<lambda>f. TaskID f = i) fs))\<rparr>"

definition dlq_fact :: "int \<Rightarrow> task_id \<Rightarrow> fact_type \<Rightarrow> jtext \<Rightarrow> fact" where
  "dlq_fact q i ty d = (mk_fact i ty [] d)\<lparr>Seq := q, Time := 0\<rparr>"

definition plain_sweeper :: sweeper_config where
  "plain_sweeper = \<lparr>sc_Model = [], sc_Scanner = None\<rparr>"

definition dead_agent :: task where
  "dead_agent = dlq_task ''d'' TaskTypeAgent (marshal (JObj [(''repo'', JStr ''app''), (''prompt'', JStr ''do it'')])) Dead"

definition two_deaths :: "fact list" where
  "two_deaths = [dlq_fact 1 ''d'' F_DeadLettered empty_text, dlq_fact 2 ''r'' F_DeadLettered empty_text]"

definition demo_deaths :: "(cursor_err option \<times> cursor \<times> (sweep_stats \<times> task list) \<times> fact list) option" where
  "demo_deaths = DlqSweep 3 (demo_surroundings []) plain_sweeper (demo_dlq two_deaths) (newCursor DlqConsumerKey [] 500 0 0)
     [dead_agent, dlq_task ''r'' ''review'' empty_text Dead]"

lemma demo_deaths_eval:
  "map_option (\<lambda>(e, c, (st, ts), acc). (e, ss_FixesEnqueued st, ss_Skipped st, map ID ts, length acc)) demo_deaths
     = Some (None, 1, 1, [''d'', ''r'', ''dlqfix:d''], 2)"
  by code_simp


definition fixed_detail :: jtext where
  "fixed_detail = marshal (JObj [(''verdict'', JStr ''fixed''), (''summary'', JStr ''flaky test'')])"

definition demo_autopsy :: task where
  "demo_autopsy = dlq_task ''dlqfix:d'' TaskTypeDLQFix
     (n_Payload (autopsy_task dead_agent (autopsy_payload plain_sweeper (demo_dlq []) dead_agent no_agent []))) Completed"

lemma verdict_reaches_its_task_witness:
  "handleDeath (demo_surroundings []) plain_sweeper (demo_dlq []) (dlq_fact 9 ''dlqfix:d'' F_Completed fixed_detail)
     (zero_stats, [dead_agent, demo_autopsy])
   = (Inr (), zero_stats\<lparr>ss_Rescued := 1\<rparr>, [dead_agent\<lparr>Status := Pending\<rparr>, demo_autopsy])"
proof -
  let ?s = "[dead_agent, demo_autopsy]"
  have get: "dq_Get (demo_dlq []) ''dlqfix:d'' ?s = Inr demo_autopsy" "dq_Get (demo_dlq []) ''d'' ?s = Inr dead_agent"
    by (simp_all add: demo_dlq_def demo_autopsy_def dead_agent_def dlq_task_def)
  have res: "dec_result fixed_detail = Some \<lparr>dr_Verdict = ''fixed'', dr_Summary = ''flaky test''\<rparr>" by code_simp
  have fact: "TaskID (dlq_fact 9 ''dlqfix:d'' F_Completed fixed_detail) = ''dlqfix:d''"
    "FType (dlq_fact 9 ''dlqfix:d'' F_Completed fixed_detail) = F_Completed" "Detail (dlq_fact 9 ''dlqfix:d'' F_Completed fixed_detail) = fixed_detail"
    by (simp_all add: dlq_fact_def mk_fact_def)
  have id: "ID dead_agent = ''d''" "Attempts dead_agent = 3" "Type demo_autopsy = TaskTypeDLQFix"
    "Payload demo_autopsy = n_Payload (autopsy_task dead_agent (autopsy_payload plain_sweeper (demo_dlq []) dead_agent no_agent []))"
    by (simp_all add: dead_agent_def demo_autopsy_def dlq_task_def)
  have "reclaimsWithUnknownEffect (demo_dlq []) (ID dead_agent) [] = 0" by (simp add: reclaimsWithUnknownEffect_def demo_dlq_def)
  then show ?thesis
    using verdict_reaches_its_task [of "demo_dlq []" "dlq_fact 9 ''dlqfix:d'' F_Completed fixed_detail" ?s demo_autopsy dead_agent
        plain_sweeper no_agent "[]" "\<lparr>dr_Verdict = ''fixed'', dr_Summary = ''flaky test''\<rparr>" "demo_surroundings []" plain_sweeper zero_stats]
    by (simp add: fact get res id int64_def VerdictFixed_def)
      (simp add: demo_dlq_def set_status_def dead_agent_def demo_autopsy_def dlq_task_def zero_stats_def)
qed

end
