(* ===== verification/Tq_Review.thy ===== *)
theory Tq_Review
  imports Tq_Dlqfix Tq_Harvest Tq_Storm
begin

text \<open>
  Package \<open>internal/review\<close> (\<open>sweep.go\<close>) and the review side of \<open>executor/review.go\<close>: every completed agent
  task is reviewed once by a second agent, an approving review merges the delivery branch, a rejecting one
  turns each finding into a fix task. A review payload is the record \<open>review_payload\<close>, the reviewer's report is
  checked by \<open>ParseResult\<close>; the sweeper runs over the store record \<open>review_ops\<close> with its counters and the git
  calls it made as memory. The merge, like the configuration's own seam, is a function of the calls before it. The locale
  \<open>key_store\<close> is what the sweeper needs of dedup keys; \<open>engine_dedup\<close> gives it for the SQL-backed store. JSON
  names are matched exactly, log lines are left out.
\<close>

section \<open>Payload and report\<close>

definition TaskTypeReview :: string where "TaskTypeReview = ''review''"

record review_payload =
  rw_Repo :: string
  rw_ReviewedTask :: string
  rw_Item :: string
  rw_CommitSHA :: string
  rw_FilesChanged :: "string list"
  rw_Branch :: string
  rw_BaseBranch :: string
  rw_WorktreeDir :: string
  rw_Extra :: string
  rw_Model :: string
  rw_Yolo :: bool
  rw_RequireClean :: "bool option"
  rw_TimeoutMinutes :: int

definition review_fields :: "review_payload \<Rightarrow> (string \<times> json) list" where
  "review_fields p =
     [(''repo'', JStr (rw_Repo p)), (''reviewed_task'', JStr (rw_ReviewedTask p)), (''item'', JStr (rw_Item p))]
     @ omit_empty ''commit_sha'' (rw_CommitSHA p) @ omit_strs ''files_changed'' (rw_FilesChanged p) @ omit_empty ''branch'' (rw_Branch p)
     @ omit_empty ''base_branch'' (rw_BaseBranch p) @ omit_empty ''worktree_dir'' (rw_WorktreeDir p) @ omit_empty ''extra'' (rw_Extra p)
     @ omit_empty ''model'' (rw_Model p) @ omit_false ''yolo'' (rw_Yolo p)
     @ omit_none ''require_clean'' (map_option JBool (rw_RequireClean p)) @ omit_int ''timeout_minutes'' (rw_TimeoutMinutes p)"

definition dec_review :: "jtext \<Rightarrow> review_payload option" where
  "dec_review d =
     do { j \<leftarrow> jt_parse d; kvs \<leftarrow> jfields j; r \<leftarrow> jstr_field ''repo'' kvs; rt \<leftarrow> jstr_field ''reviewed_task'' kvs;
          it \<leftarrow> jstr_field ''item'' kvs; c \<leftarrow> jstr_field ''commit_sha'' kvs; fc \<leftarrow> jstrs_field ''files_changed'' kvs;
          b \<leftarrow> jstr_field ''branch'' kvs; bb \<leftarrow> jstr_field ''base_branch'' kvs; wt \<leftarrow> jstr_field ''worktree_dir'' kvs;
          ex \<leftarrow> jstr_field ''extra'' kvs; m \<leftarrow> jstr_field ''model'' kvs; y \<leftarrow> jbool_field ''yolo'' kvs;
          cl \<leftarrow> jptr_field jbool ''require_clean'' kvs; tm \<leftarrow> jint_field ''timeout_minutes'' kvs;
          Some \<lparr>rw_Repo = r, rw_ReviewedTask = rt, rw_Item = it, rw_CommitSHA = c, rw_FilesChanged = fc, rw_Branch = b,
                rw_BaseBranch = bb, rw_WorktreeDir = wt, rw_Extra = ex, rw_Model = m, rw_Yolo = y, rw_RequireClean = cl,
                rw_TimeoutMinutes = tm\<rparr> }"

record review_finding =
  rf_Title :: string
  rf_Severity :: string
  rf_Detail :: string
  rf_CommitSHA :: string
  rf_Anchor :: string

definition finding_json :: "review_finding \<Rightarrow> json" where
  "finding_json g = JObj ([(''title'', JStr (rf_Title g))] @ omit_empty ''severity'' (rf_Severity g) @ omit_empty ''detail'' (rf_Detail g)
     @ omit_empty ''commit_sha'' (rf_CommitSHA g) @ omit_empty ''anchor'' (rf_Anchor g))"

definition dec_finding :: "json \<Rightarrow> review_finding option" where
  "dec_finding j =
     do { kvs \<leftarrow> jfields j; t \<leftarrow> jstr_field ''title'' kvs; s \<leftarrow> jstr_field ''severity'' kvs; d \<leftarrow> jstr_field ''detail'' kvs;
          c \<leftarrow> jstr_field ''commit_sha'' kvs; a \<leftarrow> jstr_field ''anchor'' kvs;
          Some \<lparr>rf_Title = t, rf_Severity = s, rf_Detail = d, rf_CommitSHA = c, rf_Anchor = a\<rparr> }"

definition VerdictApprove :: string where "VerdictApprove = ''approve''"
definition VerdictRequestChanges :: string where "VerdictRequestChanges = ''request_changes''"

record review_result =
  rr_Verdict :: string
  rr_Summary :: string
  rr_Findings :: "review_finding list"

text \<open>The document, the session block left empty; reading it back decodes that block too.\<close>

definition review_json :: "review_result \<Rightarrow> json" where
  "review_json r = JObj ([(''verdict'', JStr (rr_Verdict r))] @ omit_empty ''summary'' (rr_Summary r)
     @ omit_arr ''findings'' (map finding_json (rr_Findings r)))"

definition verdict_of :: "(string \<times> json) list \<Rightarrow> review_result option" where
  "verdict_of kvs =
     do { v \<leftarrow> jstr_field ''verdict'' kvs; s \<leftarrow> jstr_field ''summary'' kvs; fs \<leftarrow> jlist_field dec_finding ''findings'' kvs;
          Some \<lparr>rr_Verdict = v, rr_Summary = s, rr_Findings = fs\<rparr> }"

definition dec_review_result :: "jtext \<Rightarrow> review_result option" where
  "dec_review_result d =
     do { j \<leftarrow> jt_parse d; kvs \<leftarrow> jfields j; r \<leftarrow> verdict_of kvs; _ \<leftarrow> jstr_field ''session_id'' kvs;
          _ \<leftarrow> jrat_field ''session_cost_usd'' kvs; _ \<leftarrow> jint_field ''session_prompt_tokens'' kvs;
          _ \<leftarrow> jint_field ''session_completion_tokens'' kvs; _ \<leftarrow> jint_field ''session_message_count'' kvs;
          _ \<leftarrow> jstr_field ''log_path'' kvs; Some r }"

section \<open>What the executor accepts of a reviewer\<close>

definition normalizeSeverity :: "string \<Rightarrow> string" where
  "normalizeSeverity s =
     (let v = to_lower (trim_space s) in
      if v \<in> {''low'', ''minor''} then ''low'' else if v \<in> {''high'', ''critical'', ''major''} then ''high'' else ''medium'')"

definition endash :: string where "endash = [CHR 0xE2, CHR 0x80, CHR 0x93]"

text \<open>A path, a colon and a line or a range of lines; the expression is anchored at both ends of the text.\<close>

definition fileLinePattern :: re where
  "fileLinePattern = cats [plus1 (Chr (\<lambda>c. \<not> re_space c \<and> c \<noteq> CHR '':'')), lit '':'', plus1 (Chr digit),
     opt (cats [alts [lit ''-'', lit endash], plus1 (Chr digit)])]"

definition whole_match :: "re \<Rightarrow> string \<Rightarrow> bool" where
  "whole_match r s \<longleftrightarrow> list_ex (\<lambda>m. fst m = length s) (matches r None s)"

text \<open>\<open>strings.FieldsFunc\<close>: the stretches between separators.\<close>

fun fields_by :: "(char \<Rightarrow> bool) \<Rightarrow> string \<Rightarrow> string \<Rightarrow> string list" where
  "fields_by sep cur [] = (if cur = [] then [] else [cur])"
| "fields_by sep cur (c # cs) =
     (if sep c then (if cur = [] then [] else [cur]) @ fields_by sep [] cs else fields_by sep (cur @ [c]) cs)"

definition line_prefixed :: "string \<Rightarrow> bool" where
  "line_prefixed lower \<longleftrightarrow> list_ex (\<lambda>prefix. has_prefix lower prefix
     \<and> \<not> list_ex (\<lambda>c. c \<in> set ''abcdefghijklmnopqrstuvwxyz'') (trim_space (drop (length prefix) lower)))
     [''line '', ''lines '', ''line:'', ''lines:'']"

text \<open>The separators are ASCII but for the en dash, which is read as a hyphen here.\<close>

definition anchorLooksPositional :: "string \<Rightarrow> bool" where
  "anchorLooksPositional a =
     (let trimmed = trim_space a; lower = to_lower trimmed; body = trim_prefix (trim_prefix lower ''l'') '':'' in
      trimmed \<noteq> []
      \<and> (line_prefixed lower \<or> whole_match fileLinePattern trimmed
         \<or> body \<noteq> [] \<and> list_all (list_all digit) (fields_by (\<lambda>c. c \<in> set ''-:., '' \<union> {CHR 0x09}) [] (str_replace body endash ''-''))))"

datatype review_error =
    ReviewUnparsable
  | AnchorMissing string
  | AnchorPositional string string
  | NoFindings
  | ReviewVerdictMissing
  | ReviewVerdictUnknown string

definition validateAnchor :: "review_finding \<Rightarrow> review_error option" where
  "validateAnchor g =
     (if rf_Anchor g = [] then Some (AnchorMissing (trim_space (rf_Title g)))
      else if anchorLooksPositional (rf_Anchor g) then Some (AnchorPositional (trim_space (rf_Title g)) (rf_Anchor g)) else None)"

text \<open>The loop over the findings; one without a title is dropped.\<close>

fun clean_findings :: "string \<Rightarrow> review_finding list \<Rightarrow> review_error + review_finding list" where
  "clean_findings v [] = Inr []"
| "clean_findings v (g # gs) =
     (if trim_space (rf_Title g) = [] then clean_findings v gs
      else let g' = g\<lparr>rf_Severity := normalizeSeverity (rf_Severity g), rf_Anchor := trim_space (rf_Anchor g)\<rparr> in
        case (if v = VerdictRequestChanges then validateAnchor g' else None) of
          Some e \<Rightarrow> Inl e
        | None \<Rightarrow> (case clean_findings v gs of Inl e \<Rightarrow> Inl e | Inr gs' \<Rightarrow> Inr (g' # gs')))"

definition ParseResult :: "jtext \<Rightarrow> review_error + review_result" where
  "ParseResult raw =
     (case do { j \<leftarrow> jt_parse raw; kvs \<leftarrow> jfields j; verdict_of kvs } of
        None \<Rightarrow> Inl ReviewUnparsable
      | Some parsed \<Rightarrow>
          (let v = to_lower (trim_space (rr_Verdict parsed)) in
           if v = VerdictApprove \<or> v = VerdictRequestChanges then
             (case clean_findings v (rr_Findings parsed) of
                Inl e \<Rightarrow> Inl e
              | Inr gs \<Rightarrow>
                  if v = VerdictRequestChanges \<and> gs = [] then Inl NoFindings
                  else Inr \<lparr>rr_Verdict = v, rr_Summary = rr_Summary parsed, rr_Findings = gs\<rparr>)
           else if v = [] then Inl ReviewVerdictMissing
           else Inl (ReviewVerdictUnknown (rr_Verdict parsed))))"

text \<open>A finding without a commit is anchored to the change under review.\<close>

definition backfill :: "review_payload \<Rightarrow> review_result \<Rightarrow> review_result" where
  "backfill p r =
     (if rw_CommitSHA p = [] then r
      else r\<lparr>rr_Findings := map (\<lambda>g. if rf_CommitSHA g = [] then g\<lparr>rf_CommitSHA := rw_CommitSHA p\<rparr> else g) (rr_Findings r)\<rparr>)"

section \<open>Instructions\<close>

definition review_intro :: string where
  "review_intro =
     ''You are a strict senior code reviewer. Review a change another agent made in this repository. READ-ONLY: do not create, modify, or delete any file; run only read-only commands.'' @ nl @ nl"

definition review_criteria :: string where
  "review_criteria =
     ''## Judge the change against'' @ nl @ nl
     @ ''1. Correctness: does it actually fulfill the task, with real error handling and no broken edge cases?'' @ nl
     @ ''2. Repository contracts: AGENTS.md / CLAUDE.md / docs conventions, existing patterns, and invariants.'' @ nl
     @ ''3. Tests: behavior covered where it matters; the repo'' @ [CHR 0x27] @ ''s own test suite would pass.'' @ nl
     @ ''4. Scope: no unrelated changes, no drive-by rewrites, no dead code left behind.'' @ nl
     @ ''5. Honesty: claims in the change match what the code does.'' @ nl"

definition verdict_rules :: string where
  "verdict_rules =
     ''## Verdict rules'' @ nl @ nl
     @ ''- '' @ [CHR 0x22] @ ''approve'' @ [CHR 0x22] @ '': the change is correct and complete as it stands. Trivial nits do NOT block approval.'' @ nl
     @ ''- '' @ [CHR 0x22] @ ''request_changes'' @ [CHR 0x22] @ '': you found at least one concrete, actionable problem. Every finding must be specific enough that a fix agent can act on it without re-doing the review (name the file, the behavior, and the expected direction).'' @ nl
     @ ''- Every finding must carry '' @ [CHR 0x22] @ ''anchor'' @ [CHR 0x22] @ '': a short VERBATIM quote of the text the finding is attached to, exactly as the file reads at the commit you inspected. Never cite bare positions ('' @ [CHR 0x22] @ ''lines 12-18'' @ [CHR 0x22] @ '', '' @ [CHR 0x22] @ ''x.go:3'' @ [CHR 0x22] @ '') without the quoted text '' @ emdash @ '' line numbers go stale.'' @ nl
     @ ''- Optionally carry '' @ [CHR 0x22] @ ''commit_sha'' @ [CHR 0x22] @ '': the commit the finding is anchored to (defaults to the change under review).'' @ nl
     @ ''- Never request changes without findings; never report findings under approve.'' @ nl @ nl
     @ ''Record your verdict by running EXACTLY ONE of:'' @ nl @ nl
     @ ''tq verdict '' @ [CHR 0x27] @ ''{'' @ [CHR 0x22] @ ''verdict'' @ [CHR 0x22] @ '':'' @ [CHR 0x22] @ ''approve'' @ [CHR 0x22] @ '','' @ [CHR 0x22] @ ''summary'' @ [CHR 0x22] @ '':'' @ [CHR 0x22] @ ''...'' @ [CHR 0x22] @ '','' @ [CHR 0x22] @ ''findings'' @ [CHR 0x22] @ '':[]}'' @ [CHR 0x27] @ nl @ nl
     @ ''tq verdict '' @ [CHR 0x27] @ ''{'' @ [CHR 0x22] @ ''verdict'' @ [CHR 0x22] @ '':'' @ [CHR 0x22] @ ''request_changes'' @ [CHR 0x22] @ '','' @ [CHR 0x22] @ ''summary'' @ [CHR 0x22] @ '':'' @ [CHR 0x22] @ ''...'' @ [CHR 0x22] @ '','' @ [CHR 0x22] @ ''findings'' @ [CHR 0x22] @ '':[{'' @ [CHR 0x22] @ ''title'' @ [CHR 0x22] @ '':'' @ [CHR 0x22] @ ''...'' @ [CHR 0x22] @ '','' @ [CHR 0x22] @ ''severity'' @ [CHR 0x22] @ '':'' @ [CHR 0x22] @ ''low|medium|high'' @ [CHR 0x22] @ '','' @ [CHR 0x22] @ ''detail'' @ [CHR 0x22] @ '':'' @ [CHR 0x22] @ ''...'' @ [CHR 0x22] @ '','' @ [CHR 0x22] @ ''anchor'' @ [CHR 0x22] @ '':'' @ [CHR 0x22] @ ''<verbatim quoted text>'' @ [CHR 0x22] @ '','' @ [CHR 0x22] @ ''commit_sha'' @ [CHR 0x22] @ '':'' @ [CHR 0x22] @ ''<sha>'' @ [CHR 0x22] @ ''}]}'' @ [CHR 0x27] @ nl @ nl
     @ ''(tq validates the JSON and writes $TQ_RESULT_FILE '' @ emdash @ '' the queue reads that file after you exit; if tq is not on PATH, write the same one-line JSON to $TQ_RESULT_FILE yourself)'' @ nl @ nl"

definition change_section :: "review_payload \<Rightarrow> string" where
  "change_section p =
     (if rw_Branch p \<noteq> [] \<and> rw_BaseBranch p \<noteq> [] then
       ''## The change'' @ nl @ nl
       @ ''The work lives on branch `'' @ rw_Branch p @ ''` (forked from `'' @ rw_BaseBranch p @ ''`; not yet merged). Inspect it READ-ONLY: `git log '' @ rw_BaseBranch p @ ''..'' @ rw_Branch p @ '' --stat`, '' @ ''`git diff '' @ rw_BaseBranch p @ ''...'' @ rw_Branch p @ ''`, `git show '' @ rw_Branch p @ '':<file>`; '' @ ''do NOT check out, merge, or modify anything.'' @ nl @ nl
      else if rw_CommitSHA p \<noteq> [] then
       ''## The change'' @ nl @ nl
       @ ''The agent reported commit '' @ rw_CommitSHA p @ ''. Inspect it with `git show '' @ rw_CommitSHA p @ ''` (plus surrounding context as needed).'' @ nl @ nl
      else
       ''## The change'' @ nl @ nl
       @ ''The agent reported no commit; inspect the repository'' @ [CHR 0x27] @ ''s current state and recent history.'' @ nl @ nl)"

definition reviewPrompt :: "review_payload \<Rightarrow> string" where
  "reviewPrompt p =
     (let work = str_replace (trim_space (rw_Item p)) ''{{TASK_ID}}'' (rw_ReviewedTask p) in
      review_intro @ ''## The task the agent was given'' @ nl @ nl @ work @ nl @ nl
      @ change_section p
      @ (if rw_FilesChanged p = [] then [] else ''Files the agent reported changing: '' @ str_join '', '' (rw_FilesChanged p) @ nl @ nl)
      @ review_criteria
      @ (if \<not> str_contains work ''Task-Queue-ID'' then [] else
       ''6. Queue cross-reference: the quoted task'' @ [CHR 0x27] @ ''s `Task-Queue-ID` footer contract refers to the REVIEWED task'' @ [CHR 0x27] @ ''s id, '' @ rw_ReviewedTask p @ ''. A commit ending with `Task-Queue-ID: '' @ rw_ReviewedTask p @ ''` satisfies it; that is the correct state, never a finding. A different id in that footer is a finding.'' @ nl @ nl)
      @ (if trim_space (rw_Extra p) = [] then [] else ''## Additional focus for this review'' @ nl @ nl @ trim_space (rw_Extra p) @ nl @ nl)
      @ verdict_rules)"

definition fix_contract :: string where
  "fix_contract =
     ''Address the finding, keep the repository'' @ [CHR 0x27] @ ''s contracts (AGENTS.md / docs), and make the repo'' @ [CHR 0x27] @ ''s own gates (build, vet, tests, format) pass before finishing. FIRST grep git log for your own footer below '' @ emdash @ '' existing commits under this fix ticket'' @ [CHR 0x27] @ ''s ID mean an earlier run already addressed the finding: verify the anchor state, then close out as a no-op stating the evidence instead of redoing. Commit the fix with a message ending in this exact footer line (you have explicit permission to commit for this task):'' @ nl @ nl
     @ ''Task-Queue-ID: {{TASK_ID}}'' @ nl @ nl
     @ ''The footer must be the FINAL line of the message: if your tooling appends an attribution block (e.g. '' @ [CHR 0x22] @ ''Generated with Crush'' @ [CHR 0x22] @ '' / '' @ [CHR 0x22] @ ''Assisted-by'' @ [CHR 0x22] @ ''), put the footer AFTER that block '' @ emdash @ '' a footer stranded above attribution is invisible to git trailers and the pre-commit hook rejects the commit.'' @ nl @ nl
     @ ''Footer convention: ONE Task-Queue-ID footer per commit '' @ emdash @ '' the FIX ticket'' @ [CHR 0x27] @ ''s id above, never a second footer for the original task; duplicate footers corrupt the queue'' @ [CHR 0xE2] @ [CHR 0x86] @ [CHR 0x94] @ ''git cross-reference.'' @ nl @ nl
     @ ''Never push.''"

text \<open>The finding's own commit wins over the one of the reviewed run.\<close>

definition finding_sha :: "review_payload \<Rightarrow> review_finding \<Rightarrow> string" where
  "finding_sha p g = (if trim_space (rf_CommitSHA g) = [] then trim_space (rw_CommitSHA p) else trim_space (rf_CommitSHA g))"

definition dangling_section :: "string \<Rightarrow> string" where
  "dangling_section sha =
     (if sha = [] then [] else ''The rejected change is (or was) commit '' @ sha @ ''.'' @ nl @ nl
      @ ''Disposition for a dangling commit: verify the commit still exists (`git cat-file -e '' @ sha @ ''`). If it is gone (rebased away), re-anchor via the verbatim anchor text above and judge the CURRENT tree; the stale sha is context, not a requirement. If the anchor text is also gone, the finding no longer applies '' @ emdash @ '' state that in your final output instead of inventing a change.'' @ nl @ nl)"

text \<open>\<open>fixPrompt\<close> of the package.\<close>

definition finding_prompt :: "review_payload \<Rightarrow> review_finding \<Rightarrow> string" where
  "finding_prompt p g =
     (let original = str_replace (trim_space (rw_Item p)) ''{{TASK_ID}}'' (rw_ReviewedTask p); anchor = trim_space (rf_Anchor g) in
      ''A code reviewer rejected your earlier work on this task and filed one finding. Fix this finding.'' @ nl @ nl
      @ ''## Original task'' @ nl @ nl @ original @ nl @ nl
      @ ''## Reviewer finding ('' @ rf_Severity g @ '')'' @ nl @ nl @ trim_space (rf_Title g) @ nl @ nl
      @ (if trim_space (rf_Detail g) = [] then [] else trim_space (rf_Detail g) @ nl @ nl)
      @ (if anchor = [] then [] else
       ''The finding is anchored to this verbatim text: `'' @ anchor @ ''`. Use it to locate the site '' @ emdash @ '' never a line number.'' @ nl @ nl)
      @ dangling_section (finding_sha p g) @ fix_contract)"

section \<open>Completions of agents\<close>

text \<open>
  The detail of an agent's completion is read without looking at the error: a member of another shape is left
  empty, an element of another shape in a list of names is an empty name.
\<close>

definition lenient_strs :: "string \<Rightarrow> (string \<times> json) list \<Rightarrow> string list" where
  "lenient_strs k kvs = (case map_of kvs k of Some (JArr js) \<Rightarrow> map (\<lambda>j. case j of JStr s \<Rightarrow> s | _ \<Rightarrow> []) js | _ \<Rightarrow> [])"

record agent_result =
  ar_FilesChanged :: "string list"
  ar_CommitSHA :: string
  ar_PreflightDone :: string
  ar_WorktreeDir :: string
  ar_Branch :: string
  ar_BaseBranch :: string

definition dec_agent_result :: "jtext \<Rightarrow> agent_result" where
  "dec_agent_result d =
     (let kvs = (case jt_parse d of Some (JObj kvs) \<Rightarrow> kvs | _ \<Rightarrow> []) in
      \<lparr>ar_FilesChanged = lenient_strs ''files_changed'' kvs, ar_CommitSHA = lenient_str ''commit_sha'' kvs,
       ar_PreflightDone = lenient_str ''preflight_done'' kvs, ar_WorktreeDir = lenient_str ''worktree_dir'' kvs,
       ar_Branch = lenient_str ''branch'' kvs, ar_BaseBranch = lenient_str ''base_branch'' kvs\<rparr>)"

definition has_suffix :: "string \<Rightarrow> string \<Rightarrow> bool" where
  "has_suffix s suf \<longleftrightarrow> has_prefix (rev s) (rev suf)"

definition docsLikePath :: "string \<Rightarrow> bool" where
  "docsLikePath file =
     (let lower = to_lower (trim_space file); base = rev (takeWhile (\<lambda>c. c \<noteq> CHR ''/'') (rev lower)) in
      lower \<noteq> []
      \<and> (list_ex (has_prefix lower) [''docs/'', ''doc/'']
         \<or> base \<in> {''license'', ''licence'', ''copyright'', ''notice'', ''authors'', ''contributors''}
         \<or> list_ex (has_suffix base) [''.md'', ''.mdx'', ''.txt'', ''.rst'', ''.adoc'']))"

definition docsOnlyChange :: "string list \<Rightarrow> bool" where
  "docsOnlyChange files \<longleftrightarrow> files \<noteq> [] \<and> list_all docsLikePath files"

section \<open>The sweeper\<close>

definition ReviewConsumerKey :: string where "ReviewConsumerKey = ''review-sweeper''"

definition ReviewDedupKey :: "task_id \<Rightarrow> string" where
  "ReviewDedupKey reviewed = ''review:'' @ reviewed"

text \<open>\<open>su_digest\<close> is the hexadecimal SHA-256; eight bytes are sixteen digits.\<close>

definition FixDedupKey :: "surroundings \<Rightarrow> task_id \<Rightarrow> string \<Rightarrow> string" where
  "FixDedupKey su review title = ''reviewfix:'' @ review @ '':'' @ take 16 (su_digest su title)"

datatype git_call =
    Merge string string string string
  | RemoveWorktree string string
  | DeleteBranch string string

text \<open>\<open>rc_Merge calls dir branch base message\<close>: whether the merge succeeds after the calls made so far.\<close>

record review_config =
  rc_Model :: string
  rc_Autofix :: bool
  rc_ProjectsDir :: string
  rc_Merge :: "git_call list \<Rightarrow> string \<Rightarrow> string \<Rightarrow> string \<Rightarrow> string \<Rightarrow> bool"

record review_stats =
  rs_Facts :: int
  rs_ReviewsEnqueued :: int
  rs_ReviewsKnown :: int
  rs_FixesEnqueued :: int
  rs_Skipped :: int
  rs_Merged :: int
  rs_DocsSkipped :: int

definition no_reviews :: review_stats where
  "no_reviews = \<lparr>rs_Facts = 0, rs_ReviewsEnqueued = 0, rs_ReviewsKnown = 0, rs_FixesEnqueued = 0, rs_Skipped = 0, rs_Merged = 0,
     rs_DocsSkipped = 0\<rparr>"

definition skip_review :: "review_stats \<Rightarrow> review_stats" where
  "skip_review st = st\<lparr>rs_Skipped := rs_Skipped st + 1\<rparr>"

record 's review_ops =
  rv_source :: "'s source_ops"
  rv_Get :: "task_id \<Rightarrow> 's \<Rightarrow> qerr + task"
  rv_Enqueue :: "new_task \<Rightarrow> 's \<Rightarrow> (qerr + task) \<times> 's"

definition adapter_review :: "engine_ops \<Rightarrow> go_time \<Rightarrow> sql_store review_ops" where
  "adapter_review e now = \<lparr>rv_source = store_source e now, rv_Get = StoreGet, rv_Enqueue = Enqueue e\<rparr>"

definition ResolveRepoDir :: "surroundings \<Rightarrow> string \<Rightarrow> string \<Rightarrow> string option" where
  "ResolveRepoDir su projectsDir repo =
     (if has_prefix repo ''/'' then (if su_isdir su repo then Some repo else None)
      else if projectsDir = [] then None
      else let dir = path_join projectsDir repo in if su_isdir su dir then Some dir else None)"

definition merge_message :: "review_payload \<Rightarrow> string" where
  "merge_message p = ''Merge '' @ rw_Branch p @ '' (task '' @ rw_ReviewedTask p @ '') '' @ emdash @ '' review-approved auto-merge''"

text \<open>The branch an approving review delivers.\<close>

definition approved_delivery :: "task \<Rightarrow> fact \<Rightarrow> review_payload option" where
  "approved_delivery t f =
     do { p \<leftarrow> dec_review (Payload t);
          _ \<leftarrow> (if rw_Branch p = [] \<or> rw_BaseBranch p = [] then None else Some ());
          r \<leftarrow> dec_review_result (Detail f);
          if rr_Verdict r \<noteq> VerdictApprove then None else Some p }"

definition mergeOnApprove :: "surroundings \<Rightarrow> review_config \<Rightarrow> task \<Rightarrow> fact \<Rightarrow> review_stats \<times> git_call list \<Rightarrow> review_stats \<times> git_call list" where
  "mergeOnApprove su cfg t f m =
     (case m of (st, calls) \<Rightarrow>
        case approved_delivery t f of
          None \<Rightarrow> (st, calls)
        | Some p \<Rightarrow>
            (case ResolveRepoDir su (rc_ProjectsDir cfg) (rw_Repo p) of
               None \<Rightarrow> (skip_review st, calls)
             | Some dir \<Rightarrow>
                 (let ok = rc_Merge cfg calls dir (rw_Branch p) (rw_BaseBranch p) (merge_message p);
                      calls1 = calls @ [Merge dir (rw_Branch p) (rw_BaseBranch p) (merge_message p)] in
                  if \<not> ok then (st, calls1)
                  else (st\<lparr>rs_Merged := rs_Merged st + 1\<rparr>,
                        calls1 @ (if rw_WorktreeDir p = [] then [] else [RemoveWorktree dir (rw_WorktreeDir p)])
                          @ [DeleteBranch dir (rw_Branch p)]))))"

text \<open>The review an agent's completion asks for, or the counter its skip goes to.\<close>

datatype review_demand = Unusable | DocsOnly | Demand review_payload

definition review_demand_of :: "review_config \<Rightarrow> task \<Rightarrow> fact \<Rightarrow> review_demand" where
  "review_demand_of cfg t f =
     (case agentPayload t of
        None \<Rightarrow> Unusable
      | Some p \<Rightarrow>
          (let r = dec_agent_result (Detail f) in
           if ar_PreflightDone r \<noteq> [] then Unusable
           else if docsOnlyChange (ar_FilesChanged r) then DocsOnly
           else Demand \<lparr>rw_Repo = ap_Repo p, rw_ReviewedTask = ID t, rw_Item = ap_Prompt p, rw_CommitSHA = ar_CommitSHA r,
                  rw_FilesChanged = ar_FilesChanged r, rw_Branch = ar_Branch r, rw_BaseBranch = ar_BaseBranch r,
                  rw_WorktreeDir = ar_WorktreeDir r, rw_Extra = [], rw_Model = rc_Model cfg, rw_Yolo = ap_Yolo p,
                  rw_RequireClean = None, rw_TimeoutMinutes = 0\<rparr>))"

definition review_task :: "task \<Rightarrow> review_payload \<Rightarrow> new_task" where
  "review_task t p =
     \<lparr>n_Project = Project t, n_Type = TaskTypeReview, n_Payload = marshal (JObj (review_fields p)), n_Deps = [], n_Priority = Priority t,
      n_MaxAttempts = 0, n_NotBefore = zero_time, n_DedupKey = ReviewDedupKey (ID t)\<rparr>"

definition enqueueReview :: "review_config \<Rightarrow> 's review_ops \<Rightarrow> task \<Rightarrow> fact \<Rightarrow> review_stats \<times> 's \<Rightarrow> (qerr + unit) \<times> review_stats \<times> 's" where
  "enqueueReview cfg ops t f m =
     (case m of (st, s) \<Rightarrow>
        case review_demand_of cfg t f of
          Unusable \<Rightarrow> (Inr (), skip_review st, s)
        | DocsOnly \<Rightarrow> (Inr (), st\<lparr>rs_DocsSkipped := rs_DocsSkipped st + 1\<rparr>, s)
        | Demand p \<Rightarrow>
            (case rv_Enqueue ops (review_task t p) s of
               (Inl e, s') \<Rightarrow> if e = ErrTaskDone then (Inr (), st\<lparr>rs_ReviewsKnown := rs_ReviewsKnown st + 1\<rparr>, s') else (Inl e, st, s')
             | (Inr got, s') \<Rightarrow>
                 if Attempts got = 0 \<and> Status got = Pending then (Inr (), st\<lparr>rs_ReviewsEnqueued := rs_ReviewsEnqueued st + 1\<rparr>, s')
                 else (Inr (), st\<lparr>rs_ReviewsKnown := rs_ReviewsKnown st + 1\<rparr>, s')))"

definition fix_ticket_payload :: "review_payload \<Rightarrow> review_finding \<Rightarrow> agent_payload" where
  "fix_ticket_payload p g =
     no_agent\<lparr>ap_Repo := rw_Repo p, ap_Model := rw_Model p, ap_Yolo := rw_Yolo p, ap_Prompt := finding_prompt p g,
       ap_RejectedSHA := finding_sha p g, ap_Anchor := trim_space (rf_Anchor g)\<rparr>"

definition fix_ticket :: "surroundings \<Rightarrow> task \<Rightarrow> review_payload \<Rightarrow> review_finding \<Rightarrow> new_task" where
  "fix_ticket su t p g =
     \<lparr>n_Project = Project t, n_Type = TaskTypeAgent, n_Payload = marshal (JObj (agent_fields (fix_ticket_payload p g))), n_Deps = [],
      n_Priority = Priority t, n_MaxAttempts = 0, n_NotBefore = zero_time, n_DedupKey = FixDedupKey su (ID t) (rf_Title g)\<rparr>"

fun fix_loop :: "surroundings \<Rightarrow> 's review_ops \<Rightarrow> task \<Rightarrow> review_payload \<Rightarrow> review_finding list \<Rightarrow> review_stats \<times> 's
    \<Rightarrow> (qerr + unit) \<times> review_stats \<times> 's" where
  "fix_loop su ops t p [] m = (Inr (), m)"
| "fix_loop su ops t p (g # gs) (st, s) =
     (case rv_Enqueue ops (fix_ticket su t p g) s of
        (Inl e, s') \<Rightarrow> if e = ErrTaskDone then fix_loop su ops t p gs (skip_review st, s') else (Inl e, st, s')
      | (Inr got, s') \<Rightarrow>
          fix_loop su ops t p gs
            (if Attempts got = 0 \<and> Status got = Pending then st\<lparr>rs_FixesEnqueued := rs_FixesEnqueued st + 1\<rparr> else st, s'))"

definition mintFixes :: "surroundings \<Rightarrow> 's review_ops \<Rightarrow> task \<Rightarrow> fact \<Rightarrow> review_stats \<times> 's \<Rightarrow> (qerr + unit) \<times> review_stats \<times> 's" where
  "mintFixes su ops t f m =
     (case m of (st, s) \<Rightarrow>
        case dec_review (Payload t) of
          None \<Rightarrow> (Inr (), skip_review st, s)
        | Some p \<Rightarrow>
            if rw_Repo p = [] then (Inr (), skip_review st, s)
            else case dec_review_result (Detail f) of
              None \<Rightarrow> (Inr (), st, s)
            | Some r \<Rightarrow>
                if rr_Verdict r \<noteq> VerdictRequestChanges then (Inr (), st, s) else fix_loop su ops t p (rr_Findings r) (st, s))"

text \<open>\<open>handleFact\<close> of the package; the memory is the counters and the git calls.\<close>

definition handleCompletion :: "surroundings \<Rightarrow> review_config \<Rightarrow> 's review_ops \<Rightarrow> fact \<Rightarrow> (review_stats \<times> git_call list) \<times> 's
    \<Rightarrow> (qerr + unit) \<times> (review_stats \<times> git_call list) \<times> 's" where
  "handleCompletion su cfg ops f m =
     (case m of ((st, calls), s) \<Rightarrow>
        if FType f \<noteq> F_Completed then (Inr (), m)
        else case rv_Get ops (TaskID f) s of
          Inl e \<Rightarrow> if PermanentOutcome e then (Inr (), (skip_review st, calls), s) else (Inl e, m)
        | Inr t \<Rightarrow>
            if Type t = TaskTypeAgent then
              (case enqueueReview cfg ops t f (st, s) of (r, st', s') \<Rightarrow> (r, (st', calls), s'))
            else if Type t = TaskTypeReview then
              (case mergeOnApprove su cfg t f (st, calls) of (st1, calls1) \<Rightarrow>
                 if \<not> rc_Autofix cfg then (Inr (), (st1, calls1), s)
                 else case mintFixes su ops t f (st1, s) of (r, st', s') \<Rightarrow> (r, (st', calls1), s'))
            else (Inr (), m))"

definition NewReviewSweeper :: "'s review_ops \<Rightarrow> 's \<Rightarrow> (cursor_err + cursor) \<times> 's" where
  "NewReviewSweeper ops s = New (rv_source ops) ReviewConsumerKey ''review sweep'' 0 s"

definition count_completion :: "review_stats \<times> git_call list \<Rightarrow> review_stats \<times> git_call list" where
  "count_completion m = (case m of (st, calls) \<Rightarrow> (st\<lparr>rs_Facts := rs_Facts st + 1\<rparr>, calls))"

definition ReviewSweep :: "nat \<Rightarrow> surroundings \<Rightarrow> review_config \<Rightarrow> 's review_ops \<Rightarrow> cursor \<Rightarrow> git_call list \<Rightarrow> 's
    \<Rightarrow> (cursor_err option \<times> cursor \<times> ((review_stats \<times> git_call list) \<times> 's) \<times> fact list) option" where
  "ReviewSweep fuel su cfg ops cur calls s =
     Sweep fuel (with_memory (rv_source ops)) (\<lambda>f (m, s). handleCompletion su cfg ops f (count_completion m, s)) cur ((no_reviews, calls), s)"

section \<open>Documents read back\<close>

lemma dec_review_fields:
  assumes "int64 (rw_TimeoutMinutes p)"
  shows "dec_review (marshal (JObj (review_fields p))) = Some p"
proof -
  let ?k = "review_fields p"
  have "map_of (omit_int k i) x = (if k = x \<and> i \<noteq> 0 then Some (jint i) else None)" for k i x by (simp add: omit_int_def)
  note look = review_fields_def omit_lookup append_assoc append_Cons append_Nil this
  have s: "jstr_field ''commit_sha'' ?k = Some (rw_CommitSHA p)" "jstr_field ''branch'' ?k = Some (rw_Branch p)"
    "jstr_field ''base_branch'' ?k = Some (rw_BaseBranch p)" "jstr_field ''worktree_dir'' ?k = Some (rw_WorktreeDir p)"
    "jstr_field ''extra'' ?k = Some (rw_Extra p)" "jstr_field ''model'' ?k = Some (rw_Model p)"
    by (rule field_hits(1); simp add: look del: map_of_append)+
  have q: "jstr_field ''repo'' ?k = Some (rw_Repo p)" "jstr_field ''reviewed_task'' ?k = Some (rw_ReviewedTask p)" "jstr_field ''item'' ?k = Some (rw_Item p)"
    by (simp_all add: jstr_field_def look del: map_of_append)
  have f: "jstrs_field ''files_changed'' ?k = Some (rw_FilesChanged p)" by (rule field_hits(4)) (simp add: look del: map_of_append)
  have i: "jint_field ''timeout_minutes'' ?k = Some (rw_TimeoutMinutes p)" by (rule field_hits(2)) (simp_all add: look assms del: map_of_append)
  have b: "jbool_field ''yolo'' ?k = Some (rw_Yolo p)" by (rule field_hits(3)) (simp add: look del: map_of_append)
  have c: "jptr_field jbool ''require_clean'' ?k = Some (rw_RequireClean p)"
    by (rule field_hits(6)) (cases "rw_RequireClean p"; simp add: look del: map_of_append)
  show ?thesis by (simp add: dec_review_def jfields_def s q f i b c)
qed

lemma dec_finding_json: "dec_finding (finding_json g) = Some g"
  by (cases g) (simp add: dec_finding_def finding_json_def jfields_def jstr_field_def omit_empty_def)

lemma dec_review_json: "dec_review_result (marshal (review_json r)) = Some r"
proof -
  obtain ks where ks: "ks = [(''verdict'', JStr (rr_Verdict r))] @ omit_empty ''summary'' (rr_Summary r) @ omit_arr ''findings'' (map finding_json (rr_Findings r))" by blast
  note look = ks omit_lookup append_assoc append_Cons append_Nil
  have last_field: "map_of (omit_arr k js) x = (if k = x \<and> js \<noteq> [] then Some (JArr js) else None)" for k js x by (simp add: omit_arr_def)
  have doc: "review_json r = JObj ks" by (simp add: ks review_json_def)
  have v: "jstr_field ''verdict'' ks = Some (rr_Verdict r)" by (simp add: jstr_field_def look del: map_of_append)
  have s: "jstr_field ''summary'' ks = Some (rr_Summary r)" by (rule field_hits(1)) (simp add: look last_field del: map_of_append)
  have "those (map dec_finding (map finding_json gs)) = Some gs" for gs by (induction gs) (simp_all add: dec_finding_json)
  then have f: "jlist_field dec_finding ''findings'' ks = Some (rr_Findings r)"
    by (rule field_hits(5) [rotated]) (simp add: look last_field del: map_of_append)
  have rest: "jstr_field ''session_id'' ks = Some []" "jrat_field ''session_cost_usd'' ks = Some 0" "jint_field ''session_prompt_tokens'' ks = Some 0"
    "jint_field ''session_completion_tokens'' ks = Some 0" "jint_field ''session_message_count'' ks = Some 0" "jstr_field ''log_path'' ks = Some []"
    by (simp_all add: jstr_field_def jrat_field_def jint_field_def look last_field del: map_of_append)
  show ?thesis by (simp add: dec_review_result_def verdict_of_def jfields_def doc v s f rest)
qed

lemma dec_fix_ticket:
  assumes "rw_Repo p \<noteq> []"
  shows "decodeHarvestPayload (n_Payload (fix_ticket su t p g))
    = Some \<lparr>hp_agent = fix_ticket_payload p g, hp_Dedup = [], hp_EffortMinutes = [], hp_MarkerLevel = 0, hp_ItemKeys = []\<rparr>"
proof -
  let ?h = "\<lparr>hp_agent = fix_ticket_payload p g, hp_Dedup = [], hp_EffortMinutes = [], hp_MarkerLevel = 0, hp_ItemKeys = []\<rparr>"
  have "payload_in_range ?h" by (simp add: payload_in_range_def fix_ticket_payload_def no_agent_def int64_def)
  moreover have "JObj (agent_fields (fix_ticket_payload p g)) = payload_json ?h"
    by (simp add: payload_json_def payload_fields_def omit_empty_def omit_arr_def omit_int_def omit_strs_def)
  moreover have "ap_Repo (fix_ticket_payload p g) = rw_Repo p" "ap_Prompt (fix_ticket_payload p g) \<noteq> []"
    by (simp_all add: fix_ticket_payload_def finding_prompt_def Let_def)
  ultimately show ?thesis using dec_payload_json [of ?h] payload_text [of ?h] assms by (simp add: fix_ticket_def decodeHarvestPayload_def)
qed

section \<open>Keys that stay filed\<close>

text \<open>
  A store that files one task per dedup key and keeps it there. \<open>filed\<close> names the task of a key; the done-guard of
  the queue facade answers only for a key that is filed.
\<close>

locale key_store =
  fixes enq :: "new_task \<Rightarrow> 's \<Rightarrow> (qerr + task) \<times> 's"
    and filed :: "'s \<Rightarrow> string \<Rightarrow> task_id option"
    and good :: "'s \<Rightarrow> bool"
  assumes enq_good: "enq n s = (r, s') \<Longrightarrow> good s \<Longrightarrow> good s'"
    and enq_keeps: "enq n s = (r, s') \<Longrightarrow> good s \<Longrightarrow> filed s k = Some i \<Longrightarrow> filed s' k = Some i"
    and enq_files: "enq n s = (Inr t, s') \<Longrightarrow> good s \<Longrightarrow> n_DedupKey n \<noteq> [] \<Longrightarrow> filed s' (n_DedupKey n) \<noteq> None"
    and enq_guard: "enq n s = (Inl ErrTaskDone, s') \<Longrightarrow> good s \<Longrightarrow> filed s' (n_DedupKey n) \<noteq> None"
begin

definition keeps :: "'s \<Rightarrow> 's \<Rightarrow> bool" where
  "keeps s s' \<longleftrightarrow> good s' \<and> (\<forall>k i. filed s k = Some i \<longrightarrow> filed s' k = Some i)"

lemma keeps_refl: "good s \<Longrightarrow> keeps s s"
  by (simp add: keeps_def)

lemma keeps_trans: "keeps a b \<Longrightarrow> keeps b c \<Longrightarrow> keeps a c"
  by (simp add: keeps_def)

lemma keeps_good: "keeps a b \<Longrightarrow> good b"
  by (simp add: keeps_def)

lemma keeps_filed: "keeps a b \<Longrightarrow> filed a k \<noteq> None \<Longrightarrow> filed b k \<noteq> None"
  by (auto simp: keeps_def)

lemma enq_keeping:
  assumes "enq n s = (r, s')" "good s"
  shows "keeps s s'"
  using enq_good [OF assms] enq_keeps [OF assms] by (simp add: keeps_def)

lemma enq_accepted:
  assumes "enq n s = (r, s')" "good s" "n_DedupKey n \<noteq> []" "r = Inl ErrTaskDone \<or> \<not> isl r"
  shows "filed s' (n_DedupKey n) \<noteq> None"
  using assms enq_files [of n s _ s'] enq_guard [of n s s'] by (cases r) auto

end

text \<open>The keys the completion of a task asks for.\<close>

definition demanded :: "surroundings \<Rightarrow> review_config \<Rightarrow> task \<Rightarrow> fact \<Rightarrow> string list" where
  "demanded su cfg t f =
     (if Type t = TaskTypeAgent then (case review_demand_of cfg t f of Demand _ \<Rightarrow> [ReviewDedupKey (ID t)] | _ \<Rightarrow> [])
      else if Type t = TaskTypeReview \<and> rc_Autofix cfg then
        (case (dec_review (Payload t), dec_review_result (Detail f)) of
           (Some p, Some r) \<Rightarrow>
             if rw_Repo p \<noteq> [] \<and> rr_Verdict r = VerdictRequestChanges then map (\<lambda>g. FixDedupKey su (ID t) (rf_Title g)) (rr_Findings r) else []
         | _ \<Rightarrow> [])
      else [])"

locale review_store = key_store "rv_Enqueue ops" filed good
  for ops :: "'s review_ops" and filed :: "'s \<Rightarrow> string \<Rightarrow> task_id option" and good :: "'s \<Rightarrow> bool" +
  assumes save_frame: "src_SaveWatermark (rv_source ops) key q s = (r, s') \<Longrightarrow> good s \<Longrightarrow> good s' \<and> filed s' = filed s"
begin

lemma save_keeps: "src_SaveWatermark (rv_source ops) key q s = (r, s') \<Longrightarrow> good s \<Longrightarrow> keeps s s'"
  using save_frame by (simp add: keeps_def)

lemma fix_loop_files:
  assumes "fix_loop su ops t p gs (st, s) = (r, (st', s'))" "good s"
  shows "keeps s s' \<and> (\<not> isl r \<longrightarrow> (\<forall>g\<in>set gs. filed s' (FixDedupKey su (ID t) (rf_Title g)) \<noteq> None))"
  using assms
proof (induction gs arbitrary: st s)
  case Nil
  then show ?case by (simp add: keeps_refl)
next
  case (Cons g gs)
  let ?n = "fix_ticket su t p g"
  obtain r1 s1 where en: "rv_Enqueue ops ?n s = (r1, s1)" by (metis surj_pair)
  have k: "keeps s s1" by (rule enq_keeping [OF en Cons.prems(2)])
  have key: "n_DedupKey ?n = FixDedupKey su (ID t) (rf_Title g)" "FixDedupKey su (ID t) (rf_Title g) \<noteq> []"
    by (simp_all add: fix_ticket_def FixDedupKey_def)
  consider (stop) e where "r1 = Inl e" "e \<noteq> ErrTaskDone" "r = Inl e" "s' = s1"
    | (go) st1 where "r1 = Inl ErrTaskDone \<or> \<not> isl r1" "fix_loop su ops t p gs (st1, s1) = (r, (st', s'))"
    using Cons.prems(1) en by (auto split: sum.splits if_splits)
  then show ?case
  proof cases
    case stop
    then show ?thesis using k by simp
  next
    case go
    have "filed s1 (FixDedupKey su (ID t) (rf_Title g)) \<noteq> None"
      using enq_accepted [OF en Cons.prems(2)] go(1) key by simp
    then show ?thesis using Cons.IH [OF go(2) keeps_good [OF k]] k keeps_trans keeps_filed by (metis set_ConsD)
  qed
qed

lemma handled_files:
  assumes "handleCompletion su cfg ops f (m, s) = (r, (m', s'))" "good s"
  shows "keeps s s' \<and> (\<not> isl r \<longrightarrow> FType f = F_Completed \<longrightarrow>
    (case rv_Get ops (TaskID f) s of Inl e \<Rightarrow> PermanentOutcome e | Inr t \<Rightarrow> \<forall>k\<in>set (demanded su cfg t f). filed s' k \<noteq> None))"
proof (cases "FType f = F_Completed")
  case False
  then show ?thesis using assms by (auto simp: handleCompletion_def keeps_refl split: prod.splits)
next
  case True
  note done_fact = this
  obtain st calls where m: "m = (st, calls)" by (cases m)
  show ?thesis
  proof (cases "rv_Get ops (TaskID f) s")
    case (Inl e)
    then show ?thesis using assms m True by (auto simp: handleCompletion_def keeps_refl split: if_splits)
  next
    case (Inr t)
    consider (agent) "Type t = TaskTypeAgent" | (review) "Type t = TaskTypeReview" "rc_Autofix cfg"
      | (other) "Type t \<noteq> TaskTypeAgent" "Type t \<noteq> TaskTypeReview \<or> \<not> rc_Autofix cfg" by blast
    then show ?thesis
    proof cases
      case other
      then have none: "demanded su cfg t f = []" by (auto simp: demanded_def)
      have "s' = s"
        using assms(1) m True Inr other by (cases "Type t = TaskTypeReview") (simp_all add: handleCompletion_def split: prod.splits)
      then show ?thesis using none assms(2) Inr by (simp add: keeps_refl)
    next
      case agent
      then have run: "\<exists>st'. enqueueReview cfg ops t f (st, s) = (r, (st', s'))"
        using assms(1) m True Inr by (auto simp: handleCompletion_def split: prod.splits)
      show ?thesis
      proof (cases "review_demand_of cfg t f")
        case (Demand p)
        let ?n = "review_task t p"
        obtain r1 s1 where en: "rv_Enqueue ops ?n s = (r1, s1)" by (metis surj_pair)
        have "s' = s1" "\<not> isl r \<Longrightarrow> r1 = Inl ErrTaskDone \<or> \<not> isl r1"
          using run en Demand by (auto simp: enqueueReview_def split: sum.splits if_splits)
        moreover have "n_DedupKey ?n = ReviewDedupKey (ID t)" "ReviewDedupKey (ID t) \<noteq> []" by (simp_all add: review_task_def ReviewDedupKey_def)
        ultimately show ?thesis using enq_keeping [OF en assms(2)] enq_accepted [OF en assms(2)] Inr agent Demand
          by (simp add: demanded_def)
      qed (use run agent Inr assms(2) in \<open>auto simp: enqueueReview_def keeps_refl demanded_def\<close>)
    next
      case review
      have ty: "TaskTypeReview \<noteq> TaskTypeAgent" by (simp add: TaskTypeReview_def TaskTypeAgent_def)
      then obtain st1 st2 where run: "mintFixes su ops t f (st1, s) = (r, (st2, s'))"
        using assms(1) m True Inr review by (auto simp: handleCompletion_def split: prod.splits)
      show ?thesis
      proof (cases "demanded su cfg t f = [] \<and> s' = s")
        case True
        then show ?thesis using Inr assms(2) by (simp add: keeps_refl)
      next
        case False
        then obtain p rr where p: "dec_review (Payload t) = Some p" "rw_Repo p \<noteq> []" "dec_review_result (Detail f) = Some rr"
            "rr_Verdict rr = VerdictRequestChanges"
          using run review ty by (auto simp: demanded_def mintFixes_def split: option.splits if_splits)
        then have loop: "fix_loop su ops t p (rr_Findings rr) (st1, s) = (r, (st2, s'))" using run by (simp add: mintFixes_def)
        have "demanded su cfg t f = map (\<lambda>g. FixDedupKey su (ID t) (rf_Title g)) (rr_Findings rr)" using p review ty by (simp add: demanded_def)
        then show ?thesis using fix_loop_files [OF loop assms(2)] Inr by auto
      qed
    qed
  qed
qed

text \<open>A completion a sweep accepted: at some moment of the sweep its task was read, and what that asks for is filed.\<close>

definition served :: "surroundings \<Rightarrow> review_config \<Rightarrow> 's \<Rightarrow> 's \<Rightarrow> fact \<Rightarrow> bool" where
  "served su cfg s s' f \<longleftrightarrow> (FType f = F_Completed \<longrightarrow> (\<exists>s0. keeps s s0 \<and> keeps s0 s' \<and>
     (case rv_Get ops (TaskID f) s0 of Inl e \<Rightarrow> PermanentOutcome e | Inr t \<Rightarrow> \<forall>k\<in>set (demanded su cfg t f). filed s' k \<noteq> None)))"

lemma served_later:
  assumes "served su cfg s a f" "keeps a b"
  shows "served su cfg s b f"
proof (cases "FType f = F_Completed")
  case True
  then obtain s0 where s0: "keeps s s0" "keeps s0 a"
      "case rv_Get ops (TaskID f) s0 of Inl e \<Rightarrow> PermanentOutcome e | Inr t \<Rightarrow> \<forall>k\<in>set (demanded su cfg t f). filed a k \<noteq> None"
    using assms(1) by (auto simp: served_def)
  then have "case rv_Get ops (TaskID f) s0 of Inl e \<Rightarrow> PermanentOutcome e | Inr t \<Rightarrow> \<forall>k\<in>set (demanded su cfg t f). filed b k \<noteq> None"
    using keeps_filed [OF assms(2)] by (cases "rv_Get ops (TaskID f) s0") auto
  then show ?thesis using s0(1) keeps_trans [OF s0(2) assms(2)] unfolding served_def by blast
qed (simp add: served_def)

lemma sweep_serves:
  assumes "ReviewSweep fuel su cfg ops c calls s = Some (e, c', (m', s'), acc)" "good s"
  shows "keeps s s' \<and> (\<forall>f\<in>set acc. served su cfg s s' f)"
proof -
  let ?P = "\<lambda>done ms. keeps s (snd ms) \<and> (\<forall>f\<in>set done. served su cfg s (snd ms) f)"
  have later: "?P done ms'" if "?P done ms" "keeps (snd ms) (snd ms')" for "done" and ms ms' :: "(review_stats \<times> git_call list) \<times> 's"
    using that served_later keeps_trans by blast
  have "if (\<exists>er. e = Some (HandlerErr er)) then ?P acc (m', s') else ?P acc (m', s')"
  proof (rule Sweep_state [where P = ?P and Q = ?P, OF assms(1) [unfolded ReviewSweep_def]])
    show "?P [] ((no_reviews, calls), s)" using assms(2) by (simp add: keeps_refl)
  next
    fix key q r and "done" :: "fact list" and ms ms' :: "(review_stats \<times> git_call list) \<times> 's"
    assume save: "src_SaveWatermark (with_memory (rv_source ops)) key q ms = (r, ms')" and p: "?P done ms"
    then have "keeps (snd ms) (snd ms')"
      using save_keeps keeps_good by (cases ms) (auto simp: with_memory_sel split: prod.splits)
    then show "?P done ms'" using p later [of ms "done" ms'] by blast
  next
    fix f u and "done" :: "fact list" and ms ms' :: "(review_stats \<times> git_call list) \<times> 's"
    assume h: "(case ms of (m, x) \<Rightarrow> handleCompletion su cfg ops f (count_completion m, x)) = (Inr u, ms')" and p: "?P done ms"
    obtain m1 s1 m2 s2 where ms: "ms = (m1, s1)" "ms' = (m2, s2)" by (cases ms, cases ms')
    have files: "keeps s1 s2 \<and> (\<not> isl (Inr u :: qerr + unit) \<longrightarrow> FType f = F_Completed \<longrightarrow>
        (case rv_Get ops (TaskID f) s1 of Inl e \<Rightarrow> PermanentOutcome e | Inr t \<Rightarrow> \<forall>k\<in>set (demanded su cfg t f). filed s2 k \<noteq> None))"
      by (rule handled_files) (use h p ms keeps_good in auto)
    then have "served su cfg s s2 f" using p ms unfolding served_def by auto
    then show "?P (done @ [f]) ms'" using p later [of ms "done" ms'] files ms by auto
  next
    fix f er and "done" :: "fact list" and ms ms' :: "(review_stats \<times> git_call list) \<times> 's"
    assume h: "(case ms of (m, x) \<Rightarrow> handleCompletion su cfg ops f (count_completion m, x)) = (Inl er, ms')" and p: "?P done ms"
    obtain m1 s1 m2 s2 where ms: "ms = (m1, s1)" "ms' = (m2, s2)" by (cases ms, cases ms')
    have "keeps s1 s2 \<and> (\<not> isl (Inl er :: qerr + unit) \<longrightarrow> FType f = F_Completed \<longrightarrow>
        (case rv_Get ops (TaskID f) s1 of Inl e \<Rightarrow> PermanentOutcome e | Inr t \<Rightarrow> \<forall>k\<in>set (demanded su cfg t f). filed s2 k \<noteq> None))"
      by (rule handled_files) (use h p ms keeps_good in auto)
    then show "?P done ms'" using p later [of ms "done" ms'] ms by auto
  qed
  then show ?thesis by (auto split: if_splits)
qed

end

text \<open>The SQL-backed store over an engine that honours dedup keys is such a store.\<close>

lemma Enqueue_keeps:
  assumes "dedup_engine e" "Enqueue e n s = (r, s')" "store_ok s" "store_tasks s k = Some i"
  shows "store_tasks s' k = Some i"
proof (cases "n_Type n = []")
  case False
  let ?u = "\<lparr>u_Project = n_Project n, u_Type = n_Type n, u_Payload = n_Payload n, u_Deps = n_Deps n, u_Priority = n_Priority n,
    u_MaxAttempts = n_MaxAttempts n, u_NotBefore = (if is_zero (n_NotBefore n) then from_milli 0 else n_NotBefore n),
    u_DedupKey = n_DedupKey n\<rparr>"
  obtain r1 d1 where "eng_Enqueue e ?u (s_db s) = (r1, d1)" by (cases "eng_Enqueue e ?u (s_db s)")
  then have "eng_Enqueue e ?u (s_db s) = (r1, s_db s')"
    using assms(2) False by (auto simp: Enqueue_def Let_def fireWake_def split: sum.splits)
  then show ?thesis using assms(1,3,4) unfolding dedup_engine_def links_ok_def by blast
qed (use assms in \<open>simp add: Enqueue_def\<close>)

sublocale engine_dedup \<subseteq> rev: review_store "adapter_review e now" store_tasks store_ok
  for now :: go_time
proof
  fix n s r s' assume "rv_Enqueue (adapter_review e now) n s = (r, s')" "store_ok s"
  then show "store_ok s'" using Enqueue_law(1) by (simp add: adapter_review_def)
next
  fix n s r s' k i assume "rv_Enqueue (adapter_review e now) n s = (r, s')" "store_ok s" "store_tasks s k = Some i"
  then show "store_tasks s' k = Some i" using Enqueue_keeps [OF honest] by (simp add: adapter_review_def)
next
  fix n s t s' assume "rv_Enqueue (adapter_review e now) n s = (Inr t, s')" "store_ok s" "n_DedupKey n \<noteq> []"
  then show "store_tasks s' (n_DedupKey n) \<noteq> None" using Enqueue_law(4) [of n s "Inr t" s' t] by (simp add: adapter_review_def)
next
  fix n s s' assume "rv_Enqueue (adapter_review e now) n s = (Inl ErrTaskDone, s')"
  then show "store_tasks s' (n_DedupKey n) \<noteq> None" using store_has_no_done_guard [of e n s] by (simp add: adapter_review_def)
next
  fix key q s r s' assume "src_SaveWatermark (rv_source (adapter_review e now)) key q s = (r, s')" "store_ok s"
  then show "store_ok s' \<and> store_tasks s' = store_tasks s"
    by (auto simp: adapter_review_def store_source_def)
qed

text \<open>Every key that is filed at first is so, for the same task, at the end.\<close>

abbreviation stays_filed :: "sql_store \<Rightarrow> sql_store \<Rightarrow> bool" where
  "stays_filed s s' \<equiv> \<forall>k i. store_tasks s k = Some i \<longrightarrow> store_tasks s' k = Some i"

context engine_dedup
begin

lemma sweep_reviews:
  assumes "ReviewSweep fuel su cfg (adapter_review e now) c calls s = Some (er, c', (m', s'), acc)" "store_ok s"
  shows "stays_filed s s'"
    and "f \<in> set acc \<Longrightarrow> FType f = F_Completed \<Longrightarrow> \<exists>s0. stays_filed s s0 \<and> stays_filed s0 s'
      \<and> (case StoreGet (TaskID f) s0 of Inl e0 \<Rightarrow> PermanentOutcome e0 | Inr t \<Rightarrow> \<forall>k\<in>set (demanded su cfg t f). store_tasks s' k \<noteq> None)"
proof -
  have get: "rv_Get (adapter_review e now) = StoreGet" by (simp add: adapter_review_def)
  show "stays_filed s s'" using rev.sweep_serves [OF assms] by (simp add: rev.keeps_def)
  assume "f \<in> set acc" "FType f = F_Completed"
  then show "\<exists>s0. stays_filed s s0 \<and> stays_filed s0 s'
      \<and> (case StoreGet (TaskID f) s0 of Inl e0 \<Rightarrow> PermanentOutcome e0 | Inr t \<Rightarrow> \<forall>k\<in>set (demanded su cfg t f). store_tasks s' k \<noteq> None)"
    using rev.sweep_serves [OF assms] unfolding rev.served_def rev.keeps_def get by blast
qed

end

section \<open>Properties\<close>


lemma trim_space_idem [simp]: "trim_space (trim_space a) = trim_space a"
proof (cases "trim_space a = []")
  case False
  let ?u = "dropWhile ascii_space a"
  have ends: "trim_space a = rev (dropWhile ascii_space (rev ?u))" by (simp add: trim_space_def)
  then have "\<not> ascii_space (last (trim_space a))" using False hd_dropWhile [of ascii_space "rev ?u"] by (simp add: last_rev)
  moreover have "?u = trim_space a @ rev (takeWhile ascii_space (rev ?u))"
    unfolding ends rev_append [symmetric] takeWhile_dropWhile_id by simp
  then have "hd ?u = hd (trim_space a)" "?u \<noteq> []" using False by (metis hd_append2, force)
  then have "\<not> ascii_space (hd (trim_space a))" using hd_dropWhile [of ascii_space a] by simp
  ultimately show ?thesis using False trim_space_id by blast
qed simp

lemma clean_findings_anchored:
  assumes "clean_findings VerdictRequestChanges gs = Inr gs'" "g \<in> set gs'"
  shows "rf_Anchor g \<noteq> [] \<and> \<not> anchorLooksPositional (rf_Anchor g) \<and> trim_space (rf_Anchor g) = rf_Anchor g"
  using assms
  by (induction gs arbitrary: gs') (auto simp: Let_def validateAnchor_def split: if_splits sum.splits option.splits)


text \<open>
  C35: only approved work is merged, and it is the agent's branch. When the review minted for an agent's completion
  completes, git is called exactly if the verdict is approve and the agent delivered a branch with a base: to merge
  that branch into that base, and, only after the merge succeeded, to remove the worktree and delete the branch.
  A completion that calls git mints nothing and is not refused, so it does not come back for it.
\<close>

theorem only_approved_work_is_merged:
  assumes "rv_Get ops (TaskID f) s = Inr t" "Type t = TaskTypeReview" "FType f = F_Completed"
    and "review_demand_of cfg0 a fa = Demand p" "Payload t = n_Payload (review_task a p)"
    and "handleCompletion su cfg ops f ((st, calls), s) = (r, ((st', calls'), s'))"
  shows "calls' = calls @
      (let out = dec_agent_result (Detail fa); msg = merge_message p in
       case (dec_review_result (Detail f), ResolveRepoDir su (rc_ProjectsDir cfg) (rw_Repo p)) of
         (Some res, Some dir) \<Rightarrow>
           if rr_Verdict res = VerdictApprove \<and> ar_Branch out \<noteq> [] \<and> ar_BaseBranch out \<noteq> [] then
             Merge dir (ar_Branch out) (ar_BaseBranch out) msg
               # (if rc_Merge cfg calls dir (ar_Branch out) (ar_BaseBranch out) msg then
                    (if ar_WorktreeDir out = [] then [] else [RemoveWorktree dir (ar_WorktreeDir out)]) @ [DeleteBranch dir (ar_Branch out)]
                  else [])
           else []
       | _ \<Rightarrow> [])
    \<and> (calls' \<noteq> calls \<longrightarrow> s' = s \<and> r = Inr ())"
proof -
  let ?out = "dec_agent_result (Detail fa)"
  have p: "rw_Branch p = ar_Branch ?out" "rw_BaseBranch p = ar_BaseBranch ?out" "rw_WorktreeDir p = ar_WorktreeDir ?out" "rw_TimeoutMinutes p = 0"
    using assms(4) by (auto simp: review_demand_of_def Let_def split: option.splits if_splits)
  then have dec: "dec_review (Payload t) = Some p" using dec_review_fields [of p] assms(5) by (simp add: review_task_def int64_def)
  have ty: "TaskTypeReview \<noteq> TaskTypeAgent" by (simp add: TaskTypeReview_def TaskTypeAgent_def)
  obtain st1 calls1 where m: "mergeOnApprove su cfg t f (st, calls) = (st1, calls1)" by (metis surj_pair)
  have rest: "calls' = calls1" "\<not> rc_Autofix cfg \<Longrightarrow> s' = s \<and> r = Inr ()"
      "rc_Autofix cfg \<Longrightarrow> mintFixes su ops t f (st1, s) = (r, (st', s'))"
    using assms(1-3,6) ty m by (auto simp: handleCompletion_def split: if_splits prod.splits)
  have approve: "\<exists>res. dec_review_result (Detail f) = Some res \<and> rr_Verdict res = VerdictApprove" if "calls1 \<noteq> calls"
    using m that dec by (auto simp: mergeOnApprove_def approved_delivery_def Option.bind_eq_Some_conv split: option.splits if_splits)
  have "s' = s \<and> r = Inr ()" if "calls1 \<noteq> calls"
  proof (cases "rc_Autofix cfg")
    case True
    have "VerdictApprove \<noteq> VerdictRequestChanges" by (simp add: VerdictApprove_def VerdictRequestChanges_def)
    then show ?thesis using approve [OF that] rest(3) [OF True] dec by (auto simp: mintFixes_def split: if_splits)
  qed (use rest in blast)
  moreover have "calls1 = calls @
      (case (dec_review_result (Detail f), ResolveRepoDir su (rc_ProjectsDir cfg) (rw_Repo p)) of
         (Some res, Some dir) \<Rightarrow>
           if rr_Verdict res = VerdictApprove \<and> rw_Branch p \<noteq> [] \<and> rw_BaseBranch p \<noteq> [] then
             Merge dir (rw_Branch p) (rw_BaseBranch p) (merge_message p)
               # (if rc_Merge cfg calls dir (rw_Branch p) (rw_BaseBranch p) (merge_message p) then
                    (if rw_WorktreeDir p = [] then [] else [RemoveWorktree dir (rw_WorktreeDir p)]) @ [DeleteBranch dir (rw_Branch p)]
                  else [])
           else []
       | _ \<Rightarrow> [])"
    using m dec by (auto simp: mergeOnApprove_def approved_delivery_def Let_def split: option.splits if_splits)
  ultimately show ?thesis unfolding rest(1) Let_def p(1-3) [symmetric] by blast
qed

text \<open>Files that carry code and count as documentation, and quoted text that counts as a position.\<close>

lemma code_counts_as_docs: "docsOnlyChange [''docs/gen/main.go'', ''requirements.txt'', ''CMakeLists.txt'']"
  by code_simp

lemma text_counts_as_position: "list_all anchorLooksPositional [''---'', ''...'', ''1.2.3'']"
  by code_simp

section \<open>Examples\<close>

definition work_row :: "string \<Rightarrow> string \<Rightarrow> json \<Rightarrow> task_row" where
  "work_row i ty j = (demo_row i 1 Completed)\<lparr>r_type := ty, r_payload := marshal j\<rparr>"

definition demo_finding :: review_finding where
  "demo_finding = \<lparr>rf_Title = ''leak'', rf_Severity = ''high'', rf_Detail = [], rf_CommitSHA = [], rf_Anchor = '' go fly() ''\<rparr>"

definition demo_reviewed :: review_payload where
  "demo_reviewed = \<lparr>rw_Repo = ''/p/app'', rw_ReviewedTask = ''a'', rw_Item = ''do it'', rw_CommitSHA = ''abc'', rw_FilesChanged = [''m.go''],
     rw_Branch = ''tq/a'', rw_BaseBranch = ''main'', rw_WorktreeDir = [], rw_Extra = [], rw_Model = [], rw_Yolo = False, rw_RequireClean = None,
     rw_TimeoutMinutes = 0\<rparr>"

definition demo_rejection :: review_result where
  "demo_rejection = \<lparr>rr_Verdict = ''request_changes'', rr_Summary = [], rr_Findings = [demo_finding]\<rparr>"

definition review_db :: sql_store where
  "review_db = demo_store
     [work_row ''a'' ''agent'' (JObj [(''repo'', JStr ''/p/app''), (''prompt'', JStr ''do it'')]),
      work_row ''r'' ''review'' (JObj (review_fields demo_reviewed))]"

definition reviewing :: review_config where
  "reviewing = \<lparr>rc_Model = [], rc_Autofix = True, rc_ProjectsDir = [], rc_Merge = (\<lambda>_ _ _ _ _. True)\<rparr>"

definition with_journal :: "fact list \<Rightarrow> sql_store \<Rightarrow> sql_store" where
  "with_journal fs s = s\<lparr>s_db := (s_db s)\<lparr>db_facts := fs, db_next_seq := 9\<rparr>\<rparr>"

definition review_store_0 :: sql_store where
  "review_store_0 = with_journal [dlq_fact 1 ''a'' F_Completed empty_text, dlq_fact 2 ''r'' F_Completed (marshal (review_json demo_rejection))] review_db"

definition demo_reviews :: "(cursor_err option \<times> cursor \<times> ((review_stats \<times> git_call list) \<times> sql_store) \<times> fact list) option" where
  "demo_reviews = ReviewSweep 3 (demo_surroundings []) reviewing (adapter_review demo_engine 0) (newCursor ReviewConsumerKey [] 500 0 0) []
     review_store_0"

lemma demo_reviews_eval:
  "map_option (\<lambda>(e, c, ((st, calls), s), acc). (e, rs_ReviewsEnqueued st, rs_FixesEnqueued st, calls, map r_id (db_tasks (s_db s)), length acc)) demo_reviews
     = Some (None, 1, 1, [], [''a'', ''r'', ''task-review:a'', ''task-reviewfix:r:leak000000000000''], 2)"
  by code_simp

lemma review_store_0_ok: "store_ok review_store_0"
proof -
  have "mint_of fp f = None" if "f \<in> set (db_facts (s_db review_store_0))" for fp f
    using that by (auto simp: review_store_0_def with_journal_def dlq_fact_def mk_fact_def mint_of_def)
  then show ?thesis
    by (auto simp: links_ok_def facts_ok_def review_store_0_def with_journal_def dlq_fact_def mk_fact_def seq_sorted_def)
qed


definition demo_verdict :: jtext where
  "demo_verdict = marshal (review_json demo_rejection)"


definition approve_fact :: fact where
  "approve_fact = dlq_fact 7 ''r'' F_Completed (marshal (review_json \<lparr>rr_Verdict = ''approve'', rr_Summary = [], rr_Findings = []\<rparr>))"

definition delivered_fact :: fact where
  "delivered_fact = dlq_fact 3 ''a'' F_Completed (marshal (JObj [(''branch'', JStr ''tq/a''), (''base_branch'', JStr ''main''), (''commit_sha'', JStr ''abc'')]))"

definition delivering_task :: task where
  "delivering_task = dlq_task ''a'' TaskTypeAgent (marshal (JObj [(''repo'', JStr ''/p/app''), (''prompt'', JStr ''do it'')])) Completed"

definition one_task :: "task \<Rightarrow> unit review_ops" where
  "one_task t = \<lparr>rv_source = \<lparr>src_Facts = (\<lambda>_ _ _. Inr []), src_HeadSeq = (\<lambda>_. Inr 0), src_Watermark = (\<lambda>_ _. Inr None),
       src_SaveWatermark = (\<lambda>_ _ u. (Inr (), u))\<rparr>, rv_Get = (\<lambda>_ _. Inr t), rv_Enqueue = (\<lambda>_ u. (Inr t, u))\<rparr>"

lemma only_approved_work_is_merged_witness:
  "\<exists>p t. review_demand_of reviewing delivering_task delivered_fact = Demand p
     \<and> Payload t = n_Payload (review_task delivering_task p)
     \<and> snd (fst (snd (handleCompletion ((demo_surroundings [])\<lparr>su_isdir := (\<lambda>_. True)\<rparr>) reviewing (one_task t) approve_fact ((no_reviews, []), ()))))
       = [Merge ''/p/app'' ''tq/a'' ''main'' (merge_message p), DeleteBranch ''/p/app'' ''tq/a'']"
proof -
  let ?su = "(demo_surroundings [])\<lparr>su_isdir := (\<lambda>_. True)\<rparr>"
  let ?p = "demo_reviewed\<lparr>rw_FilesChanged := []\<rparr>"
  have p: "review_demand_of reviewing delivering_task delivered_fact = Demand ?p" by code_simp
  let ?t = "dlq_task ''r'' TaskTypeReview (n_Payload (review_task delivering_task ?p)) Completed"
  obtain r st' calls' s' where run: "handleCompletion ?su reviewing (one_task ?t) approve_fact ((no_reviews, []), ()) = (r, ((st', calls'), s'))"
    by (metis surj_pair)
  have pre: "rv_Get (one_task ?t) (TaskID approve_fact) () = Inr ?t" "Type ?t = TaskTypeReview" "FType approve_fact = F_Completed"
    "Payload ?t = n_Payload (review_task delivering_task ?p)"
    by (simp_all add: one_task_def dlq_task_def approve_fact_def dlq_fact_def mk_fact_def)
  have vals: "dec_review_result (Detail approve_fact) = Some \<lparr>rr_Verdict = ''approve'', rr_Summary = [], rr_Findings = []\<rparr>"
    "dec_agent_result (Detail delivered_fact) = \<lparr>ar_FilesChanged = [], ar_CommitSHA = ''abc'', ar_PreflightDone = [], ar_WorktreeDir = [],
       ar_Branch = ''tq/a'', ar_BaseBranch = ''main''\<rparr>"
    "ResolveRepoDir ?su [] (rw_Repo demo_reviewed) = Some ''/p/app''" by code_simp+
  have "calls' = [Merge ''/p/app'' ''tq/a'' ''main'' (merge_message ?p), DeleteBranch ''/p/app'' ''tq/a'']"
    using only_approved_work_is_merged [OF pre(1-3) p pre(4) run]
    by (simp add: vals VerdictApprove_def reviewing_def Let_def)
  then show ?thesis using p pre(4) run by (intro exI [of _ ?p] exI [of _ ?t]) simp
qed

end
