(* ===== verification/Tq_Depsweep.thy ===== *)
theory Tq_Depsweep
  imports Tq_Harvest Tq_Adapter
begin

text \<open>
  Package \<open>internal/depsweep\<close> (\<open>plan.go\<close>, \<open>sweep.go\<close>): release plans become work, one release per stale module and
  one bump per consumer repository, and the work becomes tasks that wait for each other; with the payload
  contract of these tasks (\<open>executor/depbump.go\<close>). A plan is a list of \<open>plan_module\<close>, work is \<open>work_spec\<close>, the
  Go maps keyed by repository are association lists visited in key order (the code sorts what it takes out of
  them), and the tasks go through the queue facade of \<open>Tq_Queue\<close>. Running the planner and the bumps is left out.
\<close>

section \<open>Versions\<close>

definition IsStableSemver :: "string \<Rightarrow> bool" where
  "IsStableSemver v \<longleftrightarrow> v \<noteq> [] \<and> has_prefix v ''v''
     \<and> (let parts = split_on (CHR ''.'') (trim_prefix v ''v'') in
        length parts = 3 \<and> list_all (\<lambda>part. part \<noteq> [] \<and> dropWhile digit part = []) parts)"

text \<open>\<open>fmt.Sscanf\<close> with \<open>%d\<close>: the number a text starts with, after blanks and a sign.\<close>

definition scan_int :: "string \<Rightarrow> int option" where
  "scan_int s =
     (let s1 = dropWhile (\<lambda>c. ascii_space c \<and> c \<noteq> CHR 0x0A) s; neg = has_prefix s1 ''-'';
          ds = takeWhile digit (if neg \<or> has_prefix s1 ''+'' then drop 1 s1 else s1);
          v = (if neg then - digits_value ds else digits_value ds) in
      if ds = [] \<or> \<not> int64 v then None else Some v)"

definition cut_at :: "char \<Rightarrow> string \<Rightarrow> string \<times> string" where
  "cut_at c s = (takeWhile (\<lambda>x. x \<noteq> c) s, drop 1 (dropWhile (\<lambda>x. x \<noteq> c) s))"

definition segment :: "string list \<Rightarrow> nat \<Rightarrow> int" where
  "segment parts i = (if i < length parts then case scan_int (parts ! i) of None \<Rightarrow> 0 | Some n \<Rightarrow> n else 0)"

definition splitSemver :: "string \<Rightarrow> (int \<times> int \<times> int) \<times> string" where
  "splitSemver v =
     (case cut_at (CHR ''-'') (trim_prefix v ''v'') of (core, pre) \<Rightarrow>
        let parts = split_on (CHR ''.'') (fst (cut_at (CHR ''+'') core)) in
        ((segment parts 0, segment parts 1, segment parts 2), pre))"

definition compareSemver :: "string \<Rightarrow> string \<Rightarrow> int" where
  "compareSemver a b =
     (case (splitSemver a, splitSemver b) of (((a0, a1, a2), apre), ((b0, b1, b2), bpre)) \<Rightarrow>
        if a0 \<noteq> b0 then (if a0 < b0 then - 1 else 1)
        else if a1 \<noteq> b1 then (if a1 < b1 then - 1 else 1)
        else if a2 \<noteq> b2 then (if a2 < b2 then - 1 else 1)
        else if apre = bpre then 0
        else if apre = [] then 1
        else if bpre = [] then - 1
        else if apre < bpre then - 1 else 1)"

definition isNewerVersion :: "string \<Rightarrow> string \<Rightarrow> bool" where
  "isNewerVersion target current \<longleftrightarrow> current = [] \<or> compareSemver target current > 0"

definition isMajorBump :: "string \<Rightarrow> string \<Rightarrow> bool" where
  "isMajorBump target current \<longleftrightarrow> current \<noteq> [] \<and> fst (fst (splitSemver target)) \<noteq> fst (fst (splitSemver current))"

definition patchBump :: "string \<Rightarrow> string" where
  "patchBump current =
     (case split_on (CHR ''.'') (trim_prefix current ''v'') of
        [a, b, c] \<Rightarrow> (case scan_int c of None \<Rightarrow> [] | Some patch \<Rightarrow> ''v'' @ a @ ''.'' @ b @ ''.'' @ show_int (wrap64 (patch + 1)))
      | [a, b] \<Rightarrow> ''v'' @ a @ ''.'' @ b @ ''.1''
      | [a] \<Rightarrow> ''v'' @ a @ ''.0.1''
      | _ \<Rightarrow> [])"

section \<open>Plans\<close>

record plan_consumer =
  pc_Key :: string
  pc_Dir :: string
  pc_CurrentVersion :: string
  pc_TargetVersion :: string
  pc_DependencyKey :: string
  pc_IsMajorBump :: bool

record plan_module =
  pm_Key :: string
  pm_Dir :: string
  pm_HasUnreleasedWork :: bool
  pm_CurrentVersion :: string
  pm_NextVersion :: string
  pm_SuggestedBump :: string
  pm_OutdatedConsumers :: "plan_consumer list"
  pm_StaleBuild :: bool
  pm_Dependencies :: "string list"

definition dec_plan_consumer :: "json \<Rightarrow> plan_consumer option" where
  "dec_plan_consumer j =
     do { kvs \<leftarrow> jfields j; k \<leftarrow> jstr_field ''key'' kvs; d \<leftarrow> jstr_field ''dir'' kvs; c \<leftarrow> jstr_field ''currentVersion'' kvs;
          t \<leftarrow> jstr_field ''targetVersion'' kvs; dk \<leftarrow> jstr_field ''dependencyKey'' kvs; m \<leftarrow> jbool_field ''isMajorBump'' kvs;
          Some \<lparr>pc_Key = k, pc_Dir = d, pc_CurrentVersion = c, pc_TargetVersion = t, pc_DependencyKey = dk, pc_IsMajorBump = m\<rparr> }"

definition dec_dep_key :: "json \<Rightarrow> string option" where
  "dec_dep_key j = do { kvs \<leftarrow> jfields j; jstr_field ''key'' kvs }"

definition dec_stale_dep :: "json \<Rightarrow> unit option" where
  "dec_stale_dep j =
     do { kvs \<leftarrow> jfields j; _ \<leftarrow> jstr_field ''key'' kvs; _ \<leftarrow> jstr_field ''oldVersion'' kvs; _ \<leftarrow> jstr_field ''newVersion'' kvs; Some () }"

text \<open>The fields the sweeper does not read have to decode all the same.\<close>

definition dec_plan_module :: "json \<Rightarrow> plan_module option" where
  "dec_plan_module j =
     do { kvs \<leftarrow> jfields j; k \<leftarrow> jstr_field ''key'' kvs; _ \<leftarrow> jstr_field ''label'' kvs; d \<leftarrow> jstr_field ''dir'' kvs;
          u \<leftarrow> jbool_field ''hasUnreleasedWork'' kvs; c \<leftarrow> jstr_field ''currentVersion'' kvs; n \<leftarrow> jstr_field ''nextVersion'' kvs;
          sb \<leftarrow> jstr_field ''suggestedBump'' kvs; _ \<leftarrow> jbool_field ''hasOutdatedConsumers'' kvs;
          oc \<leftarrow> jlist_field dec_plan_consumer ''outdatedConsumers'' kvs; st \<leftarrow> jbool_field ''staleBuild'' kvs;
          _ \<leftarrow> jlist_field dec_stale_dep ''staleDeps'' kvs; _ \<leftarrow> jint_field ''wave'' kvs; _ \<leftarrow> jint_field ''consumerCount'' kvs;
          ds \<leftarrow> jlist_field dec_dep_key ''dependencies'' kvs;
          Some \<lparr>pm_Key = k, pm_Dir = d, pm_HasUnreleasedWork = u, pm_CurrentVersion = c, pm_NextVersion = n, pm_SuggestedBump = sb,
                pm_OutdatedConsumers = oc, pm_StaleBuild = st, pm_Dependencies = ds\<rparr> }"

definition ParsePlan :: "jtext \<Rightarrow> plan_module list option" where
  "ParsePlan d = do { j \<leftarrow> jt_parse d; kvs \<leftarrow> jfields j; jlist_field dec_plan_module ''modules'' kvs }"

section \<open>Work\<close>

record dep_config =
  dc_PushReleases :: bool
  dc_IncludeUnreleased :: bool

record work_spec =
  ws_Repo :: string
  ws_Dir :: string
  ws_Bumps :: "(string \<times> string) list"
  ws_Release :: "(string \<times> bool) option"
  ws_DepRepos :: "string list"
  ws_DedupKey :: string

record plan_skip =
  sk_Repo :: string
  sk_Reason :: string

definition depKeys :: "plan_module \<Rightarrow> string list" where
  "depKeys m = sort (filter (\<lambda>k. k \<noteq> []) (pm_Dependencies m))"

definition releaseVersion :: "plan_module \<Rightarrow> string" where
  "releaseVersion m = (if pm_NextVersion m \<noteq> [] then pm_NextVersion m else patchBump (pm_CurrentVersion m))"

text \<open>What the release loop makes of one module: nothing, a skip or a spec.\<close>

definition release_of :: "dep_config \<Rightarrow> plan_module \<Rightarrow> (plan_skip + work_spec) option" where
  "release_of cfg m =
     (if pm_Dir m = [] then None
      else if \<not> pm_StaleBuild m \<and> (\<not> dc_IncludeUnreleased cfg \<or> \<not> pm_HasUnreleasedWork m) then None
      else if pm_CurrentVersion m = [] then Some (Inl \<lparr>sk_Repo = pm_Key m, sk_Reason = ''never released: pick v0.1.0 manually''\<rparr>)
      else if pm_SuggestedBump m = ''major'' then
        Some (Inl \<lparr>sk_Repo = pm_Key m, sk_Reason = ''major release suggested (v'' @ trim_prefix (pm_NextVersion m) ''v''
          @ ''): module-path migration is human/agent work''\<rparr>)
      else let version = releaseVersion m in
        if version = [] \<or> \<not> IsStableSemver version then
          Some (Inl \<lparr>sk_Repo = pm_Key m, sk_Reason = ''cannot derive a stable next version from '' @ pm_CurrentVersion m\<rparr>)
        else Some (Inr \<lparr>ws_Repo = pm_Key m, ws_Dir = pm_Dir m, ws_Bumps = [], ws_Release = Some (version, dc_PushReleases cfg),
               ws_DepRepos = depKeys m, ws_DedupKey = ''depsweep:'' @ pm_Key m @ '':release:'' @ version\<rparr>))"

definition releaseSpecs :: "dep_config \<Rightarrow> plan_module list \<Rightarrow> work_spec list \<times> plan_skip list" where
  "releaseSpecs cfg ms =
     (let rs = List.map_filter (release_of cfg) ms in
      (List.map_filter (\<lambda>r. case r of Inr sp \<Rightarrow> Some sp | Inl _ \<Rightarrow> None) rs,
       List.map_filter (\<lambda>r. case r of Inl sk \<Rightarrow> Some sk | Inr _ \<Rightarrow> None) rs))"

text \<open>Why a consumer's pin is not bumped.\<close>

definition pin_refusal :: "plan_consumer \<Rightarrow> string option" where
  "pin_refusal c =
     (if pc_IsMajorBump c \<or> isMajorBump (pc_TargetVersion c) (pc_CurrentVersion c) then
        Some (''major bump '' @ pc_CurrentVersion c @ '' -> '' @ pc_TargetVersion c @ '' of '' @ pc_DependencyKey c
          @ '': import-path migration is agent work'')
      else if \<not> IsStableSemver (pc_TargetVersion c) then Some (''unstable target '' @ pc_TargetVersion c @ '' of '' @ pc_DependencyKey c)
      else if \<not> isNewerVersion (pc_TargetVersion c) (pc_CurrentVersion c) then
        Some (''target '' @ pc_TargetVersion c @ '' not newer than pin '' @ pc_CurrentVersion c)
      else None)"

record consumer_work =
  cw_dir :: string
  cw_deps :: "string list"
  cw_set :: "(string \<times> string) list"

definition put :: "string \<Rightarrow> 'a \<Rightarrow> (string \<times> 'a) list \<Rightarrow> (string \<times> 'a) list" where
  "put k v kvs = (k, v) # filter (\<lambda>kv. fst kv \<noteq> k) kvs"

definition add_pin :: "plan_module \<Rightarrow> plan_consumer \<Rightarrow> (string \<times> consumer_work) list \<Rightarrow> (string \<times> consumer_work) list" where
  "add_pin m c work =
     (let w = (case map_of work (pc_Key c) of None \<Rightarrow> \<lparr>cw_dir = pc_Dir c, cw_deps = [], cw_set = []\<rparr> | Some w \<Rightarrow> w) in
      put (pc_Key c) (w\<lparr>cw_set := put (pc_DependencyKey c) (pc_TargetVersion c) (cw_set w),
        cw_deps := List.insert (pm_Key m) (cw_deps w)\<rparr>) work)"

definition pin_step :: "plan_module \<times> plan_consumer \<Rightarrow> (string \<times> consumer_work) list \<times> plan_skip list
    \<Rightarrow> (string \<times> consumer_work) list \<times> plan_skip list" where
  "pin_step mc acc =
     (case mc of (m, c) \<Rightarrow> case acc of (work, skips) \<Rightarrow>
        if pc_Dir c = [] \<or> pc_Key c = [] then acc
        else case pin_refusal c of
          Some why \<Rightarrow> (work, skips @ [\<lparr>sk_Repo = pc_Key c, sk_Reason = why\<rparr>])
        | None \<Rightarrow> (add_pin m c work, skips))"

definition plan_rows :: "plan_module list \<Rightarrow> (plan_module \<times> plan_consumer) list" where
  "plan_rows ms = concat (map (\<lambda>m. if pm_Dir m = [] then [] else map (Pair m) (pm_OutdatedConsumers m)) ms)"

definition hashWork :: "surroundings \<Rightarrow> string list \<Rightarrow> (string \<times> string) list \<Rightarrow> string" where
  "hashWork su modules targets =
     take 16 (su_digest su (str_join '','' (map (\<lambda>k. k @ ''@'' @ (case map_of targets k of None \<Rightarrow> [] | Some v \<Rightarrow> v)) modules)))"

definition consumer_spec :: "surroundings \<Rightarrow> string \<times> consumer_work \<Rightarrow> work_spec" where
  "consumer_spec su kw =
     (case kw of (repo, w) \<Rightarrow>
        let modulesSorted = sort (map fst (cw_set w)) in
        \<lparr>ws_Repo = repo, ws_Dir = cw_dir w,
         ws_Bumps = map (\<lambda>k. (k, case map_of (cw_set w) k of None \<Rightarrow> [] | Some v \<Rightarrow> v)) modulesSorted,
         ws_Release = None, ws_DepRepos = sort (cw_deps w),
         ws_DedupKey = ''depsweep:'' @ repo @ '':bump:'' @ hashWork su modulesSorted (cw_set w)\<rparr>)"

definition consumerSpecs :: "surroundings \<Rightarrow> plan_module list \<Rightarrow> work_spec list \<Rightarrow> plan_skip list
    \<Rightarrow> work_spec list \<times> string list \<times> plan_skip list" where
  "consumerSpecs su ms specs skips =
     (case fold pin_step (plan_rows ms) ([], skips) of (work, skips') \<Rightarrow>
        (specs @ map (consumer_spec su) (sort_key fst work), map ws_Repo (filter (\<lambda>sp. ws_Release sp \<noteq> None) specs), skips'))"

definition waveOf :: "work_spec \<Rightarrow> string list \<Rightarrow> int" where
  "waveOf sp repoHasWork = (if ws_Release sp \<noteq> None \<and> ws_Repo sp \<in> set repoHasWork then 0 else 1)"

definition BuildWork :: "surroundings \<Rightarrow> dep_config \<Rightarrow> plan_module list \<Rightarrow> work_spec list \<times> plan_skip list" where
  "BuildWork su cfg ms =
     (case releaseSpecs cfg ms of (rel, skips) \<Rightarrow>
      case consumerSpecs su ms rel skips of (specs, repoHasWork, skips') \<Rightarrow>
        (sort_key (\<lambda>sp. (waveOf sp repoHasWork, ws_Repo sp)) specs, skips'))"

section \<open>Payloads\<close>

definition TaskTypeDepBump :: string where "TaskTypeDepBump = ''depbump''"

record dep_payload =
  dy_Repo :: string
  dy_RepoName :: string
  dy_Bumps :: "(string \<times> string) list"
  dy_Release :: "(string \<times> bool) option"
  dy_V :: int
  dy_RequireClean :: "bool option"
  dy_TimeoutMinutes :: int

definition bump_json :: "string \<times> string \<Rightarrow> json" where
  "bump_json b = JObj [(''module'', JStr (fst b)), (''version'', JStr (snd b))]"

definition dec_bump :: "json \<Rightarrow> (string \<times> string) option" where
  "dec_bump j = do { kvs \<leftarrow> jfields j; m \<leftarrow> jstr_field ''module'' kvs; v \<leftarrow> jstr_field ''version'' kvs; Some (m, v) }"

definition release_json :: "string \<times> bool \<Rightarrow> json" where
  "release_json r = JObj ([(''version'', JStr (fst r))] @ omit_false ''push'' (snd r))"

definition dec_release :: "json \<Rightarrow> (string \<times> bool) option" where
  "dec_release j = do { kvs \<leftarrow> jfields j; v \<leftarrow> jstr_field ''version'' kvs; b \<leftarrow> jbool_field ''push'' kvs; Some (v, b) }"

definition dep_fields :: "dep_payload \<Rightarrow> (string \<times> json) list" where
  "dep_fields p = [(''repo'', JStr (dy_Repo p))] @ omit_empty ''repo_name'' (dy_RepoName p) @ omit_arr ''bumps'' (map bump_json (dy_Bumps p))
     @ omit_none ''release'' (map_option release_json (dy_Release p)) @ omit_int ''v'' (dy_V p)
     @ omit_none ''require_clean'' (map_option JBool (dy_RequireClean p)) @ omit_int ''timeout_minutes'' (dy_TimeoutMinutes p)"

definition dec_dep :: "jtext \<Rightarrow> dep_payload option" where
  "dec_dep d =
     do { j \<leftarrow> jt_parse d; kvs \<leftarrow> jfields j; r \<leftarrow> jstr_field ''repo'' kvs; rn \<leftarrow> jstr_field ''repo_name'' kvs;
          bs \<leftarrow> jlist_field dec_bump ''bumps'' kvs; rel \<leftarrow> jptr_field dec_release ''release'' kvs; v \<leftarrow> jint_field ''v'' kvs;
          cl \<leftarrow> jptr_field jbool ''require_clean'' kvs; tm \<leftarrow> jint_field ''timeout_minutes'' kvs;
          Some \<lparr>dy_Repo = r, dy_RepoName = rn, dy_Bumps = bs, dy_Release = rel, dy_V = v, dy_RequireClean = cl, dy_TimeoutMinutes = tm\<rparr> }"

definition currentDepBumpPayloadV :: int where "currentDepBumpPayloadV = 1"

text \<open>Why the executor refuses a payload for good, before it touches the repository.\<close>

datatype depbump_error =
    EmptyPayload
  | UndecodablePayload
  | NewerContract int
  | NoRepo
  | NoWork
  | BadVersion string string

definition accept_payload :: "jtext \<Rightarrow> depbump_error + dep_payload" where
  "accept_payload d =
     (if jt_text d = [] then Inl EmptyPayload
      else case dec_dep d of
        None \<Rightarrow> Inl UndecodablePayload
      | Some p \<Rightarrow>
          if dy_V p > currentDepBumpPayloadV then Inl (NewerContract (dy_V p))
          else if dy_Repo p = [] then Inl NoRepo
          else if dy_Bumps p = [] \<and> dy_Release p = None then Inl NoWork
          else case find (\<lambda>b. fst b = [] \<or> \<not> IsStableSemver (snd b)) (dy_Bumps p) of
            Some b \<Rightarrow> Inl (BadVersion (fst b) (snd b))
          | None \<Rightarrow>
              (case dy_Release p of
                 Some (v, _) \<Rightarrow> if IsStableSemver v then Inr p else Inl (BadVersion ''release'' v)
               | None \<Rightarrow> Inr p))"

definition payloadFor :: "work_spec \<Rightarrow> jtext" where
  "payloadFor sp = marshal (JObj (dep_fields \<lparr>dy_Repo = ws_Dir sp, dy_RepoName = ws_Repo sp, dy_Bumps = ws_Bumps sp, dy_Release = ws_Release sp,
     dy_V = 1, dy_RequireClean = None, dy_TimeoutMinutes = 0\<rparr>))"

section \<open>The sweep\<close>

record dep_stats =
  ds_Minted :: int
  ds_Known :: int
  ds_Skips :: "plan_skip list"

definition taskPriority :: int where "taskPriority = MachineMin"

definition dep_task :: "(string \<Rightarrow> task_id option) \<Rightarrow> work_spec \<Rightarrow> new_task" where
  "dep_task ids sp =
     \<lparr>n_Project = ws_Repo sp, n_Type = TaskTypeDepBump, n_Payload = payloadFor sp, n_Deps = List.map_filter ids (ws_DepRepos sp),
      n_Priority = taskPriority, n_MaxAttempts = 0, n_NotBefore = zero_time, n_DedupKey = ws_DedupKey sp\<rparr>"

text \<open>The tasks of earlier sweeps: the last one listed for a repository counts, whatever became of it.\<close>

definition index_existing :: "task list \<Rightarrow> (string \<Rightarrow> task_id option) \<times> string list" where
  "index_existing ts =
     (fold (\<lambda>t ids. if DedupKey t = [] then ids else ids(Project t \<mapsto> ID t)) ts Map.empty,
      filter (\<lambda>k. k \<noteq> []) (map DedupKey ts))"

fun mint_specs :: "'s store_ops \<Rightarrow> string list \<Rightarrow> work_spec list \<Rightarrow> (string \<Rightarrow> task_id option) \<Rightarrow> dep_stats \<Rightarrow> 's
    \<Rightarrow> (qerr + unit) \<times> (string \<Rightarrow> task_id option) \<times> dep_stats \<times> 's" where
  "mint_specs ops known [] ids st s = (Inr (), ids, st, s)"
| "mint_specs ops known (sp # sps) ids st s =
     (case Queue_Enqueue ops (dep_task ids sp) s of
        ((Some created, None), s') \<Rightarrow>
          mint_specs ops known sps (ids(ws_Repo sp \<mapsto> ID created))
            (if ws_DedupKey sp \<in> set known then st\<lparr>ds_Known := ds_Known st + 1\<rparr> else st\<lparr>ds_Minted := ds_Minted st + 1\<rparr>) s'
      | ((Some created, Some e), s') \<Rightarrow>
          if e = ErrTaskDone then mint_specs ops known sps (ids(ws_Repo sp \<mapsto> ID created)) (st\<lparr>ds_Known := ds_Known st + 1\<rparr>) s'
          else (Inl e, ids, st, s')
      | ((None, Some e), s') \<Rightarrow> (Inl e, ids, st, s')
      | ((None, None), s') \<Rightarrow> (Inr (), ids, st, s'))"

datatype depsweep_error = PlanFailed string | ListFailed qerr | EnqueueFailed qerr

definition DepSweep :: "surroundings \<Rightarrow> dep_config \<Rightarrow> 's store_ops \<Rightarrow> (string + plan_module list) \<Rightarrow> 's
    \<Rightarrow> depsweep_error option \<times> dep_stats \<times> 's" where
  "DepSweep su cfg ops plan s =
     (let zero = \<lparr>ds_Minted = 0, ds_Known = 0, ds_Skips = []\<rparr> in
      case plan of
        Inl e \<Rightarrow> (Some (PlanFailed e), zero, s)
      | Inr ms \<Rightarrow>
          (case BuildWork su cfg ms of (specs, skips) \<Rightarrow>
             let st = zero\<lparr>ds_Skips := skips\<rparr> in
             case st_List ops (no_filter\<lparr>fl_Type := Some TaskTypeDepBump\<rparr>) s of
               Inl e \<Rightarrow> (Some (ListFailed e), st, s)
             | Inr existing \<Rightarrow>
                 (case index_existing existing of (ids, known) \<Rightarrow>
                  case mint_specs ops known specs ids st s of
                    (Inl e, _, st', s') \<Rightarrow> (Some (EnqueueFailed e), st', s')
                  | (Inr _, _, st', s') \<Rightarrow> (None, st', s'))))"

section \<open>The order of versions\<close>

text \<open>A version as the key of the order: its three numbers, then plain versions above pre-releases, then the suffix.\<close>

definition version_key :: "string \<Rightarrow> (int \<times> int \<times> int) \<times> int \<times> string" where
  "version_key v = (case splitSemver v of (core, pre) \<Rightarrow> (core, if pre = [] then 1 else 0, pre))"

lemma compareSemver_key:
  "compareSemver a b = (if version_key a < version_key b then - 1 else if version_key a = version_key b then 0 else 1)"
proof -
  obtain a0 a1 a2 p where a: "splitSemver a = ((a0, a1, a2), p)" by (metis surj_pair)
  obtain b0 b1 b2 q where b: "splitSemver b = ((b0, b1, b2), q)" by (metis surj_pair)
  show ?thesis unfolding compareSemver_def version_key_def a b by (auto simp: less_prod_def less_eq_prod_def)
qed

lemma isNewerVersion_key: "isNewerVersion t c \<longleftrightarrow> c = [] \<or> version_key c < version_key t"
  by (auto simp: isNewerVersion_def compareSemver_key split: if_splits)

lemma newer_is_transitive: "isNewerVersion a b \<Longrightarrow> isNewerVersion b c \<Longrightarrow> b \<noteq> [] \<Longrightarrow> isNewerVersion a c"
  by (auto simp: isNewerVersion_key)

lemma newer_is_strict: "isNewerVersion a b \<Longrightarrow> b \<noteq> [] \<Longrightarrow> a \<noteq> [] \<Longrightarrow> \<not> isNewerVersion b a"
  by (auto simp: isNewerVersion_key)

section \<open>Payloads read back\<close>

lemma dec_payloadFor:
  "dec_dep (payloadFor sp) = Some \<lparr>dy_Repo = ws_Dir sp, dy_RepoName = ws_Repo sp, dy_Bumps = ws_Bumps sp, dy_Release = ws_Release sp,
     dy_V = 1, dy_RequireClean = None, dy_TimeoutMinutes = 0\<rparr>"
proof -
  let ?p = "\<lparr>dy_Repo = ws_Dir sp, dy_RepoName = ws_Repo sp, dy_Bumps = ws_Bumps sp, dy_Release = ws_Release sp,
     dy_V = 1, dy_RequireClean = None, dy_TimeoutMinutes = 0\<rparr>"
  obtain k where k: "k = dep_fields ?p" by blast
  have "map_of (omit_int x i) y = (if x = y \<and> i \<noteq> 0 then Some (jint i) else None)" for x i y by (simp add: omit_int_def)
  note look = k dep_fields_def omit_lookup append_assoc append_Cons append_Nil this
  have "dec_bump (bump_json b) = Some b" for b by (simp add: dec_bump_def bump_json_def jfields_def jstr_field_def)
  then have bumps: "those (map dec_bump (map bump_json bs)) = Some bs" for bs by (induction bs) simp_all
  have rel: "dec_release (release_json r) = Some r" "release_json r \<noteq> JNull" for r
    by (cases r; simp add: dec_release_def release_json_def jfields_def jstr_field_def jbool_field_def omit_false_def)+
  have "jstr_field ''repo'' k = Some (ws_Dir sp)" by (simp add: jstr_field_def look del: map_of_append)
  moreover have "jstr_field ''repo_name'' k = Some (ws_Repo sp)" by (rule field_hits(1)) (simp add: look del: map_of_append)
  moreover have "jlist_field dec_bump ''bumps'' k = Some (ws_Bumps sp)"
    by (rule field_hits(5) [OF _ bumps]) (simp add: look del: map_of_append)
  moreover have "map_of k ''release'' = map_option release_json (ws_Release sp)"
    by (cases "ws_Release sp") (simp_all add: look del: map_of_append)
  then have "jptr_field dec_release ''release'' k = Some (ws_Release sp)"
    by (cases "ws_Release sp") (simp_all add: jptr_Some jptr_None rel)
  moreover have "jint_field ''v'' k = Some 1" by (rule field_hits(2)) (simp_all add: look int64_def del: map_of_append)
  moreover have "jptr_field jbool ''require_clean'' k = Some None" by (rule field_hits(6)) (simp add: look del: map_of_append)
  moreover have "jint_field ''timeout_minutes'' k = Some 0" by (rule field_hits(2)) (simp_all add: look int64_def del: map_of_append)
  ultimately show ?thesis by (simp add: dec_dep_def payloadFor_def jfields_def flip: k)
qed

section \<open>What a plan becomes\<close>

text \<open>The pins collected so far, each with the plan row it comes from.\<close>

definition pins_from :: "(plan_module \<times> plan_consumer) list \<Rightarrow> (string \<times> consumer_work) list \<Rightarrow> bool" where
  "pins_from rows work \<longleftrightarrow> distinct (map fst work) \<and> (\<forall>(repo, w)\<in>set work. repo \<noteq> [] \<and> cw_dir w \<noteq> [] \<and> cw_set w \<noteq> [] \<and> distinct (map fst (cw_set w))
     \<and> (\<forall>(dep, v)\<in>set (cw_set w). \<exists>(m, c)\<in>set rows. pc_Key c = repo \<and> pc_DependencyKey c = dep \<and> pc_TargetVersion c = v
          \<and> pin_refusal c = None \<and> pm_Key m \<in> set (cw_deps w)))"

text \<open>The rows that were taken or refused, with what became of them.\<close>

definition rows_done :: "(plan_module \<times> plan_consumer) list \<Rightarrow> (string \<times> consumer_work) list \<Rightarrow> plan_skip list \<Rightarrow> bool" where
  "rows_done rows work skips \<longleftrightarrow> (\<forall>(m, c)\<in>set rows. pc_Dir c \<noteq> [] \<and> pc_Key c \<noteq> [] \<longrightarrow>
     (case pin_refusal c of
        Some why \<Rightarrow> \<lparr>sk_Repo = pc_Key c, sk_Reason = why\<rparr> \<in> set skips
      | None \<Rightarrow> \<exists>w. map_of work (pc_Key c) = Some w \<and> pc_DependencyKey c \<in> fst ` set (cw_set w) \<and> pm_Key m \<in> set (cw_deps w)))"

lemma map_of_put: "map_of (put k v kvs) x = (if x = k then Some v else map_of kvs x)"
  by (induction kvs) (auto simp: put_def)

lemma distinct_put: "distinct (map fst kvs) \<Longrightarrow> distinct (map fst (put k v kvs))"
  by (auto simp: put_def distinct_map inj_on_def)

lemma set_put: "set (put k v kvs) = insert (k, v) {kv\<in>set kvs. fst kv \<noteq> k}"
  by (auto simp: put_def)

text \<open>One entry of the work, and one row that was taken.\<close>

definition pinned :: "(plan_module \<times> plan_consumer) list \<Rightarrow> string \<Rightarrow> consumer_work \<Rightarrow> bool" where
  "pinned rows repo w \<longleftrightarrow> (\<forall>(dep, v)\<in>set (cw_set w). \<exists>(m, c)\<in>set rows. pc_Key c = repo \<and> pc_DependencyKey c = dep \<and> pc_TargetVersion c = v
     \<and> pin_refusal c = None \<and> pm_Key m \<in> set (cw_deps w))"

lemma pins_fromD:
  assumes "pins_from rows work" "(repo, w) \<in> set work"
  shows "repo \<noteq> [] \<and> cw_dir w \<noteq> [] \<and> cw_set w \<noteq> [] \<and> distinct (map fst (cw_set w)) \<and> pinned rows repo w"
  using bspec [OF conjunct2 [OF assms(1) [unfolded pins_from_def]] assms(2)] by (simp add: pinned_def)

lemma pins_fromI:
  assumes "distinct (map fst work)"
    and "\<And>repo w. (repo, w) \<in> set work \<Longrightarrow> repo \<noteq> [] \<and> cw_dir w \<noteq> [] \<and> cw_set w \<noteq> [] \<and> distinct (map fst (cw_set w)) \<and> pinned rows repo w"
  shows "pins_from rows work"
  unfolding pins_from_def by (intro conjI assms(1) ballI, clarify) (use assms(2) in \<open>simp add: pinned_def\<close>)

lemma pinned_add:
  assumes "pinned rows (pc_Key c) w" "(m, c) \<in> set rows" "pin_refusal c = None"
  shows "pinned rows (pc_Key c) (w\<lparr>cw_set := put (pc_DependencyKey c) (pc_TargetVersion c) (cw_set w), cw_deps := List.insert (pm_Key m) (cw_deps w)\<rparr>)"
  unfolding pinned_def
proof (intro ballI, clarify)
  fix dep v
  assume "(dep, v) \<in> set (cw_set (w\<lparr>cw_set := put (pc_DependencyKey c) (pc_TargetVersion c) (cw_set w), cw_deps := List.insert (pm_Key m) (cw_deps w)\<rparr>))"
  then consider "dep = pc_DependencyKey c" "v = pc_TargetVersion c" | "(dep, v) \<in> set (cw_set w)" by (auto simp: set_put)
  then show "\<exists>(m', c')\<in>set rows. pc_Key c' = pc_Key c \<and> pc_DependencyKey c' = dep \<and> pc_TargetVersion c' = v \<and> pin_refusal c' = None
      \<and> pm_Key m' \<in> set (cw_deps (w\<lparr>cw_set := put (pc_DependencyKey c) (pc_TargetVersion c) (cw_set w), cw_deps := List.insert (pm_Key m) (cw_deps w)\<rparr>))"
  proof cases
    case 1
    then show ?thesis by (intro bexI [OF _ assms(2)]) (simp add: assms(3))
  next
    case 2
    then obtain m' c' where "(m', c') \<in> set rows" "pc_Key c' = pc_Key c" "pc_DependencyKey c' = dep" "pc_TargetVersion c' = v" "pin_refusal c' = None"
        "pm_Key m' \<in> set (cw_deps w)" using bspec [OF assms(1) [unfolded pinned_def]] by fastforce
    then show ?thesis by (intro bexI [of _ "(m', c')"]) simp_all
  qed
qed

lemma add_pin_from:
  assumes "pins_from rows work" "(m, c) \<in> set rows" "pc_Dir c \<noteq> []" "pc_Key c \<noteq> []" "pin_refusal c = None"
  shows "pins_from rows (add_pin m c work)"
proof -
  obtain old where old: "old = (case map_of work (pc_Key c) of None \<Rightarrow> \<lparr>cw_dir = pc_Dir c, cw_deps = [], cw_set = []\<rparr> | Some w \<Rightarrow> w)" by blast
  let ?w = "old\<lparr>cw_set := put (pc_DependencyKey c) (pc_TargetVersion c) (cw_set old), cw_deps := List.insert (pm_Key m) (cw_deps old)\<rparr>"
  have o: "cw_dir old \<noteq> []" "distinct (map fst (cw_set old))" "pinned rows (pc_Key c) old"
    using pins_fromD [OF assms(1) map_of_SomeD] assms(3) by (cases "map_of work (pc_Key c)"; simp add: old pinned_def)+
  have add: "add_pin m c work = put (pc_Key c) ?w work" by (simp add: add_pin_def Let_def old)
  show ?thesis unfolding add
  proof (rule pins_fromI)
    show "distinct (map fst (put (pc_Key c) ?w work))" using assms(1) by (intro distinct_put) (simp add: pins_from_def)
    fix repo w assume "(repo, w) \<in> set (put (pc_Key c) ?w work)"
    then consider "repo = pc_Key c" "w = ?w" | "(repo, w) \<in> set work" by (auto simp: set_put)
    then show "repo \<noteq> [] \<and> cw_dir w \<noteq> [] \<and> cw_set w \<noteq> [] \<and> distinct (map fst (cw_set w)) \<and> pinned rows repo w"
    proof cases
      case 1
      then show ?thesis using assms(4) o pinned_add [OF o(3) assms(2,5)] distinct_put [OF o(2)] by (simp add: put_def)
    qed (rule pins_fromD [OF assms(1)])
  qed
qed

definition row_done :: "(string \<times> consumer_work) list \<Rightarrow> plan_skip list \<Rightarrow> plan_module \<Rightarrow> plan_consumer \<Rightarrow> bool" where
  "row_done work skips m c \<longleftrightarrow> (pc_Dir c \<noteq> [] \<and> pc_Key c \<noteq> [] \<longrightarrow>
     (case pin_refusal c of
        Some why \<Rightarrow> \<lparr>sk_Repo = pc_Key c, sk_Reason = why\<rparr> \<in> set skips
      | None \<Rightarrow> \<exists>w. map_of work (pc_Key c) = Some w \<and> pc_DependencyKey c \<in> fst ` set (cw_set w) \<and> pm_Key m \<in> set (cw_deps w)))"

lemma rows_done_row: "rows_done rows work skips \<longleftrightarrow> (\<forall>(m, c)\<in>set rows. row_done work skips m c)"
  by (simp add: rows_done_def row_done_def)

lemma row_done_mono:
  assumes "row_done work skips m c" "set skips \<subseteq> set skips'"
    and "\<And>k w. map_of work k = Some w \<Longrightarrow> \<exists>w'. map_of work' k = Some w' \<and> fst ` set (cw_set w) \<subseteq> fst ` set (cw_set w') \<and> set (cw_deps w) \<subseteq> set (cw_deps w')"
  shows "row_done work' skips' m c"
proof (cases "pin_refusal c")
  case None
  show ?thesis
  proof (cases "pc_Dir c \<noteq> [] \<and> pc_Key c \<noteq> []")
    case True
    then obtain w where "map_of work (pc_Key c) = Some w" "pc_DependencyKey c \<in> fst ` set (cw_set w)" "pm_Key m \<in> set (cw_deps w)"
      using assms(1) None by (auto simp: row_done_def)
    moreover obtain w' where "map_of work' (pc_Key c) = Some w'" "fst ` set (cw_set w) \<subseteq> fst ` set (cw_set w')"
        "set (cw_deps w) \<subseteq> set (cw_deps w')" using assms(3) calculation(1) by blast
    ultimately have "\<exists>w. map_of work' (pc_Key c) = Some w \<and> pc_DependencyKey c \<in> fst ` set (cw_set w) \<and> pm_Key m \<in> set (cw_deps w)"
      by (intro exI [of _ w']) (simp add: subset_iff)
    then show ?thesis using None unfolding row_done_def by simp
  qed (auto simp: row_done_def)
qed (use assms(1,2) in \<open>auto simp: row_done_def\<close>)

lemma add_pin_grows:
  assumes "map_of work k = Some w"
  shows "\<exists>w'. map_of (add_pin m c work) k = Some w' \<and> fst ` set (cw_set w) \<subseteq> fst ` set (cw_set w') \<and> set (cw_deps w) \<subseteq> set (cw_deps w')"
  using assms by (auto simp: add_pin_def Let_def map_of_put set_put)

lemma add_pin_done:
  assumes "pin_refusal c = None"
  shows "row_done (add_pin m c work) skips m c"
  using assms by (auto simp: row_done_def add_pin_def Let_def map_of_put set_put)

lemma pin_fold:
  assumes "fold pin_step todo (work, skips) = (work', skips')" "pins_from rows work" "rows_done seen work skips" "set todo \<subseteq> set rows"
  shows "pins_from rows work' \<and> rows_done (seen @ todo) work' skips' \<and> set skips \<subseteq> set skips'"
  using assms
proof (induction todo arbitrary: work skips seen)
  case (Cons mc todo)
  obtain m c where mc: "mc = (m, c)" by (cases mc)
  obtain work1 skips1 where one: "pin_step mc (work, skips) = (work1, skips1)" by (metis surj_pair)
  have "pins_from rows work1 \<and> rows_done (seen @ [mc]) work1 skips1 \<and> set skips \<subseteq> set skips1"
  proof (cases "pc_Dir c = [] \<or> pc_Key c = []")
    case True
    then show ?thesis using one mc Cons.prems(2,3) by (auto simp: pin_step_def rows_done_row row_done_def)
  next
    case named: False
    show ?thesis
    proof (cases "pin_refusal c")
      case None
      then have w: "work1 = add_pin m c work" "skips1 = skips" using one mc named by (auto simp: pin_step_def)
      have "row_done work1 skips1 m' c'" if "(m', c') \<in> set seen" for m' c'
        by (rule row_done_mono [of work skips]) (use that Cons.prems(3) w add_pin_grows in \<open>auto simp: rows_done_row\<close>)
      then show ?thesis
        using w mc None named Cons.prems(2,4) add_pin_from [of rows work m c] add_pin_done [of c m work skips] by (auto simp: rows_done_row)
    next
      case (Some why)
      then have w: "work1 = work" "skips1 = skips @ [\<lparr>sk_Repo = pc_Key c, sk_Reason = why\<rparr>]" using one mc named by (auto simp: pin_step_def)
      have "row_done work1 skips1 m' c'" if "(m', c') \<in> set seen" for m' c'
        by (rule row_done_mono [of work skips]) (use that Cons.prems(3) w in \<open>auto simp: rows_done_row\<close>)
      moreover have "row_done work1 skips1 m c" using Some w by (simp add: row_done_def)
      ultimately show ?thesis using w mc Cons.prems(2) by (auto simp: rows_done_row)
    qed
  qed
  then show ?case using Cons.IH [of work1 skips1 "seen @ [mc]"] Cons.prems(1,4) one by auto
qed simp

lemma work_collected:
  assumes "fold pin_step (plan_rows ms) ([], skips) = (work, skips')"
  shows "pins_from (plan_rows ms) work" "rows_done (plan_rows ms) work skips'" "set skips \<subseteq> set skips'"
  using pin_fold [OF assms, of "plan_rows ms" "[]"] by (simp_all add: pins_from_def rows_done_def)

text \<open>The parts of the work: releases in front, bumps behind.\<close>

lemma in_filter_map: "y \<in> set (List.map_filter f xs) \<longleftrightarrow> (\<exists>x\<in>set xs. f x = Some y)"
  by (induction xs) (auto simp: map_filter_simps split: option.splits)

lemma releaseSpecs_mem:
  "sp \<in> set (fst (releaseSpecs cfg ms)) \<longleftrightarrow> (\<exists>m\<in>set ms. release_of cfg m = Some (Inr sp))"
  "sk \<in> set (snd (releaseSpecs cfg ms)) \<longleftrightarrow> (\<exists>m\<in>set ms. release_of cfg m = Some (Inl sk))"
proof -
  have "(case r of Inr s \<Rightarrow> Some s | Inl _ \<Rightarrow> None) = Some sp \<longleftrightarrow> r = Inr sp" for r :: "plan_skip + work_spec" by (cases r) auto
  then show "sp \<in> set (fst (releaseSpecs cfg ms)) \<longleftrightarrow> (\<exists>m\<in>set ms. release_of cfg m = Some (Inr sp))"
    by (auto simp add: releaseSpecs_def Let_def in_filter_map)
  have "(case r of Inl s \<Rightarrow> Some s | Inr _ \<Rightarrow> None) = Some sk \<longleftrightarrow> r = Inl sk" for r :: "plan_skip + work_spec" by (cases r) auto
  then show "sk \<in> set (snd (releaseSpecs cfg ms)) \<longleftrightarrow> (\<exists>m\<in>set ms. release_of cfg m = Some (Inl sk))"
    by (auto simp add: releaseSpecs_def Let_def in_filter_map)
qed

lemma BuildWork_parts:
  obtains work where "fold pin_step (plan_rows ms) ([], snd (releaseSpecs cfg ms)) = (work, snd (BuildWork su cfg ms))"
    and "set (fst (BuildWork su cfg ms)) = set (fst (releaseSpecs cfg ms)) \<union> consumer_spec su ` set work"
    and "sorted (map (\<lambda>sp. (waveOf sp (map ws_Repo (filter (\<lambda>sp. ws_Release sp \<noteq> None) (fst (releaseSpecs cfg ms)))), ws_Repo sp)) (fst (BuildWork su cfg ms)))"
proof -
  obtain work skips where "fold pin_step (plan_rows ms) ([], snd (releaseSpecs cfg ms)) = (work, skips)" by (metis surj_pair)
  then show ?thesis
    by (intro that [of work]) (auto simp: BuildWork_def consumerSpecs_def case_prod_beta)
qed

lemma release_of_spec:
  assumes "release_of cfg m = Some (Inr sp)"
  shows "ws_Repo sp = pm_Key m \<and> ws_Dir sp = pm_Dir m \<and> pm_Dir m \<noteq> [] \<and> ws_Bumps sp = [] \<and> ws_Release sp = Some (releaseVersion m, dc_PushReleases cfg)
    \<and> IsStableSemver (releaseVersion m) \<and> (pm_StaleBuild m \<or> dc_IncludeUnreleased cfg \<and> pm_HasUnreleasedWork m)
    \<and> pm_CurrentVersion m \<noteq> [] \<and> pm_SuggestedBump m \<noteq> ''major''"
  using assms by (auto simp: release_of_def Let_def split: if_splits)

lemma consumer_spec_sel:
  "ws_Repo (consumer_spec su (k, w)) = k" "ws_Dir (consumer_spec su (k, w)) = cw_dir w" "ws_Release (consumer_spec su (k, w)) = None"
  "set (ws_DepRepos (consumer_spec su (k, w))) = set (cw_deps w)"
  by (simp_all add: consumer_spec_def Let_def)

lemma consumer_spec_bumps:
  assumes "distinct (map fst (cw_set w))"
  shows "set (ws_Bumps (consumer_spec su (k, w))) = set (cw_set w)"
  using assms by (force simp: consumer_spec_def Let_def)

lemma pin_refusal_None:
  "pin_refusal c = None \<longleftrightarrow> \<not> pc_IsMajorBump c \<and> \<not> isMajorBump (pc_TargetVersion c) (pc_CurrentVersion c)
     \<and> IsStableSemver (pc_TargetVersion c) \<and> isNewerVersion (pc_TargetVersion c) (pc_CurrentVersion c)"
  by (auto simp: pin_refusal_def)

lemma accept_payloadFor:
  assumes "ws_Dir sp \<noteq> []" "ws_Bumps sp \<noteq> [] \<or> ws_Release sp \<noteq> None" "\<forall>b\<in>set (ws_Bumps sp). fst b \<noteq> [] \<and> IsStableSemver (snd b)"
    and "\<forall>v push. ws_Release sp = Some (v, push) \<longrightarrow> IsStableSemver v"
  shows "\<exists>p. accept_payload (payloadFor sp) = Inr p \<and> dy_Repo p = ws_Dir sp \<and> dy_Bumps p = ws_Bumps sp \<and> dy_Release p = ws_Release sp"
proof -
  have "find (\<lambda>b. fst b = [] \<or> \<not> IsStableSemver (snd b)) (ws_Bumps sp) = None" using assms(3) by (auto simp: find_None_iff)
  moreover have "jt_text (payloadFor sp) \<noteq> []" by (simp add: payloadFor_def marshal_def)
  ultimately show ?thesis using assms(1,2,4)
    by (auto simp: accept_payload_def dec_payloadFor currentDepBumpPayloadV_def split: option.split)
qed

section \<open>The sweep and its tasks\<close>

text \<open>What the sweep knows of the tasks of the repositories when it comes to a spec.\<close>

definition ids_before :: "(string \<Rightarrow> task_id option) \<Rightarrow> work_spec list \<Rightarrow> task list \<Rightarrow> nat \<Rightarrow> (string \<Rightarrow> task_id option)" where
  "ids_before ids specs ts i = fold (\<lambda>(sp, t) m. m(ws_Repo sp \<mapsto> ID t)) (zip (take i specs) (take i ts)) ids"

text \<open>One successful call per spec, each on the store the one before left and with the identities known by then.\<close>

definition all_filed :: "'s store_ops \<Rightarrow> (string \<Rightarrow> task_id option) \<Rightarrow> work_spec list \<Rightarrow> task list \<Rightarrow> 's list \<Rightarrow> bool" where
  "all_filed ops ids specs ts ss \<longleftrightarrow> length ts = length specs \<and> length ss = Suc (length specs)
     \<and> (\<forall>i<length specs. \<exists>e\<in>{None, Some ErrTaskDone}.
          Queue_Enqueue ops (dep_task (ids_before ids specs ts i) (specs ! i)) (ss ! i) = ((Some (ts ! i), e), ss ! Suc i))"

lemma ids_before_0 [simp]: "ids_before ids specs ts 0 = ids"
  by (simp add: ids_before_def)

lemma ids_before_Cons: "ids_before ids (sp # specs) (t # ts) (Suc i) = ids_before (ids(ws_Repo sp \<mapsto> ID t)) specs ts i"
  by (simp add: ids_before_def)

lemma ids_before_Suc:
  assumes "i < length specs" "length ts = length specs"
  shows "ids_before ids specs ts (Suc i) = (ids_before ids specs ts i)(ws_Repo (specs ! i) \<mapsto> ID (ts ! i))"
  using assms by (simp add: ids_before_def take_Suc_conv_app_nth)

lemma ids_before_latest:
  assumes "i \<le> length specs" "length ts = length specs" "k < i" "ws_Repo (specs ! k) = r"
  shows "\<exists>j<i. k \<le> j \<and> ws_Repo (specs ! j) = r \<and> ids_before ids specs ts i r = Some (ID (ts ! j))"
  using assms
proof (induction i)
  case (Suc i)
  show ?case
  proof (cases "ws_Repo (specs ! i) = r")
    case True
    then show ?thesis using Suc.prems by (intro exI [of _ i]) (simp add: ids_before_Suc)
  next
    case False
    then have "k < i" using Suc.prems by (metis less_SucE)
    then obtain j where "j < i" "k \<le> j" "ws_Repo (specs ! j) = r" "ids_before ids specs ts i r = Some (ID (ts ! j))" using Suc by auto
    then show ?thesis using False Suc.prems by (intro exI [of _ j]) (simp add: ids_before_Suc)
  qed
qed simp

lemma filed_Cons:
  assumes "Queue_Enqueue ops (dep_task ids sp) s = ((Some t, e), s1)" "e \<in> {None, Some ErrTaskDone}"
    and "all_filed ops (ids(ws_Repo sp \<mapsto> ID t)) specs ts ss" "ss ! 0 = s1"
  shows "all_filed ops ids (sp # specs) (t # ts) (s # ss)"
  unfolding all_filed_def
proof (intro conjI allI impI)
  fix i assume "i < length (sp # specs)"
  then show "\<exists>e\<in>{None, Some ErrTaskDone}.
      Queue_Enqueue ops (dep_task (ids_before ids (sp # specs) (t # ts) i) ((sp # specs) ! i)) ((s # ss) ! i) = ((Some ((t # ts) ! i), e), (s # ss) ! Suc i)"
    using assms by (cases i) (auto simp: ids_before_Cons all_filed_def)
qed (use assms(3) in \<open>auto simp: all_filed_def\<close>)

lemma mint_specs_filed:
  assumes "mint_specs ops known specs ids st s = (Inr (), ids', st', s')"
  shows "\<exists>ts ss. all_filed ops ids specs ts ss \<and> ss ! 0 = s \<and> last ss = s'
    \<and> ds_Minted st' + ds_Known st' = ds_Minted st + ds_Known st + int (length specs) \<and> ds_Skips st' = ds_Skips st"
  using assms
proof (induction specs arbitrary: ids st s)
  case Nil
  then show ?case by (intro exI [of _ "[]"] exI [of _ "[s]"]) (simp add: all_filed_def)
next
  case (Cons sp specs)
  obtain r e s1 where call: "Queue_Enqueue ops (dep_task ids sp) s = ((r, e), s1)" by (metis surj_pair)
  then have "r \<noteq> None" "e \<in> {None, Some ErrTaskDone}"
    using Cons.prems by (auto simp: Queue_Enqueue_def split: option.splits sum.splits prod.splits if_splits)
  then obtain t where r: "r = Some t" by blast
  obtain st1 where st1: "mint_specs ops known specs (ids(ws_Repo sp \<mapsto> ID t)) st1 s1 = (Inr (), ids', st', s')"
      "ds_Minted st1 + ds_Known st1 = ds_Minted st + ds_Known st + 1" "ds_Skips st1 = ds_Skips st"
    using Cons.prems call r \<open>e \<in> {None, Some ErrTaskDone}\<close> by (auto split: if_splits)
  then obtain ts ss where rest: "all_filed ops (ids(ws_Repo sp \<mapsto> ID t)) specs ts ss" "ss ! 0 = s1" "last ss = s'"
      "ds_Minted st' + ds_Known st' = ds_Minted st1 + ds_Known st1 + int (length specs)" "ds_Skips st' = ds_Skips st1"
    using Cons.IH by blast
  have "ss \<noteq> []" using rest(1) by (auto simp: all_filed_def)
  then show ?case
    using filed_Cons [OF call [unfolded r] \<open>e \<in> {None, Some ErrTaskDone}\<close> rest(1,2)] rest(3-5) st1(2,3)
    by (intro exI [of _ "t # ts"] exI [of _ "s # ss"]) simp
qed

text \<open>A release of the work stands in front of every bump.\<close>

lemma releases_first:
  assumes "specs = fst (BuildWork su cfg ms)" "k < length specs" "i < length specs" "ws_Release (specs ! k) \<noteq> None" "ws_Release (specs ! i) = None"
  shows "k < i"
proof (rule ccontr)
  obtain work where parts: "set (fst (BuildWork su cfg ms)) = set (fst (releaseSpecs cfg ms)) \<union> consumer_spec su ` set work"
      "sorted (map (\<lambda>sp. (waveOf sp (map ws_Repo (filter (\<lambda>sp. ws_Release sp \<noteq> None) (fst (releaseSpecs cfg ms)))), ws_Repo sp)) (fst (BuildWork su cfg ms)))"
    by (rule BuildWork_parts)
  have "specs ! k \<in> set (fst (releaseSpecs cfg ms))"
    using parts(1) assms(1,2,4) nth_mem [OF assms(2)] consumer_spec_sel(3) by fastforce
  then have wave: "waveOf (specs ! k) (map ws_Repo (filter (\<lambda>sp. ws_Release sp \<noteq> None) (fst (releaseSpecs cfg ms)))) = 0"
    using assms(4) by (auto simp: waveOf_def)
  assume "\<not> k < i"
  then show False
    using sorted_nth_mono [OF parts(2), of i k] assms wave by (simp add: waveOf_def less_eq_prod_def)
qed

section \<open>Properties\<close>



text \<open>Every row and every module of a plan is accounted for.\<close>

lemma plan_rows_are_accounted:
  assumes "(m, c) \<in> set (plan_rows ms)" "pc_Dir c \<noteq> []" "pc_Key c \<noteq> []"
  shows "case pin_refusal c of
      Some why \<Rightarrow> \<lparr>sk_Repo = pc_Key c, sk_Reason = why\<rparr> \<in> set (snd (BuildWork su cfg ms))
    | None \<Rightarrow> \<exists>sp\<in>set (fst (BuildWork su cfg ms)). ws_Release sp = None \<and> ws_Repo sp = pc_Key c \<and> pc_DependencyKey c \<in> fst ` set (ws_Bumps sp)
        \<and> pm_Key m \<in> set (ws_DepRepos sp)"
proof -
  obtain work where parts: "fold pin_step (plan_rows ms) ([], snd (releaseSpecs cfg ms)) = (work, snd (BuildWork su cfg ms))"
      "set (fst (BuildWork su cfg ms)) = set (fst (releaseSpecs cfg ms)) \<union> consumer_spec su ` set work" by (rule BuildWork_parts)
  have row: "row_done work (snd (BuildWork su cfg ms)) m c"
    using work_collected(2) [OF parts(1)] assms(1) unfolding rows_done_row by blast
  show ?thesis
  proof (cases "pin_refusal c")
    case None
    then obtain w where w: "map_of work (pc_Key c) = Some w" "pc_DependencyKey c \<in> fst ` set (cw_set w)" "pm_Key m \<in> set (cw_deps w)"
      using row assms(2,3) by (auto simp: row_done_def)
    let ?sp = "consumer_spec su (pc_Key c, w)"
    have mem: "(pc_Key c, w) \<in> set work" using w(1) by (rule map_of_SomeD)
    have "?sp \<in> set (fst (BuildWork su cfg ms))" unfolding parts(2) using mem by blast
    moreover have "set (ws_Bumps ?sp) = set (cw_set w)"
      using pins_fromD [OF work_collected(1) [OF parts(1)] mem] by (simp add: consumer_spec_bumps)
    ultimately show ?thesis using None w(2,3) by (auto simp: consumer_spec_sel intro!: bexI [of _ ?sp])
  qed (use row assms(2,3) in \<open>simp add: row_done_def\<close>)
qed

section \<open>Sample plans\<close>

definition releasable :: "string \<Rightarrow> string list \<Rightarrow> plan_consumer list \<Rightarrow> plan_module" where
  "releasable k ds cs = \<lparr>pm_Key = k, pm_Dir = ''/p/'' @ k, pm_HasUnreleasedWork = False, pm_CurrentVersion = ''v1.2.0'', pm_NextVersion = ''v1.3.0'',
     pm_SuggestedBump = ''minor'', pm_OutdatedConsumers = cs, pm_StaleBuild = True, pm_Dependencies = ds\<rparr>"

definition consumer_of :: "string \<Rightarrow> string \<Rightarrow> string \<Rightarrow> plan_consumer" where
  "consumer_of dep target k = \<lparr>pc_Key = k, pc_Dir = ''/p/'' @ k, pc_CurrentVersion = ''v1.2.0'', pc_TargetVersion = target,
     pc_DependencyKey = ''x/'' @ dep, pc_IsMajorBump = False\<rparr>"

definition tag_only :: dep_config where
  "tag_only = \<lparr>dc_PushReleases = False, dc_IncludeUnreleased = False\<rparr>"

definition lib_plan :: "plan_module list" where
  "lib_plan = [releasable ''lib'' [] [consumer_of ''lib'' ''v1.3.0'' ''app'', consumer_of ''lib'' ''v2.0.0'' ''old'']]"

text \<open>A store that is the list of its tasks, one for each key.\<close>

definition kept_task :: "new_task \<Rightarrow> task" where
  "kept_task n = \<lparr>ID = ''t:'' @ n_DedupKey n, Project = n_Project n, Type = n_Type n, Payload = n_Payload n, Deps = n_Deps n, Priority = n_Priority n,
     Attempts = 0, MaxAttempts = 3, NotBefore = 0, Status = Pending, LeaseOwner = [], LeaseExpires = None, LastError = [], DedupKey = n_DedupKey n,
     CreatedAt = 0, UpdatedAt = 0, CompletedAt = None\<rparr>"

definition task_list :: "task list store_ops" where
  "task_list = \<lparr>st_Enqueue = (\<lambda>n ts. case find (\<lambda>t. DedupKey t = n_DedupKey n) ts of Some t \<Rightarrow> (Inr t, ts) | None \<Rightarrow> (Inr (kept_task n), ts @ [kept_task n])),
     st_List = (\<lambda>_. Inr), st_Get = (\<lambda>_ _. Inl ErrTaskDone), st_FactsForTask = (\<lambda>_ _ _. Inr []), st_UpdatePendingPriority = (\<lambda>_ _ _ _ ts. (Inr (), ts))\<rparr>"

definition swept :: "plan_module list \<Rightarrow> task list \<Rightarrow> depsweep_error option \<times> dep_stats \<times> task list" where
  "swept ms = DepSweep (demo_surroundings []) tag_only task_list (Inr ms)"

definition waits :: "task list \<Rightarrow> (string \<times> string list) list" where
  "waits = map (\<lambda>t. (ID t, Deps t))"

lemma lib_plan_work:
  "map (\<lambda>sp. (ws_Repo sp, ws_Release sp, ws_Bumps sp)) (fst (BuildWork (demo_surroundings []) tag_only lib_plan))
     = [(''lib'', Some (''v1.3.0'', False), []), (''app'', None, [(''x/lib'', ''v1.3.0'')])]"
  "map sk_Repo (snd (BuildWork (demo_surroundings []) tag_only lib_plan)) = [''old'']"
  by code_simp+


text \<open>The release and the bump of the plan are filed once; the second sweep knows both.\<close>

lemma lib_plan_swept:
  "(case swept lib_plan [] of (e, st, ts) \<Rightarrow> (e, ds_Minted st, ds_Known st, waits ts))
     = (None, 2, 0, [(''t:depsweep:lib:release:v1.3.0'', []), (''t:depsweep:app:bump:x/lib@v1.3.00000'', [''t:depsweep:lib:release:v1.3.0''])])"
  "(case swept lib_plan (snd (snd (swept lib_plan []))) of (e, st, ts) \<Rightarrow> (e, ds_Minted st, ds_Known st, length ts)) = (None, 0, 2, 2)"
  by code_simp+


section \<open>Where the order of the plan is lost\<close>

text \<open>
  \<open>waveOf\<close> gives every release the wave 0, so releases are filed by name: one that depends on a release of a later
  name is filed before it and waits for nothing, although the comment says releases carry the wave of the plan.
\<close>

lemma releases_are_filed_by_name:
  "waits (snd (snd (swept [releasable ''core'' [] [], releasable ''app'' [''core''] []] [])))
     = [(''t:depsweep:app:release:v1.3.0'', []), (''t:depsweep:core:release:v1.3.0'', [])]"
  by code_simp

text \<open>
  The bump of a repository takes the place of its release among the known tasks: what is filed later for a consumer
  of that repository waits for the bump and not for the release whose tag it is to pin.
\<close>

lemma own_bump_hides_release:
  "waits (snd (snd (swept [releasable ''core'' [] [consumer_of ''core'' ''v1.3.0'' ''lib''],
        releasable ''lib'' [] [consumer_of ''lib'' ''v1.3.0'' ''tool'']] [])))
     = [(''t:depsweep:core:release:v1.3.0'', []), (''t:depsweep:lib:release:v1.3.0'', []),
        (''t:depsweep:lib:bump:x/core@v1.3.0000'', [''t:depsweep:core:release:v1.3.0'']),
        (''t:depsweep:tool:bump:x/lib@v1.3.00000'', [''t:depsweep:lib:bump:x/core@v1.3.0000''])]"
  by code_simp

text \<open>
  Tasks of earlier sweeps count whatever became of them: a bump that follows a cancelled release of an earlier plan
  depends on that task, which never completes, and so is never claimed.
\<close>

lemma ended_release_blocks_bump:
  "(let gone = (kept_task (dep_task Map.empty \<lparr>ws_Repo = ''lib'', ws_Dir = ''/p/lib'', ws_Bumps = [], ws_Release = Some (''v1.2.1'', False),
          ws_DepRepos = [], ws_DedupKey = ''depsweep:lib:release:v1.2.1''\<rparr>))\<lparr>Status := Cancelled\<rparr>;
        released = (releasable ''lib'' [] [consumer_of ''lib'' ''v1.3.0'' ''app''])\<lparr>pm_StaleBuild := False\<rparr> in
     map (\<lambda>t. (Project t, Deps t)) (snd (snd (swept [released] [gone]))) = [(''lib'', []), (''app'', [''t:depsweep:lib:release:v1.2.1''])])"
  by code_simp

text \<open>A row without the path of the dependency becomes a task the executor refuses for good.\<close>

lemma unnamed_pin_is_refused:
  "map (\<lambda>sp. case accept_payload (payloadFor sp) of Inl er \<Rightarrow> er | Inr _ \<Rightarrow> NoWork)
     (fst (BuildWork (demo_surroundings []) tag_only
        [(releasable ''lib'' [] [(consumer_of ''lib'' ''v1.3.0'' ''app'')\<lparr>pc_DependencyKey := []\<rparr>])\<lparr>pm_StaleBuild := False\<rparr>])) = [BadVersion [] ''v1.3.0'']"
  by code_simp

end
