(* ===== verification/Spec2Isabelle.thy ===== *)
theory Spec2Isabelle
  imports Tq_Store Tq_Watermark Tq_Adapter Tq_Lockout Tq_Budget Tq_Dlqbackoff Tq_Worker Tq_Ratelimit Tq_Command Tq_Storm Tq_Host Tq_Prune Tq_Review Tq_Depsweep
begin

text \<open>
  Verification library for go-taskqueue, a durable task queue that runs coding agents over the backlog files of many repositories.

  The program. Tasks are rows of an SQL database, and every change of a row appends a fact to a journal in the
  same transaction. Workers claim tasks under a lease and a claim token, run an executor and settle the
  outcome. The harvester turns open checkbox lines of backlog files into tasks and withdraws tasks whose line
  is closed. Sweepers follow the journal with durable cursors: the incident policy mints fix tasks for
  reported errors, the read model folds the journal into a ledger and counters for the dashboards. Guards
  (budget, lockout, dead-letter back-off) stop work that would only burn money.

  Theories and sources (under \<open>src/internal\<close> unless said otherwise); each theory opens with a text that says what it holds.
  \<^item> \<open>Tq_Prelude\<close>: clock and durations (a time is nanoseconds since 1970 as \<open>int\<close>, a duration a 64-bit value with
    the wrap-around written out where the code multiplies), byte strings, JSON documents with their parser and
    printer, results as sums, list lemmas. \<open>Tq_Regex\<close>: the part of Go's regular expressions the code uses, as a datatype
    with leftmost-first matching.
  \<^item> \<open>Tq_Task\<close>: \<open>task/*.go\<close>. \<open>Tq_Journal\<close>: \<open>journal/journal.go\<close>, with the locale \<open>fact_log\<close>
    interpreted on the memory journal here and on the table \<open>facts\<close> in \<open>Tq_Tables\<close>. \<open>Tq_Queue\<close>: \<open>queue/*.go\<close>, the store interface
    as a record of operations, bands, evidence, the unblock bump.
  \<^item> \<open>Tq_Tables\<close>, \<open>Tq_Claims\<close>, \<open>Tq_Parks\<close>, \<open>Tq_Reads\<close>: \<open>queue/companion\<close>. The record \<open>db\<close> is the five tables, a row
    \<open>task_row\<close> is a row of \<open>tasks\<close>; each operation is a function of the whole transaction. SQL statements are
    filters and updates of row lists in the order the statement asks for. \<open>Tq_Store\<close>: these operations as one step relation, with
    the invariants along all sequences of steps.
  \<^item> \<open>Tq_Adapter\<close>: \<open>queue/companion/core.go\<close>, \<open>enqueue.go\<close> and \<open>queue/sqlitev4/adapter.go\<close>, the store methods in
    front of the third-party engine, which is the record of functions \<open>engine_ops\<close>.
  \<^item> \<open>Tq_Watermark\<close>: \<open>watermark/watermark.go\<close>; locale \<open>cursor_source\<close>, interpreted on the tables.
  \<^item> \<open>Tq_Worker\<close>: \<open>worker/worker.go\<close> and \<open>executor/{classify,executor,question}.go\<close>; locale \<open>fenced_store\<close>, interpreted
    on the adapter. \<open>Tq_Verify\<close>, \<open>Tq_Text\<close>, \<open>Tq_Redact\<close>, \<open>Tq_Ratelimit\<close>, \<open>Tq_Command\<close>: the executor's verify gate,
    receipts, evidence, texts, redaction, rate limits, HTTP and command tasks.
  \<^item> \<open>Tq_Lockout\<close>, \<open>Tq_Budget\<close>, \<open>Tq_Dlqbackoff\<close>: the packages of these names.
  \<^item> \<open>Tq_Incident\<close>, \<open>Tq_Storm\<close>: \<open>incident/*.go\<close>; locale \<open>fix_store\<close> extends \<open>cursor_source\<close>, and the locale \<open>engine_dedup\<close>, what
    the third-party engine documents of dedup keys and the journal, gives it for the adapter.
  \<^item> \<open>Tq_Readmodel\<close>, \<open>Tq_Ledger\<close>, \<open>Tq_Host\<close>: \<open>readmodel/{readmodel,events,queries,model,stats,host,projectionhealth}.go\<close>
    and \<open>journal/cqrs\<close>; locales \<open>meta_engine\<close> (the collections) and \<open>event_platform\<close> (byte packing), interpreted on executable
    instances because both are third-party or platform code.
  \<^item> \<open>Tq_Backlog\<close>, \<open>Tq_Gitscan\<close>, \<open>Tq_Mintgate\<close>, \<open>Tq_Harvest\<close>, \<open>Tq_Pacing\<close>, \<open>Tq_Prune\<close>: \<open>harvest\<close> and \<open>executor/gitscan.go\<close>,
    with the payload contract of \<open>executor/agent.go\<close>: backlog files and priorities; commit attribution; payloads and the gates at mint and
    claim time; survey, admission and batching; the properties of admission; drift, withdrawal, re-dispatch audit and re-resolution. The record
    \<open>surroundings\<close> is what they ask of the file system, the digest and git.
  \<^item> \<open>Tq_Dlqfix\<close>: \<open>dlqfix/sweep.go\<close> and \<open>executor/dlqfix.go\<close>, autopsies of dead tasks and their dispositions over the cursor, whose
    handler keeps the counters as its memory (\<open>Sweep_memory\<close> in \<open>Tq_Watermark\<close>); its store is the record \<open>dlq_ops\<close>.
  \<^item> \<open>Tq_Review\<close>: \<open>review/sweep.go\<close>, \<open>executor/review.go\<close> and the result contract of \<open>executor/result.go\<close>: demand for reviews, the
    verdict channel, fix tasks and the merge of approved branches, which is an argument. The handler threads counters, git calls and the
    store through the cursor (\<open>Sweep_state\<close> in \<open>Tq_Watermark\<close>). Locale \<open>review_store\<close> extends \<open>key_store\<close> (a dedup key keeps its
    task); \<open>engine_dedup\<close> gives it for the adapter.
  \<^item> \<open>Tq_Depsweep\<close>: \<open>depsweep/{plan,sweep}.go\<close> and the payload contract of \<open>executor/depbump.go\<close>: release plans, the versions
    they compare, the work made of them and the tasks it becomes, over the store record of \<open>Tq_Queue\<close>.

  What is shown. The store: a claim takes the most urgent due task, one task runs per project, finished tasks stay finished, every
  running task becomes claimable again, the tables stay well formed, a superseded claim is fenced off, the journal is append-only and
  explains every change. The worker: at most one outcome per run, refusals burn no attempt except at the
  breaker. The cursors: at least once and in order, and a fresh cursor delivers everything. The incident policy:
  never two live fixes for an incident, and the two situations in which it goes wrong. The ledger: it agrees with the store step by step, its counters
  are exact from empty and never recover once lost. The harvester: files read back as written, batches partition the admissible
  items, every item is reported once, known work is never minted again, one mint per repository and pass, the gates fail open, only
  closed work is withdrawn. The autopsies: a verdict reaches the task it was minted for, and every death is accounted for. The reviews:
  completed work is reviewed, findings reach the claim gate, only approved branches are merged. The dependency sweep: only stable, newer targets
  of the same major version are pinned, and bumps wait for the releases filed before them. The remaining properties are bounds, round trips and exactness of
  single components. Lemmas that are not properties record further behaviour, among it every deviation listed as a finding.

  Fuel. Loops over the journal take one unit of fuel per page because a handler may append while it is swept:
  \<open>Sweep\<close>, the drains of \<open>dlqbackoff\<close> and \<open>FoldAll\<close>, the pump of the read model and the tail of its host. For each
  a lemma shows that one unit more than there are facts is enough; no property is of the form "if it returns". The unblock
  bump and the regular expressions recurse on lists. Concurrency: store operations are transactions, so interleavings are
  sequences of steps; the one lock-free loop, the compare-and-swap of the rate-limit gate, is a step relation over threads.

  Not modelled, and why: the packages \<open>prioritize\<close>, \<open>status\<close>, \<open>session\<close>, \<open>consumer\<close> (sweepers and registries around the
  parts above); running agents, worktrees and other external programs (effects of code outside the repository); discovery and the file watcher; the
  PostgreSQL adapter, migration and archive; bridges, HTTP surfaces, rendering, configuration and the command line (input and output).
\<close>

section \<open>Properties across components\<close>

lemma superseded_not_held:
  assumes "sound (s_db s)" "ClaimDueTypes owner lease types now token s = (Inr (t, tok), s1)" "old \<noteq> token"
  shows "\<not> claim_held (ID t) old s1"
proof -
  have ok: "db_ok (s_db s)" "deps_readable (s_db s)" using assms(1) by (simp_all add: sound_def)
  have run: "ClaimDue (s_exclusive s) owner lease types now token (s_db s) = (Inr (t, tok), s_db s1)"
    using assms(2) by (auto simp: ClaimDueTypes_def companion_call_def split: prod.splits)
  show ?thesis
  proof (rule ClaimDue_cases [OF ok run])
    fix r task new assume c: "Inr (t, tok) = Inr (task, token)"
      "scanTaskRow (lease_row owner lease now token r) = Inr task"
      "touched (s_db s) r (lease_row owner lease now token) new (s_db s1)"
    have i: "ID t = r_id r" using c scanTaskRow_fields [OF c(2)] by simp
    have row: "row_of (s_db s1) (r_id r) = Some (lease_row owner lease now token r)"
      using touched_row [OF ok(1) c(3)] by simp
    have ids: "distinct (map r_id (db_tasks (s_db s1)))" using touched_ok [OF ok(1) c(3)] by (rule db_ok_ids)
    have "r_lease_token x = token" if "x \<in> set (db_tasks (s_db s1))" "r_id x = r_id r" for x
    proof -
      have "x = lease_row owner lease now token r"
        using row_of_mem [OF row] that ids by (auto simp: distinct_map inj_on_def)
      then show ?thesis by (simp add: lease_row_def)
    qed
    then show ?thesis using assms(3) i by (auto simp: claim_held_def list_ex_iff held_by_def)
  qed simp_all
qed

text \<open>
  C7: a superseded run is discarded. When the store has handed the task to another worker under a new
  token, whatever the first worker's run ended in, settling it leaves the store exactly as the new
  claim left it: each write it attempts is refused, with any engine behind the adapter and any retry
  package that does not turn a stable refusal into something else.
\<close>

theorem superseded_run_is_discarded:
  assumes "sound (s_db s)" "ClaimDueTypes owner lease types now token s = (Inr (t, tok), s1)" "old \<noteq> token"
    and "ev_store ev = worker_ops e later" "retry_keeps ev"
    and "ID t0 = ID t" "settle ev t0 old res p s1 = (tr, p', s2)"
  shows "s2 = s1 \<and> (\<forall>(w, ok)\<in>set tr. \<not> ok)"
  using adapter.settle_fenced [OF assms(4,5) _ assms(7)] superseded_not_held [OF assms(1-3)] assms(6) by simp

definition adapter_env :: "engine_ops \<Rightarrow> go_time \<Rightarrow> sql_store env" where
  "adapter_env e now = \<lparr>ev_store = worker_ops e now, ev_retry = (\<lambda>_ op. op), ev_cfg = setDefaults 0 no_config,
     ev_draw = (\<lambda>_. 0), ev_frac = 1 / 2, ev_now = now, ev_done = None, ev_budget = None, ev_ctxDead = False\<rparr>"

lemma superseded_run_is_discarded_witness:
  "\<forall>e. \<exists>t s1. ClaimDueTypes ''w2'' minute [] hour ''new'' (demo_store [leased ''w1'' ''old'' 1 (demo_row ''a'' 1 Pending)])
        = (Inr (t, ''new''), s1)
     \<and> snd (snd (settle (adapter_env e hour) t ''old'' (run_of [(PlainError, ''boom'')]) no_pool s1)) = s1"
proof
  fix e
  let ?s = "demo_store [leased ''w1'' ''old'' 1 (demo_row ''a'' 1 Pending)]"
  have "\<exists>t s1. ClaimDueTypes ''w2'' minute [] hour ''new'' ?s = (Inr (t, ''new''), s1)"
    by (simp add: ClaimDueTypes_def companion_call_def demo_store_def claim_eval demo_defs appendFact_def append_row_def Let_def)
  then obtain t s1 where run: "ClaimDueTypes ''w2'' minute [] hour ''new'' ?s = (Inr (t, ''new''), s1)" by blast
  obtain tr p' s2 where st: "settle (adapter_env e hour) t ''old'' (run_of [(PlainError, ''boom'')]) no_pool s1 = (tr, p', s2)"
    by (metis surj_pair)
  have "sound (s_db ?s)" unfolding demo_store_def by (simp, rule demo_sound) (simp_all add: demo_row_def leased_def)
  moreover have "ev_store (adapter_env e hour) = worker_ops e hour" "retry_keeps (adapter_env e hour)"
    by (simp_all add: adapter_env_def retry_keeps_def)
  ultimately have "s2 = s1"
    using superseded_run_is_discarded [OF _ run _ _ _ refl st] by simp
  then show "\<exists>t s1. ClaimDueTypes ''w2'' minute [] hour ''new'' ?s = (Inr (t, ''new''), s1)
     \<and> snd (snd (settle (adapter_env e hour) t ''old'' (run_of [(PlainError, ''boom'')]) no_pool s1)) = s1"
    using run st by auto
qed

end
